(* ===== verification/Prelude.thy ===== *)
theory Prelude
  imports Main "HOL-Library.Word" "HOL-Library.AList"
begin

text \<open>
  What the components share: the development's fact collections, the reading of Rust's
  collections and integers in HOL, and the generic lemmas that carry the component proofs.

  \<^item> A \<open>HashMap\<close> is an association list (\<open>map_of\<close> is \<open>get\<close>, \<open>AList.update\<close> is
    \<open>insert\<close>, \<open>AList.delete\<close> is \<open>remove\<close>, \<open>filter\<close> is \<open>retain\<close>) whose keys are
    distinct; the order of the list stands for the unspecified iteration order, and no
    property depends on it. A \<open>HashSet\<close> is a distinct list (\<open>List.insert\<close>,
    \<open>removeAll\<close>).
  \<^item> A \<open>String\<close> is the list of its UTF-8 bytes, a \<open>char\<close> each, so \<open>length\<close> is
    Rust's \<open>len()\<close>; a byte slice is a list of \<open>8 word\<close>.
  \<^item> An \<open>Instant\<close> and a \<open>Duration\<close> are numbers of nanoseconds.
\<close>

named_theorems config_defs "the constants of config.rs"
named_theorems inv_intros "preservation lemmas of the component invariants"
named_theorems op_frames "fields an operation leaves unchanged"

type_synonym byte = "8 word"
type_synonym instant = nat
type_synonym duration = nat

definition secs :: "nat \<Rightarrow> duration" where
  "secs n = n * 1000000000"

definition millis :: "nat \<Rightarrow> duration" where
  "millis n = n * 1000000"

subsection \<open>Association lists as hash maps\<close>

abbreviation hm_get :: "('k \<times> 'v) list \<Rightarrow> 'k \<Rightarrow> 'v option" where
  "hm_get \<equiv> map_of"

abbreviation hm_insert :: "'k \<Rightarrow> 'v \<Rightarrow> ('k \<times> 'v) list \<Rightarrow> ('k \<times> 'v) list" where
  "hm_insert \<equiv> AList.update"

abbreviation hm_remove :: "'k \<Rightarrow> ('k \<times> 'v) list \<Rightarrow> ('k \<times> 'v) list" where
  "hm_remove \<equiv> AList.delete"

definition hm_retain :: "('k \<Rightarrow> 'v \<Rightarrow> bool) \<Rightarrow> ('k \<times> 'v) list \<Rightarrow> ('k \<times> 'v) list" where
  "hm_retain P m = filter (\<lambda>(k, v). P k v) m"

abbreviation hm_contains :: "('k \<times> 'v) list \<Rightarrow> 'k \<Rightarrow> bool" where
  "hm_contains m k \<equiv> map_of m k \<noteq> None"

definition keys_distinct :: "('k \<times> 'v) list \<Rightarrow> bool" where
  "keys_distinct m \<longleftrightarrow> distinct (map fst m)"

lemma keys_distinct_Nil [simp]: "keys_distinct []"
  by (simp add: keys_distinct_def)

lemma keys_distinct_insert [simp]: "keys_distinct m \<Longrightarrow> keys_distinct (hm_insert k v m)"
  by (simp add: keys_distinct_def distinct_update)

lemma keys_distinct_remove [simp]: "keys_distinct m \<Longrightarrow> keys_distinct (hm_remove k m)"
  by (simp add: keys_distinct_def distinct_delete)

lemma keys_distinct_retain [simp]: "keys_distinct m \<Longrightarrow> keys_distinct (hm_retain P m)"
  by (induction m) (auto simp: keys_distinct_def hm_retain_def)

lemma hm_get_insert [simp]: "hm_get (hm_insert k v m) k' = (if k' = k then Some v else hm_get m k')"
  by (simp add: update_conv')

lemma hm_get_remove [simp]: "hm_get (hm_remove k m) k' = (if k' = k then None else hm_get m k')"
  by (simp add: delete_conv')

lemma hm_get_retain [simp]:
  assumes "keys_distinct m"
  shows "hm_get (hm_retain P m) k =
    (case hm_get m k of None \<Rightarrow> None | Some v \<Rightarrow> if P k v then Some v else None)"
  using assms
proof (induction m)
  case Nil
  then show ?case by (simp add: hm_retain_def)
next
  case (Cons kv m)
  obtain a v where kv: "kv = (a, v)" by (cases kv)
  have IH: "hm_get (hm_retain P m) k =
      (case hm_get m k of None \<Rightarrow> None | Some v \<Rightarrow> if P k v then Some v else None)"
    using Cons by (simp add: keys_distinct_def)
  show ?case
  proof (cases "a = k")
    case True
    with Cons.prems kv have "hm_get m k = None"
      by (simp add: keys_distinct_def map_of_eq_None_iff)
    with IH True kv show ?thesis by (auto simp: hm_retain_def)
  next
    case False
    with IH kv show ?thesis by (auto simp: hm_retain_def)
  qed
qed

lemma hm_in_set: "keys_distinct m \<Longrightarrow> (k, v) \<in> set m \<longleftrightarrow> hm_get m k = Some v"
  by (simp add: keys_distinct_def)

lemma hm_values: "keys_distinct m \<Longrightarrow> v \<in> snd ` set m \<longleftrightarrow> (\<exists>k. hm_get m k = Some v)"
  by (force simp: image_iff hm_in_set [symmetric])

lemma hm_keys: "k \<in> fst ` set m \<longleftrightarrow> hm_get m k \<noteq> None"
  by (simp add: map_of_eq_None_iff)

lemma hm_retain_id: "(\<And>k v. (k, v) \<in> set m \<Longrightarrow> P k v) \<Longrightarrow> hm_retain P m = m"
  by (auto simp: hm_retain_def intro!: filter_True)

lemma hm_length_insert:
  "keys_distinct m \<Longrightarrow> length (hm_insert k v m) = (if hm_get m k = None then Suc (length m) else length m)"
proof (induction m)
  case (Cons p m)
  then show ?case by (cases p) (auto simp: keys_distinct_def)
qed simp

lemma hm_length_remove_le: "length (hm_remove k m) \<le> length m"
  by (simp add: AList.delete_eq)

lemma hm_length_retain_le: "length (hm_retain P m) \<le> length m"
  by (simp add: hm_retain_def)

subsection \<open>Big-endian byte strings\<close>

lemma unat_lt2p: "unat (w :: 'a::len word) < 2 ^ LENGTH('a)"
  by (rule unsigned_less)

text \<open>\<open>to_be_bytes\<close> and \<open>from_be_bytes\<close> of Rust's integers, on numbers; the typed
  versions for \<open>u32\<close> and \<open>u64\<close> follow.\<close>

fun be_bytes :: "nat \<Rightarrow> nat \<Rightarrow> byte list" where
  "be_bytes 0 x = []"
| "be_bytes (Suc n) x = be_bytes n (x div 256) @ [of_nat (x mod 256)]"

definition be_nat :: "byte list \<Rightarrow> nat" where
  "be_nat bs = foldl (\<lambda>a b. a * 256 + unat b) 0 bs"

lemma length_be_bytes [simp]: "length (be_bytes n x) = n"
  by (induction n arbitrary: x) auto

lemma unat_of_nat_byte [simp]: "unat (of_nat (x mod 256) :: byte) = x mod 256"
  by (simp add: unat_of_nat)

lemma be_nat_snoc: "be_nat (bs @ [b]) = be_nat bs * 256 + unat b"
  by (simp add: be_nat_def)

lemma be_nat_be_bytes: "be_nat (be_bytes n x) = x mod 256 ^ n"
proof (induction n arbitrary: x)
  case 0
  then show ?case by (simp add: be_nat_def)
next
  case (Suc n)
  have "be_nat (be_bytes (Suc n) x) = (x div 256 mod 256 ^ n) * 256 + x mod 256"
    by (simp add: be_nat_snoc Suc.IH)
  also have "\<dots> = x mod (256 * 256 ^ n)"
    by (simp add: mod_mult2_eq)
  finally show ?case by simp
qed

lemma be_nat_less: "be_nat bs < 256 ^ length bs"
proof (induction bs rule: rev_induct)
  case (snoc b bs)
  have "unat b < 256" using unat_lt2p [of b] by simp
  with snoc show ?case by (simp add: be_nat_snoc)
qed (simp add: be_nat_def)

lemma be_bytes_be_nat: "be_bytes (length bs) (be_nat bs) = bs"
proof (induction bs rule: rev_induct)
  case (snoc b bs)
  have b: "unat b < 256" using unat_lt2p [of b] by simp
  then have "(be_nat bs * 256 + unat b) div 256 = be_nat bs"
    and "(be_nat bs * 256 + unat b) mod 256 = unat b" by auto
  with snoc show ?case by (simp add: be_nat_snoc)
qed simp

definition u32_to_be :: "32 word \<Rightarrow> byte list" where
  "u32_to_be w = be_bytes 4 (unat w)"

definition u32_from_be :: "byte list \<Rightarrow> 32 word" where
  "u32_from_be bs = of_nat (be_nat bs)"

definition u64_to_be :: "64 word \<Rightarrow> byte list" where
  "u64_to_be w = be_bytes 8 (unat w)"

definition u64_from_be :: "byte list \<Rightarrow> 64 word" where
  "u64_from_be bs = of_nat (be_nat bs)"

lemma length_u32_to_be [simp]: "length (u32_to_be w) = 4"
  by (simp add: u32_to_be_def)

lemma length_u64_to_be [simp]: "length (u64_to_be w) = 8"
  by (simp add: u64_to_be_def)

lemma u32_from_to_be [simp]: "u32_from_be (u32_to_be w) = w"
proof -
  have "unat w mod 256 ^ 4 = unat w" using unat_lt2p [of w] by simp
  then show ?thesis by (simp add: u32_from_be_def u32_to_be_def be_nat_be_bytes)
qed

lemma u64_from_to_be [simp]: "u64_from_be (u64_to_be w) = w"
proof -
  have "unat w mod 256 ^ 8 = unat w" using unat_lt2p [of w] by simp
  then show ?thesis by (simp add: u64_from_be_def u64_to_be_def be_nat_be_bytes)
qed

lemma u64_to_from_be: "length bs = 8 \<Longrightarrow> u64_to_be (u64_from_be bs) = bs"
  using be_nat_less [of bs] be_bytes_be_nat [of bs]
  by (simp add: u64_to_be_def u64_from_be_def unat_of_nat)

lemma unat_u32_from_be: "length bs = 4 \<Longrightarrow> unat (u32_from_be bs) = be_nat bs"
  using be_nat_less [of bs] by (simp add: u32_from_be_def unat_of_nat)

subsection \<open>Strings, bytes and UTF-8\<close>

definition string_bytes :: "string \<Rightarrow> byte list" where
  "string_bytes s = map (\<lambda>c. of_nat (of_char c)) s"

definition bytes_string :: "byte list \<Rightarrow> string" where
  "bytes_string bs = map (\<lambda>b. char_of (unat b)) bs"

lemma length_string_bytes [simp]: "length (string_bytes s) = length s"
  by (simp add: string_bytes_def)

lemma length_bytes_string [simp]: "length (bytes_string bs) = length bs"
  by (simp add: bytes_string_def)

lemma of_char_less_256: "(of_char c :: nat) < 256"
  by (metis mod_less_divisor of_char_mod_256 zero_less_numeral)

lemma byte_of_char: "unat (of_nat (of_char c) :: byte) = of_char c"
  using of_char_less_256 [of c] by (simp add: unat_of_nat)

lemma bytes_string_string_bytes [simp]: "bytes_string (string_bytes s) = s"
  by (simp add: bytes_string_def string_bytes_def comp_def byte_of_char map_idI)

lemma string_bytes_bytes_string [simp]: "string_bytes (bytes_string bs) = bs"
proof -
  have "(of_nat (of_char (char_of (unat b))) :: byte) = b" for b :: byte
    using unat_lt2p [of b] by (simp add: of_char_of)
  then show ?thesis by (simp add: bytes_string_def string_bytes_def comp_def map_idI)
qed

lemma string_bytes_eq_iff [simp]: "string_bytes s = string_bytes t \<longleftrightarrow> s = t"
  by (metis bytes_string_string_bytes)

text \<open>UTF-8 validity as \<open>str::from_utf8\<close> decides it: no overlong form, no surrogate,
  nothing above U+10FFFF.\<close>

definition cont_byte :: "byte \<Rightarrow> bool" where
  "cont_byte b \<longleftrightarrow> 0x80 \<le> b \<and> b \<le> 0xBF"

fun valid_utf8 :: "byte list \<Rightarrow> bool" where
  "valid_utf8 [] = True"
| "valid_utf8 (b # bs) =
    (if b < 0x80 then valid_utf8 bs
     else if 0xC2 \<le> b \<and> b \<le> 0xDF then
       (case bs of c # r \<Rightarrow> cont_byte c \<and> valid_utf8 r | _ \<Rightarrow> False)
     else if 0xE0 \<le> b \<and> b \<le> 0xEF then
       (case bs of c # d # r \<Rightarrow>
          cont_byte c \<and> cont_byte d \<and> (b = 0xE0 \<longrightarrow> 0xA0 \<le> c) \<and> (b = 0xED \<longrightarrow> c \<le> 0x9F) \<and> valid_utf8 r
        | _ \<Rightarrow> False)
     else if 0xF0 \<le> b \<and> b \<le> 0xF4 then
       (case bs of c # d # e # r \<Rightarrow>
          cont_byte c \<and> cont_byte d \<and> cont_byte e \<and> (b = 0xF0 \<longrightarrow> 0x90 \<le> c) \<and>
          (b = 0xF4 \<longrightarrow> c \<le> 0x8F) \<and> valid_utf8 r
        | _ \<Rightarrow> False)
     else False)"

definition from_utf8 :: "byte list \<Rightarrow> string option" where
  "from_utf8 bs = (if valid_utf8 bs then Some (bytes_string bs) else None)"

definition is_utf8 :: "string \<Rightarrow> bool" where
  "is_utf8 s \<longleftrightarrow> valid_utf8 (string_bytes s)"

definition ascii :: "string \<Rightarrow> bool" where
  "ascii s \<longleftrightarrow> (\<forall>c \<in> set s. (of_char c :: nat) < 128)"

lemma valid_utf8_ascii: "\<forall>b \<in> set bs. b < 0x80 \<Longrightarrow> valid_utf8 bs"
  by (induction bs) auto

lemma is_utf8_ascii: "ascii s \<Longrightarrow> is_utf8 s"
  unfolding is_utf8_def
  by (rule valid_utf8_ascii) (auto simp: ascii_def string_bytes_def word_less_nat_alt byte_of_char)

lemma from_utf8_string_bytes: "is_utf8 s \<Longrightarrow> from_utf8 (string_bytes s) = Some s"
  by (simp add: from_utf8_def is_utf8_def)

lemma from_utf8_Some: "from_utf8 bs = Some s \<Longrightarrow> string_bytes s = bs \<and> is_utf8 s"
  by (auto simp: from_utf8_def is_utf8_def split: if_splits)

subsection \<open>Decimal rendering and string prefixes\<close>

definition starts_with :: "string \<Rightarrow> string \<Rightarrow> bool" where
  "starts_with p s \<longleftrightarrow> take (length p) s = p"

lemma starts_with_append [simp]: "starts_with p (p @ s)"
  by (simp add: starts_with_def)

lemma starts_withD: "starts_with p s \<Longrightarrow> s = p @ drop (length p) s"
  by (metis append_take_drop_id starts_with_def)

fun decimal :: "nat \<Rightarrow> string" where
  "decimal n = (if n < 10 then [char_of (48 + n)] else decimal (n div 10) @ [char_of (48 + n mod 10)])"

declare decimal.simps [simp del]

fun undecimal :: "string \<Rightarrow> nat" where
  "undecimal s = foldl (\<lambda>a c. 10 * a + (of_char c - 48)) 0 s"

lemma digit_char: "d < 10 \<Longrightarrow> (of_char (char_of (48 + d) :: char) :: nat) = 48 + d"
  by (simp add: of_char_of)

lemma undecimal_decimal: "undecimal (decimal n) = n"
proof (induction n rule: decimal.induct)
  case (1 n)
  show ?case
  proof (cases "n < 10")
    case True
    then show ?thesis by (subst decimal.simps) (simp add: digit_char)
  next
    case False
    then have "undecimal (decimal (n div 10)) = n div 10" by (rule "1.IH")
    with False show ?thesis by (subst decimal.simps) (simp add: digit_char)
  qed
qed

lemma decimal_inj: "decimal m = decimal n \<longleftrightarrow> m = n"
  by (metis undecimal_decimal)

subsection \<open>Drawing until a condition holds\<close>

text \<open>
  The shape of the code's \<open>loop { let x = draw(); if ok(x) { break x } }\<close>. The loop need
  not end, so the result is an option: \<open>None\<close> is a loop that never leaves.
\<close>

partial_function (option) draw_until ::
    "('r \<Rightarrow> 'a \<times> 'r) \<Rightarrow> ('a \<Rightarrow> bool) \<Rightarrow> 'r \<Rightarrow> ('a \<times> 'r) option" where
  "draw_until draw ok r =
     (let (x, r') = draw r in if ok x then Some (x, r') else draw_until draw ok r')"

fun draws :: "('r \<Rightarrow> 'a \<times> 'r) \<Rightarrow> nat \<Rightarrow> 'r \<Rightarrow> 'a" where
  "draws draw 0 r = fst (draw r)"
| "draws draw (Suc n) r = draws draw n (snd (draw r))"

lemma draw_until_ok:
  assumes "draw_until draw ok r = Some (x, r')"
  shows "ok x"
proof -
  have "ok (fst (x, r'))"
  proof (rule draw_until.raw_induct [where P = "\<lambda>d k r y. k (fst y)", OF _ assms])
    fix f :: "('r \<Rightarrow> 'a \<times> 'r) \<Rightarrow> ('a \<Rightarrow> bool) \<Rightarrow> 'r \<Rightarrow> ('a \<times> 'r) option"
      and d :: "'r \<Rightarrow> 'a \<times> 'r" and k r y
    assume IH: "\<And>d k r y. f d k r = Some y \<Longrightarrow> k (fst y)"
      and eq: "(let (x, r') = d r in if k x then Some (x, r') else f d k r') = Some y"
    show "k (fst y)"
      using eq IH [of d k "snd (d r)" y] by (auto simp: case_prod_beta split: if_splits)
  qed
  then show ?thesis by simp
qed

text \<open>The loop leaves exactly when some draw satisfies the condition.\<close>

lemma draw_until_returns_if: "ok (draws draw n r) \<Longrightarrow> \<exists>y. draw_until draw ok r = Some y"
proof (induction n arbitrary: r)
  case 0
  then show ?case by (subst draw_until.simps) (auto simp: Let_def split: prod.splits)
next
  case (Suc n)
  then have "\<exists>y. draw_until draw ok (snd (draw r)) = Some y" by simp
  then show ?case by (subst draw_until.simps) (auto simp: Let_def split: prod.splits)
qed

lemma draw_until_only_if:
  assumes "draw_until draw ok r = Some y"
  shows "\<exists>n. draws draw n r = fst y"
proof (rule draw_until.raw_induct [where P = "\<lambda>d k r y. \<exists>n. draws d n r = fst y", OF _ assms])
  fix f :: "('r \<Rightarrow> 'a \<times> 'r) \<Rightarrow> ('a \<Rightarrow> bool) \<Rightarrow> 'r \<Rightarrow> ('a \<times> 'r) option"
    and d :: "'r \<Rightarrow> 'a \<times> 'r" and k r y
  assume IH: "\<And>d k r y. f d k r = Some y \<Longrightarrow> \<exists>n. draws d n r = fst y"
    and eq: "(let (x, r') = d r in if k x then Some (x, r') else f d k r') = Some y"
  show "\<exists>n. draws d n r = fst y"
  proof (cases "k (fst (d r))")
    case True
    with eq have "draws d 0 r = fst y" by (auto simp: Let_def split: prod.splits)
    then show ?thesis by blast
  next
    case False
    with eq have "f d k (snd (d r)) = Some y" by (auto simp: Let_def split: prod.splits)
    then obtain n where "draws d n (snd (d r)) = fst y" using IH by blast
    then have "draws d (Suc n) r = fst y" by simp
    then show ?thesis by blast
  qed
qed

lemma draw_until_iff:
  "(\<exists>y. draw_until draw ok r = Some y) \<longleftrightarrow> (\<exists>n. ok (draws draw n r))"
  using draw_until_returns_if draw_until_only_if draw_until_ok
  by (metis surj_pair prod.sel(1))

text \<open>The value drawn last, from a generator that satisfies whatever drawing preserves.\<close>

lemma draw_until_from:
  assumes "draw_until draw ok r = Some y" and "P r" and pres: "\<And>r. P r \<Longrightarrow> P (snd (draw r))"
  shows "\<exists>r0. P r0 \<and> draw r0 = y"
proof -
  have "draw = draw \<longrightarrow> P r \<longrightarrow> (\<exists>r0. P r0 \<and> draw r0 = y)"
  proof (rule draw_until.raw_induct
    [where P = "\<lambda>d k r y. d = draw \<longrightarrow> P r \<longrightarrow> (\<exists>r0. P r0 \<and> d r0 = y)", OF _ assms(1)])
  fix f :: "('b \<Rightarrow> 'a \<times> 'b) \<Rightarrow> ('a \<Rightarrow> bool) \<Rightarrow> 'b \<Rightarrow> ('a \<times> 'b) option"
    and d :: "'b \<Rightarrow> 'a \<times> 'b" and k r y
  assume IH: "\<And>d k r y. f d k r = Some y \<Longrightarrow> d = draw \<longrightarrow> P r \<longrightarrow> (\<exists>r0. P r0 \<and> d r0 = y)"
    and eq: "(let (x, r') = d r in if k x then Some (x, r') else f d k r') = Some y"
  show "d = draw \<longrightarrow> P r \<longrightarrow> (\<exists>r0. P r0 \<and> d r0 = y)"
  proof (cases "k (fst (d r))")
    case True
    with eq show ?thesis by (auto simp: case_prod_beta)
  next
    case False
    with eq have "f d k (snd (d r)) = Some y" by (simp add: case_prod_beta)
    with IH pres show ?thesis by blast
  qed
  qed
  with assms(2) show ?thesis by blast
qed

end
