(* ===== verification/Soft_Float.thy ===== *)
theory Soft_Float
  imports Complex_Main "HOL-Library.Log_Nat" Prelude
begin

text \<open>
  Rust's \<open>f32\<close> and \<open>f64\<close> arithmetic. A finite float is a rational number; each
  operation computes the exact result and rounds it to \<open>p\<close> significant bits
  (\<open>p\<close> = 24 for \<open>f32\<close>, 53 for \<open>f64\<close>), ties to even, as IEEE 754 says. The exponent
  is unbounded here: overflow to infinity, subnormals, the sign of zero and NaN are outside the
  model, and no value the modelled code computes comes near those ranges.
\<close>

subsection \<open>The exponent of a rational\<close>

definition floor_log2 :: "rat \<Rightarrow> int" where
  "floor_log2 x = (let (n, d) = quotient_of x; k = bitlen n - bitlen d
                   in if 2 powi k \<le> x then k else k - 1)"

lemma floor_log2_bounds:
  assumes "0 < x"
  shows "2 powi floor_log2 x \<le> x" and "x < 2 powi (floor_log2 x + 1)"
proof -
  obtain n d where q: "quotient_of x = (n, d)" by (cases "quotient_of x")
  then have d: "0 < d" and x: "x = of_int n / of_int d"
    by (auto simp: quotient_of_denom_pos quotient_of_div)
  from assms x d have n: "0 < n" by (simp add: zero_less_divide_iff)
  define a b where "a = bitlen n" and "b = bitlen d"
  have a1: "1 \<le> a" and b1: "1 \<le> b"
    using n d by (auto simp: a_def b_def bitlen_ge_iff_power)
  have pow: "(2 :: rat) powi k = of_int (2 ^ nat k)" if "0 \<le> k" for k
    using that by (simp add: power_int_def)
  have n_lo: "2 powi (a - 1) \<le> (of_int n :: rat)" and n_hi: "(of_int n :: rat) < 2 powi a"
    using bitlen_bounds [OF n] a1 by (simp_all only: pow a_def [symmetric] of_int_le_iff of_int_less_iff)
  have d_lo: "2 powi (b - 1) \<le> (of_int d :: rat)" and d_hi: "(of_int d :: rat) < 2 powi b"
    using bitlen_bounds [OF d] b1 by (simp_all only: pow b_def [symmetric] of_int_le_iff of_int_less_iff)
  have lo: "2 powi (a - b - 1) < x"
  proof -
    have "2 powi (a - b - 1) * (of_int d :: rat) < 2 powi (a - b - 1) * 2 powi b"
      using d_hi by simp
    also have "\<dots> = 2 powi (a - 1)" by (simp flip: power_int_add)
    finally show ?thesis using n_lo d x by (simp add: pos_less_divide_eq)
  qed
  have hi: "x < 2 powi (a - b + 1)"
  proof -
    have "(of_int n :: rat) < 2 powi (a - b + 1) * 2 powi (b - 1)"
      using n_hi by (simp flip: power_int_add)
    also have "\<dots> \<le> 2 powi (a - b + 1) * of_int d"
      using d_lo by simp
    finally show ?thesis using d x by (simp add: pos_divide_less_eq)
  qed
  show "2 powi floor_log2 x \<le> x" and "x < 2 powi (floor_log2 x + 1)"
    using lo hi q by (auto simp: floor_log2_def a_def b_def Let_def)
qed

lemma powi2_pos [simp]: "(0 :: rat) < 2 powi k"
  by simp

lemma powi2_le: "(2 :: rat) powi a \<le> 2 powi b \<longleftrightarrow> a \<le> b"
  by (metis linorder_le_less_linear not_less one_less_numeral_iff power_int_increasing
      power_int_strict_increasing semiring_norm(76) order_less_imp_le)

lemma powi2_less: "(2 :: rat) powi a < 2 powi b \<longleftrightarrow> a < b"
  using powi2_le [of b a] by (simp add: not_le [symmetric])

lemma floor_log2_mono: "0 < x \<Longrightarrow> x \<le> y \<Longrightarrow> floor_log2 x \<le> floor_log2 y"
proof -
  assume "0 < x" and "x \<le> y"
  then have "2 powi floor_log2 x < (2 :: rat) powi (floor_log2 y + 1)"
    using floor_log2_bounds(1) [of x] floor_log2_bounds(2) [of y] by linarith
  then show ?thesis by (simp add: powi2_less)
qed

subsection \<open>Rounding to an integer, ties to even\<close>

definition round_even :: "rat \<Rightarrow> int" where
  "round_even x = (let f = \<lfloor>x\<rfloor>; r = x - of_int f in
     if r < 1/2 then f else if 1/2 < r then f + 1 else if even f then f else f + 1)"

lemma round_even_of_int [simp]: "round_even (of_int k) = k"
  by (simp add: round_even_def)

lemma round_even_floor: "round_even x = \<lfloor>x\<rfloor> \<or> round_even x = \<lfloor>x\<rfloor> + 1"
  by (simp add: round_even_def Let_def)

lemma round_even_mono: "x \<le> y \<Longrightarrow> round_even x \<le> round_even y"
proof (cases "\<lfloor>x\<rfloor> = \<lfloor>y\<rfloor>")
  case True
  assume "x \<le> y"
  with True show ?thesis by (auto simp: round_even_def Let_def)
next
  case False
  assume "x \<le> y"
  with False have "\<lfloor>x\<rfloor> + 1 \<le> \<lfloor>y\<rfloor>" using floor_mono [of x y] by linarith
  then show ?thesis using round_even_floor [of x] round_even_floor [of y] by linarith
qed

lemma round_even_error: "\<bar>of_int (round_even x) - x\<bar> \<le> 1/2"
proof -
  have f: "of_int \<lfloor>x\<rfloor> \<le> x" "x < of_int \<lfloor>x\<rfloor> + 1" by linarith+
  show ?thesis
    unfolding round_even_def Let_def abs_le_iff using f by (simp split: if_split) linarith
qed

subsection \<open>Rounding to \<open>p\<close> significant bits\<close>

definition ulp :: "nat \<Rightarrow> rat \<Rightarrow> rat" where
  "ulp p x = 2 powi (floor_log2 \<bar>x\<bar> - int p + 1)"

definition fl :: "nat \<Rightarrow> rat \<Rightarrow> rat" where
  "fl p x = (if x = 0 then 0 else if 0 < x then of_int (round_even (x / ulp p x)) * ulp p x
             else - (of_int (round_even (- x / ulp p x)) * ulp p x))"

abbreviation f32 :: "rat \<Rightarrow> rat" where "f32 \<equiv> fl 24"
abbreviation f64 :: "rat \<Rightarrow> rat" where "f64 \<equiv> fl 53"

lemma ulp_pos [simp]: "0 < ulp p x"
  by (simp add: ulp_def)

lemma ulp_nonneg [simp]: "0 \<le> ulp p x" and ulp_nonzero [simp]: "ulp p x \<noteq> 0"
  using ulp_pos [of p x] by linarith+

lemma div_ulp_mono: "a \<le> b \<Longrightarrow> a / ulp p x \<le> b / ulp p x"
  by (rule divide_right_mono) simp_all

lemma fl_0 [simp]: "fl p 0 = 0"
  by (simp add: fl_def)

lemma fl_minus: "fl p (- x) = - fl p x"
  by (simp add: fl_def ulp_def)

lemma fl_pos_eq: "0 < x \<Longrightarrow> fl p x = of_int (round_even (x / ulp p x)) * ulp p x"
  by (simp add: fl_def)

text \<open>The rounded value stays inside the binade of its argument (its upper end included).\<close>

lemma fl_binade:
  assumes "0 < x" and "1 \<le> p"
  shows "2 powi floor_log2 x \<le> fl p x" and "fl p x \<le> 2 powi (floor_log2 x + 1)"
proof -
  let ?u = "ulp p x"
  have lo: "(2::rat) powi floor_log2 x / ?u = of_int (2 ^ (p - 1))"
    using assms by (simp add: ulp_def field_simps flip: power_int_add power_int_of_nat of_nat_power)
  have hi: "(2::rat) powi (floor_log2 x + 1) / ?u = of_int (2 ^ p)"
    using assms by (simp add: ulp_def field_simps flip: power_int_add power_int_of_nat of_nat_power)
  have "2 powi floor_log2 x / ?u \<le> x / ?u" and "x / ?u \<le> 2 powi (floor_log2 x + 1) / ?u"
    using floor_log2_bounds [OF assms(1)] by (auto intro: div_ulp_mono)
  then have "2 ^ (p - 1) \<le> round_even (x / ?u)" and "round_even (x / ?u) \<le> 2 ^ p"
    using round_even_mono lo hi by (metis round_even_of_int)+
  then have "(of_int (2 ^ (p - 1)) :: rat) \<le> of_int (round_even (x / ?u))"
    and "(of_int (round_even (x / ?u)) :: rat) \<le> of_int (2 ^ p)"
    by (simp_all only: of_int_le_iff)
  then show "2 powi floor_log2 x \<le> fl p x" and "fl p x \<le> 2 powi (floor_log2 x + 1)"
    using lo hi assms(1) by (simp_all add: fl_pos_eq field_simps)
qed

lemma fl_nonneg: "0 \<le> x \<Longrightarrow> 0 \<le> fl p x"
proof (cases "x = 0")
  case False
  assume "0 \<le> x"
  with False have "0 < x" by simp
  have "round_even 0 \<le> round_even (x / ulp p x)"
    by (rule round_even_mono) (use \<open>0 < x\<close> div_ulp_mono [of 0 x p x] in simp)
  then show ?thesis
    using \<open>0 < x\<close> round_even_of_int [of 0] by (simp add: fl_pos_eq)
qed simp

lemma fl_mono_pos:
  assumes "0 < x" and "x \<le> y" and "1 \<le> p"
  shows "fl p x \<le> fl p y"
proof (cases "floor_log2 x = floor_log2 y")
  case True
  then have u: "ulp p x = ulp p y" using assms by (simp add: ulp_def)
  have "round_even (x / ulp p x) \<le> round_even (y / ulp p x)"
    by (intro round_even_mono div_ulp_mono assms)
  then show ?thesis using assms u by (simp add: fl_pos_eq)
next
  case False
  with floor_log2_mono [OF assms(1,2)] have "floor_log2 x + 1 \<le> floor_log2 y" by simp
  then have "(2::rat) powi (floor_log2 x + 1) \<le> 2 powi floor_log2 y"
    by (simp add: powi2_le)
  moreover have "fl p x \<le> 2 powi (floor_log2 x + 1)" and "2 powi floor_log2 y \<le> fl p y"
    using fl_binade [of x p] fl_binade [of y p] assms by simp_all
  ultimately show ?thesis by linarith
qed

lemma fl_mono: "x \<le> y \<Longrightarrow> 1 \<le> p \<Longrightarrow> fl p x \<le> fl p y"
proof -
  assume xy: "x \<le> y" and p: "1 \<le> p"
  consider "0 < x" | "x \<le> 0" "0 \<le> y" | "y < 0" using xy by linarith
  then show ?thesis
  proof cases
    case 1
    then show ?thesis using xy p by (simp add: fl_mono_pos)
  next
    case 2
    have "fl p x \<le> 0" using fl_nonneg [of "- x" p] 2 by (simp add: fl_minus)
    then show ?thesis using fl_nonneg [of y p] 2 by linarith
  next
    case 3
    then have "fl p (- y) \<le> fl p (- x)" using xy p by (intro fl_mono_pos) simp_all
    then show ?thesis by (simp add: fl_minus)
  qed
qed

text \<open>A value with at most \<open>p\<close> significant bits is a float: rounding leaves it alone.\<close>

lemma fl_exact_less:
  assumes "0 < m" and "m < 2 ^ p"
  shows "fl p (of_int m * 2 powi k) = of_int m * 2 powi k"
proof -
  let ?x = "of_int m * 2 powi k :: rat"
  have x: "0 < ?x" using assms by simp
  have "(of_int m :: rat) < of_int (2 ^ p)" using assms(2) by (simp only: of_int_less_iff)
  then have "?x < 2 powi (int p + k)" by (simp add: power_int_add)
  then have "floor_log2 ?x < int p + k"
    using floor_log2_bounds(1) [OF x] powi2_less le_less_trans by blast
  then have e: "0 \<le> k - (floor_log2 ?x - int p + 1)" by simp
  have "?x / ulp p ?x = of_int m * 2 powi (k - (floor_log2 ?x - int p + 1))"
    using x by (simp add: ulp_def power_int_diff)
  also have "\<dots> = of_int (m * 2 ^ nat (k - (floor_log2 ?x - int p + 1)))"
    using e by (simp add: power_int_def)
  finally have "of_int (round_even (?x / ulp p ?x)) = ?x / ulp p ?x"
    by (simp only: round_even_of_int)
  then show ?thesis using x by (simp add: fl_pos_eq)
qed

lemma fl_exact:
  assumes "\<bar>m\<bar> \<le> 2 ^ p" and "1 \<le> p"
  shows "fl p (of_int m * 2 powi k) = of_int m * 2 powi k"
proof -
  have pos: "fl p (of_int n * 2 powi k) = of_int n * 2 powi k" if "0 < n" "n \<le> 2 ^ p" for n
  proof (cases "n = 2 ^ p")
    case True
    have "fl p (of_int 1 * 2 powi (int p + k)) = of_int 1 * 2 powi (int p + k)"
      by (rule fl_exact_less) (use assms(2) in \<open>simp_all add: one_less_power\<close>)
    with True show ?thesis by (simp add: power_int_add)
  next
    case False
    with that show ?thesis by (intro fl_exact_less) simp_all
  qed
  consider "m = 0" | "0 < m" | "m < 0" by linarith
  then show ?thesis
  proof cases
    case 2
    then show ?thesis using assms pos by simp
  next
    case 3
    then have "fl p (of_int (- m) * 2 powi k) = of_int (- m) * 2 powi k"
      using assms by (intro pos) simp_all
    then show ?thesis by (simp add: fl_minus)
  qed simp
qed

lemma fl_of_int: "\<bar>m\<bar> \<le> 2 ^ p \<Longrightarrow> 1 \<le> p \<Longrightarrow> fl p (of_int m) = of_int m"
  using fl_exact [of m p 0] by simp

lemma fl_of_nat: "n \<le> 2 ^ p \<Longrightarrow> 1 \<le> p \<Longrightarrow> fl p (of_nat n) = of_nat n"
  using fl_of_int [of "int n" p] by simp

text \<open>Every result of rounding is itself a float, so rounding twice changes nothing.\<close>

lemma fl_form: "\<exists>m k. fl p x = of_int m * 2 powi k \<and> \<bar>m\<bar> \<le> 2 ^ p" if "1 \<le> p"
proof -
  have pos: "\<exists>m k. fl p y = of_int m * 2 powi k \<and> \<bar>m\<bar> \<le> 2 ^ p" if y: "0 < y" for y
  proof -
    have "fl p y \<le> of_int (2 ^ p) * ulp p y"
      using fl_binade(2) [OF y \<open>1 \<le> p\<close>] y
      by (simp add: ulp_def flip: power_int_add power_int_of_nat of_nat_power)
    then have "round_even (y / ulp p y) \<le> 2 ^ p"
      using y by (simp only: fl_pos_eq mult_le_cancel_right_pos ulp_pos of_int_le_iff)
    moreover have "0 \<le> round_even (y / ulp p y)"
      using round_even_mono [of 0 "y / ulp p y"] round_even_of_int [of 0] y by simp
    ultimately show ?thesis using y fl_pos_eq [of y p]
      by (intro exI [of _ "round_even (y / ulp p y)"] exI [of _ "floor_log2 \<bar>y\<bar> - int p + 1"])
        (simp add: ulp_def)
  qed
  consider "x = 0" | "0 < x" | "x < 0" by linarith
  then show ?thesis
  proof cases
    case 1
    then show ?thesis by (intro exI [of _ 0]) simp
  next
    case 2
    then show ?thesis by (rule pos)
  next
    case 3
    then obtain m k where "fl p (- x) = of_int m * 2 powi k" and "\<bar>m\<bar> \<le> 2 ^ p"
      using pos [of "- x"] by auto
    then show ?thesis
      by (intro exI [of _ "- m"] exI [of _ k]) (simp add: fl_minus)
  qed
qed

lemma fl_idem: "1 \<le> p \<Longrightarrow> fl p (fl p x) = fl p x"
  using fl_form [of p x] fl_exact [of _ p] by metis

text \<open>The relative error of one rounding is at most half a unit in the last place.\<close>

lemma fl_error: "0 \<le> x \<Longrightarrow> 1 \<le> p \<Longrightarrow> \<bar>fl p x - x\<bar> \<le> x / 2 ^ p"
proof (cases "x = 0")
  case False
  assume "0 \<le> x" and p: "1 \<le> p"
  with False have x: "0 < x" by simp
  have "fl p x - x = (of_int (round_even (x / ulp p x)) - x / ulp p x) * ulp p x"
    by (simp add: fl_pos_eq [OF x] left_diff_distrib)
  then have "\<bar>fl p x - x\<bar> = \<bar>of_int (round_even (x / ulp p x)) - x / ulp p x\<bar> * ulp p x"
    by (simp only: abs_mult abs_of_pos [OF ulp_pos])
  also have "\<dots> \<le> 1 / 2 * ulp p x" by (rule mult_right_mono [OF round_even_error]) simp
  also have "\<dots> \<le> x / 2 ^ p"
  proof -
    have "ulp p x / 2 = 2 powi floor_log2 x / 2 ^ p"
      using x by (simp add: ulp_def power_int_add power_int_diff)
    then show ?thesis using floor_log2_bounds(1) [OF x] by (simp add: divide_right_mono)
  qed
  finally show ?thesis .
qed simp

lemma fl_upper: "0 \<le> x \<Longrightarrow> 1 \<le> p \<Longrightarrow> fl p x \<le> x * (1 + 1 / 2 ^ p)"
  using fl_error [of x p] by (simp add: field_simps abs_le_iff)

subsection \<open>The operations\<close>

definition f64_add :: "rat \<Rightarrow> rat \<Rightarrow> rat" where "f64_add a b = f64 (a + b)"
definition f64_sub :: "rat \<Rightarrow> rat \<Rightarrow> rat" where "f64_sub a b = f64 (a - b)"
definition f64_mul :: "rat \<Rightarrow> rat \<Rightarrow> rat" where "f64_mul a b = f64 (a * b)"
definition f64_div :: "rat \<Rightarrow> rat \<Rightarrow> rat" where "f64_div a b = f64 (a / b)"
definition f32_add :: "rat \<Rightarrow> rat \<Rightarrow> rat" where "f32_add a b = f32 (a + b)"
definition f32_sub :: "rat \<Rightarrow> rat \<Rightarrow> rat" where "f32_sub a b = f32 (a - b)"
definition f32_mul :: "rat \<Rightarrow> rat \<Rightarrow> rat" where "f32_mul a b = f32 (a * b)"
definition f32_div :: "rat \<Rightarrow> rat \<Rightarrow> rat" where "f32_div a b = f32 (a / b)"

text \<open>\<open>f32::EPSILON\<close>, the distance from 1 to the next float.\<close>

definition f32_epsilon :: rat where "f32_epsilon = 1 / 2 ^ 23"

text \<open>
  The square root, correctly rounded as IEEE 754 requires: the argument is scaled by a power of four
  so that the integer part of its root has exactly \<open>p\<close> bits; those are found one by one, from
  the highest, and the remainder decides the rounding. (A tie cannot occur for an argument of \<open>p\<close> bits.)
\<close>

fun root_bits :: "nat \<Rightarrow> int \<Rightarrow> rat \<Rightarrow> int" where
  "root_bits 0 m y = m"
| "root_bits (Suc b) m y = root_bits b (if of_int ((m + 2 ^ b) ^ 2) \<le> y then m + 2 ^ b else m) y"

definition fl_sqrt :: "nat \<Rightarrow> rat \<Rightarrow> rat" where
  "fl_sqrt p x = (if x \<le> 0 then 0 else
     (let k = floor_log2 x div 2 - int p + 1; y = x / 2 powi (2 * k); m = root_bits p 0 y
      in of_int (if (of_int m + 1 / 2) ^ 2 < y then m + 1 else m) * 2 powi k))"

abbreviation f32_sqrt :: "rat \<Rightarrow> rat" where "f32_sqrt \<equiv> fl_sqrt 24"

lemma root_bits_bounds:
  assumes "0 \<le> m" and "of_int (m ^ 2) \<le> y" and "y < of_int ((m + 2 ^ b) ^ 2)"
  shows "m \<le> root_bits b m y \<and> of_int (root_bits b m y ^ 2) \<le> y \<and> y < of_int ((root_bits b m y + 1) ^ 2)"
  using assms
proof (induction b arbitrary: m)
  case (Suc b)
  show ?case
  proof (cases "of_int ((m + 2 ^ b) ^ 2) \<le> y")
    case True
    have e: "m + 2 ^ b + 2 ^ b = m + 2 ^ Suc b" and z: "0 \<le> m + 2 ^ b" using Suc.prems(1) by simp_all
    have "m + 2 ^ b \<le> root_bits b (m + 2 ^ b) y \<and> of_int (root_bits b (m + 2 ^ b) y ^ 2) \<le> y \<and>
        y < of_int ((root_bits b (m + 2 ^ b) y + 1) ^ 2)"
      by (rule Suc.IH [OF z True]) (use Suc.prems(3) in \<open>simp only: e\<close>)
    then show ?thesis using True zero_le_power [of "2 :: int" b]
      by (simp del: of_int_power of_int_add zero_le_power)
  next
    case False
    then have "y < of_int ((m + 2 ^ b) ^ 2)" by simp
    with Suc.IH [OF Suc.prems(1,2)] False show ?thesis by simp
  qed
qed simp

lemma fl_sqrt_nonneg: "0 \<le> fl_sqrt p x"
proof (cases "x \<le> 0")
  case False
  define k where "k = floor_log2 x div 2 - int p + 1"
  define y where "y = x / 2 powi (2 * k)"
  have y: "0 < y" using False by (simp add: y_def)
  have x: "x < 2 powi (floor_log2 x + 1)" using floor_log2_bounds(2) [of x] False by simp
  have e: "floor_log2 x + 1 \<le> 2 * k + 2 * int p" unfolding k_def by (simp add: algebra_simps)
  have "x < 2 powi (2 * k + 2 * int p)" using x e powi2_le order_less_le_trans by blast
  then have "y < 2 powi (2 * int p)" by (simp add: y_def divide_less_eq power_int_add mult.commute)
  also have "(2 :: rat) powi (2 * int p) = of_int ((0 + 2 ^ p) ^ 2)"
    by (simp add: power_int_def nat_mult_distrib power_mult [symmetric] mult.commute)
  finally have "0 \<le> root_bits p 0 y" using root_bits_bounds [of 0 y p] y by simp
  then show ?thesis using False by (simp add: fl_sqrt_def Let_def flip: k_def y_def)
qed (simp add: fl_sqrt_def)

text \<open>\<open>Duration::as_secs_f64\<close>: the whole seconds plus the nanoseconds over \<open>1e9\<close>.\<close>

definition as_secs_f64 :: "duration \<Rightarrow> rat" where
  "as_secs_f64 d = f64_add (f64 (of_nat (d div 1000000000)))
     (f64_div (of_nat (d mod 1000000000)) 1000000000)"

text \<open>Subtracting one from a float between 1 and \<open>2^p\<close> is exact.\<close>

lemma fl_sub_one_exact:
  assumes "fl p x = x" and "1 \<le> x" and "x \<le> 2 ^ p" and "1 \<le> p"
  shows "fl p (x - 1) = x - 1"
proof -
  define e where "e = floor_log2 x - int p + 1"
  have x: "0 < x" using assms(2) by simp
  have m: "x = of_int (round_even (x / ulp p x)) * 2 powi e" (is "x = of_int ?m * _")
    using assms(1) x by (simp add: fl_pos_eq ulp_def e_def)
  show ?thesis
  proof (cases "x = 2 ^ p")
    case True
    have "fl p (of_int (2 ^ p - 1)) = (of_int (2 ^ p - 1) :: rat)"
      by (rule fl_of_int) (use assms(4) in auto)
    with True show ?thesis by simp
  next
    case False
    with assms(3) have "x < 2 powi (int p)" by (simp add: power_int_of_nat)
    then have "floor_log2 x < int p"
      using floor_log2_bounds(1) [OF x] powi2_less le_less_trans by blast
    then have e: "e \<le> 0" by (simp add: e_def)
    define q :: int where "q = 2 ^ nat (- e)"
    have one: "1 = of_int q * (2 :: rat) powi e"
      using e by (simp add: q_def power_int_def power_one_over)
    have diff: "x - 1 = of_int (?m - q) * 2 powi e"
      using m one by (simp add: left_diff_distrib)
    have "?m \<le> 2 ^ p"
    proof -
      have "fl p x \<le> of_int (2 ^ p) * ulp p x"
        using fl_binade(2) [OF x assms(4)] x
        by (simp add: ulp_def flip: power_int_add power_int_of_nat of_nat_power)
      then show ?thesis
        using x by (simp only: fl_pos_eq mult_le_cancel_right_pos ulp_pos of_int_le_iff)
    qed
    moreover have "0 \<le> ?m - q"
    proof -
      have "0 \<le> of_int (?m - q) * (2 :: rat) powi e" using diff assms(2) by simp
      then have "0 \<le> (of_int (?m - q) :: rat)"
        using powi2_pos [of e] by (metis linorder_not_le mult_neg_pos)
      then show ?thesis by (simp only: of_int_0_le_iff)
    qed
    moreover have "0 \<le> q" by (simp add: q_def)
    ultimately have "\<bar>?m - q\<bar> \<le> 2 ^ p" by linarith
    then show ?thesis using fl_exact [of "?m - q" p e] assms(4) diff by simp
  qed
qed

end
