(* ===== verification/Config.thy ===== *)
theory Config
  imports Soft_Float
begin

text \<open>
  The constants of \<^verbatim>\<open>crates/shared/src/config.rs\<close>, in its order. Sizes, counts and times are
  numbers (their widths are written where a value is computed with them); an \<open>f32\<close> or
  \<open>f64\<close> literal is its decimal value rounded to that format.
\<close>

subsection \<open>Version\<close>

definition PROTOCOL_VERSION :: nat where [config_defs]: "PROTOCOL_VERSION = 3"

subsection \<open>Network\<close>

definition TCP_PORT :: nat where [config_defs]: "TCP_PORT = 7100"
definition UDP_PORT :: nat where [config_defs]: "UDP_PORT = 7101"
definition MAX_FRAME_SIZE :: nat where [config_defs]: "MAX_FRAME_SIZE = 65536"
definition TCP_READ_BUF :: nat where [config_defs]: "TCP_READ_BUF = 8192"
definition MAX_UDP_PACKET :: nat where [config_defs]: "MAX_UDP_PACKET = 1500"
definition UDP_HELLO_RETRIES :: nat where [config_defs]: "UDP_HELLO_RETRIES = 3"
definition UDP_HELLO_INTERVAL_MS :: nat where [config_defs]: "UDP_HELLO_INTERVAL_MS = 200"
definition UDP_REHELLO_BASE_MS :: nat where [config_defs]: "UDP_REHELLO_BASE_MS = 1000"
definition UDP_REHELLO_MAX_MS :: nat where [config_defs]: "UDP_REHELLO_MAX_MS = 5000"
definition UDP_KEEPALIVE_INTERVAL_SECS :: nat where [config_defs]: "UDP_KEEPALIVE_INTERVAL_SECS = 20"
definition MAX_PENDING_BUF :: nat where [config_defs]: "MAX_PENDING_BUF = 2 * MAX_FRAME_SIZE"
definition HEARTBEAT_INTERVAL_SECS :: nat where [config_defs]: "HEARTBEAT_INTERVAL_SECS = 10"
definition WEB_PORT :: nat where [config_defs]: "WEB_PORT = 17300"

subsection \<open>Chat\<close>

definition MAX_CHAT_LEN :: nat where [config_defs]: "MAX_CHAT_LEN = 2048"
definition MAX_NAME_LEN :: nat where [config_defs]: "MAX_NAME_LEN = 32"
definition MAX_MESSAGE_HISTORY :: nat where [config_defs]: "MAX_MESSAGE_HISTORY = 500"

subsection \<open>Channel\<close>

definition CHANNEL_ID_LEN :: nat where [config_defs]: "CHANNEL_ID_LEN = 5"
definition PUBLIC_CHANNEL_PREFIX :: string where [config_defs]: "PUBLIC_CHANNEL_PREFIX = ''pub-''"
definition MAX_CHANNEL_NAME_LEN :: nat where [config_defs]: "MAX_CHANNEL_NAME_LEN = 20"
definition ECHO_CHANNEL_PREFIX :: string where [config_defs]: "ECHO_CHANNEL_PREFIX = ''echo-''"

subsection \<open>Echo test (sound check)\<close>

definition ECHO_TEST_DURATION_SECS :: nat where [config_defs]: "ECHO_TEST_DURATION_SECS = 5"
definition ECHO_TEST_SETUP_TIMEOUT_SECS :: nat where [config_defs]: "ECHO_TEST_SETUP_TIMEOUT_SECS = 5"

subsection \<open>Audio\<close>

definition FRAME_SIZE :: nat where [config_defs]: "FRAME_SIZE = 960"
definition SAMPLE_RATE :: nat where [config_defs]: "SAMPLE_RATE = 48000"
definition AUDIO_CHANNELS :: nat where [config_defs]: "AUDIO_CHANNELS = 1"
definition MAX_OPUS_PACKET :: nat where [config_defs]: "MAX_OPUS_PACKET = 4000"
definition PLAYBACK_SAFETY_CAP :: nat where [config_defs]: "PLAYBACK_SAFETY_CAP = FRAME_SIZE * 15"
definition PLAYBACK_FADE_MS :: nat where [config_defs]: "PLAYBACK_FADE_MS = 5"
definition AUDIO_DIAG_LOG_SECS :: nat where [config_defs]: "AUDIO_DIAG_LOG_SECS = 10"

subsection \<open>Playout (receive side, `client/playout.rs`)\<close>

definition PLAYOUT_TICK_MS :: nat where [config_defs]: "PLAYOUT_TICK_MS = 5"
definition PLAYOUT_OUTPUT_LOW_WATER :: nat where [config_defs]: "PLAYOUT_OUTPUT_LOW_WATER = 2 * FRAME_SIZE"
definition PLAYOUT_TARGET_MIN_FRAMES :: nat where [config_defs]: "PLAYOUT_TARGET_MIN_FRAMES = 2"
definition PLAYOUT_TARGET_MAX_FRAMES :: nat where [config_defs]: "PLAYOUT_TARGET_MAX_FRAMES = 10"
definition PLAYOUT_HOLD_FRAMES :: nat where [config_defs]: "PLAYOUT_HOLD_FRAMES = 3"
definition PLAYOUT_ACCEL_WINDOW_FRAMES :: nat where [config_defs]: "PLAYOUT_ACCEL_WINDOW_FRAMES = 50"
definition PLAYOUT_ACCEL_MIN_OBSERVED :: nat where [config_defs]: "PLAYOUT_ACCEL_MIN_OBSERVED = 10"
definition PLAYOUT_ACCEL_MAX_RMS :: rat where [config_defs]: "PLAYOUT_ACCEL_MAX_RMS = f32 (3 / 200)"
definition PLAYOUT_ACCEL_FORCE_EXCESS :: nat where [config_defs]: "PLAYOUT_ACCEL_FORCE_EXCESS = 3"
definition JITTER_BUF_MAX :: nat where [config_defs]: "JITTER_BUF_MAX = 15"
definition JITTER_RESYNC_AFTER :: nat where [config_defs]: "JITTER_RESYNC_AFTER = 3"
definition AUDIO_STARVATION_SECS :: nat where [config_defs]: "AUDIO_STARVATION_SECS = 3"
definition VOICE_RESTART_MIN_INTERVAL_MS :: nat where [config_defs]: "VOICE_RESTART_MIN_INTERVAL_MS = 2000"
definition DEVICE_POLL_INTERVAL_MS :: nat where [config_defs]: "DEVICE_POLL_INTERVAL_MS = 2000"
definition UDP_TOKEN_TTL_SECS :: nat where [config_defs]: "UDP_TOKEN_TTL_SECS = 30"
definition MAX_SENDER_STREAMS :: nat where [config_defs]: "MAX_SENDER_STREAMS = 16"
definition SENDER_STREAM_TTL_SECS :: nat where [config_defs]: "SENDER_STREAM_TTL_SECS = 10"
definition PEER_VOL_DEFAULT_PCT :: nat where [config_defs]: "PEER_VOL_DEFAULT_PCT = 100"
definition PEER_VOL_MAX_PCT :: nat where [config_defs]: "PEER_VOL_MAX_PCT = 200"

subsection \<open>Capture downmix\<close>

definition DOWNMIX_ACTIVE_RATIO :: rat where [config_defs]: "DOWNMIX_ACTIVE_RATIO = f32 (3 / 100)"
definition DOWNMIX_SILENCE_FLOOR :: rat where [config_defs]: "DOWNMIX_SILENCE_FLOOR = f32 (1 / 100000)"
definition DOWNMIX_SMOOTHING :: rat where [config_defs]: "DOWNMIX_SMOOTHING = f32 (1 / 20)"

subsection \<open>Automatic capture level (AGC)\<close>

definition AGC_TARGET_RMS :: rat where [config_defs]: "AGC_TARGET_RMS = f32 (9 / 100)"
definition AGC_MAX_GAIN :: rat where [config_defs]: "AGC_MAX_GAIN = f32 (8)"
definition AGC_MIN_GAIN :: rat where [config_defs]: "AGC_MIN_GAIN = f32 (1 / 4)"
definition AGC_ATTACK :: rat where [config_defs]: "AGC_ATTACK = f32 (7 / 20)"
definition AGC_RELEASE :: rat where [config_defs]: "AGC_RELEASE = f32 (3 / 100)"
definition AGC_FLOOR_RMS :: rat where [config_defs]: "AGC_FLOOR_RMS = f32 (1 / 250)"
definition LIMITER_KNEE :: rat where [config_defs]: "LIMITER_KNEE = f32 (4 / 5)"

subsection \<open>Speaker loudness (UI level meters, lip sync)\<close>

definition LEVEL_FLOOR_DBFS :: rat where [config_defs]: "LEVEL_FLOOR_DBFS = f32 (- (50))"
definition LEVEL_CEIL_DBFS :: rat where [config_defs]: "LEVEL_CEIL_DBFS = f32 (- (12))"
definition FAST_LEVEL_TICK_MS :: nat where [config_defs]: "FAST_LEVEL_TICK_MS = 33"
definition FAST_LEVEL_SILENCE_MS :: nat where [config_defs]: "FAST_LEVEL_SILENCE_MS = 300"

subsection \<open>VAD\<close>

definition VAD_RMS_THRESHOLD :: rat where [config_defs]: "VAD_RMS_THRESHOLD = f32 (3 / 200)"
definition VAD_HANGOVER_FRAMES :: nat where [config_defs]: "VAD_HANGOVER_FRAMES = 10"
definition VAD_PREROLL_FRAMES :: nat where [config_defs]: "VAD_PREROLL_FRAMES = 5"

subsection \<open>Adaptive Quality\<close>

definition STATS_WINDOW_PACKETS :: nat where [config_defs]: "STATS_WINDOW_PACKETS = 150"
definition LOSS_THRESH_MEDIUM :: nat where [config_defs]: "LOSS_THRESH_MEDIUM = 5"
definition LOSS_THRESH_LOW :: nat where [config_defs]: "LOSS_THRESH_LOW = 15"
definition LOSS_THRESH_MINIMUM :: nat where [config_defs]: "LOSS_THRESH_MINIMUM = 30"
definition BITRATE_HIGH :: int where [config_defs]: "BITRATE_HIGH = 64000"
definition BITRATE_MEDIUM :: int where [config_defs]: "BITRATE_MEDIUM = 40000"
definition BITRATE_LOW :: int where [config_defs]: "BITRATE_LOW = 24000"
definition BITRATE_MINIMUM :: int where [config_defs]: "BITRATE_MINIMUM = 12000"
definition COMPLEXITY_HIGH :: nat where [config_defs]: "COMPLEXITY_HIGH = 10"
definition FEC_MIN_LOSS_PERC :: nat where [config_defs]: "FEC_MIN_LOSS_PERC = 5"
definition COMPLEXITY_MEDIUM :: nat where [config_defs]: "COMPLEXITY_MEDIUM = 7"
definition COMPLEXITY_LOW :: nat where [config_defs]: "COMPLEXITY_LOW = 5"
definition COMPLEXITY_MINIMUM :: nat where [config_defs]: "COMPLEXITY_MINIMUM = 3"

subsection \<open>Crypto\<close>

definition VOICE_KEY_LEN :: nat where [config_defs]: "VOICE_KEY_LEN = 32"
definition XCHACHA20_NONCE_SIZE :: nat where [config_defs]: "XCHACHA20_NONCE_SIZE = 24"
definition POLY1305_TAG_SIZE :: nat where [config_defs]: "POLY1305_TAG_SIZE = 16"

subsection \<open>Server\<close>

definition MAINTENANCE_INTERVAL_SECS :: nat where [config_defs]: "MAINTENANCE_INTERVAL_SECS = 30"

subsection \<open>Rate Limiting\<close>

definition RATE_LIMIT_CMD_PER_SEC :: rat where [config_defs]: "RATE_LIMIT_CMD_PER_SEC = f64 (10)"
definition RATE_LIMIT_CMD_BURST :: rat where [config_defs]: "RATE_LIMIT_CMD_BURST = f64 (20)"
definition RATE_LIMIT_CREATE_PER_SEC :: rat where [config_defs]: "RATE_LIMIT_CREATE_PER_SEC = f64 (1 / 10)"
definition RATE_LIMIT_CREATE_BURST :: rat where [config_defs]: "RATE_LIMIT_CREATE_BURST = f64 (3)"
definition RATE_LIMIT_IP_CMD_PER_SEC :: rat where [config_defs]: "RATE_LIMIT_IP_CMD_PER_SEC = f64 (30)"
definition RATE_LIMIT_IP_CMD_BURST :: rat where [config_defs]: "RATE_LIMIT_IP_CMD_BURST = f64 (60)"
definition IP_LIMITER_IDLE_TTL_SECS :: nat where [config_defs]: "IP_LIMITER_IDLE_TTL_SECS = 300"

end
