(* ===== verification/Random_Source.thy ===== *)
theory Random_Source
  imports Prelude
begin

text \<open>
  The random number generator of the \<open>rand\<close> crate, which is outside the repository: a
  record of the draws at each position and the position reached, so that every function that
  draws returns the advanced generator. What the code relies on is \<open>rng_laws\<close>:
  \<open>gen_range(0..n)\<close> stays below \<open>n\<close> and \<open>random::<[u8; 32]>()\<close> has 32 bytes.
\<close>

record rng =
  rng_pos :: nat
  rng_range :: "nat \<Rightarrow> nat \<Rightarrow> nat"
  rng_u64 :: "nat \<Rightarrow> 64 word"
  rng_key :: "nat \<Rightarrow> byte list"

definition rng_laws :: "rng \<Rightarrow> bool" where
  "rng_laws r \<longleftrightarrow> (\<forall>i n. 0 < n \<longrightarrow> rng_range r i n < n) \<and> (\<forall>i. length (rng_key r i) = 32)"

definition rng_next :: "rng \<Rightarrow> rng" where
  "rng_next r = r\<lparr>rng_pos := Suc (rng_pos r)\<rparr>"

definition gen_range :: "nat \<Rightarrow> rng \<Rightarrow> nat \<times> rng" where
  "gen_range n r = (rng_range r (rng_pos r) n, rng_next r)"

definition random_u64 :: "rng \<Rightarrow> 64 word \<times> rng" where
  "random_u64 r = (rng_u64 r (rng_pos r), rng_next r)"

definition random_key :: "rng \<Rightarrow> byte list \<times> rng" where
  "random_key r = (rng_key r (rng_pos r), rng_next r)"

lemma rng_next_sel [simp]:
  "rng_pos (rng_next r) = Suc (rng_pos r)" "rng_range (rng_next r) = rng_range r"
  "rng_u64 (rng_next r) = rng_u64 r" "rng_key (rng_next r) = rng_key r"
  by (simp_all add: rng_next_def)

lemma rng_laws_next [simp]: "rng_laws (rng_next r) \<longleftrightarrow> rng_laws r"
  by (simp add: rng_laws_def)

lemma gen_range_less: "rng_laws r \<Longrightarrow> 0 < n \<Longrightarrow> gen_range n r = (k, r') \<Longrightarrow> k < n"
  by (auto simp: gen_range_def rng_laws_def)

lemma random_key_length: "rng_laws r \<Longrightarrow> random_key r = (k, r') \<Longrightarrow> length k = 32"
  by (auto simp: random_key_def rng_laws_def)

lemma draws_random_u64: "draws random_u64 n r = rng_u64 r (rng_pos r + n)"
  by (induction n arbitrary: r) (auto simp: random_u64_def)

end
