(* ===== verification/Protocol.thy ===== *)
theory Protocol
  imports Config Random_Source
begin

text \<open>
  \<^verbatim>\<open>crates/shared/src/protocol.rs\<close>: channel identifiers, the control messages, the UDP hello
  and voice packets, and the length-prefixed TCP framing. \<open>bincode\<close> is outside the
  repository and is a parameter of \<open>encode_tcp_frame\<close>; \<open>str::to_lowercase\<close> on
  non-ASCII letters is a parameter of \<open>sanitize_channel_name\<close>.
\<close>

section \<open>Channel identifiers\<close>

type_synonym channel_id = string

definition CHARSET :: string where
  "CHARSET = ''abcdefghjkmnpqrstuvwxyz23456789''"

fun generate_chars :: "nat \<Rightarrow> rng \<Rightarrow> string \<times> rng" where
  "generate_chars 0 r = ([], r)"
| "generate_chars (Suc n) r =
    (let (idx, r1) = gen_range (length CHARSET) r; (cs, r2) = generate_chars n r1
     in (CHARSET ! idx # cs, r2))"

definition generate_channel_id :: "rng \<Rightarrow> channel_id \<times> rng" where
  "generate_channel_id r = generate_chars CHANNEL_ID_LEN r"

lemma generate_chars_props:
  "rng_laws r \<Longrightarrow> generate_chars n r = (s, r') \<Longrightarrow>
   length s = n \<and> set s \<subseteq> set CHARSET \<and> rng_laws r'"
proof (induction n arbitrary: r s)
  case 0
  then show ?case by simp
next
  case (Suc n)
  let ?i = "rng_range r (rng_pos r) (length CHARSET)"
  obtain cs where cs: "generate_chars n (rng_next r) = (cs, r')" and s: "s = CHARSET ! ?i # cs"
    using Suc.prems(2) by (auto simp: gen_range_def Let_def split: prod.splits)
  have "?i < length CHARSET"
    using Suc.prems(1) by (simp add: rng_laws_def CHARSET_def)
  then have "CHARSET ! ?i \<in> set CHARSET" by (rule nth_mem)
  with Suc.IH [of "rng_next r", OF _ cs] Suc.prems(1) s show ?case by simp
qed

lemma generate_channel_id_props:
  assumes "rng_laws r" and "generate_channel_id r = (s, r')"
  shows "length s = 5" and "set s \<subseteq> set CHARSET" and "rng_laws r'"
  using generate_chars_props [OF assms(1)] assms(2)
  by (auto simp: generate_channel_id_def config_defs)

text \<open>Strings are code points here, as \<open>chars()\<close> yields them. \<open>to_lowercase\<close> is
  \<open>lower\<close>; on ASCII it is documented to map the letters A to Z and nothing else.\<close>

definition lower_laws :: "(nat list \<Rightarrow> nat list) \<Rightarrow> bool" where
  "lower_laws lower \<longleftrightarrow> (\<forall>s. (\<forall>c \<in> set s. c < 128) \<longrightarrow>
     lower s = map (\<lambda>c. if 65 \<le> c \<and> c \<le> 90 then c + 32 else c) s)"

definition name_char :: "nat \<Rightarrow> bool" where
  "name_char c \<longleftrightarrow> (97 \<le> c \<and> c \<le> 122) \<or> (48 \<le> c \<and> c \<le> 57) \<or> c = 45"

definition trim_matches :: "'a \<Rightarrow> 'a list \<Rightarrow> 'a list" where
  "trim_matches c s = rev (dropWhile (\<lambda>x. x = c) (rev (dropWhile (\<lambda>x. x = c) s)))"

definition sanitize_channel_name :: "(nat list \<Rightarrow> nat list) \<Rightarrow> nat list \<Rightarrow> string" where
  "sanitize_channel_name lower s = map char_of (trim_matches 45 (filter name_char (lower s)))"

definition code_points :: "string \<Rightarrow> nat list" where
  "code_points s = map of_char s"

lemma set_trim_matches: "set (trim_matches c s) \<subseteq> set s"
proof
  fix x
  assume "x \<in> set (trim_matches c s)"
  then have "x \<in> set (dropWhile (\<lambda>x. x = c) (rev (dropWhile (\<lambda>x. x = c) s)))"
    by (simp add: trim_matches_def)
  then have "x \<in> set (rev (dropWhile (\<lambda>x. x = c) s))" by (rule set_dropWhileD)
  then have "x \<in> set (dropWhile (\<lambda>x. x = c) s)" by simp
  then show "x \<in> set s" by (rule set_dropWhileD)
qed

lemma last_dropWhile: "dropWhile P xs \<noteq> [] \<Longrightarrow> last (dropWhile P xs) = last xs"
  by (induction xs) (auto simp: last_ConsR split: if_splits)

lemma trim_matches_hd:
  assumes "trim_matches c s \<noteq> []"
  shows "hd (trim_matches c s) \<noteq> c"
proof -
  let ?t = "dropWhile (\<lambda>x. x = c) s"
  let ?u = "dropWhile (\<lambda>x. x = c) (rev ?t)"
  have u: "?u \<noteq> []" using assms by (simp add: trim_matches_def)
  then have t: "?t \<noteq> []" by (cases "?t = []") simp_all
  have "hd (trim_matches c s) = last ?u"
    using u by (simp add: trim_matches_def hd_rev)
  also have "\<dots> = hd ?t" using last_dropWhile [OF u] t by (simp add: last_rev)
  finally show ?thesis using hd_dropWhile [of "\<lambda>x. x = c" s] t by simp
qed

lemma trim_matches_last: "trim_matches c s \<noteq> [] \<Longrightarrow> last (trim_matches c s) \<noteq> c"
  using hd_dropWhile [of "\<lambda>x. x = c" "rev (dropWhile (\<lambda>x. x = c) s)"]
  by (simp add: trim_matches_def last_rev)

lemma trim_matches_id:
  assumes "s = [] \<or> (hd s \<noteq> c \<and> last s \<noteq> c)"
  shows "trim_matches c s = s"
proof (cases "s = []")
  case False
  with assms have h: "hd s \<noteq> c" and l: "last s \<noteq> c" by auto
  have "dropWhile (\<lambda>x. x = c) s = s" using False h by (cases s) auto
  moreover have "dropWhile (\<lambda>x. x = c) (rev s) = rev s"
    using False l by (cases "rev s") (auto simp: hd_rev [symmetric])
  ultimately show ?thesis by (simp add: trim_matches_def)
qed (simp add: trim_matches_def)

definition canonical_name :: "string \<Rightarrow> bool" where
  "canonical_name s \<longleftrightarrow> (\<forall>c \<in> set s. name_char (of_char c)) \<and>
     (s = [] \<or> (hd s \<noteq> CHR ''-'' \<and> last s \<noteq> CHR ''-''))"

lemma name_char_less: "name_char c \<Longrightarrow> c < 128"
  by (auto simp: name_char_def)

lemma char_of_eq_dash: "name_char c \<Longrightarrow> char_of c = CHR ''-'' \<longleftrightarrow> c = 45"
proof -
  assume "name_char c"
  then have "c mod 256 = c" using name_char_less [of c] by simp
  moreover have "of_char CHR ''-'' = (45 :: nat)" by simp
  ultimately show ?thesis by (metis of_char_of char_of_char)
qed

lemma name_chars_map:
  assumes "\<forall>c \<in> set t. name_char c"
  shows "\<forall>c \<in> set (map char_of t :: string). name_char (of_char c)"
proof
  fix c :: char
  assume "c \<in> set (map char_of t)"
  then obtain x where x: "x \<in> set t" and c: "c = char_of x" by auto
  have n: "name_char x" using assms x by (rule bspec)
  then have "x mod 256 = x" using name_char_less [OF n] by simp
  with c n show "name_char (of_char c)" by (simp add: of_char_of)
qed

lemma sanitize_canonical: "canonical_name (sanitize_channel_name lower s)"
proof -
  let ?t = "trim_matches 45 (filter name_char (lower s))"
  have t: "\<forall>c \<in> set ?t. name_char c"
    using set_trim_matches [of 45 "filter name_char (lower s)"] by auto
  have "\<forall>c \<in> set (map char_of ?t :: string). name_char (of_char c)"
    by (rule name_chars_map [OF t])
  moreover have "(map char_of ?t :: string) = [] \<or>
      (hd (map char_of ?t) \<noteq> CHR ''-'' \<and> last (map char_of ?t) \<noteq> CHR ''-'')"
  proof (cases "?t = []")
    case False
    note n = bspec [OF t hd_in_set [OF False]] bspec [OF t last_in_set [OF False]]
    have "char_of (hd ?t) \<noteq> CHR ''-''" and "char_of (last ?t) \<noteq> CHR ''-''"
      using char_of_eq_dash [OF n(1)] char_of_eq_dash [OF n(2)]
        trim_matches_hd [OF False] trim_matches_last [OF False] by (simp_all only: simp_thms)
    then show ?thesis by (simp only: hd_map [OF False] last_map [OF False]) simp
  qed simp
  ultimately show ?thesis by (simp only: canonical_name_def sanitize_channel_name_def)
qed

lemma sanitize_fixes_canonical:
  assumes "lower_laws lower" and "canonical_name s"
  shows "sanitize_channel_name lower (code_points s) = s"
proof -
  let ?p = "code_points s"
  have nc: "\<forall>c \<in> set ?p. name_char c"
    using assms(2) by (auto simp: canonical_name_def code_points_def)
  have "lower ?p = map (\<lambda>c. if 65 \<le> c \<and> c \<le> 90 then c + 32 else c) ?p"
    using assms(1) nc name_char_less unfolding lower_laws_def by blast
  also have "\<dots> = ?p" using nc by (intro map_idI) (auto simp: name_char_def)
  finally have "filter name_char (lower ?p) = ?p" using nc by simp
  moreover have "?p = [] \<or> (hd ?p \<noteq> 45 \<and> last ?p \<noteq> 45)"
  proof (cases "s = []")
    case False
    then have "hd s \<noteq> CHR ''-''" and "last s \<noteq> CHR ''-''"
      using assms(2) by (auto simp: canonical_name_def)
    then have "of_char (hd s) \<noteq> (45 :: nat)" and "of_char (last s) \<noteq> (45 :: nat)"
      by (metis char_of_char char_of_eq_dash name_char_def)+
    with False show ?thesis by (simp add: code_points_def hd_map last_map)
  qed (simp add: code_points_def)
  ultimately have "trim_matches 45 (filter name_char (lower ?p)) = ?p"
    by (simp add: trim_matches_id)
  then show ?thesis by (simp add: sanitize_channel_name_def code_points_def comp_def)
qed


section \<open>Control messages\<close>

datatype client_message =
    Hello string "16 word" "byte list option" \<comment> \<open>version, protocol, pubkey\<close>
  | CreateChannel "string option"
  | JoinChannel channel_id
  | LeaveChannel
  | ListChannels
  | CChatMessage string
  | CDirectMessage "byte list" string \<comment> \<open>to_pubkey, text\<close>
  | SetName string
  | Ping
  | StartEchoTest
  | StopEchoTest

datatype channel_info = ChannelInfo (info_channel_id: channel_id) (participant_count: "32 word")

datatype server_message =
    Welcome string "16 word"
  | ChannelCreated channel_id
  | JoinedChannel channel_id "string list" "64 word" "byte list"
      \<comment> \<open>participants, udp_token, voice_key\<close>
  | PeerJoined string
  | PeerLeft string
  | LeftChannel
  | SChatMessage string string \<comment> \<open>from, text\<close>
  | SDirectMessage "byte list" string string \<comment> \<open>from_pubkey, from_name, text\<close>
  | NameChanged string string
  | ChannelList "channel_info list"
  | SError string
  | Pong
  | EchoTestReady channel_id "64 word" "byte list"

section \<open>UDP packets\<close>

definition UDP_HELLO_SIZE :: nat where "UDP_HELLO_SIZE = 12"

definition encode_udp_hello :: "64 word \<Rightarrow> byte list" where
  "encode_udp_hello token = (let buf = replicate UDP_HELLO_SIZE 0 in take 4 buf @ u64_to_be token)"

definition decode_udp_hello :: "byte list \<Rightarrow> 64 word option" where
  "decode_udp_hello data =
    (if length data \<noteq> UDP_HELLO_SIZE then None
     else if u32_from_be (take 4 data) \<noteq> 0 then None
     else Some (u64_from_be (take 8 (drop 4 data))))"

definition encode_udp_keepalive :: "byte list" where
  "encode_udp_keepalive = encode_udp_hello 0"

definition is_udp_keepalive :: "byte list \<Rightarrow> bool" where
  "is_udp_keepalive data \<longleftrightarrow> decode_udp_hello data = Some 0"

record voice_packet =
  vp_sequence :: "32 word"
  vp_channel_id :: channel_id
  vp_opus_data :: "byte list"

definition encode_voice :: "voice_packet \<Rightarrow> byte list" where
  "encode_voice p =
    u32_to_be (vp_sequence p) @ [of_nat (length (vp_channel_id p))] @
    string_bytes (vp_channel_id p) @ vp_opus_data p"

definition decode_voice :: "byte list \<Rightarrow> voice_packet option" where
  "decode_voice data =
    (if length data < 6 then None
     else let sequence = u32_from_be (take 4 data) in
       if sequence = 0 then None
       else let id_len = unat (data ! 4) in
         if length data < 5 + id_len + 1 then None
         else (case from_utf8 (take id_len (drop 5 data)) of
             None \<Rightarrow> None
           | Some channel_id \<Rightarrow> Some \<lparr>vp_sequence = sequence, vp_channel_id = channel_id,
               vp_opus_data = drop (5 + id_len) data\<rparr>))"

definition parse_voice_data :: "byte list \<Rightarrow> (32 word \<times> byte list) option" where
  "parse_voice_data data =
    (if length data < 6 then None
     else let sequence = u32_from_be (take 4 data) in
       if sequence = 0 then None
       else let id_len = unat (data ! 4) in
         if length data < 5 + id_len + 1 then None
         else Some (sequence, drop (5 + id_len) data))"

definition parse_channel_id :: "byte list \<Rightarrow> channel_id option" where
  "parse_channel_id data =
    (if length data < 6 then None
     else let id_len = unat (data ! 4) in
       if length data < 5 + id_len then None
       else from_utf8 (take id_len (drop 5 data)))"

lemma encode_udp_hello_eq: "encode_udp_hello token = [0, 0, 0, 0] @ u64_to_be token"
  by (simp add: encode_udp_hello_def UDP_HELLO_SIZE_def numeral_eq_Suc)

lemma length_encode_udp_hello [simp]: "length (encode_udp_hello token) = 12"
  by (simp add: encode_udp_hello_eq)

lemma u32_from_be_zeros [simp]: "u32_from_be [0, 0, 0, 0] = 0"
  by (simp add: u32_from_be_def be_nat_def)

lemma hello_roundtrip [simp]: "decode_udp_hello (encode_udp_hello token) = Some token"
  by (simp add: decode_udp_hello_def UDP_HELLO_SIZE_def encode_udp_hello_eq)

lemma be_bytes_zero: "be_bytes n 0 = replicate n 0"
  by (induction n) (auto simp: replicate_append_same)

lemma be_nat_zero: "be_nat bs = 0 \<Longrightarrow> bs = replicate (length bs) 0"
  using be_bytes_be_nat [of bs] by (simp add: be_bytes_zero)

lemma decode_udp_hello_Some:
  assumes "decode_udp_hello data = Some token"
  shows "data = encode_udp_hello token"
proof -
  from assms have l: "length data = 12" and z: "u32_from_be (take 4 data) = 0"
    and t: "token = u64_from_be (take 8 (drop 4 data))"
    by (auto simp: decode_udp_hello_def UDP_HELLO_SIZE_def split: if_splits)
  have "be_nat (take 4 data) = 0"
    using z unat_u32_from_be [of "take 4 data"] l by simp
  then have "take 4 data = [0, 0, 0, 0]"
    using l be_nat_zero [of "take 4 data"] by (simp add: numeral_eq_Suc)
  moreover have "u64_to_be token = drop 4 data" using t l by (simp add: u64_to_from_be)
  ultimately show ?thesis
    using append_take_drop_id [of 4 data] by (simp add: encode_udp_hello_eq)
qed

text \<open>A hello is never a voice packet: its first four bytes are the reserved sequence 0.\<close>

lemma hello_not_voice:
  "decode_udp_hello data = Some token \<Longrightarrow> decode_voice data = None \<and> parse_voice_data data = None"
  by (auto simp: decode_udp_hello_def decode_voice_def parse_voice_data_def Let_def split: if_splits)

text \<open>The two zero-copy parsers read the same fields as \<open>decode\<close>.\<close>

lemma decode_voice_parse:
  assumes "decode_voice data = Some p"
  shows "parse_voice_data data = Some (vp_sequence p, vp_opus_data p)"
    and "parse_channel_id data = Some (vp_channel_id p)"
  using assms
  by (auto simp: decode_voice_def parse_voice_data_def parse_channel_id_def Let_def
      split: if_splits option.splits)

lemma parse_decode_voice:
  assumes "parse_voice_data data = Some (s, d)" and "parse_channel_id data = Some c"
  shows "decode_voice data = Some \<lparr>vp_sequence = s, vp_channel_id = c, vp_opus_data = d\<rparr>"
  using assms
  by (auto simp: decode_voice_def parse_voice_data_def parse_channel_id_def Let_def
      split: if_splits option.splits)

lemma encode_voice_nth4:
  "encode_voice p ! 4 = of_nat (length (vp_channel_id p))"
  by (simp add: encode_voice_def nth_append)

lemma encode_voice_drop5:
  "drop 5 (encode_voice p) = string_bytes (vp_channel_id p) @ vp_opus_data p"
proof -
  have "drop 5 (u32_to_be (vp_sequence p) @ x # xs) = xs" for x xs
    using length_u32_to_be [of "vp_sequence p"] by (simp add: drop_Cons')
  then show ?thesis by (simp add: encode_voice_def)
qed

lemma decode_encode_voice:
  assumes "vp_sequence p \<noteq> 0" and "length (vp_channel_id p) \<le> 255"
    and "is_utf8 (vp_channel_id p)" and "vp_opus_data p \<noteq> []"
  shows "decode_voice (encode_voice p) = Some p"
proof -
  let ?n = "length (vp_channel_id p)"
  have n: "unat (of_nat ?n :: byte) = ?n" using assms(2) by (simp add: unat_of_nat)
  have len: "length (encode_voice p) = 5 + ?n + length (vp_opus_data p)"
    by (simp add: encode_voice_def)
  have take4: "take 4 (encode_voice p) = u32_to_be (vp_sequence p)"
    by (simp add: encode_voice_def)
  have idb: "take ?n (drop 5 (encode_voice p)) = string_bytes (vp_channel_id p)"
    by (simp add: encode_voice_drop5)
  have rest: "drop (5 + ?n) (encode_voice p) = vp_opus_data p"
    by (simp add: encode_voice_drop5 add.commute flip: drop_drop)
  show ?thesis
    using assms len
    by (simp add: decode_voice_def Let_def take4 encode_voice_nth4 n idb rest
        from_utf8_string_bytes Suc_le_eq)
qed

lemma encode_decode_voice:
  assumes "decode_voice data = Some p"
  shows "encode_voice p = data"
proof -
  let ?n = "unat (data ! 4)"
  from assms have l: "5 + ?n + 1 \<le> length data" "6 \<le> length data"
    and s: "vp_sequence p = u32_from_be (take 4 data)"
    and c: "from_utf8 (take ?n (drop 5 data)) = Some (vp_channel_id p)"
    and d: "vp_opus_data p = drop (5 + ?n) data"
    by (auto simp: decode_voice_def Let_def split: if_splits option.splits)
  have c1: "string_bytes (vp_channel_id p) = take ?n (drop 5 data)"
    using from_utf8_Some [OF c] by simp
  have c2: "length (vp_channel_id p) = ?n"
    using arg_cong [OF c1, of length] l by simp
  have "u32_to_be (vp_sequence p) = take 4 data"
    using s l be_bytes_be_nat [of "take 4 data"] unat_u32_from_be [of "take 4 data"]
    by (simp add: u32_to_be_def)
  moreover have "(of_nat ?n :: byte) = data ! 4" by simp
  ultimately have "encode_voice p = take 4 data @ [data ! 4] @ take ?n (drop 5 data) @ drop (5 + ?n) data"
    by (simp add: encode_voice_def c1 c2 d)
  also have "\<dots> = take 4 data @ [data ! 4] @ drop 5 data"
    using append_take_drop_id [of ?n "drop 5 data"] by (simp add: add.commute)
  also have "\<dots> = take 4 data @ drop 4 data"
    using l Cons_nth_drop_Suc [of 4 data] by simp
  finally show ?thesis by simp
qed

section \<open>The properties\<close>

text \<open>A byte string decodes to a voice packet exactly when it is the encoding of that packet and
  the packet is one the wire can carry: a sequence number other than the reserved 0, a channel
  identifier of at most 255 bytes of UTF-8, and a non-empty Opus payload.\<close>

theorem voice_packet_iff:
  "decode_voice data = Some p \<longleftrightarrow>
    data = encode_voice p \<and> vp_sequence p \<noteq> 0 \<and> length (vp_channel_id p) \<le> 255 \<and>
    is_utf8 (vp_channel_id p) \<and> vp_opus_data p \<noteq> []"
proof
  assume d: "decode_voice data = Some p"
  have u: "unat (data ! 4) \<le> 255" using unat_lt2p [of "data ! 4"] by simp
  from d have "vp_sequence p \<noteq> 0" and "is_utf8 (vp_channel_id p)" and "vp_opus_data p \<noteq> []"
    by (auto simp: decode_voice_def Let_def split: if_splits option.splits dest: from_utf8_Some)
  moreover from d have "from_utf8 (take (unat (data ! 4)) (drop 5 data)) = Some (vp_channel_id p)"
    by (auto simp: decode_voice_def Let_def split: if_splits option.splits)
  then have "length (vp_channel_id p) \<le> unat (data ! 4)"
    using arg_cong [of "string_bytes (vp_channel_id p)" _ length] from_utf8_Some by fastforce
  with u have "length (vp_channel_id p) \<le> 255" by simp
  ultimately show "data = encode_voice p \<and> vp_sequence p \<noteq> 0 \<and> length (vp_channel_id p) \<le> 255 \<and>
      is_utf8 (vp_channel_id p) \<and> vp_opus_data p \<noteq> []"
    using encode_decode_voice [OF d] by simp
qed (use decode_encode_voice in blast)

text \<open>The UDP hello is read back exactly when it was written, and cannot be taken for a voice
  packet; the zero-copy readers of the relay and of the client see the same packet as the full
  decoder.\<close>

theorem hello_and_voice_disjoint:
  "(decode_udp_hello data = Some token \<longleftrightarrow> data = encode_udp_hello token) \<and>
    decode_voice (encode_udp_hello token) = None \<and> parse_voice_data (encode_udp_hello token) = None \<and>
    (decode_voice data = Some p \<longleftrightarrow>
      parse_voice_data data = Some (vp_sequence p, vp_opus_data p) \<and> parse_channel_id data = Some (vp_channel_id p))"
proof -
  have "decode_udp_hello data = Some token \<longleftrightarrow> data = encode_udp_hello token"
    using decode_udp_hello_Some by auto
  moreover have "decode_voice data = Some p \<longleftrightarrow>
      parse_voice_data data = Some (vp_sequence p, vp_opus_data p) \<and> parse_channel_id data = Some (vp_channel_id p)"
    using decode_voice_parse [of data p] parse_decode_voice [of data "vp_sequence p" "vp_opus_data p" "vp_channel_id p"]
    by auto
  ultimately show ?thesis using hello_not_voice [OF hello_roundtrip] by blast
qed

text \<open>A sanitized channel name holds only lower-case letters, digits and inner dashes, and
  sanitizing it again changes nothing, so the client's and the server's views of a name agree.\<close>

theorem sanitize_idempotent:
  assumes "lower_laws lower"
  shows "canonical_name (sanitize_channel_name lower s) \<and>
    sanitize_channel_name lower (code_points (sanitize_channel_name lower s)) = sanitize_channel_name lower s"
  using sanitize_canonical sanitize_fixes_canonical [OF assms] by simp

definition ascii_lower :: "nat list \<Rightarrow> nat list" where
  "ascii_lower = map (\<lambda>c. if 65 \<le> c \<and> c \<le> 90 then c + 32 else c)"

theorem sanitize_idempotent_witness:
  "canonical_name (sanitize_channel_name ascii_lower (code_points ''-My Room!-'')) \<and>
    sanitize_channel_name ascii_lower (code_points (sanitize_channel_name ascii_lower (code_points ''-My Room!-'')))
      = sanitize_channel_name ascii_lower (code_points ''-My Room!-'')"
  by (rule sanitize_idempotent) (simp add: lower_laws_def ascii_lower_def)

end
