(* ===== verification/Net_Addr.thy ===== *)
theory Net_Addr
  imports Prelude
begin

text \<open>
  The addresses of \<open>std::net\<close> the program compares and canonicalises: \<open>IpAddr\<close>,
  \<open>SocketAddr\<close> (an IPv6 socket address also carries its flow label and its scope) and
  \<open>IpAddr::to_canonical\<close>, which reads a v4-mapped IPv6 address \<open>::ffff:a.b.c.d\<close> as
  the IPv4 address.
\<close>

datatype ip_addr = V4 "32 word" | V6 "128 word"

datatype socket_addr =
    SockV4 "32 word" (sock_port: "16 word")
  | SockV6 "128 word" (sock_port: "16 word") "32 word" "32 word" \<comment> \<open>flow info, scope id\<close>

fun sock_ip :: "socket_addr \<Rightarrow> ip_addr" where
  "sock_ip (SockV4 a _) = V4 a"
| "sock_ip (SockV6 a _ _ _) = V6 a"

fun to_canonical :: "ip_addr \<Rightarrow> ip_addr" where
  "to_canonical (V4 a) = V4 a"
| "to_canonical (V6 a) =
    (if unat a div 2 ^ 32 = 0xFFFF then V4 (of_nat (unat a mod 2 ^ 32)) else V6 a)"

lemma to_canonical_idem [simp]: "to_canonical (to_canonical ip) = to_canonical ip"
  by (cases ip) auto

lemma to_canonical_mapped:
  assumes "n = 0xFFFF * 2 ^ 32 + unat (a :: 32 word)"
  shows "to_canonical (V6 (of_nat n)) = V4 a"
proof -
  have a: "unat a < 2 ^ 32" using unat_lt2p [of a] by simp
  with assms have "n < 2 ^ 128" by simp
  then have "unat (of_nat n :: 128 word) = n" by (simp add: unat_of_nat)
  moreover have d: "n div 2 ^ 32 = 0xFFFF"
    by (rule div_nat_eqI) (use a assms in simp_all)
  moreover have "n mod 2 ^ 32 = unat a"
    using d assms minus_div_mult_eq_mod [of n "2 ^ 32"] by simp
  ultimately show ?thesis by simp
qed

end
