(* ===== verification/Metrics.thy ===== *)
theory Metrics
  imports Prelude
begin

text \<open>
  \<^verbatim>\<open>crates/server/src/metrics.rs\<close>: the server's counters, the snapshot of all of them and
  the saturating difference of two snapshots that is logged. \<open>fetch_add\<close> on an
  \<open>AtomicU64\<close> wraps, as addition on \<open>64 word\<close> does.
\<close>

record metrics =
  m_udp_packets_in :: "64 word"
  m_udp_bytes_in :: "64 word"
  m_udp_hellos_ok :: "64 word"
  m_udp_hellos_invalid :: "64 word"
  m_udp_keepalives :: "64 word"
  m_udp_voice_relayed :: "64 word"
  m_udp_voice_malformed :: "64 word"
  m_udp_bytes_relayed :: "64 word"
  m_udp_fanout_total :: "64 word"
  m_tcp_sends :: "64 word"
  m_tcp_broadcast_sends :: "64 word"
  m_tcp_drops_queue_full :: "64 word"
  m_tcp_rate_limited :: "64 word"

record snapshot =
  s_udp_packets_in :: "64 word"
  s_udp_bytes_in :: "64 word"
  s_udp_hellos_ok :: "64 word"
  s_udp_hellos_invalid :: "64 word"
  s_udp_keepalives :: "64 word"
  s_udp_voice_relayed :: "64 word"
  s_udp_voice_malformed :: "64 word"
  s_udp_bytes_relayed :: "64 word"
  s_udp_fanout_total :: "64 word"
  s_tcp_sends :: "64 word"
  s_tcp_broadcast_sends :: "64 word"
  s_tcp_drops_queue_full :: "64 word"
  s_tcp_rate_limited :: "64 word"

definition metrics_new :: metrics where
  "metrics_new = \<lparr>m_udp_packets_in = 0,
     m_udp_bytes_in = 0,
     m_udp_hellos_ok = 0,
     m_udp_hellos_invalid = 0,
     m_udp_keepalives = 0,
     m_udp_voice_relayed = 0,
     m_udp_voice_malformed = 0,
     m_udp_bytes_relayed = 0,
     m_udp_fanout_total = 0,
     m_tcp_sends = 0,
     m_tcp_broadcast_sends = 0,
     m_tcp_drops_queue_full = 0,
     m_tcp_rate_limited = 0\<rparr>"

definition metrics_snapshot :: "metrics \<Rightarrow> snapshot" where
  "metrics_snapshot m = \<lparr>s_udp_packets_in = m_udp_packets_in m,
     s_udp_bytes_in = m_udp_bytes_in m,
     s_udp_hellos_ok = m_udp_hellos_ok m,
     s_udp_hellos_invalid = m_udp_hellos_invalid m,
     s_udp_keepalives = m_udp_keepalives m,
     s_udp_voice_relayed = m_udp_voice_relayed m,
     s_udp_voice_malformed = m_udp_voice_malformed m,
     s_udp_bytes_relayed = m_udp_bytes_relayed m,
     s_udp_fanout_total = m_udp_fanout_total m,
     s_tcp_sends = m_tcp_sends m,
     s_tcp_broadcast_sends = m_tcp_broadcast_sends m,
     s_tcp_drops_queue_full = m_tcp_drops_queue_full m,
     s_tcp_rate_limited = m_tcp_rate_limited m\<rparr>"

definition saturating_sub :: "64 word \<Rightarrow> 64 word \<Rightarrow> 64 word" where
  "saturating_sub a b = (if b \<le> a then a - b else 0)"

definition snapshot_delta :: "snapshot \<Rightarrow> snapshot \<Rightarrow> snapshot" where
  "snapshot_delta s prev = \<lparr>s_udp_packets_in = saturating_sub (s_udp_packets_in s) (s_udp_packets_in prev),
     s_udp_bytes_in = saturating_sub (s_udp_bytes_in s) (s_udp_bytes_in prev),
     s_udp_hellos_ok = saturating_sub (s_udp_hellos_ok s) (s_udp_hellos_ok prev),
     s_udp_hellos_invalid = saturating_sub (s_udp_hellos_invalid s) (s_udp_hellos_invalid prev),
     s_udp_keepalives = saturating_sub (s_udp_keepalives s) (s_udp_keepalives prev),
     s_udp_voice_relayed = saturating_sub (s_udp_voice_relayed s) (s_udp_voice_relayed prev),
     s_udp_voice_malformed = saturating_sub (s_udp_voice_malformed s) (s_udp_voice_malformed prev),
     s_udp_bytes_relayed = saturating_sub (s_udp_bytes_relayed s) (s_udp_bytes_relayed prev),
     s_udp_fanout_total = saturating_sub (s_udp_fanout_total s) (s_udp_fanout_total prev),
     s_tcp_sends = saturating_sub (s_tcp_sends s) (s_tcp_sends prev),
     s_tcp_broadcast_sends = saturating_sub (s_tcp_broadcast_sends s) (s_tcp_broadcast_sends prev),
     s_tcp_drops_queue_full = saturating_sub (s_tcp_drops_queue_full s) (s_tcp_drops_queue_full prev),
     s_tcp_rate_limited = saturating_sub (s_tcp_rate_limited s) (s_tcp_rate_limited prev)\<rparr>"

text \<open>A logged delta added to the previous snapshot is the current one, whatever the order of
  the counters' increments, as long as no counter wrapped in between.\<close>

definition snapshot_fields :: "snapshot \<Rightarrow> 64 word list" where
  "snapshot_fields s = [s_udp_packets_in s, s_udp_bytes_in s, s_udp_hellos_ok s, s_udp_hellos_invalid s, s_udp_keepalives s, s_udp_voice_relayed s, s_udp_voice_malformed s, s_udp_bytes_relayed s, s_udp_fanout_total s, s_tcp_sends s, s_tcp_broadcast_sends s, s_tcp_drops_queue_full s, s_tcp_rate_limited s]"

lemma saturating_sub_add: "b \<le> a \<Longrightarrow> b + saturating_sub a b = a"
  by (simp add: saturating_sub_def)

lemma snapshot_delta_adds:
  assumes "list_all2 (\<le>) (snapshot_fields prev) (snapshot_fields s)"
  shows "map2 (+) (snapshot_fields prev) (snapshot_fields (snapshot_delta s prev)) = snapshot_fields s"
  using assms by (simp add: snapshot_fields_def snapshot_delta_def saturating_sub_add)

lemma snapshot_new: "snapshot_fields (metrics_snapshot metrics_new) = replicate 13 0"
  by (simp add: snapshot_fields_def metrics_snapshot_def metrics_new_def numeral_eq_Suc)

end
