(* ===== verification/Server_State.thy ===== *)
theory Server_State
  imports Protocol Net_Addr Metrics
begin

text \<open>
  \<^verbatim>\<open>crates/server/src/state.rs\<close>: the state every task of the server shares. The record is
  \<open>Inner\<close> together with the peer cache and the metrics. Each operation holds the write
  lock from start to end, so it is one function from state to state; \<open>Instant::now()\<close> and
  the random generator are arguments, and an operation that draws until an unused value comes up
  is an option (\<open>None\<close>: it never returns). The two-level \<open>ArcSwap\<close> of the peer cache is
  one map, which each operation replaces at its end.
\<close>

section \<open>The state\<close>

record limits =
  max_channels :: nat
  max_clients :: nat
  limit_multiplier :: rat

definition limits_default :: limits where
  "limits_default = \<lparr>max_channels = 0, max_clients = 0, limit_multiplier = 1\<rparr>"

record client_info =
  ci_name :: string
  ci_channel :: "channel_id option"
  ci_udp_addr :: "socket_addr option"
  ci_pubkey :: "byte list option"

record server_state =
  channels :: "(channel_id \<times> socket_addr list) list"
  clients :: "(socket_addr \<times> client_info) list"
  pubkey_index :: "(byte list \<times> socket_addr) list"
  channel_keys :: "(channel_id \<times> byte list) list"
  channel_created_at :: "(channel_id \<times> instant) list"
  persistent :: "channel_id list"
  udp_tokens :: "(64 word \<times> socket_addr \<times> channel_id \<times> instant) list"
  name_counter :: "64 word"
  limits :: limits
  peer_cache :: "(channel_id \<times> socket_addr list) list"
  metrics :: metrics

record stats =
  stat_clients :: nat
  stat_channels :: nat
  stat_udp_peers :: nat

definition with_metrics :: "limits \<Rightarrow> metrics \<Rightarrow> server_state" where
  "with_metrics L m =
    \<lparr>channels = [], clients = [], pubkey_index = [], channel_keys = [], channel_created_at = [],
     persistent = [], udp_tokens = [], name_counter = 0, limits = L, peer_cache = [], metrics = m\<rparr>"

definition state_new :: "limits \<Rightarrow> server_state" where
  "state_new L = with_metrics L metrics_new"

definition rate_limit_multiplier :: "server_state \<Rightarrow> rat" where
  "rate_limit_multiplier s = max (limit_multiplier (limits s)) (f64 (1 / 10000))"

definition stats_of :: "server_state \<Rightarrow> stats" where
  "stats_of s =
    \<lparr>stat_clients = length (clients s), stat_channels = length (channels s),
     stat_udp_peers = sum_list (map (length \<circ> snd) (channels s))\<rparr>"

section \<open>The peer cache\<close>

definition update_channel_peers :: "channel_id \<Rightarrow> server_state \<Rightarrow> server_state" where
  "update_channel_peers ch s =
    (let new_peers = (case hm_get (channels s) ch of Some ps \<Rightarrow> ps | None \<Rightarrow> [])
     in s\<lparr>peer_cache := hm_insert ch new_peers (peer_cache s)\<rparr>)"

definition remove_channel_from_cache :: "channel_id \<Rightarrow> server_state \<Rightarrow> server_state" where
  "remove_channel_from_cache ch s =
    (if \<not> hm_contains (peer_cache s) ch then s
     else s\<lparr>peer_cache := hm_remove ch (peer_cache s)\<rparr>)"

definition fill_channel_peers :: "channel_id \<Rightarrow> socket_addr \<Rightarrow> server_state \<Rightarrow> socket_addr list" where
  "fill_channel_peers ch exclude s =
    (case hm_get (peer_cache s) ch of
       Some peers \<Rightarrow> filter (\<lambda>a. a \<noteq> exclude) peers
     | None \<Rightarrow> [])"

section \<open>Clients\<close>

definition new_client :: "string \<Rightarrow> client_info" where
  "new_client name = \<lparr>ci_name = name, ci_channel = None, ci_udp_addr = None, ci_pubkey = None\<rparr>"

definition register_client :: "socket_addr \<Rightarrow> server_state \<Rightarrow> (string + string) \<times> server_state" where
  "register_client tcp_addr s =
    (if max_clients (limits s) > 0 \<and> length (clients s) \<ge> max_clients (limits s)
     then (Inl ''server full'', s)
     else let counter = name_counter s + 1; name = ''user-'' @ decimal (unat counter)
       in (Inr name, s\<lparr>name_counter := counter,
             clients := hm_insert tcp_addr (new_client name) (clients s)\<rparr>))"

definition set_pubkey :: "socket_addr \<Rightarrow> byte list \<Rightarrow> server_state \<Rightarrow> server_state" where
  "set_pubkey tcp_addr pubkey s =
    (case hm_get (clients s) tcp_addr of
       None \<Rightarrow> s
     | Some client \<Rightarrow>
        let idx = (case ci_pubkey client of
            Some old \<Rightarrow> if old \<noteq> pubkey then hm_remove old (pubkey_index s) else pubkey_index s
          | None \<Rightarrow> pubkey_index s)
        in s\<lparr>clients := hm_insert tcp_addr (client\<lparr>ci_pubkey := Some pubkey\<rparr>) (clients s),
             pubkey_index := hm_insert pubkey tcp_addr idx\<rparr>)"

definition lookup_pubkey :: "byte list \<Rightarrow> server_state \<Rightarrow> socket_addr option" where
  "lookup_pubkey pubkey s = hm_get (pubkey_index s) pubkey"

text \<open>The end of a membership, as \<open>remove_client\<close> and \<open>leave_channel\<close> both write it: drop
  the UDP address from the participants, destroy the channel when none is left, refresh the
  cache.\<close>

definition vacate_channel :: "channel_id \<Rightarrow> socket_addr option \<Rightarrow> server_state \<Rightarrow> server_state" where
  "vacate_channel ch udp_addr s =
    (let is_persistent = ch \<in> set (persistent s);
       (s1, channel_destroyed) = (case hm_get (channels s) ch of
           None \<Rightarrow> (s, False)
         | Some ps \<Rightarrow>
            let participants = (case udp_addr of Some udp \<Rightarrow> removeAll udp ps | None \<Rightarrow> ps)
            in if participants = [] \<and> \<not> is_persistent
               then (s\<lparr>channels := hm_remove ch (channels s),
                       channel_keys := hm_remove ch (channel_keys s),
                       channel_created_at := hm_remove ch (channel_created_at s)\<rparr>, True)
               else (s\<lparr>channels := hm_insert ch participants (channels s)\<rparr>, False))
     in if channel_destroyed then remove_channel_from_cache ch s1 else update_channel_peers ch s1)"

definition drop_tokens :: "socket_addr \<Rightarrow> server_state \<Rightarrow> server_state" where
  "drop_tokens tcp_addr s =
    s\<lparr>udp_tokens := hm_retain (\<lambda>_ (addr, _, _). addr \<noteq> tcp_addr) (udp_tokens s)\<rparr>"

definition remove_client ::
    "socket_addr \<Rightarrow> server_state \<Rightarrow> (string \<times> channel_id option) option \<times> server_state" where
  "remove_client tcp_addr s =
    (case hm_get (clients s) tcp_addr of
       None \<Rightarrow> (None, s)
     | Some info \<Rightarrow>
        let s = s\<lparr>clients := hm_remove tcp_addr (clients s)\<rparr>;
          s = (case ci_pubkey info of
              Some pk \<Rightarrow> s\<lparr>pubkey_index := hm_remove pk (pubkey_index s)\<rparr>
            | None \<Rightarrow> s);
          s = drop_tokens tcp_addr s;
          s = (case ci_channel info of
              Some ch \<Rightarrow> vacate_channel ch (ci_udp_addr info) s
            | None \<Rightarrow> s)
        in (Some (ci_name info, ci_channel info), s))"

definition rename_client ::
    "socket_addr \<Rightarrow> string \<Rightarrow> server_state \<Rightarrow> (string \<times> channel_id option) option \<times> server_state" where
  "rename_client tcp_addr new_name s =
    (case hm_get (clients s) tcp_addr of
       None \<Rightarrow> (None, s)
     | Some client \<Rightarrow>
        (Some (ci_name client, ci_channel client),
         s\<lparr>clients := hm_insert tcp_addr (client\<lparr>ci_name := new_name\<rparr>) (clients s)\<rparr>))"

definition get_client :: "socket_addr \<Rightarrow> server_state \<Rightarrow> client_info option" where
  "get_client tcp_addr s = hm_get (clients s) tcp_addr"

section \<open>Channels\<close>

definition add_channel :: "channel_id \<Rightarrow> byte list \<Rightarrow> instant \<Rightarrow> server_state \<Rightarrow> server_state" where
  "add_channel ch key now s =
    s\<lparr>channels := hm_insert ch [] (channels s),
      channel_keys := hm_insert ch key (channel_keys s),
      channel_created_at := hm_insert ch now (channel_created_at s)\<rparr>"

definition at_channel_limit :: "server_state \<Rightarrow> bool" where
  "at_channel_limit s \<longleftrightarrow>
    max_channels (limits s) > 0 \<and> length (channels s) \<ge> max_channels (limits s)"

definition create_channel ::
    "string option \<Rightarrow> instant \<Rightarrow> rng \<Rightarrow> server_state \<Rightarrow>
     ((string + channel_id) \<times> server_state \<times> rng) option" where
  "create_channel name now r s =
    (if at_channel_limit s then Some (Inl ''channel limit reached'', s, r)
     else case name of
       Some name \<Rightarrow>
        let ch = PUBLIC_CHANNEL_PREFIX @ name in
        if hm_contains (channels s) ch
        then Some (Inl (''channel '' @ [CHR 0x27] @ ch @ [CHR 0x27] @ '' already exists''), s, r)
        else let (key, r) = random_key r in Some (Inr ch, add_channel ch key now s, r)
     | None \<Rightarrow>
        (case draw_until generate_channel_id (\<lambda>ch. \<not> hm_contains (channels s) ch) r of
           None \<Rightarrow> None
         | Some (ch, r) \<Rightarrow>
            let (key, r) = random_key r in Some (Inr ch, add_channel ch key now s, r)))"

definition create_persistent_channel ::
    "string \<Rightarrow> instant \<Rightarrow> rng \<Rightarrow> server_state \<Rightarrow>
     ((string + channel_id) \<times> server_state \<times> rng) option" where
  "create_persistent_channel name now r s =
    (case create_channel (Some name) now r s of
       None \<Rightarrow> None
     | Some (Inl e, s, r) \<Rightarrow> Some (Inl e, s, r)
     | Some (Inr ch, s, r) \<Rightarrow> Some (Inr ch, s\<lparr>persistent := List.insert ch (persistent s)\<rparr>, r))"

fun count_clients :: "(channel_id \<times> 32 word) list \<Rightarrow> client_info list \<Rightarrow> (channel_id \<times> 32 word) list" where
  "count_clients counts [] = counts"
| "count_clients counts (c # cs) =
    (case ci_channel c of
       None \<Rightarrow> count_clients counts cs
     | Some ch \<Rightarrow>
        count_clients (hm_insert ch ((case hm_get counts ch of Some n \<Rightarrow> n | None \<Rightarrow> 0) + 1) counts) cs)"

definition list_public_channels :: "server_state \<Rightarrow> (channel_id \<times> 32 word) list" where
  "list_public_channels s =
    (let counts = count_clients [] (map snd (clients s))
     in map (\<lambda>ch. (ch, case hm_get counts ch of Some n \<Rightarrow> n | None \<Rightarrow> 0))
          (filter (starts_with PUBLIC_CHANNEL_PREFIX) (map fst (channels s))))"

definition fresh_token :: "server_state \<Rightarrow> 64 word \<Rightarrow> bool" where
  "fresh_token s t \<longleftrightarrow> t \<noteq> 0 \<and> \<not> hm_contains (udp_tokens s) t"

definition in_channel :: "channel_id \<Rightarrow> client_info \<Rightarrow> bool" where
  "in_channel ch c \<longleftrightarrow> ci_channel c = Some ch"

definition rotate_voice_key :: "channel_id \<Rightarrow> rng \<Rightarrow> server_state \<Rightarrow> server_state \<times> rng" where
  "rotate_voice_key ch r s =
    (let occupied = list_ex (in_channel ch) (map snd (clients s))
     in if \<not> occupied \<and> ch \<in> set (persistent s)
        then (let (key, r) = random_key r in (s\<lparr>channel_keys := hm_insert ch key (channel_keys s)\<rparr>, r))
        else (s, r))"

definition join_channel ::
    "socket_addr \<Rightarrow> channel_id \<Rightarrow> instant \<Rightarrow> rng \<Rightarrow> server_state \<Rightarrow>
     ((string + string list \<times> 64 word \<times> byte list) \<times> server_state \<times> rng) option" where
  "join_channel tcp_addr ch now r s =
    (if \<not> hm_contains (channels s) ch
     then Some (Inl (''channel '' @ [CHR 0x27] @ ch @ [CHR 0x27] @ '' not found''), s, r)
     else case hm_get (clients s) tcp_addr of
       None \<Rightarrow> Some (Inl ''client not registered'', s, r)
     | Some c \<Rightarrow>
        if ci_channel c \<noteq> None then Some (Inl ''already in a channel, leave first'', s, r)
        else
          let (s, r) = rotate_voice_key ch r s;
            s = s\<lparr>clients := hm_insert tcp_addr (c\<lparr>ci_channel := Some ch\<rparr>) (clients s)\<rparr>
          in case draw_until random_u64 (fresh_token s) r of
               None \<Rightarrow> None
             | Some (token, r) \<Rightarrow>
                let s = s\<lparr>udp_tokens := hm_insert token (tcp_addr, ch, now) (udp_tokens s)\<rparr>;
                  names = map ci_name (filter (in_channel ch) (map snd (clients s)));
                  voice_key = (case hm_get (channel_keys s) ch of Some k \<Rightarrow> k | None \<Rightarrow> [])
                in Some (Inr (names, token, voice_key), s, r))"

definition draw_echo_id :: "rng \<Rightarrow> channel_id \<times> rng" where
  "draw_echo_id r = (let (ch, r) = generate_channel_id r in (ECHO_CHANNEL_PREFIX @ ch, r))"

definition start_echo_test ::
    "socket_addr \<Rightarrow> instant \<Rightarrow> rng \<Rightarrow> server_state \<Rightarrow>
     ((string + channel_id \<times> 64 word \<times> byte list) \<times> server_state \<times> rng) option" where
  "start_echo_test tcp_addr now r s =
    (if at_channel_limit s then Some (Inl ''channel limit reached'', s, r)
     else case hm_get (clients s) tcp_addr of
       None \<Rightarrow> Some (Inl ''client not registered'', s, r)
     | Some client \<Rightarrow>
        if ci_channel client \<noteq> None then Some (Inl ''already in a channel, leave first'', s, r)
        else (case draw_until draw_echo_id (\<lambda>ch. \<not> hm_contains (channels s) ch) r of
            None \<Rightarrow> None
          | Some (ch, r) \<Rightarrow>
             let (key, r) = random_key r; s = add_channel ch key now s
             in case draw_until random_u64 (fresh_token s) r of
                  None \<Rightarrow> None
                | Some (token, r) \<Rightarrow>
                   let s = s\<lparr>udp_tokens := hm_insert token (tcp_addr, ch, now) (udp_tokens s)\<rparr>;
                     s = s\<lparr>clients := hm_insert tcp_addr (client\<lparr>ci_channel := Some ch\<rparr>) (clients s)\<rparr>
                   in Some (Inr (ch, token, key), s, r)))"

definition leave_channel ::
    "socket_addr \<Rightarrow> server_state \<Rightarrow> (string \<times> channel_id) option \<times> server_state" where
  "leave_channel tcp_addr s =
    (case hm_get (clients s) tcp_addr of
       None \<Rightarrow> (None, s)
     | Some client \<Rightarrow>
        (case ci_channel client of
           None \<Rightarrow> (None, s)
         | Some ch \<Rightarrow>
            let s = s\<lparr>clients := hm_insert tcp_addr
                  (client\<lparr>ci_channel := None, ci_udp_addr := None\<rparr>) (clients s)\<rparr>;
              s = drop_tokens tcp_addr s;
              s = vacate_channel ch (ci_udp_addr client) s
            in (Some (ci_name client, ch), s)))"

section \<open>UDP registration\<close>

definition register_udp_by_token ::
    "64 word \<Rightarrow> socket_addr \<Rightarrow> instant \<Rightarrow> server_state \<Rightarrow> bool \<times> server_state" where
  "register_udp_by_token token udp_addr now s =
    (case hm_get (udp_tokens s) token of
       None \<Rightarrow> (False, s)
     | Some (tcp_addr, ch, _) \<Rightarrow>
        if to_canonical (sock_ip tcp_addr) \<noteq> to_canonical (sock_ip udp_addr) then (False, s)
        else
          let s = s\<lparr>udp_tokens := hm_insert token (tcp_addr, ch, now) (udp_tokens s)\<rparr>
          in case hm_get (clients s) tcp_addr of
               None \<Rightarrow> (False, s)
             | Some client \<Rightarrow>
                let prev_udp = ci_udp_addr client;
                  s = s\<lparr>clients := hm_insert tcp_addr (client\<lparr>ci_udp_addr := Some udp_addr\<rparr>) (clients s)\<rparr>;
                  s = (case hm_get (channels s) ch of
                      None \<Rightarrow> s
                    | Some participants \<Rightarrow>
                       let participants = (case prev_udp of
                           Some old \<Rightarrow> if old \<noteq> udp_addr then removeAll old participants else participants
                         | None \<Rightarrow> participants)
                       in s\<lparr>channels := hm_insert ch (List.insert udp_addr participants) (channels s)\<rparr>)
                in (True, update_channel_peers ch s))"

section \<open>Broadcast and cleanup\<close>

definition broadcast_channel_addrs :: "channel_id \<Rightarrow> socket_addr option \<Rightarrow> server_state \<Rightarrow> socket_addr list" where
  "broadcast_channel_addrs ch exclude s =
    map fst (filter (\<lambda>(addr, info). in_channel ch info \<and> exclude \<noteq> Some addr) (clients s))"

definition occupied_channels :: "server_state \<Rightarrow> channel_id list" where
  "occupied_channels s = List.map_filter ci_channel (map snd (clients s))"

fun remove_channels :: "channel_id list \<Rightarrow> server_state \<Rightarrow> server_state" where
  "remove_channels [] s = s"
| "remove_channels (ch # chs) s =
    remove_channels chs
      (s\<lparr>channels := hm_remove ch (channels s), channel_keys := hm_remove ch (channel_keys s),
         channel_created_at := hm_remove ch (channel_created_at s),
         udp_tokens := hm_retain (\<lambda>_ (_, c, _). c \<noteq> ch) (udp_tokens s)\<rparr>)"

definition reapable :: "duration \<Rightarrow> instant \<Rightarrow> server_state \<Rightarrow> channel_id \<Rightarrow> socket_addr list \<Rightarrow> bool" where
  "reapable grace now s ch participants \<longleftrightarrow>
     participants = [] \<and> ch \<notin> set (occupied_channels s) \<and> ch \<notin> set (persistent s) \<and>
     (case hm_get (channel_created_at s) ch of Some t \<Rightarrow> now - t > grace | None \<Rightarrow> True)"

definition cleanup_with ::
    "duration \<Rightarrow> duration \<Rightarrow> instant \<Rightarrow> server_state \<Rightarrow> channel_id list \<times> server_state" where
  "cleanup_with grace token_ttl now s =
    (let empty = map fst (filter (\<lambda>(ch, ps). reapable grace now s ch ps) (channels s));
       s = remove_channels empty s;
       s = s\<lparr>udp_tokens := hm_retain
             (\<lambda>_ (tcp, ch, created).
                (case hm_get (clients s) tcp of Some c \<Rightarrow> in_channel ch c | None \<Rightarrow> False)
                \<or> now - created < token_ttl) (udp_tokens s)\<rparr>
     in (empty, s))"

definition cleanup_empty_channels :: "instant \<Rightarrow> server_state \<Rightarrow> channel_id list \<times> server_state" where
  "cleanup_empty_channels =
    cleanup_with (secs (MAINTENANCE_INTERVAL_SECS * 2)) (secs UDP_TOKEN_TTL_SECS)"

end
