(* ===== verification/Server_Invariant.thy ===== *)
theory Server_Invariant
  imports Server_State
begin

text \<open>
  The invariant of \<open>ServerState\<close>, that every operation preserves it, and the reachable states
  of the server: any interleaving of the operations by any tasks, since each runs under the lock.
\<close>

section \<open>Views of the state\<close>

definition participants :: "server_state \<Rightarrow> channel_id \<Rightarrow> socket_addr list" where
  "participants s ch = (case hm_get (channels s) ch of Some ps \<Rightarrow> ps | None \<Rightarrow> [])"

definition cached_peers :: "server_state \<Rightarrow> channel_id \<Rightarrow> socket_addr list" where
  "cached_peers s ch = (case hm_get (peer_cache s) ch of Some ps \<Rightarrow> ps | None \<Rightarrow> [])"

definition member :: "server_state \<Rightarrow> socket_addr \<Rightarrow> channel_id \<Rightarrow> bool" where
  "member s a ch \<longleftrightarrow> (\<exists>c. hm_get (clients s) a = Some c \<and> ci_channel c = Some ch)"

definition udp_of :: "server_state \<Rightarrow> socket_addr \<Rightarrow> socket_addr option" where
  "udp_of s a = (case hm_get (clients s) a of Some c \<Rightarrow> ci_udp_addr c | None \<Rightarrow> None)"

section \<open>The invariant\<close>

definition wf_maps :: "server_state \<Rightarrow> bool" where
  "wf_maps s \<longleftrightarrow> keys_distinct (channels s) \<and> keys_distinct (clients s) \<and>
     keys_distinct (pubkey_index s) \<and> keys_distinct (channel_keys s) \<and>
     keys_distinct (channel_created_at s) \<and> keys_distinct (udp_tokens s) \<and>
     keys_distinct (peer_cache s) \<and> distinct (persistent s) \<and> (\<forall>ch. distinct (participants s ch))"

text \<open>Every channel has a voice key of 32 bytes and a creation time; persistent channels exist.\<close>

definition wf_channels :: "server_state \<Rightarrow> bool" where
  "wf_channels s \<longleftrightarrow>
     (\<forall>ch. (hm_get (channel_keys s) ch = None) = (hm_get (channels s) ch = None)) \<and>
     (\<forall>ch. (hm_get (channel_created_at s) ch = None) = (hm_get (channels s) ch = None)) \<and>
     (\<forall>ch k. hm_get (channel_keys s) ch = Some k \<longrightarrow> length k = 32) \<and>
     (\<forall>ch \<in> set (persistent s). hm_contains (channels s) ch \<and> starts_with PUBLIC_CHANNEL_PREFIX ch)"

text \<open>The pending tokens are the memberships: each member of a channel holds exactly one token,
  for that channel, and every token is held by a member. Token 0 is never issued.\<close>

definition wf_tokens :: "server_state \<Rightarrow> bool" where
  "wf_tokens s \<longleftrightarrow>
     hm_get (udp_tokens s) 0 = None \<and>
     (\<forall>t a ch i. hm_get (udp_tokens s) t = Some (a, ch, i) \<longrightarrow> member s a ch) \<and>
     (\<forall>a ch. member s a ch \<longrightarrow> (\<exists>t i. hm_get (udp_tokens s) t = Some (a, ch, i))) \<and>
     (\<forall>t t' a x x'. hm_get (udp_tokens s) t = Some (a, x) \<longrightarrow> hm_get (udp_tokens s) t' = Some (a, x') \<longrightarrow> t = t')"

text \<open>A participant's UDP address was registered by a member of the channel, and from the same
  host as its TCP session.\<close>

definition wf_peers :: "server_state \<Rightarrow> bool" where
  "wf_peers s \<longleftrightarrow>
     (\<forall>ch. \<forall>u \<in> set (participants s ch). \<exists>a. member s a ch \<and> udp_of s a = Some u) \<and>
     (\<forall>a u. udp_of s a = Some u \<longrightarrow>
        to_canonical (sock_ip a) = to_canonical (sock_ip u) \<and> (\<exists>ch. member s a ch))"

definition wf_cache :: "server_state \<Rightarrow> bool" where
  "wf_cache s \<longleftrightarrow> (\<forall>ch. cached_peers s ch = participants s ch)"

definition wf_index :: "server_state \<Rightarrow> bool" where
  "wf_index s \<longleftrightarrow> (\<forall>pk a. hm_get (pubkey_index s) pk = Some a \<longrightarrow>
     (\<exists>c. hm_get (clients s) a = Some c \<and> ci_pubkey c = Some pk))"

definition wf_limits :: "server_state \<Rightarrow> bool" where
  "wf_limits s \<longleftrightarrow>
     (max_clients (limits s) > 0 \<longrightarrow> length (clients s) \<le> max_clients (limits s)) \<and>
     (max_channels (limits s) > 0 \<longrightarrow> length (channels s) \<le> max_channels (limits s))"

definition server_ok :: "server_state \<Rightarrow> bool" where
  "server_ok s \<longleftrightarrow> wf_maps s \<and> wf_channels s \<and> wf_tokens s \<and> wf_peers s \<and> wf_cache s \<and>
     wf_index s \<and> wf_limits s"

lemma server_okD:
  assumes "server_ok s"
  shows "wf_maps s" "wf_channels s" "wf_tokens s" "wf_peers s" "wf_cache s" "wf_index s" "wf_limits s"
  using assms by (simp_all add: server_ok_def)

lemma server_okI:
  "wf_maps s \<Longrightarrow> wf_channels s \<Longrightarrow> wf_tokens s \<Longrightarrow> wf_peers s \<Longrightarrow> wf_cache s \<Longrightarrow> wf_index s \<Longrightarrow>
   wf_limits s \<Longrightarrow> server_ok s"
  by (simp add: server_ok_def)

lemma server_ok_new: "server_ok (with_metrics L m)"
  by (simp add: server_ok_def wf_maps_def wf_channels_def wf_tokens_def wf_peers_def wf_cache_def
      wf_index_def wf_limits_def with_metrics_def participants_def cached_peers_def member_def udp_of_def)

section \<open>Frames: what an operation does not touch\<close>

lemma views_cong:
  "channels s' = channels s \<Longrightarrow> participants s' = participants s"
  "peer_cache s' = peer_cache s \<Longrightarrow> cached_peers s' = cached_peers s"
  "clients s' = clients s \<Longrightarrow> member s' = member s"
  "clients s' = clients s \<Longrightarrow> udp_of s' = udp_of s"
  by (simp_all add: participants_def cached_peers_def member_def udp_of_def fun_eq_iff)

lemma wf_congs:
  assumes "channels s' = channels s" "clients s' = clients s" "pubkey_index s' = pubkey_index s"
    "channel_keys s' = channel_keys s" "channel_created_at s' = channel_created_at s"
    "persistent s' = persistent s" "udp_tokens s' = udp_tokens s" "limits s' = limits s"
    "peer_cache s' = peer_cache s"
  shows "server_ok s' = server_ok s"
  using assms
  by (simp add: server_ok_def wf_maps_def wf_channels_def wf_tokens_def wf_peers_def wf_cache_def
      wf_index_def wf_limits_def views_cong [of s' s])

lemma server_ok_metrics [simp]: "server_ok (s\<lparr>metrics := m\<rparr>) = server_ok s"
  by (rule wf_congs) simp_all

lemma members_list: "keys_distinct (clients s) \<Longrightarrow>
  (\<exists>c \<in> set (map snd (clients s)). ci_channel c = Some ch) \<longleftrightarrow> (\<exists>a. member s a ch)"
  by (auto simp: member_def hm_in_set [symmetric]) (metis snd_conv image_eqI, force)

section \<open>The peer cache follows the participants\<close>

lemma update_channel_peers_sel [simp]:
  "channels (update_channel_peers ch s) = channels s" "clients (update_channel_peers ch s) = clients s"
  "pubkey_index (update_channel_peers ch s) = pubkey_index s"
  "channel_keys (update_channel_peers ch s) = channel_keys s"
  "channel_created_at (update_channel_peers ch s) = channel_created_at s"
  "persistent (update_channel_peers ch s) = persistent s"
  "udp_tokens (update_channel_peers ch s) = udp_tokens s"
  "limits (update_channel_peers ch s) = limits s"
  by (simp_all add: update_channel_peers_def)

lemma cached_update [simp]:
  "cached_peers (update_channel_peers ch s) c = (if c = ch then participants s ch else cached_peers s c)"
  by (simp add: update_channel_peers_def cached_peers_def participants_def)

lemma remove_channel_from_cache_sel [simp]:
  "channels (remove_channel_from_cache ch s) = channels s"
  "clients (remove_channel_from_cache ch s) = clients s"
  "pubkey_index (remove_channel_from_cache ch s) = pubkey_index s"
  "channel_keys (remove_channel_from_cache ch s) = channel_keys s"
  "channel_created_at (remove_channel_from_cache ch s) = channel_created_at s"
  "persistent (remove_channel_from_cache ch s) = persistent s"
  "udp_tokens (remove_channel_from_cache ch s) = udp_tokens s"
  "limits (remove_channel_from_cache ch s) = limits s"
  by (simp_all add: remove_channel_from_cache_def)

lemma cached_remove [simp]:
  "cached_peers (remove_channel_from_cache ch s) c = (if c = ch then [] else cached_peers s c)"
  by (simp add: remove_channel_from_cache_def cached_peers_def)

lemma keys_distinct_cache [simp]:
  "keys_distinct (peer_cache s) \<Longrightarrow> keys_distinct (peer_cache (update_channel_peers ch s))"
  "keys_distinct (peer_cache s) \<Longrightarrow> keys_distinct (peer_cache (remove_channel_from_cache ch s))"
  by (simp_all add: update_channel_peers_def remove_channel_from_cache_def)

section \<open>Leaving a channel\<close>

definition without :: "socket_addr option \<Rightarrow> socket_addr list \<Rightarrow> socket_addr list" where
  "without udp ps = (case udp of Some u \<Rightarrow> removeAll u ps | None \<Rightarrow> ps)"

lemma set_without: "set (without udp ps) = set ps - set_option udp"
  by (auto simp: without_def split: option.splits)

lemma distinct_without [simp]: "distinct ps \<Longrightarrow> distinct (without udp ps)"
  by (auto simp: without_def distinct_removeAll split: option.splits)

lemma vacate_channel_sel [simp]:
  "clients (vacate_channel ch udp s) = clients s" "pubkey_index (vacate_channel ch udp s) = pubkey_index s"
  "persistent (vacate_channel ch udp s) = persistent s" "udp_tokens (vacate_channel ch udp s) = udp_tokens s"
  "limits (vacate_channel ch udp s) = limits s"
  by (auto simp: vacate_channel_def Let_def split: option.splits)

lemma vacate_views [simp]:
  "member (vacate_channel ch udp s) = member s" "udp_of (vacate_channel ch udp s) = udp_of s"
  by (rule views_cong; simp)+

text \<open>The channel is destroyed exactly when it existed, nobody registered a UDP address is
  left, and it is not persistent.\<close>

definition destroyed_by :: "channel_id \<Rightarrow> socket_addr option \<Rightarrow> server_state \<Rightarrow> bool" where
  "destroyed_by ch udp s \<longleftrightarrow> hm_contains (channels s) ch \<and> without udp (participants s ch) = [] \<and>
     ch \<notin> set (persistent s)"

lemma vacate_eq:
  "vacate_channel ch udp s =
    (if destroyed_by ch udp s
     then remove_channel_from_cache ch
       (s\<lparr>channels := hm_remove ch (channels s), channel_keys := hm_remove ch (channel_keys s),
          channel_created_at := hm_remove ch (channel_created_at s)\<rparr>)
     else update_channel_peers ch
       (if hm_contains (channels s) ch
        then s\<lparr>channels := hm_insert ch (without udp (participants s ch)) (channels s)\<rparr> else s))"
  by (auto simp: vacate_channel_def destroyed_by_def without_def participants_def Let_def split: option.splits)

lemma vacate_participants:
  "participants (vacate_channel ch udp s) c =
    (if c = ch then without udp (participants s ch) else participants s c)"
  by (auto simp: vacate_eq destroyed_by_def participants_def without_def split: option.splits)

lemma vacate_cached:
  "cached_peers (vacate_channel ch udp s) c =
    (if c = ch then without udp (participants s ch) else cached_peers s c)"
  by (auto simp: vacate_eq destroyed_by_def participants_def cached_peers_def without_def
      remove_channel_from_cache_def update_channel_peers_def split: option.splits)

lemma vacate_contains:
  "hm_get (channels (vacate_channel ch udp s)) c = None \<longleftrightarrow>
    hm_get (channels s) c = None \<or> (c = ch \<and> destroyed_by ch udp s)"
  by (auto simp: vacate_eq destroyed_by_def)

lemma vacate_keys:
  "hm_get (channel_keys (vacate_channel ch udp s)) c =
    (if c = ch \<and> destroyed_by ch udp s then None else hm_get (channel_keys s) c)"
  "hm_get (channel_created_at (vacate_channel ch udp s)) c =
    (if c = ch \<and> destroyed_by ch udp s then None else hm_get (channel_created_at s) c)"
  by (simp_all add: vacate_eq)

lemma vacate_maps:
  assumes "wf_maps s" shows "wf_maps (vacate_channel ch udp s)"
proof -
  have "distinct (participants (vacate_channel ch udp s) c)" for c
    using assms by (simp add: vacate_participants wf_maps_def)
  moreover have "keys_distinct (peer_cache (vacate_channel ch udp s))"
    using assms by (simp add: vacate_eq wf_maps_def)
  ultimately show ?thesis
    using assms by (simp add: wf_maps_def) (simp add: vacate_eq)
qed

lemma vacate_channels_wf: "wf_channels s \<Longrightarrow> wf_channels (vacate_channel ch udp s)"
  by (auto simp: wf_channels_def vacate_contains vacate_keys destroyed_by_def simp del: not_None_eq)

lemma vacate_cache: "wf_cache s \<Longrightarrow> wf_cache (vacate_channel ch udp s)"
  by (simp add: wf_cache_def vacate_cached vacate_participants)

lemma vacate_length: "wf_maps s \<Longrightarrow> length (channels (vacate_channel ch udp s)) \<le> length (channels s)"
  by (auto simp: vacate_eq wf_maps_def hm_length_insert hm_length_remove_le)

lemma vacate_limits: "wf_maps s \<Longrightarrow> wf_limits s \<Longrightarrow> wf_limits (vacate_channel ch udp s)"
  using vacate_length [of s ch udp] by (auto simp: wf_limits_def)

lemma vacate_index: "wf_index (vacate_channel ch udp s) = wf_index s"
  by (simp add: wf_index_def)

lemma vacate_tokens: "wf_tokens (vacate_channel ch udp s) = wf_tokens s"
  by (simp add: wf_tokens_def)

lemma member_insert [simp]:
  "member (s\<lparr>clients := hm_insert a c (clients s)\<rparr>) x ch =
    (if x = a then ci_channel c = Some ch else member s x ch)"
  by (simp add: member_def)

lemma udp_of_insert [simp]:
  "udp_of (s\<lparr>clients := hm_insert a c (clients s)\<rparr>) x = (if x = a then ci_udp_addr c else udp_of s x)"
  by (simp add: udp_of_def)

lemma member_remove [simp]:
  "member (s\<lparr>clients := hm_remove a (clients s)\<rparr>) x ch \<longleftrightarrow> x \<noteq> a \<and> member s x ch"
  by (simp add: member_def)

lemma udp_of_remove [simp]:
  "udp_of (s\<lparr>clients := hm_remove a (clients s)\<rparr>) x = (if x = a then None else udp_of s x)"
  by (simp add: udp_of_def)

lemma drop_tokens_get:
  "keys_distinct (udp_tokens s) \<Longrightarrow> hm_get (udp_tokens (drop_tokens a s)) t =
    (case hm_get (udp_tokens s) t of Some (b, x) \<Rightarrow> if b = a then None else Some (b, x) | None \<Rightarrow> None)"
  by (simp add: drop_tokens_def case_prod_beta split: option.splits)

lemma drop_tokens_sel [simp]:
  "channels (drop_tokens a s) = channels s" "clients (drop_tokens a s) = clients s"
  "pubkey_index (drop_tokens a s) = pubkey_index s" "channel_keys (drop_tokens a s) = channel_keys s"
  "channel_created_at (drop_tokens a s) = channel_created_at s" "persistent (drop_tokens a s) = persistent s"
  "limits (drop_tokens a s) = limits s" "peer_cache (drop_tokens a s) = peer_cache s"
  by (simp_all add: drop_tokens_def)

lemma member_fun: "member s a ch \<Longrightarrow> member s a ch' \<Longrightarrow> ch = ch'"
  by (auto simp: member_def)

lemma end_tokens:
  assumes "wf_maps s" and "wf_tokens s"
    and "udp_tokens s' = udp_tokens (drop_tokens a s)"
    and mem: "\<And>x c. member s' x c \<longleftrightarrow> x \<noteq> a \<and> member s x c"
  shows "wf_tokens s'" and "keys_distinct (udp_tokens s')"
proof -
  have k: "keys_distinct (udp_tokens s)" using assms(1) by (simp add: wf_maps_def)
  have g: "hm_get (udp_tokens s') t =
      (case hm_get (udp_tokens s) t of Some (b, x) \<Rightarrow> if b = a then None else Some (b, x) | None \<Rightarrow> None)" for t
    using drop_tokens_get [OF k] assms(3) by simp
  have some: "hm_get (udp_tokens s') t = Some (b, x) \<longleftrightarrow> b \<noteq> a \<and> hm_get (udp_tokens s) t = Some (b, x)" for t b x
    by (auto simp: g split: option.splits if_splits)
  have "hm_get (udp_tokens s') 0 = None" using assms(2) by (simp add: wf_tokens_def g)
  then show "wf_tokens s'" using assms(2) unfolding wf_tokens_def some mem by blast
  show "keys_distinct (udp_tokens s')" using k assms(3) by (simp add: drop_tokens_def)
qed

lemma end_peers:
  assumes "wf_peers s" and "udp_of s a = udp"
    and mem: "\<And>x c. member s' x c \<longleftrightarrow> x \<noteq> a \<and> member s x c"
    and udp: "\<And>x. udp_of s' x = (if x = a then None else udp_of s x)"
    and part: "\<And>c. set (participants s' c) \<subseteq> set (participants s c) - (if member s a c then set_option udp else {})"
  shows "wf_peers s'"
  unfolding wf_peers_def
proof (intro conjI allI ballI impI)
  fix c u
  assume "u \<in> set (participants s' c)"
  then have u: "u \<in> set (participants s c)" and n: "member s a c \<Longrightarrow> udp \<noteq> Some u" using part by fastforce+
  then obtain b where b: "member s b c" "udp_of s b = Some u"
    using assms(1) unfolding wf_peers_def by blast
  with n assms(2) have "b \<noteq> a" by auto
  with b show "\<exists>b. member s' b c \<and> udp_of s' b = Some u" by (auto simp: mem udp)
next
  fix b u
  assume "udp_of s' b = Some u"
  then have "b \<noteq> a" "udp_of s b = Some u" by (auto simp: udp split: if_splits)
  with assms(1) show "to_canonical (sock_ip b) = to_canonical (sock_ip u)" "\<exists>ch. member s' b ch"
    by (auto simp: wf_peers_def mem)
qed

lemma end_membership:
  assumes ok: "server_ok s"
    and "channels s' = channels s" "channel_keys s' = channel_keys s"
      "channel_created_at s' = channel_created_at s" "persistent s' = persistent s"
      "limits s' = limits s" "peer_cache s' = peer_cache s"
      "udp_tokens s' = udp_tokens (drop_tokens a s)"
    and mem: "\<And>x c. member s' x c \<longleftrightarrow> x \<noteq> a \<and> member s x c"
    and udp: "\<And>x. udp_of s' x = (if x = a then None else udp_of s x)"
    and "keys_distinct (clients s')" "keys_distinct (pubkey_index s')"
      "length (clients s') \<le> length (clients s)" "wf_index s'"
  shows "member s a ch \<Longrightarrow> server_ok (vacate_channel ch (udp_of s a) s')"
    and "\<forall>ch. \<not> member s a ch \<Longrightarrow> server_ok s'"
proof -
  note w = server_okD [OF ok]
  have p: "participants s' = participants s" and c: "cached_peers s' = cached_peers s"
    by (rule views_cong(1) [OF assms(2)], rule views_cong(2) [OF assms(7)])
  note tok = end_tokens [OF w(1,3) assms(8) mem]
  have maps: "wf_maps s'" using w(1) tok(2) assms by (simp add: wf_maps_def p)
  have chans: "wf_channels s'" using w(2) assms by (simp add: wf_channels_def)
  have cache: "wf_cache s'" using w(5) by (simp add: wf_cache_def p c)
  have lim: "wf_limits s'" using w(7) assms(2,6,13) by (auto simp: wf_limits_def)
  {
    assume m: "member s a ch"
    have "wf_peers (vacate_channel ch (udp_of s a) s')"
    proof (rule end_peers [OF w(4) refl])
      show "set (participants (vacate_channel ch (udp_of s a) s') x)
          \<subseteq> set (participants s x) - (if member s a x then set_option (udp_of s a) else {})" for x
        using member_fun [OF m, of x] by (auto simp: vacate_participants p set_without)
    qed (simp_all add: mem udp)
    then show "server_ok (vacate_channel ch (udp_of s a) s')"
      using maps chans cache lim tok(1) assms(14)
      by (intro server_okI vacate_maps vacate_channels_wf vacate_cache vacate_limits)
        (simp_all add: vacate_index vacate_tokens)
  next
    assume m: "\<forall>ch. \<not> member s a ch"
    have "wf_peers s'" by (rule end_peers [OF w(4) refl mem udp]) (use m in \<open>auto simp: p\<close>)
    then show "server_ok s'"
      using maps chans cache lim tok(1) assms(14) by (intro server_okI)
  }
qed

lemma hm_length_insert_present:
  "keys_distinct m \<Longrightarrow> hm_get m k = Some v \<Longrightarrow> length (hm_insert k v' m) = length m"
  by (simp add: hm_length_insert)

lemma leave_channel_ok [inv_intros]:
  assumes ok: "server_ok s" shows "server_ok (snd (leave_channel a s))"
proof (cases "hm_get (clients s) a")
  case (Some client)
  note w = server_okD [OF ok]
  show ?thesis
  proof (cases "ci_channel client")
    case None
    with Some ok show ?thesis by (simp add: leave_channel_def)
  next
    case (Some ch)
    note c = \<open>hm_get (clients s) a = Some client\<close> Some
    let ?s = "drop_tokens a (s\<lparr>clients := hm_insert a (client\<lparr>ci_channel := None, ci_udp_addr := None\<rparr>) (clients s)\<rparr>)"
    have m: "member s a ch" using c by (simp add: member_def)
    have idx: "wf_index ?s"
      using w(6) c unfolding wf_index_def by fastforce
    have "server_ok (vacate_channel ch (udp_of s a) ?s)"
    proof (rule end_membership(1) [OF ok _ _ _ _ _ _ _ _ _ _ _ _ idx m])
      show "udp_tokens ?s = udp_tokens (drop_tokens a s)" by (simp add: drop_tokens_def)
      show "member ?s x c \<longleftrightarrow> x \<noteq> a \<and> member s x c" for x c
        by (simp add: member_def)
      show "udp_of ?s x = (if x = a then None else udp_of s x)" for x
        by (simp add: udp_of_def)
      show "length (clients ?s) \<le> length (clients s)"
        using w(1) c by (simp add: hm_length_insert_present wf_maps_def)
    qed (use w(1) in \<open>simp_all add: wf_maps_def\<close>)
    with c show ?thesis by (simp add: leave_channel_def Let_def udp_of_def)
  qed
qed (use ok in \<open>simp add: leave_channel_def\<close>)

lemma remove_client_ok [inv_intros]:
  assumes ok: "server_ok s" shows "server_ok (snd (remove_client a s))"
proof (cases "hm_get (clients s) a")
  case (Some info)
  note w = server_okD [OF ok]
  let ?s1 = "s\<lparr>clients := hm_remove a (clients s)\<rparr>"
  let ?s2 = "case ci_pubkey info of Some pk \<Rightarrow> ?s1\<lparr>pubkey_index := hm_remove pk (pubkey_index ?s1)\<rparr> | None \<Rightarrow> ?s1"
  let ?s = "drop_tokens a ?s2"
  have sel: "channels ?s = channels s" "channel_keys ?s = channel_keys s"
    "channel_created_at ?s = channel_created_at s" "persistent ?s = persistent s" "limits ?s = limits s"
    "peer_cache ?s = peer_cache s" "clients ?s = hm_remove a (clients s)"
    "udp_tokens ?s = udp_tokens (drop_tokens a s)"
    by (simp_all add: drop_tokens_def split: option.split)
  have idx: "wf_index ?s"
    using w(6) Some unfolding wf_index_def by (fastforce split: option.splits if_splits)
  have kd: "keys_distinct (pubkey_index ?s)"
    using w(1) by (simp add: wf_maps_def split: option.split)
  have mem: "member ?s x c \<longleftrightarrow> x \<noteq> a \<and> member s x c" for x c
    unfolding member_def sel(7) by simp
  have udp: "udp_of ?s x = (if x = a then None else udp_of s x)" for x
    unfolding udp_of_def sel(7) by simp
  have len: "length (clients ?s) \<le> length (clients s)"
    unfolding sel(7) by (rule hm_length_remove_le)
  have kc: "keys_distinct (clients ?s)"
    unfolding sel(7) using w(1) by (simp add: wf_maps_def)
  note e = end_membership [OF ok sel(1-6,8) mem udp kc kd len idx]
  have u: "udp_of s a = ci_udp_addr info" using Some by (simp add: udp_of_def)
  show ?thesis
  proof (cases "ci_channel info")
    case None
    with Some have "\<forall>ch. \<not> member s a ch" by (simp add: member_def)
    with e(2) Some None show ?thesis by (simp add: remove_client_def Let_def)
  next
    case (Some ch)
    with \<open>hm_get (clients s) a = Some info\<close> have "member s a ch" by (simp add: member_def)
    from e(1) [OF this] u Some \<open>hm_get (clients s) a = Some info\<close>
    show ?thesis by (simp add: remove_client_def Let_def)
  qed
qed (use ok in \<open>simp add: remove_client_def\<close>)

text \<open>Operations that change a client without touching its channel and UDP address.\<close>

lemma client_update_ok:
  assumes ok: "server_ok s" and c: "hm_get (clients s) a = Some c"
    and "ci_channel c' = ci_channel c" "ci_udp_addr c' = ci_udp_addr c"
    and idx: "wf_index (s\<lparr>clients := hm_insert a c' (clients s), pubkey_index := idx\<rparr>)"
    and "keys_distinct idx"
  shows "server_ok (s\<lparr>clients := hm_insert a c' (clients s), pubkey_index := idx\<rparr>)" (is "server_ok ?s")
proof -
  note w = server_okD [OF ok]
  have m: "member ?s = member s" and u: "udp_of ?s = udp_of s"
    using c assms(3,4) by (auto simp: fun_eq_iff member_def udp_of_def)
  have p: "participants ?s = participants s" "cached_peers ?s = cached_peers s"
    by (rule views_cong; simp)+
  have "length (clients ?s) = length (clients s)"
    using w(1) c by (simp add: hm_length_insert_present wf_maps_def)
  then show ?thesis
    using w assms(6) idx
    by (intro server_okI)
      (simp_all add: wf_maps_def wf_channels_def wf_tokens_def wf_peers_def wf_cache_def wf_limits_def m u p)
qed

lemma rename_client_ok [inv_intros]:
  assumes "server_ok s" shows "server_ok (snd (rename_client a n s))"
proof (cases "hm_get (clients s) a")
  case (Some c)
  have "wf_index (s\<lparr>clients := hm_insert a (c\<lparr>ci_name := n\<rparr>) (clients s), pubkey_index := pubkey_index s\<rparr>)"
    using server_okD(6) [OF assms] Some unfolding wf_index_def by fastforce
  from client_update_ok [OF assms Some _ _ this] server_okD(1) [OF assms] Some
  show ?thesis by (simp add: rename_client_def wf_maps_def)
qed (use assms in \<open>simp add: rename_client_def\<close>)

lemma set_pubkey_ok [inv_intros]:
  assumes "server_ok s" shows "server_ok (set_pubkey a pk s)"
proof (cases "hm_get (clients s) a")
  case (Some c)
  let ?idx = "case ci_pubkey c of Some old \<Rightarrow> if old \<noteq> pk then hm_remove old (pubkey_index s) else pubkey_index s
      | None \<Rightarrow> pubkey_index s"
  have "wf_index (s\<lparr>clients := hm_insert a (c\<lparr>ci_pubkey := Some pk\<rparr>) (clients s),
      pubkey_index := hm_insert pk a ?idx\<rparr>)"
    using server_okD(6) [OF assms] Some unfolding wf_index_def
    by (fastforce split: option.splits if_splits)
  moreover have "keys_distinct (hm_insert pk a ?idx)"
    using server_okD(1) [OF assms] by (simp add: wf_maps_def split: option.split)
  ultimately show ?thesis
    using client_update_ok [OF assms Some, of "c\<lparr>ci_pubkey := Some pk\<rparr>"] Some
    by (simp add: set_pubkey_def Let_def)
qed (use assms in \<open>simp add: set_pubkey_def\<close>)

lemma register_client_ok [inv_intros]:
  assumes ok: "server_ok s" and new: "hm_get (clients s) a = None"
  shows "server_ok (snd (register_client a s))"
proof (cases "max_clients (limits s) > 0 \<and> length (clients s) \<ge> max_clients (limits s)")
  case False
  note w = server_okD [OF ok]
  let ?s = "snd (register_client a s)"
  have s: "clients ?s = hm_insert a (new_client (''user-'' @ decimal (unat (name_counter s + 1)))) (clients s)"
    and sel: "channels ?s = channels s" "channel_keys ?s = channel_keys s"
      "channel_created_at ?s = channel_created_at s" "persistent ?s = persistent s" "limits ?s = limits s"
      "peer_cache ?s = peer_cache s" "pubkey_index ?s = pubkey_index s" "udp_tokens ?s = udp_tokens s"
    using False by (auto simp: register_client_def Let_def)
  have m: "member ?s = member s" and u: "udp_of ?s = udp_of s"
    using new by (auto simp: fun_eq_iff member_def udp_of_def s new_client_def)
  have p: "participants ?s = participants s" "cached_peers ?s = cached_peers s"
    by (rule views_cong(1) [OF sel(1)], rule views_cong(2) [OF sel(6)])
  have "length (clients ?s) = Suc (length (clients s))"
    using w(1) new by (simp add: s hm_length_insert wf_maps_def)
  then have "wf_limits ?s" using w(7) False by (auto simp: wf_limits_def sel)
  moreover have "wf_index ?s"
    using w(6) new unfolding wf_index_def s sel by fastforce
  ultimately show ?thesis
    using w by (intro server_okI)
      (simp_all add: wf_maps_def wf_channels_def wf_tokens_def wf_peers_def wf_cache_def m u p sel s)
qed (use ok in \<open>simp add: register_client_def\<close>)

section \<open>Creating and joining channels\<close>

lemma add_channel_ok:
  assumes ok: "server_ok s" and "hm_get (channels s) ch = None" and "length key = 32"
    and "\<not> at_channel_limit s"
  shows "server_ok (add_channel ch key now s)" (is "server_ok ?s")
proof -
  note w = server_okD [OF ok]
  have v: "member ?s = member s" "udp_of ?s = udp_of s" "cached_peers ?s = cached_peers s"
    by (rule views_cong; simp add: add_channel_def)+
  have p: "participants ?s = participants s"
    using assms(2) by (auto simp: fun_eq_iff participants_def add_channel_def)
  have "length (channels ?s) = Suc (length (channels s))"
    using w(1) assms(2) by (simp add: add_channel_def hm_length_insert wf_maps_def)
  moreover have "limits ?s = limits s" "clients ?s = clients s" by (simp_all add: add_channel_def)
  ultimately have "wf_limits ?s"
    using w(7) assms(4) by (auto simp: wf_limits_def at_channel_limit_def)
  moreover have "wf_channels ?s"
    using w(2) assms(3) by (auto simp: wf_channels_def add_channel_def)
  moreover have "wf_maps ?s" using w(1) by (simp add: wf_maps_def p) (simp add: add_channel_def)
  moreover have "wf_tokens ?s" using w(3) by (simp add: wf_tokens_def v) (simp add: add_channel_def)
  moreover have "wf_index ?s" using w(6) by (simp add: wf_index_def add_channel_def)
  ultimately show ?thesis
    using w by (intro server_okI) (simp_all add: wf_peers_def wf_cache_def v p)
qed

lemma rotate_key_ok:
  assumes ok: "server_ok s" and "hm_get (channels s) ch \<noteq> None" and "length key = 32"
  shows "server_ok (s\<lparr>channel_keys := hm_insert ch key (channel_keys s)\<rparr>)" (is "server_ok ?s")
proof -
  note w = server_okD [OF ok]
  have v: "member ?s = member s" "udp_of ?s = udp_of s" "cached_peers ?s = cached_peers s"
    "participants ?s = participants s"
    by (rule views_cong; simp)+
  have "wf_channels ?s" using w(2) assms(2,3) by (auto simp: wf_channels_def)
  with w show ?thesis
    by (intro server_okI)
      (simp_all add: wf_maps_def wf_tokens_def wf_peers_def wf_cache_def wf_index_def wf_limits_def v)
qed

lemma persist_ok:
  assumes ok: "server_ok s" and "hm_get (channels s) ch \<noteq> None" and "starts_with PUBLIC_CHANNEL_PREFIX ch"
  shows "server_ok (s\<lparr>persistent := List.insert ch (persistent s)\<rparr>)" (is "server_ok ?s")
proof -
  note w = server_okD [OF ok]
  have v: "member ?s = member s" "udp_of ?s = udp_of s" "cached_peers ?s = cached_peers s"
    "participants ?s = participants s"
    by (rule views_cong; simp)+
  have "wf_channels ?s" using w(2) assms(2,3) by (auto simp: wf_channels_def)
  with w show ?thesis
    by (intro server_okI)
      (simp_all add: wf_maps_def wf_tokens_def wf_peers_def wf_cache_def wf_index_def wf_limits_def v)
qed

lemma rng_laws_random_key [simp]: "rng_laws r \<Longrightarrow> rng_laws (snd (random_key r))"
  by (simp add: random_key_def)

lemma fst_random_key_length [simp]: "rng_laws r \<Longrightarrow> length (fst (random_key r)) = 32"
  by (simp add: random_key_def rng_laws_def)

lemma rng_laws_random_u64 [simp]: "rng_laws r \<Longrightarrow> rng_laws (snd (random_u64 r))"
  by (simp add: random_u64_def)

lemma rng_laws_channel_id [simp]: "rng_laws r \<Longrightarrow> rng_laws (snd (generate_channel_id r))"
  by (cases "generate_channel_id r") (auto dest: generate_channel_id_props)

lemma rng_laws_echo_id [simp]: "rng_laws r \<Longrightarrow> rng_laws (snd (draw_echo_id r))"
  by (simp add: draw_echo_id_def case_prod_beta)

lemma draw_until_rng:
  assumes "draw_until draw ok r = Some (x, r')" and "rng_laws r"
    and "\<And>r. rng_laws r \<Longrightarrow> rng_laws (snd (draw r))"
  shows "rng_laws r'"
proof -
  obtain r0 where "rng_laws r0" and "draw r0 = (x, r')"
    using draw_until_from [where P = rng_laws, OF assms] by blast
  then show ?thesis using assms(3) by force
qed

lemma create_channel_ok [inv_intros]:
  assumes "server_ok s" and "rng_laws r" and "create_channel name now r s = Some (res, s', r')"
  shows "server_ok s'" and "rng_laws r'"
proof -
  have add: "server_ok (add_channel ch (fst (random_key r1)) now s)" "rng_laws (snd (random_key r1))"
    if "hm_get (channels s) ch = None" "\<not> at_channel_limit s" "rng_laws r1" for ch r1
    using that by (auto intro: add_channel_ok assms(1))
  have drawn: "hm_get (channels s) ch = None \<and> rng_laws r1"
    if "draw_until generate_channel_id (\<lambda>ch. hm_get (channels s) ch = None) r = Some (ch, r1)" for ch r1
    using draw_until_ok [OF that] draw_until_rng [OF that assms(2)] by simp
  show "server_ok s'" "rng_laws r'"
    using assms add drawn
    by (auto simp: create_channel_def case_prod_beta Let_def split: if_splits option.splits)
qed

lemma create_channel_created:
  assumes "create_channel name now r s = Some (Inr ch, s', r')"
  shows "hm_get (channels s) ch = None" and "hm_get (channels s') ch = Some []"
    and "name = Some n \<Longrightarrow> ch = PUBLIC_CHANNEL_PREFIX @ n"
  using assms draw_until_ok
  by (fastforce simp: create_channel_def add_channel_def case_prod_beta Let_def split: if_splits option.splits)+

lemma create_persistent_channel_ok [inv_intros]:
  assumes "server_ok s" and "rng_laws r" and "create_persistent_channel name now r s = Some (res, s', r')"
  shows "server_ok s'" and "rng_laws r'"
proof -
  obtain res1 s1 r1 where c: "create_channel (Some name) now r s = Some (res1, s1, r1)"
    using assms(3) by (auto simp: create_persistent_channel_def split: option.splits)
  note ok = create_channel_ok [OF assms(1,2) c]
  show "server_ok s'" "rng_laws r'"
  proof (cases res1)
    case (Inr ch)
    note made = create_channel_created [OF c [unfolded Inr]]
    have "ch = PUBLIC_CHANNEL_PREFIX @ name" by (rule made(3)) simp
    then have "server_ok (s1\<lparr>persistent := List.insert ch (persistent s1)\<rparr>)"
      using ok(1) made(2) by (intro persist_ok) simp_all
    then show "server_ok s'" using assms(3) c Inr by (simp add: create_persistent_channel_def)
  qed (use assms(3) c ok in \<open>auto simp: create_persistent_channel_def split: sum.splits\<close>)
qed

lemma begin_membership_ok:
  assumes ok: "server_ok s" and c: "hm_get (clients s) a = Some c" and n: "ci_channel c = None"
    and t: "fresh_token s t"
  shows "server_ok (s\<lparr>clients := hm_insert a (c\<lparr>ci_channel := Some ch\<rparr>) (clients s),
    udp_tokens := hm_insert t (a, ch, now) (udp_tokens s)\<rparr>)" (is "server_ok ?s")
proof -
  note w = server_okD [OF ok]
  have v: "participants ?s = participants s" "cached_peers ?s = cached_peers s"
    by (rule views_cong; simp)+
  have no: "\<not> member s a x" for x using c n by (simp add: member_def)
  have m: "member ?s x y \<longleftrightarrow> (if x = a then y = ch else member s x y)" for x y
    by (auto simp: member_def)
  have u: "udp_of ?s = udp_of s" using c by (auto simp: fun_eq_iff udp_of_def)
  have nt: "hm_get (udp_tokens s) x \<noteq> Some (a, y)" for x y
  proof -
    have "hm_get (udp_tokens s) x = Some (a, c, i) \<Longrightarrow> member s a c" for c i
      using w(3) unfolding wf_tokens_def by blast
    with no show ?thesis by (cases y) auto
  qed
  have t0: "t \<noteq> 0" and tn: "hm_get (udp_tokens s) t = None"
    using t by (auto simp: fresh_token_def simp del: not_None_eq)
  have g: "hm_get (udp_tokens ?s) x = (if x = t then Some (a, ch, now) else hm_get (udp_tokens s) x)" for x
    by simp
  have tok: "wf_tokens ?s"
    unfolding wf_tokens_def
  proof (intro conjI allI impI)
    show "hm_get (udp_tokens ?s) 0 = None" using w(3) t0 by (simp add: wf_tokens_def)
    show "member ?s b y" if "hm_get (udp_tokens ?s) x = Some (b, y, i)" for x b y i
    proof -
      have "hm_get (udp_tokens s) x = Some (b, y, i) \<Longrightarrow> member s b y"
        using w(3) unfolding wf_tokens_def by blast
      with that nt show ?thesis by (auto simp: m g split: if_splits)
    qed
    show "\<exists>x i. hm_get (udp_tokens ?s) x = Some (b, y, i)" if "member ?s b y" for b y
    proof (cases "b = a")
      case True
      with that show ?thesis by (auto simp: m g intro!: exI [of _ t])
    next
      case False
      with that have "member s b y" by (simp add: m)
      then obtain x i where "hm_get (udp_tokens s) x = Some (b, y, i)"
        using w(3) unfolding wf_tokens_def by blast
      with tn show ?thesis by (intro exI [of _ x] exI [of _ i]) (auto simp: g)
    qed
    show "x = x'" if "hm_get (udp_tokens ?s) x = Some (b, y)" "hm_get (udp_tokens ?s) x' = Some (b, y')" for x x' b y y'
    proof (cases "b = a")
      case True
      have "x = t" using that(1) nt [of x y] True unfolding g by (cases "x = t") simp_all
      moreover have "x' = t" using that(2) nt [of x' y'] True unfolding g by (cases "x' = t") simp_all
      ultimately show ?thesis by simp
    next
      case False
      have "hm_get (udp_tokens s) x = Some (b, y)" using that(1) False unfolding g by (cases "x = t") simp_all
      moreover have "hm_get (udp_tokens s) x' = Some (b, y')"
        using that(2) False unfolding g by (cases "x' = t") simp_all
      ultimately show ?thesis using w(3) unfolding wf_tokens_def by blast
    qed
  qed
  have "length (clients ?s) = length (clients s)"
    using w(1) c by (simp add: hm_length_insert_present wf_maps_def)
  then have lim: "wf_limits ?s" using w(7) by (simp add: wf_limits_def)
  have idx: "wf_index ?s" using w(6) c unfolding wf_index_def by fastforce
  have "wf_peers ?s" using w(4) no unfolding wf_peers_def v u m by metis
  then show ?thesis
    using w tok lim idx by (intro server_okI) (simp_all add: wf_maps_def wf_channels_def wf_cache_def v)
qed

lemma fresh_token_frame [simp]:
  "fresh_token (s\<lparr>clients := cs\<rparr>) = fresh_token s"
  "fresh_token (add_channel ch key now s) = fresh_token s"
  by (simp_all add: fun_eq_iff fresh_token_def add_channel_def)

lemma rotate_voice_key_frame [simp]:
  "clients (fst (rotate_voice_key ch r s)) = clients s" "udp_tokens (fst (rotate_voice_key ch r s)) = udp_tokens s"
  "fresh_token (fst (rotate_voice_key ch r s)) = fresh_token s"
  by (simp_all add: rotate_voice_key_def Let_def case_prod_beta fun_eq_iff fresh_token_def)

lemma rotate_voice_key_ok:
  assumes "server_ok s" "rng_laws r" "hm_get (channels s) ch \<noteq> None"
  shows "server_ok (fst (rotate_voice_key ch r s))" "rng_laws (snd (rotate_voice_key ch r s))"
  using assms by (simp_all add: rotate_voice_key_def Let_def case_prod_beta rotate_key_ok)

text \<open>What a successful join did.\<close>

lemma join_channel_success:
  assumes "join_channel a ch now r s = Some (Inr (names, token, key), s', r')"
  obtains c s1 r1 where "hm_get (channels s) ch \<noteq> None" "hm_get (clients s) a = Some c" "ci_channel c = None"
    "rotate_voice_key ch r s = (s1, r1)" "draw_until random_u64 (fresh_token s) r1 = Some (token, r')"
    "s' = s1\<lparr>clients := hm_insert a (c\<lparr>ci_channel := Some ch\<rparr>) (clients s1),
      udp_tokens := hm_insert token (a, ch, now) (udp_tokens s1)\<rparr>"
    "names = map ci_name (filter (in_channel ch) (map snd (clients s')))"
    "key = (case hm_get (channel_keys s1) ch of Some k \<Rightarrow> k | None \<Rightarrow> [])"
proof -
  obtain s1 r1 where rot: "rotate_voice_key ch r s = (s1, r1)" by (cases "rotate_voice_key ch r s")
  have f: "fresh_token s1 = fresh_token s" using rotate_voice_key_frame(3) [of ch r s] rot by simp
  show thesis
    using assms that rot f by (auto simp: join_channel_def Let_def split: if_splits option.splits)
qed

lemma join_channel_error:
  "join_channel a ch now r s = Some (Inl e, s', r') \<Longrightarrow> s' = s \<and> r' = r"
  by (auto simp: join_channel_def case_prod_beta Let_def split: if_splits option.splits)

lemma join_channel_ok [inv_intros]:
  assumes ok: "server_ok s" and "rng_laws r" and j: "join_channel a ch now r s = Some (res, s', r')"
  shows "server_ok s'" and "rng_laws r'"
proof -
  have "server_ok s' \<and> rng_laws r'"
  proof (cases "res")
    case (Inl e)
    with join_channel_error j [unfolded Inl] assms(1,2) show ?thesis by blast
  next
    case (Inr y)
    obtain names token key where y: "y = (names, token, key)" by (cases y) auto
    from j [unfolded Inr y] obtain c s1 r1 where c: "hm_get (channels s) ch \<noteq> None"
        "hm_get (clients s) a = Some c" "ci_channel c = None"
      and rot: "rotate_voice_key ch r s = (s1, r1)" and d: "draw_until random_u64 (fresh_token s) r1 = Some (token, r')"
      and s': "s' = s1\<lparr>clients := hm_insert a (c\<lparr>ci_channel := Some ch\<rparr>) (clients s1),
        udp_tokens := hm_insert token (a, ch, now) (udp_tokens s1)\<rparr>"
      by (rule join_channel_success)
    have "server_ok s1" "rng_laws r1" "clients s1 = clients s" "fresh_token s1 = fresh_token s"
      using rotate_voice_key_ok [OF ok assms(2) c(1)] rotate_voice_key_frame [of ch r s] rot by simp_all
    then show ?thesis
      using begin_membership_ok [of s1 a c token] draw_until_ok [OF d] draw_until_rng [OF d] c s' by simp
  qed
  then show "server_ok s'" "rng_laws r'" by simp_all
qed

lemma add_channel_sel [simp]:
  "clients (add_channel ch key now s) = clients s" "udp_tokens (add_channel ch key now s) = udp_tokens s"
  "persistent (add_channel ch key now s) = persistent s" "limits (add_channel ch key now s) = limits s"
  "peer_cache (add_channel ch key now s) = peer_cache s"
  "pubkey_index (add_channel ch key now s) = pubkey_index s"
  by (simp_all add: add_channel_def)

lemma start_echo_test_success:
  assumes "start_echo_test a now r s = Some (Inr (ch, token, key), s', r')"
  obtains c r1 where "\<not> at_channel_limit s" "hm_get (clients s) a = Some c" "ci_channel c = None"
    "draw_until draw_echo_id (\<lambda>ch. hm_get (channels s) ch = None) r = Some (ch, r1)"
    "key = fst (random_key r1)"
    "draw_until random_u64 (fresh_token s) (snd (random_key r1)) = Some (token, r')"
    "s' = add_channel ch key now s
      \<lparr>clients := hm_insert a (c\<lparr>ci_channel := Some ch\<rparr>) (clients s),
       udp_tokens := hm_insert token (a, ch, now) (udp_tokens s)\<rparr>"
  using assms that
  by (auto simp: start_echo_test_def case_prod_beta Let_def split: if_splits option.splits)

lemma start_echo_test_error:
  "start_echo_test a now r s = Some (Inl e, s', r') \<Longrightarrow> s' = s \<and> r' = r"
  by (auto simp: start_echo_test_def case_prod_beta Let_def split: if_splits option.splits)

lemma start_echo_test_ok [inv_intros]:
  assumes ok: "server_ok s" and "rng_laws r" and j: "start_echo_test a now r s = Some (res, s', r')"
  shows "server_ok s'" and "rng_laws r'"
proof -
  have "server_ok s' \<and> rng_laws r'"
  proof (cases "res")
    case (Inl e)
    with start_echo_test_error j [unfolded Inl] assms(1,2) show ?thesis by blast
  next
    case (Inr y)
    obtain ch token key where y: "y = (ch, token, key)" by (cases y) auto
    from j [unfolded Inr y] obtain c r1 where lim: "\<not> at_channel_limit s"
        and c: "hm_get (clients s) a = Some c" "ci_channel c = None"
        and d1: "draw_until draw_echo_id (\<lambda>ch. hm_get (channels s) ch = None) r = Some (ch, r1)"
        and key: "key = fst (random_key r1)"
        and d2: "draw_until random_u64 (fresh_token s) (snd (random_key r1)) = Some (token, r')"
        and s': "s' = add_channel ch key now s
          \<lparr>clients := hm_insert a (c\<lparr>ci_channel := Some ch\<rparr>) (clients s),
           udp_tokens := hm_insert token (a, ch, now) (udp_tokens s)\<rparr>"
      by (rule start_echo_test_success)
    have r1: "rng_laws r1" using draw_until_rng [OF d1 assms(2)] by simp
    have "server_ok (add_channel ch key now s)"
      using add_channel_ok [OF ok draw_until_ok [OF d1] _ lim] r1 key by simp
    with begin_membership_ok [of "add_channel ch key now s" a c token] draw_until_ok [OF d2]
      draw_until_rng [OF d2] c s' r1
    show ?thesis by simp
  qed
  then show "server_ok s'" "rng_laws r'" by simp_all
qed

section \<open>Registering a UDP address\<close>

lemma token_member: "wf_tokens s \<Longrightarrow> hm_get (udp_tokens s) t = Some (a, ch, i) \<Longrightarrow> member s a ch"
  unfolding wf_tokens_def by blast

definition holds_token :: "server_state \<Rightarrow> 64 word \<Rightarrow> socket_addr \<Rightarrow> channel_id \<Rightarrow> bool" where
  "holds_token s t a ch \<longleftrightarrow> (\<exists>i. hm_get (udp_tokens s) t = Some (a, ch, i))"

lemma wf_tokens_holds:
  "wf_tokens s \<longleftrightarrow> (\<forall>a ch. \<not> holds_token s 0 a ch) \<and> (\<forall>t a ch. holds_token s t a ch \<longrightarrow> member s a ch) \<and>
     (\<forall>a ch. member s a ch \<longrightarrow> (\<exists>t. holds_token s t a ch)) \<and>
     (\<forall>t t' a ch ch'. holds_token s t a ch \<longrightarrow> holds_token s t' a ch' \<longrightarrow> t = t')"
proof -
  have n: "hm_get (udp_tokens s) 0 = None \<longleftrightarrow> (\<forall>a ch. \<not> holds_token s 0 a ch)"
    unfolding holds_token_def by (cases "hm_get (udp_tokens s) 0") auto
  show ?thesis unfolding wf_tokens_def n unfolding holds_token_def split_paired_all
    by (simp only: split_paired_All) blast
qed

text \<open>The new participants after a hello: the old address of the session is replaced.\<close>

definition replaced :: "socket_addr option \<Rightarrow> socket_addr \<Rightarrow> socket_addr list \<Rightarrow> socket_addr list" where
  "replaced old u ps = List.insert u (case old of Some v \<Rightarrow> if v \<noteq> u then removeAll v ps else ps | None \<Rightarrow> ps)"

lemma set_replaced: "set (replaced old u ps) = insert u (set ps - set_option old)"
  by (auto simp: replaced_def split: option.splits)

lemma distinct_replaced [simp]: "distinct ps \<Longrightarrow> distinct (replaced old u ps)"
  by (auto simp: replaced_def distinct_removeAll split: option.splits)

definition hello_update :: "64 word \<Rightarrow> socket_addr \<Rightarrow> channel_id \<Rightarrow> client_info \<Rightarrow> socket_addr \<Rightarrow> instant \<Rightarrow>
    server_state \<Rightarrow> server_state" where
  "hello_update t a ch c u now s =
    s\<lparr>udp_tokens := hm_insert t (a, ch, now) (udp_tokens s),
      clients := hm_insert a (c\<lparr>ci_udp_addr := Some u\<rparr>) (clients s),
      channels := (case hm_get (channels s) ch of None \<Rightarrow> channels s
        | Some ps \<Rightarrow> hm_insert ch (replaced (ci_udp_addr c) u ps) (channels s))\<rparr>"

text \<open>Under the invariant a hello either leaves the state alone or is the update above.\<close>

lemma register_udp_cases:
  assumes "wf_tokens s"
  obtains "register_udp_by_token t u now s = (False, s)"
      and "\<And>a ch i. hm_get (udp_tokens s) t = Some (a, ch, i) \<Longrightarrow> to_canonical (sock_ip a) \<noteq> to_canonical (sock_ip u)"
  | a ch i c where "hm_get (udp_tokens s) t = Some (a, ch, i)" "to_canonical (sock_ip a) = to_canonical (sock_ip u)"
      "hm_get (clients s) a = Some c" "ci_channel c = Some ch"
      "register_udp_by_token t u now s = (True, update_channel_peers ch (hello_update t a ch c u now s))"
proof (cases "hm_get (udp_tokens s) t")
  case None
  then show thesis by (intro that(1)) (simp_all add: register_udp_by_token_def)
next
  case (Some x)
  obtain a ch i where x: "x = (a, ch, i)" by (cases x) auto
  show thesis
  proof (cases "to_canonical (sock_ip a) = to_canonical (sock_ip u)")
    case False
    with Some x show thesis by (intro that(1)) (simp_all add: register_udp_by_token_def)
  next
    case True
    from token_member [OF assms Some [unfolded x]] obtain c
      where c: "hm_get (clients s) a = Some c" "ci_channel c = Some ch" by (auto simp: member_def)
    have "register_udp_by_token t u now s = (True, update_channel_peers ch (hello_update t a ch c u now s))"
      using Some x True c
      by (simp add: register_udp_by_token_def hello_update_def replaced_def Let_def split: option.split)
    with Some x True c show thesis by (intro that(2)) simp_all
  qed
qed

lemma hello_update_sel [simp]:
  "persistent (hello_update t a ch c u now s) = persistent s" "limits (hello_update t a ch c u now s) = limits s"
  "channel_keys (hello_update t a ch c u now s) = channel_keys s"
  "channel_created_at (hello_update t a ch c u now s) = channel_created_at s"
  "pubkey_index (hello_update t a ch c u now s) = pubkey_index s"
  "peer_cache (hello_update t a ch c u now s) = peer_cache s"
  by (simp_all add: hello_update_def)

lemma hello_participants:
  "participants (hello_update t a ch c u now s) x =
    (if x = ch \<and> hm_get (channels s) ch \<noteq> None then replaced (ci_udp_addr c) u (participants s ch)
     else participants s x)"
  by (auto simp: participants_def hello_update_def split: option.splits)

lemma hello_members:
  assumes "hm_get (clients s) a = Some c"
  shows "member (hello_update t a ch c u now s) = member s"
    and "udp_of (hello_update t a ch c u now s) = (udp_of s)(a := Some u)"
  using assms by (auto simp: fun_eq_iff member_def udp_of_def hello_update_def)

lemma hello_peers:
  assumes "wf_peers s" and c: "hm_get (clients s) a = Some c" "ci_channel c = Some ch"
    and "to_canonical (sock_ip a) = to_canonical (sock_ip u)"
  shows "wf_peers (hello_update t a ch c u now s)" (is "wf_peers ?s")
  unfolding wf_peers_def hello_members [OF c(1)]
proof (intro conjI allI ballI impI)
  have a: "member s a ch" "udp_of s a = ci_udp_addr c" using c by (simp_all add: member_def udp_of_def)
  fix x v
  assume v: "v \<in> set (participants ?s x)"
  show "\<exists>b. member s b x \<and> ((udp_of s)(a := Some u)) b = Some v"
  proof (cases "x = ch \<and> v = u")
    case True
    with a show ?thesis by auto
  next
    case False
    have "participants s x = []" if "hm_get (channels s) x = None" for x
      using that by (simp add: participants_def)
    with False v have o: "v \<in> set (participants s x)" "x = ch \<Longrightarrow> ci_udp_addr c \<noteq> Some v"
      by (auto simp: hello_participants set_replaced split: if_splits)
    then obtain b where b: "member s b x" "udp_of s b = Some v"
      using assms(1) unfolding wf_peers_def by blast
    have "b \<noteq> a" using b o(2) a member_fun by metis
    with b show ?thesis by auto
  qed
next
  have a: "member s a ch" using c by (simp add: member_def)
  fix b v
  assume "((udp_of s)(a := Some u)) b = Some v"
  with assms a show "to_canonical (sock_ip b) = to_canonical (sock_ip v)" "\<exists>ch. member s b ch"
    unfolding wf_peers_def by (metis fun_upd_apply option.inject)+
qed

lemma register_udp_ok [inv_intros]:
  assumes ok: "server_ok s" shows "server_ok (snd (register_udp_by_token t u now s))"
proof (rule register_udp_cases [OF server_okD(3) [OF ok], of t u now])
  fix a ch i c
  assume t: "hm_get (udp_tokens s) t = Some (a, ch, i)"
    and ip: "to_canonical (sock_ip a) = to_canonical (sock_ip u)"
    and c: "hm_get (clients s) a = Some c" "ci_channel c = Some ch"
    and r: "register_udp_by_token t u now s = (True, update_channel_peers ch (hello_update t a ch c u now s))"
  note w = server_okD [OF ok]
  let ?h = "hello_update t a ch c u now s"
  let ?s = "update_channel_peers ch ?h"
  have vh: "member ?s = member ?h" "udp_of ?s = udp_of ?h" "participants ?s = participants ?h"
    by (rule views_cong; simp)+
  note v = vh(1) [unfolded hello_members(1) [OF c(1)]] vh(2,3)
  have "cached_peers ?h = cached_peers s" by (rule views_cong) simp
  then have cache: "wf_cache ?s"
    using w(5) by (auto simp: wf_cache_def v(3) hello_participants)
  have tok: "wf_tokens ?s"
  proof -
    have g: "hm_get (udp_tokens ?s) x = (if x = t then Some (a, ch, now) else hm_get (udp_tokens s) x)" for x
      by (simp add: hello_update_def)
    have "holds_token ?s x b y = holds_token s x b y" for x b y
      unfolding holds_token_def g by (cases "x = t") (simp_all add: t)
    then have "holds_token ?s = holds_token s" by (intro ext)
    then show ?thesis using w(3) unfolding wf_tokens_holds v(1) by simp
  qed
  have "wf_peers ?s" using hello_peers [OF w(4) c ip] by (simp add: wf_peers_def v hello_members [OF c(1)])
  moreover have "wf_maps ?s"
    using w(1) c t by (simp add: wf_maps_def v hello_participants) (simp add: hello_update_def split: option.split)
  moreover have "wf_channels ?s"
    using w(2) unfolding wf_channels_def by (auto simp: hello_update_def split: option.split)
  moreover have "wf_index ?s"
  proof -
    have "clients ?s = hm_insert a (c\<lparr>ci_udp_addr := Some u\<rparr>) (clients s)" "pubkey_index ?s = pubkey_index s"
      by (simp_all add: hello_update_def)
    then show ?thesis using w(6) c(1) unfolding wf_index_def by fastforce
  qed
  moreover have "length (clients ?s) = length (clients s)" "length (channels ?s) = length (channels s)"
    using w(1) c by (simp_all add: hello_update_def hm_length_insert_present wf_maps_def split: option.split)
  then have "wf_limits ?s" using w(7) by (simp add: wf_limits_def)
  ultimately show ?thesis using r cache tok by (simp add: server_okI)
qed (use ok in simp)

section \<open>Cleaning up\<close>

lemma remove_channels_sel [simp]:
  "clients (remove_channels chs s) = clients s" "persistent (remove_channels chs s) = persistent s"
  "limits (remove_channels chs s) = limits s" "pubkey_index (remove_channels chs s) = pubkey_index s"
  "peer_cache (remove_channels chs s) = peer_cache s"
  by (induction chs s rule: remove_channels.induct) simp_all

lemma remove_channels_get [simp]:
  "hm_get (channels (remove_channels chs s)) c = (if c \<in> set chs then None else hm_get (channels s) c)"
  "hm_get (channel_keys (remove_channels chs s)) c = (if c \<in> set chs then None else hm_get (channel_keys s) c)"
  "hm_get (channel_created_at (remove_channels chs s)) c =
    (if c \<in> set chs then None else hm_get (channel_created_at s) c)"
  by (induction chs s rule: remove_channels.induct) simp_all

lemma remove_channels_distinct [simp]:
  "keys_distinct (channels s) \<Longrightarrow> keys_distinct (channels (remove_channels chs s))"
  "keys_distinct (channel_keys s) \<Longrightarrow> keys_distinct (channel_keys (remove_channels chs s))"
  "keys_distinct (channel_created_at s) \<Longrightarrow> keys_distinct (channel_created_at (remove_channels chs s))"
  "keys_distinct (udp_tokens s) \<Longrightarrow> keys_distinct (udp_tokens (remove_channels chs s))"
  by (induction chs s rule: remove_channels.induct) simp_all

lemma remove_channels_length: "length (channels (remove_channels chs s)) \<le> length (channels s)"
proof (induction chs s rule: remove_channels.induct)
  case (2 ch chs s)
  then have "length (channels (remove_channels (ch # chs) s)) \<le> length (hm_remove ch (channels s))" by simp
  also have "\<dots> \<le> length (channels s)" by (rule hm_length_remove_le)
  finally show ?case .
qed simp

lemma remove_channels_tokens:
  assumes "\<And>t a ch i. (t, a, ch, i) \<in> set (udp_tokens s) \<Longrightarrow> ch \<notin> set chs"
  shows "udp_tokens (remove_channels chs s) = udp_tokens s"
  using assms
proof (induction chs s rule: remove_channels.induct)
  case (2 ch chs s)
  have "hm_retain (\<lambda>_ (_, c, _). c \<noteq> ch) (udp_tokens s) = udp_tokens s"
    using "2.prems" by (intro hm_retain_id) fastforce
  with 2 show ?case by simp
qed simp

lemma occupied_iff: "keys_distinct (clients s) \<Longrightarrow> ch \<in> set (occupied_channels s) \<longleftrightarrow> (\<exists>a. member s a ch)"
proof -
  have "ch \<in> set (occupied_channels s) \<longleftrightarrow> (\<exists>c \<in> set (map snd (clients s)). ci_channel c = Some ch)"
    unfolding occupied_channels_def map_filter_def by force
  then show "keys_distinct (clients s) \<Longrightarrow> ch \<in> set (occupied_channels s) \<longleftrightarrow> (\<exists>a. member s a ch)"
    using members_list [of s ch] by (simp only:)
qed

text \<open>Every token belongs to a live membership, so neither the reaping of channels nor the
  age limit ever drops one.\<close>

lemma cleanup_eq:
  assumes ok: "server_ok s"
  shows "cleanup_with grace ttl now s =
    (let gone = map fst (filter (\<lambda>(ch, ps). reapable grace now s ch ps) (channels s))
     in (gone, remove_channels gone s))"
    and "udp_tokens (snd (cleanup_with grace ttl now s)) = udp_tokens s"
proof -
  note w = server_okD [OF ok]
  define gone where "gone = map fst (filter (\<lambda>(ch, ps). reapable grace now s ch ps) (channels s))"
  have tok: "member s a ch" if "(t, a, ch, i) \<in> set (udp_tokens s)" for t a ch i
    using that w(1) token_member [OF w(3), of t a ch i] by (simp add: hm_in_set wf_maps_def)
  have "ch \<notin> set gone" if "(t, a, ch, i) \<in> set (udp_tokens s)" for t a ch i
    using tok [OF that] occupied_iff [of s ch] w(1) by (auto simp: gone_def reapable_def wf_maps_def)
  then have same: "udp_tokens (remove_channels gone s) = udp_tokens s" by (rule remove_channels_tokens)
  have "hm_retain (\<lambda>_ (tcp, ch, created).
      (case hm_get (clients s) tcp of Some c \<Rightarrow> in_channel ch c | None \<Rightarrow> False) \<or> now - created < ttl)
      (udp_tokens s) = udp_tokens s"
  proof (rule hm_retain_id)
    fix t x
    assume x: "(t, x) \<in> set (udp_tokens s)"
    obtain a ch i where "x = (a, ch, i)" by (cases x) auto
    with tok [of t a ch i] x show "case x of (tcp, ch, created) \<Rightarrow>
        (case hm_get (clients s) tcp of Some c \<Rightarrow> in_channel ch c | None \<Rightarrow> False) \<or> now - created < ttl"
      by (auto simp: member_def in_channel_def)
  qed
  with same show c: "cleanup_with grace ttl now s =
    (let gone = map fst (filter (\<lambda>(ch, ps). reapable grace now s ch ps) (channels s))
     in (gone, remove_channels gone s))"
    by (simp add: cleanup_with_def Let_def flip: gone_def)
  show "udp_tokens (snd (cleanup_with grace ttl now s)) = udp_tokens s"
    using same unfolding c by (simp add: Let_def flip: gone_def)
qed

lemma cleanup_with_ok [inv_intros]:
  assumes ok: "server_ok s" shows "server_ok (snd (cleanup_with grace ttl now s))"
proof -
  note w = server_okD [OF ok]
  define gone where "gone = map fst (filter (\<lambda>(ch, ps). reapable grace now s ch ps) (channels s))"
  let ?s = "remove_channels gone s"
  have s: "snd (cleanup_with grace ttl now s) = ?s"
    using cleanup_eq(1) [OF ok, of grace ttl now] by (simp add: Let_def gone_def)
  have tok: "udp_tokens ?s = udp_tokens s"
    using cleanup_eq(2) [OF ok, of grace ttl now] by (simp add: s)
  have v: "member ?s = member s" "udp_of ?s = udp_of s" "cached_peers ?s = cached_peers s"
    by (rule views_cong; simp)+
  have g: "reapable grace now s ch ps" if "ch \<in> set gone" "hm_get (channels s) ch = Some ps" for ch ps
    using that w(1) by (auto simp: gone_def wf_maps_def hm_in_set)
  have p: "participants ?s = participants s"
    using g by (auto simp: fun_eq_iff participants_def reapable_def split: option.splits)
  have "wf_channels ?s"
    using w(2) g unfolding wf_channels_def by (auto simp: reapable_def simp del: not_None_eq)
  moreover have "wf_maps ?s" using w(1) by (simp add: wf_maps_def p)
  moreover have "wf_tokens ?s" using w(3) by (simp add: wf_tokens_def tok v)
  moreover have "wf_limits ?s"
    using w(7) remove_channels_length [of gone s] by (auto simp: wf_limits_def)
  ultimately show ?thesis
    using w unfolding s by (intro server_okI) (simp_all add: wf_peers_def wf_cache_def wf_index_def v p)
qed

end
