(* ===== verification/Server_Properties.thy ===== *)
theory Server_Properties
  imports Server_Invariant
begin

text \<open>
  The server as a transition system: any task may run any operation of \<open>ServerState\<close> next. The
  operations come with the guard the callers guarantee: a TCP address is registered only while no
  other connection has it (the kernel keeps the four-tuple of a connection unique). What holds in
  every reachable state, and what the single operations do there.
\<close>

section \<open>Reachable states\<close>

inductive srv_step :: "server_state \<times> rng \<Rightarrow> server_state \<times> rng \<Rightarrow> bool" where
  Register: "hm_get (clients s) a = None \<Longrightarrow> register_client a s = (res, s') \<Longrightarrow> srv_step (s, r) (s', r)"
| Pubkey: "srv_step (s, r) (set_pubkey a pk s, r)"
| Remove: "remove_client a s = (res, s') \<Longrightarrow> srv_step (s, r) (s', r)"
| Create: "create_channel name now r s = Some (res, s', r') \<Longrightarrow> srv_step (s, r) (s', r')"
| Persist: "create_persistent_channel name now r s = Some (res, s', r') \<Longrightarrow> srv_step (s, r) (s', r')"
| Join: "join_channel a ch now r s = Some (res, s', r') \<Longrightarrow> srv_step (s, r) (s', r')"
| Echo: "start_echo_test a now r s = Some (res, s', r') \<Longrightarrow> srv_step (s, r) (s', r')"
| Leave: "leave_channel a s = (res, s') \<Longrightarrow> srv_step (s, r) (s', r)"
| UdpHello: "register_udp_by_token t u now s = (res, s') \<Longrightarrow> srv_step (s, r) (s', r)"
| Rename: "rename_client a n s = (res, s') \<Longrightarrow> srv_step (s, r) (s', r)"
| Cleanup: "cleanup_with grace ttl now s = (res, s') \<Longrightarrow> srv_step (s, r) (s', r)"
| Count: "srv_step (s, r) (s\<lparr>metrics := m\<rparr>, r)"

inductive reachable :: "limits \<Rightarrow> server_state \<times> rng \<Rightarrow> bool" for L where
  Start: "rng_laws r \<Longrightarrow> reachable L (state_new L, r)"
| Step: "reachable L x \<Longrightarrow> srv_step x y \<Longrightarrow> reachable L y"

inductive_cases srv_stepE: "srv_step (s, r) (s', r')"

lemma srv_step_ok: "srv_step (s, r) (s', r') \<Longrightarrow> server_ok s \<Longrightarrow> rng_laws r \<Longrightarrow> server_ok s' \<and> rng_laws r'"
proof (induction "(s, r)" "(s', r')" arbitrary: s r s' r' rule: srv_step.induct)
  case (Register s a res s' r) then show ?case using register_client_ok [of s a] by simp
next
  case (Remove a s res s' r) then show ?case using remove_client_ok [of s a] by simp
next
  case (Leave a s res s' r) then show ?case using leave_channel_ok [of s a] by simp
next
  case (UdpHello t u now s res s' r) then show ?case using register_udp_ok [of s t u now] by simp
next
  case (Rename a n s res s' r) then show ?case using rename_client_ok [of s a n] by simp
next
  case (Cleanup grace ttl now s res s' r) then show ?case using cleanup_with_ok [of s grace ttl now] by simp
qed (auto intro: inv_intros)

lemma reachable_ok: "reachable L x \<Longrightarrow> server_ok (fst x) \<and> rng_laws (snd x)"
proof (induction rule: reachable.induct)
  case (Step x y)
  then show ?case using srv_step_ok [of "fst x" "snd x" "fst y" "snd y"] by simp
qed (simp add: state_new_def server_ok_new)

lemma reachableD: "reachable L (s, r) \<Longrightarrow> server_ok s"
  using reachable_ok by fastforce

lemma srv_step_limits: "srv_step x y \<Longrightarrow> limits (fst y) = limits (fst x)"
proof (induction rule: srv_step.induct)
  case (Remove a s res s' r)
  then show ?case by (auto simp: remove_client_def Let_def split: option.splits)
next
  case (Create name now r s res s' r')
  then show ?case
    by (auto simp: create_channel_def Let_def case_prod_beta split: if_splits option.splits)
next
  case (Persist name now r s res s' r')
  then show ?case
    by (auto simp: create_persistent_channel_def create_channel_def Let_def case_prod_beta
        split: if_splits option.splits sum.splits)
next
  case (Join a ch now r s res s' r')
  then show ?case
    by (auto simp: join_channel_def rotate_voice_key_def Let_def case_prod_beta split: if_splits option.splits)
next
  case (Echo a now r s res s' r')
  then show ?case
    by (auto simp: start_echo_test_def Let_def case_prod_beta split: if_splits option.splits)
next
  case (UdpHello t u now s res s' r)
  then show ?case
    by (auto simp: register_udp_by_token_def Let_def case_prod_beta split: if_splits option.splits)
next
  case (Cleanup grace ttl now s res s' r)
  then show ?case by (auto simp: cleanup_with_def Let_def)
qed (auto simp: register_client_def set_pubkey_def leave_channel_def rename_client_def Let_def
    split: if_splits option.splits)

lemma reachable_limits: "reachable L x \<Longrightarrow> limits (fst x) = L"
  by (induction rule: reachable.induct) (simp_all add: srv_step_limits state_new_def with_metrics_def)

text \<open>A run of the system.\<close>

abbreviation steps :: "server_state \<times> rng \<Rightarrow> server_state \<times> rng \<Rightarrow> bool" where
  "steps \<equiv> srv_step\<^sup>*\<^sup>*"

lemma steps_reachable: "steps x y \<Longrightarrow> reachable L x \<Longrightarrow> reachable L y"
  by (induction rule: rtranclp_induct) (auto intro: reachable.Step)

section \<open>A generator and a run for the witnesses\<close>

definition sample_rng :: rng where
  "sample_rng = \<lparr>rng_pos = 0, rng_range = (\<lambda>i n. i mod n), rng_u64 = (\<lambda>i. of_nat i + 7),
     rng_key = (\<lambda>i. replicate 32 (of_nat i))\<rparr>"

lemma sample_rng_laws [simp]: "rng_laws sample_rng"
  by (simp add: rng_laws_def sample_rng_def)

definition alice :: socket_addr where "alice = SockV4 1 5000"
definition bob :: socket_addr where "bob = SockV4 2 5000"
definition lobby :: channel_id where "lobby = ''pub-lobby''"

text \<open>A lobby, and two clients in it, before any UDP hello.\<close>

definition sample_limits :: limits where
  "sample_limits = \<lparr>max_channels = 0, max_clients = 0, limit_multiplier = 1\<rparr>"

definition sample_state :: server_state where
  "sample_state =
    \<lparr>channels = [(lobby, [])],
     clients = [(alice, \<lparr>ci_name = ''user-1'', ci_channel = Some lobby, ci_udp_addr = None, ci_pubkey = None\<rparr>),
                (bob, \<lparr>ci_name = ''user-2'', ci_channel = Some lobby, ci_udp_addr = None, ci_pubkey = None\<rparr>)],
     pubkey_index = [], channel_keys = [(lobby, replicate 32 0)], channel_created_at = [(lobby, 0)],
     persistent = [], udp_tokens = [(8, alice, lobby, 1), (9, bob, lobby, 2)], name_counter = 2,
     limits = sample_limits, peer_cache = [], metrics = metrics_new\<rparr>"

definition sample_rng_after :: rng where "sample_rng_after = sample_rng\<lparr>rng_pos := 3\<rparr>"

lemmas sample_defs = sample_state_def sample_rng_def sample_rng_after_def alice_def bob_def lobby_def sample_limits_def

lemma sample_names: "decimal (Suc 0) = ''1''" "decimal 2 = ''2''"
proof -
  have "char_of (48 + 1 :: nat) = CHR ''1''" "char_of (48 + 2 :: nat) = CHR ''2''"
    by (simp_all add: char_of_def bit_iff_odd)
  then show "decimal (Suc 0) = ''1''" "decimal 2 = ''2''" by (simp_all add: decimal.simps)
qed

lemma sample_reachable: "reachable sample_limits (sample_state, sample_rng_after)"
proof -
  define s0 where "s0 = state_new sample_limits"
  define s1 where "s1 = snd (register_client alice s0)"
  define s2 where "s2 = snd (register_client bob s1)"
  note step = reachable.Step
  have 0: "reachable sample_limits (s0, sample_rng)" unfolding s0_def by (rule Start) simp
  have 1: "reachable sample_limits (s1, sample_rng)"
    by (rule step [OF 0 srv_step.Register [of _ alice "fst (register_client alice s0)"]])
      (simp_all add: s1_def s0_def state_new_def with_metrics_def)
  have s1: "s1 = s0\<lparr>name_counter := 1, clients := [(alice, new_client ''user-1'')]\<rparr>"
    by (simp add: s1_def s0_def register_client_def state_new_def with_metrics_def sample_limits_def
        sample_names Let_def)
  have 2: "reachable sample_limits (s2, sample_rng)"
    by (rule step [OF 1 srv_step.Register [of _ bob "fst (register_client bob s1)"]])
      (simp_all add: s2_def s1 s0_def state_new_def with_metrics_def alice_def bob_def)
  have s2: "s2 = s0\<lparr>name_counter := 2, clients := [(alice, new_client ''user-1''), (bob, new_client ''user-2'')]\<rparr>"
    by (simp add: s2_def s1 s0_def register_client_def state_new_def with_metrics_def sample_limits_def
        sample_names Let_def alice_def bob_def)
  define s3 where "s3 = add_channel lobby (replicate 32 0) 0 s2"
  have "create_channel (Some ''lobby'') 0 sample_rng s2 = Some (Inr lobby, s3, rng_next sample_rng)"
    by (simp add: create_channel_def s2 s0_def at_channel_limit_def state_new_def with_metrics_def
        sample_limits_def config_defs s3_def random_key_def sample_rng_def lobby_def Let_def)
  from step [OF 2 srv_step.Create [OF this]]
  have 3: "reachable sample_limits (s3, rng_next sample_rng)" .
  have d: "draw_until random_u64 ok r = Some (fst (random_u64 r), snd (random_u64 r))"
    if "ok (fst (random_u64 r))" for ok r
    using that by (subst draw_until.simps) (simp add: case_prod_beta)
  define s4 where "s4 = s3\<lparr>clients := [(alice, new_client ''user-1''\<lparr>ci_channel := Some lobby\<rparr>), (bob, new_client ''user-2'')],
    udp_tokens := [(8, alice, lobby, 1)]\<rparr>"
  have f: "clients s3 = [(alice, new_client ''user-1''), (bob, new_client ''user-2'')]"
    "udp_tokens s3 = []" "hm_get (channels s3) lobby = Some []" "hm_get (channel_keys s3) lobby = Some (replicate 32 0)"
    "persistent s3 = []"
    by (simp_all add: s3_def s2 s0_def state_new_def with_metrics_def add_channel_def)
  have "join_channel alice lobby 1 (rng_next sample_rng) s3 =
      Some (Inr ([''user-1''], 8, replicate 32 0), s4, rng_next (rng_next sample_rng))"
    by (simp add: join_channel_def rotate_voice_key_def f d fresh_token_def random_u64_def
        sample_rng_def new_client_def s4_def alice_def bob_def in_channel_def Let_def)
  from step [OF 3 srv_step.Join [OF this]]
  have 4: "reachable sample_limits (s4, rng_next (rng_next sample_rng))" .
  have f: "clients s4 = [(alice, new_client ''user-1''\<lparr>ci_channel := Some lobby\<rparr>), (bob, new_client ''user-2'')]"
    "udp_tokens s4 = [(8, alice, lobby, 1)]" "hm_get (channels s4) lobby = Some []"
    "hm_get (channel_keys s4) lobby = Some (replicate 32 0)" "persistent s4 = []"
    by (simp_all add: s4_def f)
  have "join_channel bob lobby 2 (rng_next (rng_next sample_rng)) s4 =
      Some (Inr ([''user-1'', ''user-2''], 9, replicate 32 0), sample_state, sample_rng_after)"
    by (simp add: join_channel_def rotate_voice_key_def f d fresh_token_def random_u64_def
        new_client_def in_channel_def Let_def s4_def s3_def s2 s0_def state_new_def with_metrics_def
        add_channel_def sample_defs rng_next_def)
  from step [OF 4 srv_step.Join [OF this]] show ?thesis .
qed

section \<open>Properties of every reachable state\<close>

text \<open>C1 In every reachable state of the server the maps agree with each other: every channel has
  a 32-byte voice key and a creation time, persistent channels exist, the pending UDP tokens are
  exactly the memberships, every participant's UDP address was registered by a member from the host
  of its TCP session, the peer cache equals the participants, the public key index points at
  clients with that key, and the configured limits on clients and channels are respected.\<close>

theorem server_invariant: "reachable L (s, r) \<Longrightarrow> server_ok s \<and> limits s = L"
  using reachableD reachable_limits by fastforce

theorem server_invariant_witness: "server_ok sample_state \<and> limits sample_state = sample_limits"
  by (rule server_invariant [OF sample_reachable])

text \<open>One UDP hello further: alice's voice address is registered.\<close>

definition alice_udp :: socket_addr where "alice_udp = SockV4 1 9000"

definition sample_voice :: server_state where
  "sample_voice = snd (register_udp_by_token 8 alice_udp 5 sample_state)"

lemma sample_voice_reachable: "reachable sample_limits (sample_voice, sample_rng_after)"
  by (rule reachable.Step [OF sample_reachable])
    (rule srv_step.UdpHello [of 8 alice_udp 5 _ "fst (register_udp_by_token 8 alice_udp 5 sample_state)"],
     simp add: sample_voice_def)

lemma sample_voice_eq:
  "sample_voice = sample_state
    \<lparr>channels := [(lobby, [alice_udp])], peer_cache := [(lobby, [alice_udp])],
     udp_tokens := [(8, alice, lobby, 5), (9, bob, lobby, 2)],
     clients := [(alice, \<lparr>ci_name = ''user-1'', ci_channel = Some lobby, ci_udp_addr = Some alice_udp, ci_pubkey = None\<rparr>),
                (bob, \<lparr>ci_name = ''user-2'', ci_channel = Some lobby, ci_udp_addr = None, ci_pubkey = None\<rparr>)]\<rparr>"
  by (simp add: sample_voice_def register_udp_by_token_def update_channel_peers_def sample_state_def
      alice_def bob_def alice_udp_def Let_def)

lemma cache_peers: "server_ok s \<Longrightarrow> fill_channel_peers ch x s = filter (\<lambda>u. u \<noteq> x) (participants s ch)"
proof -
  assume "server_ok s"
  then have "cached_peers s ch = participants s ch" by (simp add: server_ok_def wf_cache_def)
  then show ?thesis
    by (auto simp: fill_channel_peers_def cached_peers_def split: option.splits)
qed

lemma relay_targets_facts:
  assumes "server_ok s"
  shows "distinct (fill_channel_peers ch x s)"
    and "set (fill_channel_peers ch x s) = set (participants s ch) - {x}"
    and "\<forall>u \<in> set (fill_channel_peers ch x s). \<exists>a. member s a ch \<and> udp_of s a = Some u \<and>
       to_canonical (sock_ip a) = to_canonical (sock_ip u)"
proof -
  have d: "distinct (participants s ch)" using server_okD(1) [OF assms] by (simp add: wf_maps_def)
  have "\<exists>a. member s a ch \<and> udp_of s a = Some u \<and> to_canonical (sock_ip a) = to_canonical (sock_ip u)"
    if "u \<in> set (participants s ch)" for u
    using that server_okD(4) [OF assms] unfolding wf_peers_def by blast
  with d show "distinct (fill_channel_peers ch x s)"
    and "set (fill_channel_peers ch x s) = set (participants s ch) - {x}"
    and "\<forall>u \<in> set (fill_channel_peers ch x s). \<exists>a. member s a ch \<and> udp_of s a = Some u \<and>
       to_canonical (sock_ip a) = to_canonical (sock_ip u)"
    unfolding cache_peers [OF assms] by auto
qed

text \<open>C3 The addresses the UDP relay sends a packet to (read from the lock-free cache) are, in
  every reachable state, exactly the channel's registered participants without the sender, each
  once; and each of them was registered, from the same host as its TCP session, by a client that
  is in that channel now.\<close>

theorem relay_targets:
  assumes "reachable L (s, r)"
  shows "distinct (fill_channel_peers ch x s) \<and>
    set (fill_channel_peers ch x s) = set (participants s ch) - {x} \<and>
    (\<forall>u \<in> set (fill_channel_peers ch x s). \<exists>a. member s a ch \<and> udp_of s a = Some u \<and>
       to_canonical (sock_ip a) = to_canonical (sock_ip u))"
  using relay_targets_facts [OF reachableD [OF assms]] by blast

theorem relay_targets_witness:
  "fill_channel_peers lobby bob sample_voice = [alice_udp] \<and>
    set (participants sample_voice lobby) - {bob} = {alice_udp} \<and>
    (\<exists>a. member sample_voice a lobby \<and> udp_of sample_voice a = Some alice_udp \<and>
       to_canonical (sock_ip a) = to_canonical (sock_ip alice_udp))"
proof -
  have "fill_channel_peers lobby bob sample_voice = [alice_udp]"
    by (simp add: fill_channel_peers_def sample_voice_eq alice_udp_def bob_def)
  with relay_targets [OF sample_voice_reachable, of lobby bob] show ?thesis by simp
qed

text \<open>In every reachable state the UDP tokens are in one-to-one correspondence with the
  memberships: each member of a channel holds exactly one token, and a token's holder is in the
  token's channel. So the age limit of the maintenance pass never drops a token, whatever its
  value: only leaving the channel or disconnecting does.\<close>

theorem token_lifetime:
  assumes "reachable L (s, r)"
  shows "(member s a ch \<longleftrightarrow> (\<exists>t. holds_token s t a ch)) \<and>
    (\<forall>t t' a' ch' ch''. holds_token s t a' ch' \<and> holds_token s t' a' ch'' \<longrightarrow> t = t') \<and>
    \<not> holds_token s 0 a ch \<and>
    udp_tokens (snd (cleanup_with grace ttl now s)) = udp_tokens s"
proof -
  note ok = reachableD [OF assms]
  have "wf_tokens s" by (rule server_okD(3) [OF ok])
  then show ?thesis
    using cleanup_eq(2) [OF ok] unfolding wf_tokens_holds by blast
qed

lemma alice_token: "holds_token sample_voice 8 alice lobby"
  by (simp add: holds_token_def sample_voice_eq)

theorem token_lifetime_witness:
  "{t. holds_token sample_voice t alice lobby} = {8} \<and> member sample_voice alice lobby \<and>
    udp_tokens (snd (cleanup_with 0 0 (secs 100) sample_voice)) = udp_tokens sample_voice"
proof -
  note life = token_lifetime [OF sample_voice_reachable, of alice lobby 0 0 "secs 100"]
  have "holds_token sample_voice 8 alice lobby" by (rule alice_token)
  with life show ?thesis by blast
qed

section \<open>UDP registration\<close>

lemma hello_update_views:
  assumes "server_ok s" and t: "holds_token s t a ch"
    and ip: "to_canonical (sock_ip a) = to_canonical (sock_ip u)"
  shows "fst (register_udp_by_token t u now s)"
    and "member (snd (register_udp_by_token t u now s)) = member s"
    and "udp_of (snd (register_udp_by_token t u now s)) = (udp_of s)(a := Some u)"
    and "holds_token (snd (register_udp_by_token t u now s)) = holds_token s"
    and "participants (snd (register_udp_by_token t u now s)) x =
      (if x = ch \<and> hm_get (channels s) ch \<noteq> None then replaced (udp_of s a) u (participants s ch)
       else participants s x)"
    and "hm_get (channels (snd (register_udp_by_token t u now s))) x = None \<longleftrightarrow> hm_get (channels s) x = None"
proof -
  note w = server_okD [OF assms(1)]
  from t obtain i where i: "hm_get (udp_tokens s) t = Some (a, ch, i)" by (auto simp: holds_token_def)
  from register_udp_cases [OF w(3), of t u now] i ip
  obtain c where c: "hm_get (clients s) a = Some c" "ci_channel c = Some ch"
      and r: "register_udp_by_token t u now s = (True, update_channel_peers ch (hello_update t a ch c u now s))"
    by (metis option.inject prod.inject)
  let ?h = "hello_update t a ch c u now s"
  have v: "member (update_channel_peers ch ?h) = member ?h" "udp_of (update_channel_peers ch ?h) = udp_of ?h"
    "participants (update_channel_peers ch ?h) = participants ?h"
    by (rule views_cong; simp)+
  have c2: "udp_of s a = ci_udp_addr c" using c by (simp add: udp_of_def)
  show "fst (register_udp_by_token t u now s)" using r by simp
  show "member (snd (register_udp_by_token t u now s)) = member s"
    using hello_members(1) [OF c(1)] by (simp add: r v)
  show "udp_of (snd (register_udp_by_token t u now s)) = (udp_of s)(a := Some u)"
    using hello_members(2) [OF c(1)] by (simp add: r v)
  show "participants (snd (register_udp_by_token t u now s)) x =
      (if x = ch \<and> hm_get (channels s) ch \<noteq> None then replaced (udp_of s a) u (participants s ch)
       else participants s x)"
    unfolding r snd_conv v(3) hello_participants c2 ..
  show "hm_get (channels (snd (register_udp_by_token t u now s))) x = None \<longleftrightarrow> hm_get (channels s) x = None"
    by (simp add: r hello_update_def split: option.split)
  have "holds_token (snd (register_udp_by_token t u now s)) x b y = holds_token s x b y" for x b y
    using i by (auto simp: holds_token_def r hello_update_def)
  then show "holds_token (snd (register_udp_by_token t u now s)) = holds_token s" by (intro ext)
qed

lemma hello_refused:
  assumes "server_ok s" and "\<not> fst (register_udp_by_token t u now s)"
  shows "snd (register_udp_by_token t u now s) = s"
  using assms(2) by (rule_tac register_udp_cases [OF server_okD(3) [OF assms(1)], of t u now]) auto

lemma hello_accepted:
  assumes "server_ok s" and "fst (register_udp_by_token t u now s)"
  obtains a ch where "holds_token s t a ch" "to_canonical (sock_ip a) = to_canonical (sock_ip u)"
  using assms(2)
  by (rule_tac register_udp_cases [OF server_okD(3) [OF assms(1)], of t u now]) (auto simp: holds_token_def)

text \<open>A hello with a session's token from the session's own host is always acknowledged and
  makes its source the session's only voice address: in a channel that still exists it becomes a
  relay target (for every other sender), the address it replaces stops being one, and saying the
  same hello again changes nothing but the token's time stamp. A retried or rebound hello
  therefore always heals the registration.\<close>

theorem hello_registers:
  assumes "reachable L (s, r)" and "holds_token s t a ch"
    and "to_canonical (sock_ip a) = to_canonical (sock_ip u)"
    and "register_udp_by_token t u now s = (ok, s')"
  shows "ok \<and> udp_of s' = (udp_of s)(a := Some u) \<and> member s' = member s \<and>
    (hm_get (channels s) ch \<noteq> None \<longrightarrow>
      (\<forall>x. x \<noteq> u \<longrightarrow> u \<in> set (fill_channel_peers ch x s')) \<and>
      (\<forall>v x. udp_of s a = Some v \<longrightarrow> v \<noteq> u \<longrightarrow> v \<notin> set (fill_channel_peers ch x s'))) \<and>
    (\<forall>later x y. fst (register_udp_by_token t u later s') \<and>
      set (fill_channel_peers x y (snd (register_udp_by_token t u later s'))) = set (fill_channel_peers x y s'))"
proof -
  note ok = reachableD [OF assms(1)]
  note v = hello_update_views [OF ok assms(2,3), of now, unfolded assms(4) fst_conv snd_conv]
  have ok': "server_ok s'" using register_udp_ok [OF ok, of t u now] by (simp add: assms(4))
  have t': "holds_token s' t a ch" using v(4) assms(2) by simp
  note v' = hello_update_views [OF ok' t' assms(3)]
  have part: "set (participants s' ch) = insert u (set (participants s ch) - set_option (udp_of s a))"
    if "hm_get (channels s) ch \<noteq> None" using that by (simp add: v(5) set_replaced)
  have again: "set (participants (snd (register_udp_by_token t u later s')) x) = set (participants s' x)" for later x
  proof (cases "x = ch \<and> hm_get (channels s') ch \<noteq> None")
    case True
    then have "u \<in> set (participants s' ch)" using part v(6) by simp
    with True v(3) show ?thesis by (auto simp: v'(5) replaced_def)
  next
    case False
    then show ?thesis unfolding v'(5) by (simp only: if_False)
  qed
  have fill: "set (fill_channel_peers x y z) = set (participants z x) - {y}" if "server_ok z" for x y z
    using cache_peers [OF that] by auto
  have "server_ok (snd (register_udp_by_token t u later s'))" for later
    by (rule register_udp_ok [OF ok'])
  then show ?thesis
    using v(1-3) v'(1) again part by (auto simp: fill ok')
qed

theorem hello_registers_witness:
  "\<exists>s'. register_udp_by_token 8 (SockV4 1 9999) 6 sample_voice = (True, s') \<and>
    udp_of s' = (udp_of sample_voice)(alice := Some (SockV4 1 9999)) \<and>
    SockV4 1 9999 \<in> set (fill_channel_peers lobby bob s') \<and>
    alice_udp \<notin> set (fill_channel_peers lobby bob s')"
proof -
  obtain ok s' where r: "register_udp_by_token 8 (SockV4 1 9999) 6 sample_voice = (ok, s')"
    by (cases "register_udp_by_token 8 (SockV4 1 9999) 6 sample_voice")
  have "udp_of sample_voice alice = Some alice_udp" "hm_get (channels sample_voice) lobby \<noteq> None"
    "alice_udp \<noteq> SockV4 1 9999" "bob \<noteq> SockV4 1 9999"
    by (simp_all add: udp_of_def sample_voice_eq alice_udp_def bob_def)
  with hello_registers [OF sample_voice_reachable alice_token _ r] show ?thesis
    by (auto simp: alice_def r)
qed

section \<open>Joining\<close>

lemma occupied_list: "server_ok s \<Longrightarrow> list_ex (in_channel ch) (map snd (clients s)) \<longleftrightarrow> (\<exists>a. member s a ch)"
  using members_list [of s ch] server_okD(1) [of s]
  by (simp add: list_ex_iff in_channel_def wf_maps_def)

text \<open>C8 Who joins a channel gets the channel's current voice key, always of 32 bytes, and a token no other
  membership has. The key is replaced first by a newly drawn one exactly when the channel is persistent and nobody is in
  it: whoever enters a lobby that has been empty cannot have had the key it starts with, and in every other case the
  members' key stays, as a channel that is not persistent keeps the one it was created with. Nobody else's membership,
  token or voice address changes, nor any other channel's key.\<close>

theorem join_keys:
  assumes "reachable L (s, r)" and "join_channel a ch now r s = Some (Inr (names, token, key), s', r')"
  shows "hm_get (channel_keys s') ch = Some key \<and> length key = 32 \<and>
    (if ch \<in> set (persistent s) \<and> (\<forall>b. \<not> member s b ch) then key = fst (random_key r)
     else hm_get (channel_keys s) ch = Some key) \<and>
    (\<forall>c. c \<noteq> ch \<longrightarrow> hm_get (channel_keys s') c = hm_get (channel_keys s) c) \<and>
    holds_token s' token a ch \<and> hm_get (udp_tokens s) token = None \<and> token \<noteq> 0 \<and>
    (\<forall>b c. member s' b c \<longleftrightarrow> member s b c \<or> b = a \<and> c = ch) \<and>
    (\<forall>t b c. b \<noteq> a \<longrightarrow> holds_token s' t b c = holds_token s t b c) \<and>
    participants s' = participants s"
proof -
  note ok = reachableD [OF assms(1)]
  obtain c s1 r1 where ch: "hm_get (channels s) ch \<noteq> None" and c: "hm_get (clients s) a = Some c" "ci_channel c = None"
    and rot: "rotate_voice_key ch r s = (s1, r1)" and d: "draw_until random_u64 (fresh_token s) r1 = Some (token, r')"
    and s': "s' = s1\<lparr>clients := hm_insert a (c\<lparr>ci_channel := Some ch\<rparr>) (clients s1),
      udp_tokens := hm_insert token (a, ch, now) (udp_tokens s1)\<rparr>"
    and key: "key = (case hm_get (channel_keys s1) ch of Some k \<Rightarrow> k | None \<Rightarrow> [])"
    using join_channel_success [OF assms(2)] by metis
  let ?rot = "ch \<in> set (persistent s) \<and> (\<forall>b. \<not> member s b ch)"
  have s1: "s1 = (if ?rot then s\<lparr>channel_keys := hm_insert ch (fst (random_key r)) (channel_keys s)\<rparr> else s)"
    using rot occupied_list [OF ok, of ch]
    by (auto simp: rotate_voice_key_def Let_def case_prod_beta split: if_splits)
  have sel: "clients s1 = clients s" "udp_tokens s1 = udp_tokens s" "channels s1 = channels s"
    by (simp_all add: s1)
  have "fresh_token s token" by (rule draw_until_ok [OF d])
  then have fresh: "token \<noteq> 0" "hm_get (udp_tokens s) token = None"
    by (auto simp: fresh_token_def simp del: not_None_eq)
  have "hm_get (channel_keys s) ch \<noteq> None"
    using ch server_okD(2) [OF ok] by (simp add: wf_channels_def)
  then obtain k where k: "hm_get (channel_keys s) ch = Some k" by blast
  have keyed: "hm_get (channel_keys s') ch = Some key"
    using k by (auto simp: s' key s1)
  have "reachable L (s', r')" by (rule reachable.Step [OF assms(1) srv_step.Join [OF assms(2)]])
  then have "length key = 32" using keyed server_okD(2) [OF reachableD] by (auto simp: wf_channels_def)
  moreover have "\<forall>c. c \<noteq> ch \<longrightarrow> hm_get (channel_keys s') c = hm_get (channel_keys s) c"
    by (simp add: s' s1)
  moreover note keyed
  moreover have "if ?rot then key = fst (random_key r) else hm_get (channel_keys s) ch = Some key"
    using k by (auto simp: key s1)
  moreover have "holds_token s' token a ch" by (simp add: holds_token_def s' sel)
  moreover have "member s' b x \<longleftrightarrow> member s b x \<or> b = a \<and> x = ch" for b x
    using c by (auto simp: member_def s' sel)
  moreover have "b \<noteq> a \<Longrightarrow> holds_token s' t b x = holds_token s t b x" for t b x
    using fresh(2) by (auto simp: holds_token_def s' sel)
  moreover have "participants s' = participants s" by (rule views_cong) (simp add: s' sel)
  ultimately show ?thesis using fresh by blast
qed

definition carol :: socket_addr where "carol = SockV4 3 5000"

text \<open>An empty lobby, which \<open>alice\<close> enters: the key drawn at its creation is replaced.\<close>

definition empty_lobby :: server_state where
  "empty_lobby = (state_new sample_limits)\<lparr>name_counter := 1, clients := [(alice, new_client ''user-1'')],
     channels := [(lobby, [])], channel_keys := [(lobby, replicate 32 0)], channel_created_at := [(lobby, 0)],
     persistent := [lobby]\<rparr>"

lemma empty_lobby_reachable: "reachable sample_limits (empty_lobby, rng_next sample_rng)"
proof -
  let ?s0 = "state_new sample_limits"
  let ?s1 = "?s0\<lparr>name_counter := 1, clients := [(alice, new_client ''user-1'')]\<rparr>"
  have r: "register_client alice ?s0 = (fst (register_client alice ?s0), ?s1)"
    by (simp add: register_client_def state_new_def with_metrics_def sample_limits_def sample_names Let_def)
  have 1: "reachable sample_limits (?s1, sample_rng)"
    by (rule reachable.Step [OF reachable.Start [OF sample_rng_laws] srv_step.Register [OF _ r]])
      (simp add: state_new_def with_metrics_def)
  have "create_persistent_channel ''lobby'' 0 sample_rng ?s1 = Some (Inr lobby, empty_lobby, rng_next sample_rng)"
    by (simp add: create_persistent_channel_def create_channel_def at_channel_limit_def state_new_def with_metrics_def
        sample_limits_def config_defs add_channel_def random_key_def sample_rng_def lobby_def empty_lobby_def Let_def)
  from reachable.Step [OF 1 srv_step.Persist [OF this]] show ?thesis .
qed

theorem join_keys_witness:
  "\<exists>names token s' r'. join_channel alice lobby 9 (rng_next sample_rng) empty_lobby =
      Some (Inr (names, token, replicate 32 1), s', r') \<and>
    hm_get (channel_keys empty_lobby) lobby = Some (replicate 32 0) \<and>
    hm_get (channel_keys s') lobby = Some (replicate 32 1) \<and> holds_token s' token alice lobby"
proof -
  have d: "draw_until random_u64 ok r = Some (fst (random_u64 r), snd (random_u64 r))"
    if "ok (fst (random_u64 r))" for ok r
    using that by (subst draw_until.simps) (simp add: case_prod_beta)
  have t: "fst (random_u64 (rng_next (rng_next sample_rng))) = 9" by (simp add: random_u64_def sample_rng_def rng_next_def)
  have "\<exists>names token key s' r'. join_channel alice lobby 9 (rng_next sample_rng) empty_lobby =
      Some (Inr (names, token, key), s', r')"
    by (simp add: join_channel_def rotate_voice_key_def random_key_def d t fresh_token_def empty_lobby_def state_new_def
        with_metrics_def new_client_def in_channel_def Let_def)
  then obtain names token key s' r' where j: "join_channel alice lobby 9 (rng_next sample_rng) empty_lobby =
      Some (Inr (names, token, key), s', r')" by blast
  have p: "lobby \<in> set (persistent empty_lobby)" "\<forall>b. \<not> member empty_lobby b lobby"
      "hm_get (channel_keys empty_lobby) lobby = Some (replicate 32 0)"
    by (simp_all add: empty_lobby_def member_def new_client_def)
  have "fst (random_key (rng_next sample_rng)) = replicate 32 1" by (simp add: random_key_def sample_rng_def rng_next_def)
  then have "key = replicate 32 1" "hm_get (channel_keys s') lobby = Some key" "holds_token s' token alice lobby"
    using join_keys [OF empty_lobby_reachable j] p by simp_all
  with j p show ?thesis by blast
qed

section \<open>Cleanup\<close>

text \<open>C9 The maintenance pass removes exactly the channels that are not persistent, have no
  registered voice address and no member, and are older than the grace period; everything else,
  every membership, every relay target and every token, stays.\<close>

theorem cleanup_exact:
  assumes "reachable L (s, r)" and "cleanup_with grace ttl now s = (gone, s')"
  shows "(ch \<in> set gone \<longleftrightarrow> hm_get (channels s) ch = Some [] \<and> ch \<notin> set (persistent s) \<and>
      (\<forall>a. \<not> member s a ch) \<and> (\<exists>t. hm_get (channel_created_at s) ch = Some t \<and> now - t > grace)) \<and>
    hm_get (channels s') ch = (if ch \<in> set gone then None else hm_get (channels s) ch) \<and>
    hm_get (channel_keys s') ch = (if ch \<in> set gone then None else hm_get (channel_keys s) ch) \<and>
    clients s' = clients s \<and> udp_tokens s' = udp_tokens s \<and> peer_cache s' = peer_cache s"
proof -
  note ok = reachableD [OF assms(1)]
  note w = server_okD [OF ok]
  have e: "gone = map fst (filter (\<lambda>(ch, ps). reapable grace now s ch ps) (channels s))"
    "s' = remove_channels gone s"
    using cleanup_eq(1) [OF ok, of grace ttl now] assms(2) by (auto simp: Let_def)
  have t: "udp_tokens s' = udp_tokens s" using cleanup_eq(2) [OF ok, of grace ttl now] assms(2) by simp
  have "ch \<in> set gone \<longleftrightarrow> (\<exists>ps. hm_get (channels s) ch = Some ps \<and> reapable grace now s ch ps)"
    using w(1) by (auto simp: e(1) wf_maps_def hm_in_set image_iff)
  also have "\<dots> \<longleftrightarrow> hm_get (channels s) ch = Some [] \<and> ch \<notin> set (persistent s) \<and>
      (\<forall>a. \<not> member s a ch) \<and> (\<exists>t. hm_get (channel_created_at s) ch = Some t \<and> now - t > grace)"
  proof -
    have "hm_get (channels s) ch \<noteq> None \<Longrightarrow> hm_get (channel_created_at s) ch \<noteq> None"
      using w(2) by (simp add: wf_channels_def)
    then show ?thesis
      using occupied_iff [of s ch] w(1) by (auto simp: reapable_def wf_maps_def split: option.splits)
  qed
  finally show ?thesis using t by (simp add: e(2))
qed

theorem cleanup_exact_witness:
  "\<exists>gone s'. cleanup_with 0 0 (secs 100) sample_voice = (gone, s') \<and> lobby \<notin> set gone \<and>
    hm_get (channels s') lobby = Some [alice_udp] \<and> peer_cache s' = peer_cache sample_voice"
proof -
  obtain gone s' where c: "cleanup_with 0 0 (secs 100) sample_voice = (gone, s')"
    by (cases "cleanup_with 0 0 (secs 100) sample_voice")
  have "hm_get (channels sample_voice) lobby = Some [alice_udp]" by (simp add: sample_voice_eq)
  with cleanup_exact [OF sample_voice_reachable c, of lobby] show ?thesis by (simp add: c)
qed

section \<open>The loops that draw\<close>

text \<open>\<open>create_channel\<close> without a name returns (instead of drawing for ever under the write
  lock) exactly when the channel limit refuses the request or the generator yields some identifier
  that is not taken; \<open>join_channel\<close> of a client that may join returns exactly when the generator
  yields a non-zero unused token.\<close>

theorem draws_return:
  "((\<exists>res. create_channel None now r s = Some res) \<longleftrightarrow>
      at_channel_limit s \<or> (\<exists>n. hm_get (channels s) (draws generate_channel_id n r) = None)) \<and>
   ((\<exists>res. join_channel a ch now r s = Some res) \<longleftrightarrow>
      hm_get (channels s) ch = None \<or>
      (case hm_get (clients s) a of None \<Rightarrow> True | Some c \<Rightarrow> (case ci_channel c of Some cur \<Rightarrow> True | None \<Rightarrow>
        (\<exists>n. fresh_token s (rng_u64 r (rng_pos (snd (rotate_voice_key ch r s)) + n))))))"
proof
  show "(\<exists>res. create_channel None now r s = Some res) \<longleftrightarrow>
      at_channel_limit s \<or> (\<exists>n. hm_get (channels s) (draws generate_channel_id n r) = None)"
    unfolding draw_until_iff [of generate_channel_id "\<lambda>ch. hm_get (channels s) ch = None" r, symmetric]
    by (auto simp: create_channel_def case_prod_beta split: option.splits)
next
  obtain s1 r1 where rot: "rotate_voice_key ch r s = (s1, r1)" by (cases "rotate_voice_key ch r s")
  have f: "fresh_token s1 = fresh_token s" using rotate_voice_key_frame(3) [of ch r s] rot by simp
  have u: "rng_u64 r1 = rng_u64 r"
    using rot by (auto simp: rotate_voice_key_def Let_def case_prod_beta random_key_def split: if_splits)
  have "(\<exists>y. draw_until random_u64 (fresh_token s) r1 = Some y) \<longleftrightarrow>
      (\<exists>n. fresh_token s (rng_u64 r (rng_pos r1 + n)))"
    using draw_until_iff [of random_u64 "fresh_token s" r1] unfolding draws_random_u64 u .
  then show "(\<exists>res. join_channel a ch now r s = Some res) \<longleftrightarrow>
      hm_get (channels s) ch = None \<or>
      (case hm_get (clients s) a of None \<Rightarrow> True | Some c \<Rightarrow> (case ci_channel c of Some cur \<Rightarrow> True | None \<Rightarrow>
        (\<exists>n. fresh_token s (rng_u64 r (rng_pos (snd (rotate_voice_key ch r s)) + n)))))"
    by (auto simp: join_channel_def rot f Let_def split: option.splits)
qed

section \<open>Listing\<close>

lemma count_clients_get:
  "hm_get (count_clients counts cs) ch =
    (let n = length (filter (in_channel ch) cs) in
     case hm_get counts ch of
       Some m \<Rightarrow> Some (m + of_nat n)
     | None \<Rightarrow> if n = 0 then None else Some (of_nat n))"
  by (induction counts cs rule: count_clients.induct)
    (auto simp: in_channel_def Let_def split: option.splits)

lemma map_of_map_keys: "map_of (map (\<lambda>k. (k, f k)) ks) k = (if k \<in> set ks then Some (f k) else None)"
  by (induction ks) auto

text \<open>The public list names every channel whose identifier starts with \<open>pub-\<close> and no other,
  each once, with the number of clients in it.\<close>

theorem public_list_exact:
  assumes "reachable L (s, r)"
  shows "hm_get (list_public_channels s) ch =
      (if hm_get (channels s) ch \<noteq> None \<and> starts_with PUBLIC_CHANNEL_PREFIX ch
       then Some (of_nat (card {a. member s a ch})) else None) \<and>
    distinct (map fst (list_public_channels s))"
proof -
  note w = server_okD [OF reachableD [OF assms]]
  have kc: "distinct (map fst (clients s))" using w(1) by (simp add: wf_maps_def keys_distinct_def)
  have "{a. member s a ch} = fst ` set (filter (\<lambda>(a, c). in_channel ch c) (clients s))"
    using w(1) by (force simp: member_def in_channel_def wf_maps_def hm_in_set image_iff)
  moreover have "distinct (map fst (filter (\<lambda>(a, c). in_channel ch c) (clients s)))"
    using kc by (rule distinct_map_filter)
  ultimately have "card {a. member s a ch} = length (filter (\<lambda>(a, c). in_channel ch c) (clients s))"
    by (metis distinct_card length_map set_map)
  also have "\<dots> = length (filter (in_channel ch) (map snd (clients s)))"
    by (simp add: filter_map comp_def split_def)
  finally have card: "length (filter (in_channel ch) (map snd (clients s))) = card {a. member s a ch}" ..
  have "hm_get (list_public_channels s) ch =
      (if ch \<in> set (filter (starts_with PUBLIC_CHANNEL_PREFIX) (map fst (channels s)))
       then Some (case hm_get (count_clients [] (map snd (clients s))) ch of Some n \<Rightarrow> n | None \<Rightarrow> 0) else None)"
    by (simp only: list_public_channels_def Let_def map_of_map_keys)
  moreover have "ch \<in> set (map fst (channels s)) \<longleftrightarrow> hm_get (channels s) ch \<noteq> None"
    by (simp add: map_of_eq_None_iff)
  moreover have "distinct (map fst (list_public_channels s))"
    using w(1) by (simp add: list_public_channels_def Let_def comp_def wf_maps_def keys_distinct_def)
  moreover have "(case hm_get (count_clients [] (map snd (clients s))) ch of Some n \<Rightarrow> n | None \<Rightarrow> 0) =
      (of_nat (card {a. member s a ch}) :: 32 word)"
    unfolding count_clients_get card by (simp add: Let_def)
  ultimately show ?thesis by simp
qed

theorem public_list_exact_witness:
  "hm_get (list_public_channels sample_voice) lobby =
      (if hm_get (channels sample_voice) lobby \<noteq> None \<and> starts_with PUBLIC_CHANNEL_PREFIX lobby
       then Some (of_nat (card {a. member sample_voice a lobby})) else None) \<and>
    distinct (map fst (list_public_channels sample_voice))"
  by (rule public_list_exact [OF sample_voice_reachable])

end
