(* ===== verification/Server_Directory.thy ===== *)
theory Server_Directory
  imports Server_Properties
begin

text \<open>
  What the server promises about voice, without its maps: the sessions with their channel and
  voice address, the open channels, and the set of voice addresses of each channel. Every operation
  of \<open>ServerState\<close> that touches a membership refines the operation of this directory, where
  the voice addresses are the ones the relay reads from the lock-free cache.
\<close>

record directory =
  sessions :: "socket_addr \<Rightarrow> (channel_id option \<times> socket_addr option) option"
  voice_peers :: "channel_id \<Rightarrow> socket_addr set"
  open_channels :: "channel_id set"
  lobbies :: "channel_id set"

definition directory_of :: "server_state \<Rightarrow> directory" where
  "directory_of s =
    \<lparr>sessions = (\<lambda>a. map_option (\<lambda>c. (ci_channel c, ci_udp_addr c)) (hm_get (clients s) a)),
     voice_peers = (\<lambda>ch. set (cached_peers s ch)),
     open_channels = {ch. hm_get (channels s) ch \<noteq> None},
     lobbies = set (persistent s)\<rparr>"

text \<open>A channel closes when its last voice address goes, unless it is a lobby.\<close>

definition spec_vacate :: "channel_id \<Rightarrow> socket_addr option \<Rightarrow> directory \<Rightarrow> directory" where
  "spec_vacate ch udp d =
    (let ps = voice_peers d ch - set_option udp
     in d\<lparr>voice_peers := (voice_peers d)(ch := ps),
          open_channels := open_channels d - (if ps = {} \<and> ch \<notin> lobbies d then {ch} else {})\<rparr>)"

definition spec_leave :: "socket_addr \<Rightarrow> directory \<Rightarrow> directory" where
  "spec_leave a d =
    (case sessions d a of
       Some (Some ch, udp) \<Rightarrow> spec_vacate ch udp (d\<lparr>sessions := (sessions d)(a \<mapsto> (None, None))\<rparr>)
     | _ \<Rightarrow> d)"

definition spec_disconnect :: "socket_addr \<Rightarrow> directory \<Rightarrow> directory" where
  "spec_disconnect a d =
    (case sessions d a of
       Some (Some ch, udp) \<Rightarrow> spec_vacate ch udp (d\<lparr>sessions := (sessions d)(a := None)\<rparr>)
     | _ \<Rightarrow> d\<lparr>sessions := (sessions d)(a := None)\<rparr>)"

definition spec_join :: "socket_addr \<Rightarrow> channel_id \<Rightarrow> directory \<Rightarrow> directory" where
  "spec_join a ch d = d\<lparr>sessions := (sessions d)(a \<mapsto> (Some ch, None))\<rparr>"

definition spec_hello :: "socket_addr \<Rightarrow> channel_id \<Rightarrow> socket_addr \<Rightarrow> directory \<Rightarrow> directory" where
  "spec_hello a ch u d =
    (let old = (case sessions d a of Some (_, udp) \<Rightarrow> udp | None \<Rightarrow> None)
     in d\<lparr>sessions := (sessions d)(a \<mapsto> (Some ch, Some u)),
          voice_peers := (if ch \<in> open_channels d
            then (voice_peers d)(ch := insert u (voice_peers d ch - set_option old)) else voice_peers d)\<rparr>)"

definition spec_open :: "channel_id \<Rightarrow> directory \<Rightarrow> directory" where
  "spec_open ch d = d\<lparr>open_channels := insert ch (open_channels d)\<rparr>"

lemma directory_of_participants:
  "server_ok s \<Longrightarrow> directory_of s =
    \<lparr>sessions = (\<lambda>a. map_option (\<lambda>c. (ci_channel c, ci_udp_addr c)) (hm_get (clients s) a)),
     voice_peers = (\<lambda>ch. set (participants s ch)),
     open_channels = {ch. hm_get (channels s) ch \<noteq> None},
     lobbies = set (persistent s)\<rparr>"
  by (simp add: directory_of_def server_ok_def wf_cache_def)

lemma participants_closed: "hm_get (channels s) ch = None \<Longrightarrow> participants s ch = []"
  by (simp add: participants_def)

lemma vacate_directory:
  assumes "\<And>c. cached_peers s c = participants s c"
  shows "directory_of (vacate_channel ch udp s) = spec_vacate ch udp (directory_of s)"
proof -
  have e: "set (without udp ps) = set ps - set_option udp" for ps by (rule set_without)
  have d: "destroyed_by ch udp s \<longleftrightarrow> hm_get (channels s) ch \<noteq> None \<and>
      set (participants s ch) - set_option udp = {} \<and> ch \<notin> set (persistent s)"
    unfolding destroyed_by_def e [symmetric] by simp
  have opn: "{c. hm_get (channels (vacate_channel ch udp s)) c \<noteq> None} =
      {c. hm_get (channels s) c \<noteq> None} - (if set (participants s ch) - set_option udp = {} \<and>
        ch \<notin> set (persistent s) then {ch} else {})"
    by (auto simp: vacate_contains d simp del: not_None_eq)
  show ?thesis
    using assms by (simp add: directory_of_def spec_vacate_def Let_def opn vacate_cached e fun_eq_iff
      del: not_None_eq)
qed

lemma leave_directory:
  assumes ok: "server_ok s"
  shows "directory_of (snd (leave_channel a s)) = spec_leave a (directory_of s)"
proof (cases "hm_get (clients s) a")
  case (Some c)
  show ?thesis
  proof (cases "ci_channel c")
    case None
    with Some show ?thesis by (simp add: leave_channel_def spec_leave_def directory_of_def)
  next
    case (Some ch)
    note c = \<open>hm_get (clients s) a = Some c\<close> Some
    let ?s = "drop_tokens a (s\<lparr>clients := hm_insert a (c\<lparr>ci_channel := None, ci_udp_addr := None\<rparr>) (clients s)\<rparr>)"
    have "cached_peers ?s = cached_peers s" "participants ?s = participants s"
      by (rule views_cong; simp add: drop_tokens_def)+
    with server_okD(5) [OF ok] have "cached_peers ?s x = participants ?s x" for x
      by (simp add: wf_cache_def)
    from vacate_directory [OF this]
    have "directory_of (snd (leave_channel a s)) = spec_vacate ch (ci_udp_addr c) (directory_of ?s)"
      using c by (simp add: leave_channel_def Let_def)
    also have "directory_of ?s = directory_of s\<lparr>sessions := (sessions (directory_of s))(a \<mapsto> (None, None))\<rparr>"
      using \<open>cached_peers ?s = cached_peers s\<close> by (auto simp: directory_of_def fun_eq_iff)
    finally show ?thesis using c by (simp add: spec_leave_def directory_of_def)
  qed
qed (simp add: leave_channel_def spec_leave_def directory_of_def)

lemma disconnect_directory:
  assumes ok: "server_ok s"
  shows "directory_of (snd (remove_client a s)) = spec_disconnect a (directory_of s)"
proof (cases "hm_get (clients s) a")
  case None
  then have "(sessions (directory_of s))(a := None) = sessions (directory_of s)"
    by (auto simp: directory_of_def fun_eq_iff)
  with None show ?thesis by (simp add: remove_client_def spec_disconnect_def directory_of_def)
next
  case (Some c)
  let ?s1 = "s\<lparr>clients := hm_remove a (clients s)\<rparr>"
  let ?s = "drop_tokens a (case ci_pubkey c of
      Some pk \<Rightarrow> ?s1\<lparr>pubkey_index := hm_remove pk (pubkey_index ?s1)\<rparr> | None \<Rightarrow> ?s1)"
  have sel: "peer_cache ?s = peer_cache s" "channels ?s = channels s" "persistent ?s = persistent s"
    "clients ?s = hm_remove a (clients s)"
    by (simp_all split: option.split)
  have p: "cached_peers ?s = cached_peers s" "participants ?s = participants s"
    by (rule views_cong(2) [OF sel(1)], rule views_cong(1) [OF sel(2)])
  have d: "directory_of ?s = directory_of s\<lparr>sessions := (sessions (directory_of s))(a := None)\<rparr>"
    unfolding directory_of_def p sel by (auto simp: fun_eq_iff)
  show ?thesis
  proof (cases "ci_channel c")
    case None
    with Some d show ?thesis by (simp add: remove_client_def Let_def spec_disconnect_def directory_of_def)
  next
    case (Some ch)
    note c = \<open>hm_get (clients s) a = Some c\<close> Some
    have "cached_peers ?s x = participants ?s x" for x
      unfolding p using server_okD(5) [OF ok] by (simp add: wf_cache_def)
    from vacate_directory [OF this]
    have "directory_of (snd (remove_client a s)) = spec_vacate ch (ci_udp_addr c) (directory_of ?s)"
      using c by (simp add: remove_client_def Let_def)
    with c d show ?thesis by (simp add: spec_disconnect_def directory_of_def)
  qed
qed

lemma join_directory:
  assumes ok: "server_ok s" and "join_channel a ch now r s = Some (Inr x, s', r')"
  shows "directory_of s' = spec_join a ch (directory_of s)"
proof -
  obtain names token key where x: "x = (names, token, key)" by (cases x) auto
  from assms(2) [unfolded x] obtain c s1 r1 where c: "hm_get (clients s) a = Some c" "ci_channel c = None"
    and rot: "rotate_voice_key ch r s = (s1, r1)"
    and s': "s' = s1\<lparr>clients := hm_insert a (c\<lparr>ci_channel := Some ch\<rparr>) (clients s1),
      udp_tokens := hm_insert token (a, ch, now) (udp_tokens s1)\<rparr>"
    by (rule join_channel_success)
  have sel: "clients s1 = clients s" "channels s1 = channels s" "persistent s1 = persistent s"
    "peer_cache s1 = peer_cache s"
    using rot by (auto simp: rotate_voice_key_def Let_def case_prod_beta split: if_splits)
  have "\<not> member s a y" for y using c by (simp add: member_def)
  then have "udp_of s a \<noteq> Some u" for u using server_okD(4) [OF ok] unfolding wf_peers_def by blast
  then have "ci_udp_addr c = None" using c by (cases "ci_udp_addr c") (auto simp: udp_of_def)
  moreover have "cached_peers s' = cached_peers s" by (rule views_cong) (simp add: s' sel)
  ultimately show ?thesis
    by (auto simp: directory_of_def spec_join_def s' sel fun_eq_iff)
qed

lemma hello_directory:
  assumes ok: "server_ok s" and t: "holds_token s t a ch"
    and ip: "to_canonical (sock_ip a) = to_canonical (sock_ip u)"
  shows "directory_of (snd (register_udp_by_token t u now s)) = spec_hello a ch u (directory_of s)"
proof -
  note v = hello_update_views [OF ok t ip, of now]
  let ?s = "snd (register_udp_by_token t u now s)"
  from t obtain i where i: "hm_get (udp_tokens s) t = Some (a, ch, i)" by (auto simp: holds_token_def)
  from register_udp_cases [OF server_okD(3) [OF ok], of t u now] i ip
  obtain c where c: "hm_get (clients s) a = Some c" "ci_channel c = Some ch"
      and r: "register_udp_by_token t u now s = (True, update_channel_peers ch (hello_update t a ch c u now s))"
    by (metis option.inject prod.inject)
  have cl: "clients ?s = hm_insert a (c\<lparr>ci_udp_addr := Some u\<rparr>) (clients s)"
    and per: "persistent ?s = persistent s"
    by (simp_all add: r hello_update_def)
  have u: "udp_of s a = ci_udp_addr c" using c by (simp add: udp_of_def)
  show ?thesis
    unfolding directory_of_participants [OF register_udp_ok [OF ok]] directory_of_participants [OF ok] v(5,6) cl per u
    using c by (auto simp: spec_hello_def Let_def fun_eq_iff set_replaced)
qed

lemma open_directory:
  assumes ok: "server_ok s" and "create_channel name now r s = Some (Inr ch, s', r')"
  shows "directory_of s' = spec_open ch (directory_of s)"
proof -
  obtain key where s': "s' = add_channel ch key now s"
    using assms(2) by (auto simp: create_channel_def Let_def case_prod_beta split: if_splits option.splits)
  have "cached_peers s' = cached_peers s" by (rule views_cong) (simp add: s')
  then show ?thesis by (auto simp: directory_of_def spec_open_def s' fun_eq_iff) (auto simp: add_channel_def)
qed

text \<open>C6 The server implements the voice directory: leaving, disconnecting, joining, a UDP hello
  and creating a channel do to the sessions, the open channels and the voice addresses the relay
  reads exactly what the directory says, and a refused hello, a rename and a public key leave the
  directory alone.\<close>

theorem directory_refinement:
  assumes "reachable L (s, r)"
  shows "directory_of (snd (leave_channel a s)) = spec_leave a (directory_of s) \<and>
    directory_of (snd (remove_client a s)) = spec_disconnect a (directory_of s) \<and>
    (\<forall>x s' r'. join_channel a ch now r s = Some (Inr x, s', r') \<longrightarrow> directory_of s' = spec_join a ch (directory_of s)) \<and>
    (\<forall>name s' r'. create_channel name now r s = Some (Inr ch, s', r') \<longrightarrow> directory_of s' = spec_open ch (directory_of s)) \<and>
    (\<forall>b c. holds_token s t b c \<and> to_canonical (sock_ip b) = to_canonical (sock_ip u) \<longrightarrow>
      directory_of (snd (register_udp_by_token t u now s)) = spec_hello b c u (directory_of s)) \<and>
    (\<not> fst (register_udp_by_token t u now s) \<longrightarrow>
      directory_of (snd (register_udp_by_token t u now s)) = directory_of s) \<and>
    directory_of (snd (rename_client a n s)) = directory_of s \<and>
    directory_of (set_pubkey a pk s) = directory_of s"
proof -
  note ok = reachableD [OF assms]
  have "directory_of (snd (rename_client a n s)) = directory_of s"
    by (auto simp: rename_client_def directory_of_def cached_peers_def fun_eq_iff split: option.split)
  moreover have "directory_of (set_pubkey a pk s) = directory_of s"
    by (auto simp: set_pubkey_def Let_def directory_of_def cached_peers_def fun_eq_iff split: option.split)
  ultimately show ?thesis
    using leave_directory [OF ok] disconnect_directory [OF ok] join_directory [OF ok] open_directory [OF ok]
      hello_directory [OF ok] hello_refused [OF ok] by auto
qed

theorem directory_refinement_witness:
  "directory_of (snd (leave_channel alice sample_voice)) = spec_leave alice (directory_of sample_voice) \<and>
    sessions (directory_of (snd (leave_channel alice sample_voice))) alice = Some (None, None)"
proof -
  have "directory_of (snd (leave_channel alice sample_voice)) = spec_leave alice (directory_of sample_voice)"
    using directory_refinement [OF sample_voice_reachable, of alice] by blast
  then show ?thesis
    by (simp add: spec_leave_def directory_of_def sample_voice_eq spec_vacate_def Let_def)
qed

section \<open>Two things the operations do to other clients\<close>

text \<open>C10 A member that leaves a channel in which no other member has a registered voice address yet destroys it under
  the members that remain: the channel is gone while they are still in it, with their tokens. Whatever happens on the
  server afterwards, as long as such a member stays (keeps its token) and nobody has created a channel of that name
  again, its hello is acknowledged and its voice address noted, but it becomes no one's relay target: neither it nor
  anybody else hears or is heard there.\<close>

theorem leave_cuts_off_members:
  assumes "reachable L (s, r)" and "member s a ch" and "holds_token s t b ch" and "b \<noteq> a"
    and "hm_get (channels s) ch \<noteq> None" and "ch \<notin> set (persistent s)"
    and "set (participants s ch) \<subseteq> set_option (udp_of s a)"
    and "s1 = snd (leave_channel a s)"
    and "steps (s1, r) (s', r')" and "holds_token s' t b ch" and "hm_get (channels s') ch = None"
    and "to_canonical (sock_ip b) = to_canonical (sock_ip u)"
  shows "hm_get (channels s1) ch = None \<and> member s1 b ch \<and> holds_token s1 t b ch \<and>
    (\<exists>s2. register_udp_by_token t u now s' = (True, s2) \<and> member s2 b ch \<and> udp_of s2 b = Some u \<and>
      hm_get (channels s2) ch = None \<and> fill_channel_peers ch x s2 = [])"
proof -
  note ok = reachableD [OF assms(1)]
  have "reachable L (s1, r)"
    by (rule reachable.Step [OF assms(1) srv_step.Leave [of a s "fst (leave_channel a s)"]]) (simp add: assms(8))
  note ok1 = reachableD [OF this] and ok' = reachableD [OF steps_reachable [OF assms(9) this]]
  obtain c where c: "hm_get (clients s) a = Some c" "ci_channel c = Some ch" using assms(2) by (auto simp: member_def)
  let ?s = "drop_tokens a (s\<lparr>clients := hm_insert a (c\<lparr>ci_channel := None, ci_udp_addr := None\<rparr>) (clients s)\<rparr>)"
  have s1: "s1 = vacate_channel ch (udp_of s a) ?s"
    using c by (simp add: assms(8) leave_channel_def Let_def udp_of_def)
  have p: "participants ?s = participants s" by (rule views_cong) simp
  have "set (without (udp_of s a) (participants s ch)) = {}" using assms(7) by (auto simp: set_without)
  then have "destroyed_by ch (udp_of s a) ?s" using assms(5,6) by (simp add: destroyed_by_def p)
  then have gone: "hm_get (channels s1) ch = None" by (simp add: s1 vacate_contains)
  have kd: "keys_distinct (udp_tokens s)" using server_okD(1) [OF ok] by (simp add: wf_maps_def)
  from assms(3) obtain i where i: "hm_get (udp_tokens s) t = Some (b, ch, i)" by (auto simp: holds_token_def)
  have "udp_tokens s1 = udp_tokens (drop_tokens a s)" by (simp add: s1 drop_tokens_def)
  then have hold: "holds_token s1 t b ch"
    using i assms(4) by (simp add: holds_token_def drop_tokens_get [OF kd])
  have mem: "member z b ch" if "server_ok z" "holds_token z t b ch" for z
    using token_member [OF server_okD(3) [OF that(1)]] that(2) by (auto simp: holds_token_def)
  obtain res s2 where s2: "register_udp_by_token t u now s' = (res, s2)" by fastforce
  note v = hello_update_views [OF ok' assms(10,12), of now, unfolded s2 fst_conv snd_conv]
  have ok2: "server_ok s2" using register_udp_ok [OF ok', of t u now] by (simp add: s2)
  have closed: "hm_get (channels s2) ch = None" using v(6) assms(11) by simp
  have "fill_channel_peers ch x s2 = []" using cache_peers [OF ok2] participants_closed [OF closed] by simp
  with gone hold mem [OF ok1 hold] mem [OF ok' assms(10)] s2 v(1-3) closed show ?thesis by auto
qed

text \<open>The only one registered leaves; \<open>bob\<close>'s hello comes after the maintenance pass.\<close>

theorem leave_cuts_off_members_witness:
  "\<exists>s2. register_udp_by_token 9 (SockV4 2 7777) 50 (snd (cleanup_with 0 0 0 (snd (leave_channel alice sample_voice)))) = (True, s2) \<and>
    udp_of s2 bob = Some (SockV4 2 7777) \<and> fill_channel_peers lobby alice_udp s2 = []"
proof -
  let ?s1 = "snd (leave_channel alice sample_voice)"
  let ?s' = "snd (cleanup_with 0 0 0 ?s1)"
  have "srv_step (?s1, sample_rng_after) (?s', sample_rng_after)"
    by (rule srv_step.Cleanup [of 0 0 0 _ "fst (cleanup_with 0 0 0 ?s1)"]) simp
  then have run: "steps (?s1, sample_rng_after) (?s', sample_rng_after)" by blast
  have s': "holds_token ?s' 9 bob lobby" "hm_get (channels ?s') lobby = None"
    by (simp_all add: leave_channel_def drop_tokens_def vacate_channel_def cleanup_with_def holds_token_def sample_voice_eq sample_state_def
        alice_def bob_def Let_def occupied_channels_def reapable_def in_channel_def remove_channel_from_cache_def
        hm_retain_def)
  have "member sample_voice alice lobby" "holds_token sample_voice 9 bob lobby" "bob \<noteq> alice"
    "hm_get (channels sample_voice) lobby \<noteq> None" "lobby \<notin> set (persistent sample_voice)"
    "set (participants sample_voice lobby) \<subseteq> set_option (udp_of sample_voice alice)"
    "to_canonical (sock_ip bob) = to_canonical (sock_ip (SockV4 2 7777))"
    by (simp_all add: member_def holds_token_def sample_voice_eq sample_state_def alice_def bob_def udp_of_def participants_def)
  from leave_cuts_off_members [OF sample_voice_reachable this(1-6) refl run s' this(7), of 50 alice_udp] show ?thesis by blast
qed

end
