(* ===== verification/Server_Udp.thy ===== *)
theory Server_Udp
  imports Server_Properties
begin

text \<open>
  \<^verbatim>\<open>crates/server/src/udp.rs\<close>: what the relay does with one datagram, the batch senders of
  Linux (\<open>sendmmsg\<close>) and macOS (\<open>sendmsg_x\<close>) with their cached address arrays, and the
  worker that composes them. Binding the sockets is left to the operating system.
\<close>

section \<open>Workers\<close>

definition resolve_workers :: "bool \<Rightarrow> nat option \<Rightarrow> nat \<Rightarrow> nat" where
  "resolve_workers linux available_parallelism requested =
    (let resolved = (if requested = 0
         then (case available_parallelism of Some n \<Rightarrow> n | None \<Rightarrow> 1) else requested)
     in if linux then max resolved 1 else 1)"

section \<open>One datagram\<close>

datatype relay_action =
    Ignore
  | Ack socket_addr "byte list"
  | FanOut "socket_addr list" "byte list"

definition count :: "((64 word \<Rightarrow> 64 word) \<Rightarrow> metrics \<Rightarrow> metrics) \<Rightarrow> nat \<Rightarrow> server_state \<Rightarrow> server_state" where
  "count counter n s = s\<lparr>metrics := counter (\<lambda>v. v + of_nat n) (metrics s)\<rparr>"

definition ECHO_NO_EXCLUDE :: socket_addr where
  "ECHO_NO_EXCLUDE = SockV4 0 0"

definition relay_targets_of :: "channel_id \<Rightarrow> socket_addr \<Rightarrow> server_state \<Rightarrow> socket_addr list" where
  "relay_targets_of ch src_addr s =
    (if starts_with ECHO_CHANNEL_PREFIX ch then fill_channel_peers ch ECHO_NO_EXCLUDE s
     else fill_channel_peers ch src_addr s)"

definition relay_datagram ::
    "instant \<Rightarrow> byte list \<Rightarrow> socket_addr \<Rightarrow> server_state \<Rightarrow> relay_action \<times> server_state" where
  "relay_datagram now data src_addr s =
    (let s = count m_udp_packets_in_update 1 s;
       s = count m_udp_bytes_in_update (length data) s
     in case decode_udp_hello data of
       Some token \<Rightarrow>
        if token = 0 then (Ignore, count m_udp_keepalives_update 1 s)
        else (case register_udp_by_token token src_addr now s of
            (True, s) \<Rightarrow> (Ack src_addr (encode_udp_hello token), count m_udp_hellos_ok_update 1 s)
          | (False, s) \<Rightarrow> (Ignore, count m_udp_hellos_invalid_update 1 s))
     | None \<Rightarrow>
       (case parse_channel_id data of
          None \<Rightarrow> (Ignore, count m_udp_voice_malformed_update 1 s)
        | Some ch \<Rightarrow>
           let peers = relay_targets_of ch src_addr s;
             s = (if peers \<noteq> [] then
                 count m_udp_bytes_relayed_update (length data * length peers)
                  (count m_udp_fanout_total_update (length peers)
                   (count m_udp_voice_relayed_update 1 s)) else s)
           in (FanOut peers data, s)))"

section \<open>The batch senders\<close>

text \<open>The socket address as the kernel reads it; ports and addresses are written big-endian.\<close>

datatype sockaddr =
    SockaddrIn "16 word" "32 word"
  | SockaddrIn6 "16 word" "128 word" "32 word" "32 word"

fun sockaddr_of :: "socket_addr \<Rightarrow> sockaddr" where
  "sockaddr_of (SockV4 ip port) = SockaddrIn port ip"
| "sockaddr_of (SockV6 ip port flowinfo scope) = SockaddrIn6 port ip flowinfo scope"

fun sockaddr_len :: "socket_addr \<Rightarrow> nat" where
  "sockaddr_len (SockV4 _ _) = 16"
| "sockaddr_len (SockV6 _ _ _ _) = 28"

text \<open>A message header points at an entry of \<open>sockaddrs\<close>; on Linux all of them share the one
  buffer vector, on macOS each carries its own length.\<close>

record mmsghdr =
  msg_name :: nat
  msg_namelen :: nat

record batch_linux =
  bl_sockaddrs :: "sockaddr list"
  bl_addrlen :: "nat list"
  bl_iov :: "byte list"
  bl_msgs :: "mmsghdr list"
  bl_cached_addrs :: "socket_addr list"

definition batch_new :: batch_linux where
  "batch_new = \<lparr>bl_sockaddrs = [], bl_addrlen = [], bl_iov = [], bl_msgs = [], bl_cached_addrs = []\<rparr>"

definition batch_rebuild :: "socket_addr list \<Rightarrow> batch_linux \<Rightarrow> batch_linux" where
  "batch_rebuild addrs b =
    (let sockaddrs = map sockaddr_of addrs; addrlen = map sockaddr_len addrs
     in b\<lparr>bl_sockaddrs := sockaddrs, bl_addrlen := addrlen,
          bl_msgs := map (\<lambda>i. \<lparr>msg_name = i, msg_namelen = addrlen ! i\<rparr>) [0..<length addrs],
          bl_cached_addrs := addrs\<rparr>)"

text \<open>\<open>sendmmsg\<close> sends the first \<open>n\<close> headers' datagrams; the kernel may stop early, so
  this is the list it is asked for.\<close>

definition sendmmsg :: "batch_linux \<Rightarrow> nat \<Rightarrow> (sockaddr \<times> nat \<times> byte list) list" where
  "sendmmsg b n = map (\<lambda>m. (bl_sockaddrs b ! msg_name m, msg_namelen m, bl_iov b)) (take n (bl_msgs b))"

definition batch_send_to_all ::
    "byte list \<Rightarrow> socket_addr list \<Rightarrow> batch_linux \<Rightarrow> (sockaddr \<times> nat \<times> byte list) list \<times> batch_linux" where
  "batch_send_to_all data addrs b =
    (if addrs = [] then ([], b)
     else let n = length addrs;
         b = b\<lparr>bl_iov := data\<rparr>;
         b = (if bl_cached_addrs b \<noteq> addrs then batch_rebuild addrs b else b)
       in (sendmmsg b n, b))"

record msghdr_x =
  mx_name :: nat
  mx_namelen :: nat
  mx_datalen :: nat

record batch_mac =
  bm_sockaddrs :: "sockaddr list"
  bm_addrlen :: "nat list"
  bm_iov :: "byte list"
  bm_msgs :: "msghdr_x list"
  bm_cached_addrs :: "socket_addr list"

definition mac_new :: batch_mac where
  "mac_new = \<lparr>bm_sockaddrs = [], bm_addrlen = [], bm_iov = [], bm_msgs = [], bm_cached_addrs = []\<rparr>"

definition mac_rebuild :: "socket_addr list \<Rightarrow> nat \<Rightarrow> batch_mac \<Rightarrow> batch_mac" where
  "mac_rebuild addrs datalen b =
    (let sockaddrs = map sockaddr_of addrs; addrlen = map sockaddr_len addrs
     in b\<lparr>bm_sockaddrs := sockaddrs, bm_addrlen := addrlen,
          bm_msgs := map (\<lambda>i. \<lparr>mx_name = i, mx_namelen = addrlen ! i, mx_datalen = datalen\<rparr>) [0..<length addrs],
          bm_cached_addrs := addrs\<rparr>)"

definition sendmsg_x :: "batch_mac \<Rightarrow> nat \<Rightarrow> (sockaddr \<times> nat \<times> byte list) list" where
  "sendmsg_x b n =
    map (\<lambda>m. (bm_sockaddrs b ! mx_name m, mx_namelen m, take (mx_datalen m) (bm_iov b))) (take n (bm_msgs b))"

text \<open>\<open>rc_ok\<close> is whether the call succeeded; otherwise every peer is sent to on its own.\<close>

definition mac_send_to_all ::
    "bool \<Rightarrow> byte list \<Rightarrow> socket_addr list \<Rightarrow> batch_mac \<Rightarrow> (sockaddr \<times> nat \<times> byte list) list \<times> batch_mac" where
  "mac_send_to_all rc_ok data addrs b =
    (if addrs = [] then ([], b)
     else let n = length addrs;
         b = b\<lparr>bm_iov := data\<rparr>;
         b = (if bm_cached_addrs b \<noteq> addrs then mac_rebuild addrs (length data) b
              else b\<lparr>bm_msgs := map (\<lambda>m. m\<lparr>mx_datalen := length data\<rparr>) (bm_msgs b)\<rparr>)
       in (if rc_ok then sendmsg_x b n
           else map (\<lambda>addr. (sockaddr_of addr, sockaddr_len addr, data)) addrs, b))"

text \<open>The portable sender: one \<open>try_send_to\<close> per peer.\<close>

definition send_to_each :: "byte list \<Rightarrow> socket_addr list \<Rightarrow> (sockaddr \<times> nat \<times> byte list) list" where
  "send_to_each data addrs = map (\<lambda>addr. (sockaddr_of addr, sockaddr_len addr, data)) addrs"

section \<open>The worker\<close>

text \<open>One turn of the relay loop on Linux: what the kernel delivered, cut to the receive buffer,
  and the datagrams the worker asks the kernel to send.\<close>

definition worker_step ::
    "instant \<Rightarrow> byte list \<Rightarrow> socket_addr \<Rightarrow> batch_linux \<times> server_state \<Rightarrow>
     (sockaddr \<times> nat \<times> byte list) list \<times> batch_linux \<times> server_state" where
  "worker_step now datagram src_addr w =
    (let (batch, s) = w; data = take (MAX_UDP_PACKET + 64) datagram
     in case relay_datagram now data src_addr s of
       (Ignore, s) \<Rightarrow> ([], batch, s)
     | (Ack addr bytes, s) \<Rightarrow> ([(sockaddr_of addr, sockaddr_len addr, bytes)], batch, s)
     | (FanOut peers bytes, s) \<Rightarrow>
        let (sent, batch) = batch_send_to_all bytes peers batch in (sent, batch, s))"

section \<open>What the relay relies on\<close>

fun hellos :: "('t \<Rightarrow> socket_addr \<Rightarrow> instant \<Rightarrow> 's \<Rightarrow> bool \<times> 's) \<Rightarrow> ('t \<times> socket_addr \<times> instant) list \<Rightarrow> 's \<Rightarrow> 's" where
  "hellos hello [] s = s"
| "hellos hello ((t, u, now) # hs) s = hellos hello hs (snd (hello t u now s))"

text \<open>The contract of the state behind the relay: the peers of a channel are its registered
  addresses without the excluded one, a hello registers nobody but its source, and it leaves alone
  what belongs to sessions of other hosts.\<close>

locale voice_directory =
  fixes peers :: "channel_id \<Rightarrow> socket_addr \<Rightarrow> 's \<Rightarrow> socket_addr list"
    and hello :: "'t \<Rightarrow> socket_addr \<Rightarrow> instant \<Rightarrow> 's \<Rightarrow> bool \<times> 's"
    and inv :: "'s \<Rightarrow> bool"
    and registered :: "'s \<Rightarrow> channel_id \<Rightarrow> socket_addr set"
    and host :: "socket_addr \<Rightarrow> 'h"
  assumes peers_registered: "inv s \<Longrightarrow> set (peers ch x s) = registered s ch - {x}"
    and hello_inv: "inv s \<Longrightarrow> inv (snd (hello t u now s))"
    and hello_source: "inv s \<Longrightarrow> registered (snd (hello t u now s)) ch \<subseteq> insert u (registered s ch)"
    and hello_host: "inv s \<Longrightarrow> host v \<noteq> host u \<Longrightarrow>
      v \<in> registered s ch \<Longrightarrow> v \<in> registered (snd (hello t u now s)) ch"
begin

lemma hellos_inv: "inv s \<Longrightarrow> inv (hellos hello hs s)"
  by (induction hs arbitrary: s) (auto simp: hello_inv)

text \<open>Whoever receives voice was registered before or said hello himself.\<close>

lemma hellos_sources:
  "inv s \<Longrightarrow> registered (hellos hello hs s) ch \<subseteq> registered s ch \<union> (fst \<circ> snd) ` set hs"
proof (induction hs arbitrary: s)
  case (Cons h hs)
  obtain t u now where h: "h = (t, u, now)" by (cases h) auto
  have "registered (hellos hello hs (snd (hello t u now s))) ch
      \<subseteq> registered (snd (hello t u now s)) ch \<union> (fst \<circ> snd) ` set hs"
    by (rule Cons.IH [OF hello_inv [OF Cons.prems]])
  with hello_source [OF Cons.prems, of t u now ch] show ?case by (auto simp: h)
qed simp

lemma hellos_keep:
  "inv s \<Longrightarrow> \<forall>(t, u, now) \<in> set hs. host u \<noteq> host v \<Longrightarrow> v \<in> registered s ch \<Longrightarrow>
   v \<in> registered (hellos hello hs s) ch"
proof (induction hs arbitrary: s)
  case (Cons h hs)
  obtain t u now where h: "h = (t, u, now)" by (cases h) auto
  with Cons.prems have "host u \<noteq> host v" by simp
  then have "v \<in> registered (snd (hello t u now s)) ch"
    using hello_host [OF Cons.prems(1), of v u ch t now] Cons.prems(3) by simp
  with Cons h show ?case by (simp add: hello_inv)
qed simp

lemma voice_reaches_only_hellos:
  assumes "inv s" and "u \<in> set (peers ch x (hellos hello hs s))" and "u \<notin> registered s ch"
  shows "\<exists>t now. (t, u, now) \<in> set hs"
  using assms hellos_sources [OF assms(1), of hs ch] peers_registered [OF hellos_inv [OF assms(1)], of ch x hs]
  by force

lemma voice_not_stolen:
  assumes "inv s" and "\<forall>(t, u, now) \<in> set hs. host u \<noteq> host v" and "v \<in> set (peers ch x s)"
  shows "v \<in> set (peers ch x (hellos hello hs s))"
  using assms hellos_keep [OF assms(1,2), of ch]
  by (simp add: peers_registered hellos_inv)

end

text \<open>A hello from one host cannot touch a session of another.\<close>

lemma hello_other_host:
  assumes ok: "server_ok s" and v: "v \<in> set (participants s ch)"
    and h: "to_canonical (sock_ip v) \<noteq> to_canonical (sock_ip u)"
  shows "v \<in> set (participants (snd (register_udp_by_token t u now s)) ch)"
proof (cases "fst (register_udp_by_token t u now s)")
  case False
  with hello_refused [OF ok] v show ?thesis by simp
next
  case True
  then obtain a c where t: "holds_token s t a c" and ip: "to_canonical (sock_ip a) = to_canonical (sock_ip u)"
    by (rule hello_accepted [OF ok])
  have "udp_of s a \<noteq> Some v"
    using server_okD(4) [OF ok] h ip unfolding wf_peers_def by metis
  with v show ?thesis
    using hello_update_views(5) [OF ok t ip, of now ch] by (auto simp: set_replaced)
qed

interpretation relay: voice_directory fill_channel_peers register_udp_by_token server_ok
    "\<lambda>s ch. set (participants s ch)" "\<lambda>u. to_canonical (sock_ip u)"
proof
  fix s :: server_state and ch x t u now v
  assume ok: "server_ok s"
  show "set (fill_channel_peers ch x s) = set (participants s ch) - {x}"
    by (auto simp: cache_peers [OF ok])
  show "server_ok (snd (register_udp_by_token t u now s))" by (rule register_udp_ok [OF ok])
  show "set (participants (snd (register_udp_by_token t u now s)) ch) \<subseteq> insert u (set (participants s ch))"
  proof (cases "fst (register_udp_by_token t u now s)")
    case False
    with hello_refused [OF ok] show ?thesis by auto
  next
    case True
    then obtain a c where t: "holds_token s t a c" and ip: "to_canonical (sock_ip a) = to_canonical (sock_ip u)"
      by (rule hello_accepted [OF ok])
    show ?thesis using hello_update_views(5) [OF ok t ip, of now ch] by (auto simp: set_replaced)
  qed
  show "v \<in> set (participants (snd (register_udp_by_token t u now s)) ch)"
    if "to_canonical (sock_ip v) \<noteq> to_canonical (sock_ip u)" "v \<in> set (participants s ch)"
    using hello_other_host [OF ok that(2,1)] .
qed

text \<open>Whose address a hello changes.\<close>

lemma hello_changes:
  assumes ok: "server_ok s"
  shows "holds_token (snd (register_udp_by_token t u now s)) = holds_token s"
    and "udp_of (snd (register_udp_by_token t u now s)) a = udp_of s a \<or>
      (\<exists>ch. holds_token s t a ch \<and> to_canonical (sock_ip a) = to_canonical (sock_ip u) \<and>
        udp_of (snd (register_udp_by_token t u now s)) a = Some u)"
    and "v \<in> set (participants (snd (register_udp_by_token t u now s)) x) \<Longrightarrow> v \<in> set (participants s x) \<or>
      v = u \<and> (\<exists>b. holds_token s t b x \<and> to_canonical (sock_ip b) = to_canonical (sock_ip u))"
proof (atomize (full), cases "fst (register_udp_by_token t u now s)")
  case False
  with hello_refused [OF ok] show "holds_token (snd (register_udp_by_token t u now s)) = holds_token s \<and>
    (udp_of (snd (register_udp_by_token t u now s)) a = udp_of s a \<or>
      (\<exists>ch. holds_token s t a ch \<and> to_canonical (sock_ip a) = to_canonical (sock_ip u) \<and>
        udp_of (snd (register_udp_by_token t u now s)) a = Some u)) \<and>
    (v \<in> set (participants (snd (register_udp_by_token t u now s)) x) \<longrightarrow> v \<in> set (participants s x) \<or>
      v = u \<and> (\<exists>b. holds_token s t b x \<and> to_canonical (sock_ip b) = to_canonical (sock_ip u)))" by simp
next
  case True
  then obtain b c where t: "holds_token s t b c" and ip: "to_canonical (sock_ip b) = to_canonical (sock_ip u)"
    by (rule hello_accepted [OF ok])
  note v = hello_update_views [OF ok t ip, of now]
  show "holds_token (snd (register_udp_by_token t u now s)) = holds_token s \<and>
    (udp_of (snd (register_udp_by_token t u now s)) a = udp_of s a \<or>
      (\<exists>ch. holds_token s t a ch \<and> to_canonical (sock_ip a) = to_canonical (sock_ip u) \<and>
        udp_of (snd (register_udp_by_token t u now s)) a = Some u)) \<and>
    (v \<in> set (participants (snd (register_udp_by_token t u now s)) x) \<longrightarrow> v \<in> set (participants s x) \<or>
      v = u \<and> (\<exists>b. holds_token s t b x \<and> to_canonical (sock_ip b) = to_canonical (sock_ip u)))"
    using t ip by (auto simp: v(3-5) set_replaced split: if_splits)
qed

lemma hellos_change:
  assumes "server_ok s"
  shows "holds_token (hellos register_udp_by_token hs s) = holds_token s \<and>
    (udp_of (hellos register_udp_by_token hs s) a = udp_of s a \<or>
      (\<exists>(t, u, now) \<in> set hs. \<exists>ch. holds_token s t a ch \<and> to_canonical (sock_ip a) = to_canonical (sock_ip u) \<and>
        udp_of (hellos register_udp_by_token hs s) a = Some u)) \<and>
    (v \<in> set (participants (hellos register_udp_by_token hs s) x) \<longrightarrow> v \<in> set (participants s x) \<or>
      (\<exists>(t, u, now) \<in> set hs. v = u \<and> (\<exists>b. holds_token s t b x \<and> to_canonical (sock_ip b) = to_canonical (sock_ip u))))"
  using assms
proof (induction hs arbitrary: s)
  case (Cons h hs)
  obtain t u now where h: "h = (t, u, now)" by (cases h) auto
  let ?s = "snd (register_udp_by_token t u now s)"
  note tok = hello_changes(1) [OF Cons.prems, of t u now]
  note udp = hello_changes(2) [OF Cons.prems, of t u now a]
  note part = hello_changes(3) [OF Cons.prems, of v t u now x]
  note later = Cons.IH [OF register_udp_ok [OF Cons.prems, of t u now], unfolded tok]
  have "udp_of (hellos register_udp_by_token hs ?s) a = udp_of s a \<or>
      (\<exists>(t, u, now) \<in> set ((t, u, now) # hs). \<exists>ch. holds_token s t a ch \<and> to_canonical (sock_ip a) = to_canonical (sock_ip u) \<and>
        udp_of (hellos register_udp_by_token hs ?s) a = Some u)"
    using later [THEN conjunct2, THEN conjunct1] udp by (elim disjE) simp_all
  moreover have "v \<in> set (participants s x) \<or>
      (\<exists>(t, u, now) \<in> set ((t, u, now) # hs). v = u \<and> (\<exists>b. holds_token s t b x \<and> to_canonical (sock_ip b) = to_canonical (sock_ip u)))"
    if "v \<in> set (participants (hellos register_udp_by_token hs ?s) x)"
    using later [THEN conjunct2, THEN conjunct2, THEN mp, OF that] part by (elim disjE) auto
  ultimately show ?case using later by (simp add: h)
qed simp

text \<open>C7 No sequence of UDP hellos, with whatever tokens and from whatever hosts, takes over a client's voice. A
  client's registered voice address changes only to the source of a hello that carried the client's own token and came
  from the host of its control connection; if no hello comes from that host, the address stays as it is and goes on
  being a relay target exactly where it was one. And an address becomes a target of a channel only by a hello of its
  own with the token of a member of that channel on the same host: a token learned by a third party neither steals nor
  redirects voice.\<close>

theorem hellos_cannot_hijack:
  assumes "reachable L (s, r)" and "s' = hellos register_udp_by_token hs s"
  shows "(udp_of s' a = udp_of s a \<or>
      (\<exists>(t, u, now) \<in> set hs. \<exists>c. holds_token s t a c \<and> to_canonical (sock_ip a) = to_canonical (sock_ip u) \<and>
        udp_of s' a = Some u)) \<and>
    ((\<forall>(t, u, now) \<in> set hs. to_canonical (sock_ip u) \<noteq> to_canonical (sock_ip a)) \<longrightarrow> udp_of s' a = udp_of s a \<and>
      (\<forall>v. udp_of s a = Some v \<longrightarrow> (v \<in> set (fill_channel_peers ch x s') \<longleftrightarrow> v \<in> set (fill_channel_peers ch x s)))) \<and>
    (\<forall>v \<in> set (fill_channel_peers ch x s'). v \<in> set (participants s ch) \<or>
      (\<exists>(t, u, now) \<in> set hs. v = u \<and> (\<exists>b. holds_token s t b ch \<and> to_canonical (sock_ip b) = to_canonical (sock_ip v))))"
    (is "?own \<and> (?foreign \<longrightarrow> ?kept) \<and> ?targets")
proof (intro conjI impI)
  note ok = reachableD [OF assms(1)]
  note change = hellos_change [OF ok, of hs, folded assms(2)]
  have fill: "set (fill_channel_peers ch x z) = set (participants z ch) - {x}" if "server_ok z" for z
    by (rule relay.peers_registered [OF that])
  have ok': "server_ok s'" unfolding assms(2) by (rule relay.hellos_inv [OF ok])
  show own: ?own using change by blast
  show targets: ?targets using change fill [OF ok'] by fast
  assume foreign: ?foreign
  show "udp_of s' a = udp_of s a" using own foreign by fastforce
  show "\<forall>v. udp_of s a = Some v \<longrightarrow> (v \<in> set (fill_channel_peers ch x s') \<longleftrightarrow> v \<in> set (fill_channel_peers ch x s))"
  proof (intro allI impI)
    fix v assume "udp_of s a = Some v"
    then have host: "to_canonical (sock_ip v) = to_canonical (sock_ip a)"
      using server_okD(4) [OF ok] unfolding wf_peers_def by metis
    have "v \<notin> (fst \<circ> snd) ` set hs" using foreign host by force
    then have "v \<in> set (participants s' ch) \<longleftrightarrow> v \<in> set (participants s ch)"
      using relay.hellos_keep [OF ok, of hs v ch] relay.hellos_sources [OF ok, of hs ch] foreign host
      unfolding assms(2) by auto
    then show "v \<in> set (fill_channel_peers ch x s') \<longleftrightarrow> v \<in> set (fill_channel_peers ch x s)"
      by (simp add: fill [OF ok] fill [OF ok'])
  qed
qed

text \<open>A stranger learns the token of \<open>alice\<close>; \<open>bob\<close> says hello himself.\<close>

theorem hellos_cannot_hijack_witness:
  "udp_of (hellos register_udp_by_token [(8, SockV4 66 6666, 7), (9, SockV4 2 7777, 8)] sample_voice) alice = Some alice_udp \<and>
    alice_udp \<in> set (fill_channel_peers lobby bob
      (hellos register_udp_by_token [(8, SockV4 66 6666, 7), (9, SockV4 2 7777, 8)] sample_voice))"
proof -
  have "alice_udp \<in> set (fill_channel_peers lobby bob sample_voice)" "udp_of sample_voice alice = Some alice_udp"
    by (simp_all add: fill_channel_peers_def udp_of_def sample_voice_eq alice_udp_def bob_def)
  with hellos_cannot_hijack [OF sample_voice_reachable refl, of "[(8, SockV4 66 6666, 7), (9, SockV4 2 7777, 8)]" alice lobby bob]
  show ?thesis by (simp add: alice_def del: hellos.simps)
qed

section \<open>The relay's answers\<close>

lemma count_sel [simp]:
  "channels (count c n s) = channels s" "clients (count c n s) = clients s"
  "udp_tokens (count c n s) = udp_tokens s" "peer_cache (count c n s) = peer_cache s"
  by (simp_all add: count_def)

lemma count_ok [simp]: "server_ok (count c n s) = server_ok s"
  by (simp add: count_def)

lemma count_views [simp]:
  "participants (count c n s) = participants s" "member (count c n s) = member s"
  "udp_of (count c n s) = udp_of s"
  by (rule views_cong; simp)+

lemma count_fill [simp]: "fill_channel_peers ch x (count c n s) = fill_channel_peers ch x s"
  by (simp add: fill_channel_peers_def)

lemma count_targets [simp]: "relay_targets_of ch x (count c n s) = relay_targets_of ch x s"
  by (simp add: relay_targets_of_def)

text \<open>A token admits a hello when it was issued and the hello comes from the host it was issued to.\<close>

definition token_admits :: "server_state \<Rightarrow> 64 word \<Rightarrow> socket_addr \<Rightarrow> bool" where
  "token_admits s token src = (case hm_get (udp_tokens s) token of
      Some (tcp, ch, t) \<Rightarrow> to_canonical (sock_ip tcp) = to_canonical (sock_ip src)
    | None \<Rightarrow> False)"

lemma hello_ok_iff:
  assumes "server_ok s"
  shows "fst (register_udp_by_token token src now s) = token_admits s token src"
proof (cases "hm_get (udp_tokens s) token")
  case (Some e)
  obtain tcp ch t where e: "e = (tcp, ch, t)" by (cases e)
  have "member s tcp ch" using assms Some e unfolding server_ok_def wf_tokens_def by blast
  then have "hm_get (clients s) tcp \<noteq> None" by (auto simp: member_def)
  then show ?thesis using Some e by (auto simp: register_udp_by_token_def token_admits_def Let_def)
qed (simp add: register_udp_by_token_def token_admits_def)

text \<open>C2 What one datagram makes the relay send, in any reachable state: a hello is answered, if and
  only if its token was issued to the host it comes from, by the same twelve bytes to its source and to nobody else; a keepalive and a
  malformed datagram by nothing; a voice packet goes out unchanged, once to each registered voice
  address of its channel, which is an address of a current member, never back to its own source
  unless the channel is an echo test. Voice changes nothing but the counters.\<close>

theorem relay_datagram_sends:
  assumes "reachable L (s, r)" and "relay_datagram now data src s = (action, s')"
  shows "case decode_udp_hello data of
      Some token \<Rightarrow> length data = 12 \<and>
        action = (if token \<noteq> 0 \<and> token_admits s token src then Ack src data else Ignore)
    | None \<Rightarrow>
        (channels s', clients s', udp_tokens s', peer_cache s') = (channels s, clients s, udp_tokens s, peer_cache s) \<and>
        (case parse_channel_id data of
           None \<Rightarrow> action = Ignore
         | Some ch \<Rightarrow> \<exists>targets. action = FanOut targets data \<and> distinct targets \<and>
             set targets = set (participants s ch) -
               {if starts_with ECHO_CHANNEL_PREFIX ch then ECHO_NO_EXCLUDE else src} \<and>
             (\<forall>u \<in> set targets. \<exists>a. member s a ch \<and> udp_of s a = Some u))"
proof (cases "decode_udp_hello data")
  case (Some token)
  then have "encode_udp_hello token = data" using decode_udp_hello_Some by simp
  moreover have "length data = 12" using Some by (auto simp: decode_udp_hello_def UDP_HELLO_SIZE_def split: if_splits)
  moreover define c where "c = count m_udp_bytes_in_update (length data) (count m_udp_packets_in_update 1 s)"
  moreover have "fst (register_udp_by_token token src now c) = token_admits s token src"
    using reachableD [OF assms(1)] hello_ok_iff [of c token src now] by (simp add: c_def token_admits_def)
  ultimately show ?thesis
    using assms(2) Some by (auto simp: relay_datagram_def Let_def split: if_splits prod.splits bool.splits)
next
  case None
  show ?thesis
  proof (cases "parse_channel_id data")
    case None
    with \<open>decode_udp_hello data = None\<close> assms(2) show ?thesis by (auto simp: relay_datagram_def Let_def)
  next
    case (Some ch)
    let ?x = "if starts_with ECHO_CHANNEL_PREFIX ch then ECHO_NO_EXCLUDE else src"
    have t: "relay_targets_of ch src s = fill_channel_peers ch ?x s" by (simp add: relay_targets_of_def)
    from relay_targets_facts [OF reachableD [OF assms(1)], of ch ?x] have
      "distinct (relay_targets_of ch src s)" "set (relay_targets_of ch src s) = set (participants s ch) - {?x}"
      "\<forall>u \<in> set (relay_targets_of ch src s). \<exists>a. member s a ch \<and> udp_of s a = Some u"
      unfolding t by blast+
    with None Some assms(2) show ?thesis by (auto simp: relay_datagram_def Let_def split: if_splits)
  qed
qed

definition sample_packet :: "byte list" where
  "sample_packet = encode_voice \<lparr>vp_sequence = 1, vp_channel_id = lobby, vp_opus_data = [1, 2, 3]\<rparr>"

lemma is_utf8_lobby: "is_utf8 lobby"
  by (rule is_utf8_ascii) (simp add: ascii_def lobby_def)

theorem relay_datagram_sends_witness:
  "\<exists>s'. relay_datagram 9 sample_packet bob sample_voice = (FanOut [alice_udp] sample_packet, s') \<and>
    clients s' = clients sample_voice"
proof -
  have d: "decode_voice sample_packet = Some \<lparr>vp_sequence = 1, vp_channel_id = lobby, vp_opus_data = [1, 2, 3]\<rparr>"
    unfolding sample_packet_def by (rule decode_encode_voice) (simp_all add: is_utf8_lobby, simp add: lobby_def)
  then have h: "decode_udp_hello sample_packet = None"
    using hello_not_voice [of sample_packet] by (cases "decode_udp_hello sample_packet") auto
  have c: "parse_channel_id sample_packet = Some lobby" using decode_voice_parse(2) [OF d] by simp
  obtain action s' where r: "relay_datagram 9 sample_packet bob sample_voice = (action, s')"
    by (cases "relay_datagram 9 sample_packet bob sample_voice")
  have e: "\<not> starts_with ECHO_CHANNEL_PREFIX lobby" by (simp add: starts_with_def config_defs lobby_def)
  have p: "participants sample_voice lobby = [alice_udp]" by (simp add: participants_def sample_voice_eq)
  from relay_datagram_sends [OF sample_voice_reachable r] h c e p obtain targets
    where "action = FanOut targets sample_packet" "distinct targets" "set targets = {alice_udp} - {bob}"
      "clients s' = clients sample_voice"
    by auto
  moreover have "{alice_udp} - {bob} = {alice_udp}" by (simp add: alice_udp_def bob_def)
  ultimately have "targets = [alice_udp]"
    by (metis distinct_singleton empty_set list.simps(15) distinct.simps(2) set_empty2 card_1_singleton_iff
        distinct_card length_0_conv length_Suc_conv list.set_intros(1) singletonD One_nat_def)
  with r show ?thesis using \<open>action = FanOut targets sample_packet\<close> \<open>clients s' = clients sample_voice\<close> by auto
qed

section \<open>The batch senders send what the portable one sends\<close>

fun batch_run :: "(byte list \<times> socket_addr list) list \<Rightarrow> batch_linux \<Rightarrow> (sockaddr \<times> nat \<times> byte list) list list" where
  "batch_run [] b = []"
| "batch_run ((data, addrs) # calls) b =
    (let (sent, b) = batch_send_to_all data addrs b in sent # batch_run calls b)"

fun mac_run :: "(bool \<times> byte list \<times> socket_addr list) list \<Rightarrow> batch_mac \<Rightarrow> (sockaddr \<times> nat \<times> byte list) list list" where
  "mac_run [] b = []"
| "mac_run ((rc_ok, data, addrs) # calls) b =
    (let (sent, b) = mac_send_to_all rc_ok data addrs b in sent # mac_run calls b)"

definition batch_ok :: "batch_linux \<Rightarrow> bool" where
  "batch_ok b \<longleftrightarrow> bl_sockaddrs b = map sockaddr_of (bl_cached_addrs b) \<and>
     bl_msgs b = map (\<lambda>i. \<lparr>msg_name = i, msg_namelen = sockaddr_len (bl_cached_addrs b ! i)\<rparr>)
       [0..<length (bl_cached_addrs b)]"

definition mac_ok :: "batch_mac \<Rightarrow> bool" where
  "mac_ok b \<longleftrightarrow> bm_sockaddrs b = map sockaddr_of (bm_cached_addrs b) \<and>
     map (\<lambda>m. (mx_name m, mx_namelen m)) (bm_msgs b) =
       map (\<lambda>i. (i, sockaddr_len (bm_cached_addrs b ! i))) [0..<length (bm_cached_addrs b)]"

lemma map_nth_upt: "map (\<lambda>i. f (xs ! i)) [0..<length xs] = map f xs"
  by (rule nth_equalityI) simp_all

lemma batch_send_spec:
  assumes "batch_ok b"
  shows "fst (batch_send_to_all data addrs b) = send_to_each data addrs"
    and "batch_ok (snd (batch_send_to_all data addrs b))"
proof -
  let ?b = "snd (batch_send_to_all data addrs b)"
  show ok: "batch_ok ?b"
    using assms by (auto simp: batch_send_to_all_def batch_ok_def batch_rebuild_def Let_def)
  show "fst (batch_send_to_all data addrs b) = send_to_each data addrs"
  proof (cases "addrs = []")
    case False
    then have c: "bl_cached_addrs ?b = addrs" "bl_iov ?b = data"
        "fst (batch_send_to_all data addrs b) = sendmmsg ?b (length addrs)"
      by (auto simp: batch_send_to_all_def batch_rebuild_def Let_def)
    show ?thesis
      unfolding c(3) sendmmsg_def send_to_each_def
      using ok c(1,2) by (simp add: batch_ok_def comp_def) (rule nth_equalityI; simp)
  qed (simp add: batch_send_to_all_def send_to_each_def)
qed

lemma mac_send_spec:
  assumes "mac_ok b"
  shows "fst (mac_send_to_all rc_ok data addrs b) = send_to_each data addrs"
    and "mac_ok (snd (mac_send_to_all rc_ok data addrs b))"
proof -
  let ?b = "snd (mac_send_to_all rc_ok data addrs b)"
  show ok: "mac_ok ?b"
    using assms by (auto simp: mac_send_to_all_def mac_ok_def mac_rebuild_def Let_def comp_def)
  show "fst (mac_send_to_all rc_ok data addrs b) = send_to_each data addrs"
  proof (cases "addrs = [] \<or> \<not> rc_ok")
    case False
    then have c: "bm_cached_addrs ?b = addrs" "bm_iov ?b = data"
        "fst (mac_send_to_all rc_ok data addrs b) = sendmsg_x ?b (length addrs)"
        "\<forall>m \<in> set (bm_msgs ?b). mx_datalen m = length data"
      by (auto simp: mac_send_to_all_def mac_rebuild_def Let_def)
    have len: "length (bm_msgs ?b) = length addrs"
    proof -
      have "map (\<lambda>m. (mx_name m, mx_namelen m)) (bm_msgs ?b) =
          map (\<lambda>i. (i, sockaddr_len (bm_cached_addrs ?b ! i))) [0..<length (bm_cached_addrs ?b)]"
        using ok unfolding mac_ok_def by (rule conjunct2)
      from arg_cong [OF this, of length] show ?thesis by (simp add: c(1))
    qed
    have "sendmsg_x ?b (length addrs) =
        map (\<lambda>m. (bm_sockaddrs ?b ! mx_name m, mx_namelen m, data)) (bm_msgs ?b)"
      unfolding sendmsg_x_def using c(2,4) len by simp
    also have "\<dots> = map (\<lambda>(i, l). (bm_sockaddrs ?b ! i, l, data)) (map (\<lambda>m. (mx_name m, mx_namelen m)) (bm_msgs ?b))"
      by simp
    also have "\<dots> = send_to_each data addrs"
      unfolding send_to_each_def using ok c(1)
      by (simp add: mac_ok_def comp_def) (rule nth_equalityI; simp)
    finally show ?thesis by (simp add: c(3))
  qed (auto simp: mac_send_to_all_def send_to_each_def Let_def)
qed

lemma batch_run_spec: "batch_ok b \<Longrightarrow> batch_run calls b = map (\<lambda>(data, addrs). send_to_each data addrs) calls"
proof (induction calls arbitrary: b)
  case (Cons call calls)
  then show ?case
    using batch_send_spec [OF Cons.prems, of "fst call" "snd call"] by (cases call) (simp add: case_prod_beta)
qed simp

lemma mac_run_spec: "mac_ok b \<Longrightarrow> mac_run calls b = map (\<lambda>(rc_ok, data, addrs). send_to_each data addrs) calls"
proof (induction calls arbitrary: b)
  case (Cons call calls)
  obtain rc_ok data addrs where "call = (rc_ok, data, addrs)" by (cases call) auto
  with Cons mac_send_spec [OF Cons.prems, of rc_ok data addrs] show ?case by (simp add: case_prod_beta)
qed simp

text \<open>C13 Whatever sequence of packets and peer sets a worker's batch sender is given, the cached
  address arrays of the Linux and the macOS sender (rebuilt only when the peer set differs from the
  previous call, the packet length refreshed in every header) ask the kernel for exactly the
  datagrams the portable per-peer loop sends: each packet whole, once to each peer, in order; on
  macOS also when the batch call fails and the fallback runs.\<close>

theorem batch_senders_equivalent:
  "batch_run calls batch_new = map (\<lambda>(data, addrs). send_to_each data addrs) calls \<and>
   mac_run mac_calls mac_new = map (\<lambda>(rc_ok, data, addrs). send_to_each data addrs) mac_calls"
  by (simp add: batch_run_spec mac_run_spec batch_ok_def mac_ok_def batch_new_def mac_new_def)

end
