(* ===== verification/Framing.thy ===== *)
theory Framing
  imports Protocol
begin

text \<open>
  The length-prefixed TCP framing of \<^verbatim>\<open>protocol.rs\<close> and the buffer step both readers run
  on every \<open>read()\<close> (\<open>reader_loop\<close> of the server, \<open>reader_task\<close> of the client).
  The locales state what a reader relies on: a decoder whose answer never changes when more
  bytes arrive, and an encoder it inverts; the facts about reassembly are proved there once.
\<close>

section \<open>The framing functions\<close>

datatype frame_error = TooLarge nat

definition encode_tcp_frame :: "('m \<Rightarrow> byte list option) \<Rightarrow> 'm \<Rightarrow> byte list option" where
  "encode_tcp_frame serialize msg =
    (case serialize msg of
       None \<Rightarrow> None
     | Some payload \<Rightarrow> let len = (of_nat (length payload) :: 32 word) in Some (u32_to_be len @ payload))"

definition try_decode_frame :: "byte list \<Rightarrow> frame_error + (byte list \<times> nat) option" where
  "try_decode_frame buf =
    (if length buf < 4 then Inr None
     else let len = unat (u32_from_be (take 4 buf)) in
       if len > MAX_FRAME_SIZE then Inl (TooLarge len)
       else let total = 4 + len in
         if length buf < total then Inr None
         else Inr (Some (take len (drop 4 buf), total)))"

function extract_frames_loop ::
    "byte list list \<Rightarrow> byte list \<Rightarrow> (frame_error + byte list list) \<times> byte list" where
  "extract_frames_loop frames pending =
    (case try_decode_frame pending of
       Inr (Some (data, consumed)) \<Rightarrow> extract_frames_loop (frames @ [data]) (drop consumed pending)
     | Inr None \<Rightarrow> (Inr frames, pending)
     | Inl e \<Rightarrow> (Inl e, pending))"
  by pat_completeness auto
termination
  by (relation "measure (\<lambda>(frames, pending). length pending)")
    (auto simp: try_decode_frame_def Let_def split: if_splits)

declare extract_frames_loop.simps [simp del]

definition extract_frames :: "byte list \<Rightarrow> (frame_error + byte list list) \<times> byte list" where
  "extract_frames pending = extract_frames_loop [] pending"

definition write_tcp_frame ::
    "('m \<Rightarrow> byte list option) \<Rightarrow> (byte list \<Rightarrow> 'w \<Rightarrow> 'w option) \<Rightarrow> ('w \<Rightarrow> 'w option) \<Rightarrow> 'w \<Rightarrow> 'm \<Rightarrow> 'w option" where
  "write_tcp_frame serialize write_all flush writer msg =
    (case encode_tcp_frame serialize msg of
       None \<Rightarrow> None
     | Some frame \<Rightarrow> (case write_all frame writer of None \<Rightarrow> None | Some writer' \<Rightarrow> flush writer'))"

text \<open>What a reader does with the bytes of one \<open>read()\<close>: append them to the pending
  buffer, refuse an overlong buffer, take the complete frames.\<close>

datatype read_error = PendingOverflow nat | FrameErr frame_error

definition receive_chunk :: "byte list \<Rightarrow> byte list \<Rightarrow> read_error + (byte list list \<times> byte list)" where
  "receive_chunk pending chunk =
    (let pending = pending @ chunk in
     if length pending > MAX_PENDING_BUF then Inl (PendingOverflow (length pending))
     else (case extract_frames pending of
         (Inl e, _) \<Rightarrow> Inl (FrameErr e)
       | (Inr frames, rest) \<Rightarrow> Inr (frames, rest)))"

fun receive_chunks ::
    "byte list \<Rightarrow> byte list list \<Rightarrow> read_error + (byte list list \<times> byte list)" where
  "receive_chunks pending [] = Inr ([], pending)"
| "receive_chunks pending (c # cs) =
    (case receive_chunk pending c of
       Inl e \<Rightarrow> Inl e
     | Inr (frames, rest) \<Rightarrow>
        (case receive_chunks rest cs of
           Inl e \<Rightarrow> Inl e
         | Inr (later, rest') \<Rightarrow> Inr (frames @ later, rest')))"

definition frame_bytes :: "byte list \<Rightarrow> byte list" where
  "frame_bytes payload = u32_to_be (of_nat (length payload)) @ payload"

section \<open>The interface of an incremental frame reader\<close>

locale frame_reader =
  fixes dec :: "byte list \<Rightarrow> 'e + ('f \<times> nat) option"
    and ext :: "'f list \<Rightarrow> byte list \<Rightarrow> ('e + 'f list) \<times> byte list"
  assumes ext_unfold: "ext fs b =
      (case dec b of
         Inr (Some (d, n)) \<Rightarrow> ext (fs @ [d]) (drop n b)
       | Inr None \<Rightarrow> (Inr fs, b)
       | Inl e \<Rightarrow> (Inl e, b))"
    and dec_progress: "dec b = Inr (Some (d, n)) \<Longrightarrow> 0 < n \<and> n \<le> length b"
    and dec_stable: "dec b = Inr (Some x) \<Longrightarrow> dec (b @ c) = Inr (Some x)"
    and dec_error_stable: "dec b = Inl e \<Longrightarrow> dec (b @ c) = Inl e"
begin

lemma ext_frame: "dec b = Inr (Some (d, n)) \<Longrightarrow> ext fs b = ext (fs @ [d]) (drop n b)"
  by (subst ext_unfold) simp

lemma ext_stop: "dec b = Inr None \<Longrightarrow> ext fs b = (Inr fs, b)"
  by (subst ext_unfold) simp

lemma ext_error: "dec b = Inl e \<Longrightarrow> ext fs b = (Inl e, b)"
  by (subst ext_unfold) simp

text \<open>Extracting from a longer buffer is extracting from its front and then going on with what
  was left over: it does not matter how the bytes were split into reads.\<close>

lemma ext_append: "ext fs a = (Inr gs, r) \<Longrightarrow> ext fs (a @ b) = ext gs (r @ b)"
proof (induction "length a" arbitrary: a fs rule: less_induct)
  case less
  show ?case
  proof (cases "dec a")
    case (Inl e)
    with less.prems show ?thesis by (simp add: ext_error)
  next
    case (Inr res)
    show ?thesis
    proof (cases res)
      case None
      with Inr less.prems show ?thesis by (simp add: ext_stop)
    next
      case (Some dn)
      obtain d n where dn: "dn = (d, n)" by (cases dn)
      with Inr Some have d: "dec a = Inr (Some (d, n))" by simp
      then have n: "0 < n" "n \<le> length a" using dec_progress by blast+
      have "ext (fs @ [d]) (drop n a) = (Inr gs, r)" using less.prems d by (simp add: ext_frame)
      then have "ext (fs @ [d]) (drop n a @ b) = ext gs (r @ b)"
        using less.hyps n by simp
      with d n show ?thesis by (simp add: ext_frame [OF dec_stable [OF d]])
    qed
  qed
qed

lemma ext_append_error: "ext fs a = (Inl e, r) \<Longrightarrow> ext fs (a @ b) = (Inl e, r @ b)"
proof (induction "length a" arbitrary: a fs rule: less_induct)
  case less
  show ?case
  proof (cases "dec a")
    case (Inl e')
    with less.prems show ?thesis by (simp add: ext_error dec_error_stable)
  next
    case (Inr res)
    with less.prems obtain d n where d: "dec a = Inr (Some (d, n))"
      by (cases res) (auto simp: ext_stop)
    then have n: "0 < n" "n \<le> length a" using dec_progress by blast+
    have "ext (fs @ [d]) (drop n a) = (Inl e, r)" using less.prems d by (simp add: ext_frame)
    then have "ext (fs @ [d]) (drop n a @ b) = (Inl e, r @ b)"
      using less.hyps n by simp
    with d n show ?thesis by (simp add: ext_frame [OF dec_stable [OF d]])
  qed
qed

lemma ext_acc: "ext (fs @ gs) a = (Inr hs, r) \<longleftrightarrow> (\<exists>ks. hs = fs @ ks \<and> ext gs a = (Inr ks, r))"
proof (induction "length a" arbitrary: a gs rule: less_induct)
  case less
  show ?case
  proof (cases "dec a")
    case (Inr res)
    then show ?thesis
    proof (cases res)
      case (Some dn)
      obtain d n where "dn = (d, n)" by (cases dn)
      with Inr Some have d: "dec a = Inr (Some (d, n))" by simp
      then have n: "0 < n" "n \<le> length a" using dec_progress by blast+
      then show ?thesis using d less.hyps [of "drop n a" "gs @ [d]"] by (simp add: ext_frame)
    qed (auto simp: ext_stop)
  qed (auto simp: ext_error)
qed

lemma ext_rest_incomplete: "ext fs a = (Inr gs, r) \<Longrightarrow> dec r = Inr None"
proof (induction "length a" arbitrary: a fs rule: less_induct)
  case less
  show ?case
  proof (cases "dec a")
    case (Inl e)
    with less.prems show ?thesis by (simp add: ext_error)
  next
    case (Inr res)
    show ?thesis
    proof (cases res)
      case None
      with Inr less.prems show ?thesis by (simp add: ext_stop)
    next
      case (Some dn)
      obtain d n where "dn = (d, n)" by (cases dn)
      with Inr Some have d: "dec a = Inr (Some (d, n))" by simp
      then have n: "0 < n" "n \<le> length a" using dec_progress by blast+
      have "ext (fs @ [d]) (drop n a) = (Inr gs, r)" using less.prems d by (simp add: ext_frame)
      then show ?thesis using less.hyps [of "drop n a" "fs @ [d]"] n by simp
    qed
  qed
qed

end

locale frame_codec = frame_reader dec ext
  for dec :: "byte list \<Rightarrow> 'e + ('f \<times> nat) option"
    and ext :: "'f list \<Rightarrow> byte list \<Rightarrow> ('e + 'f list) \<times> byte list" +
  fixes enc :: "'f \<Rightarrow> byte list"
    and ok :: "'f \<Rightarrow> bool"
  assumes dec_empty: "dec [] = Inr None"
    and dec_enc: "ok f \<Longrightarrow> dec (enc f @ c) = Inr (Some (f, length (enc f)))"
    and dec_partial: "ok f \<Longrightarrow> k < length (enc f) \<Longrightarrow> dec (take k (enc f)) = Inr None"
begin

lemma ext_stream: "\<forall>p \<in> set ps. ok p \<Longrightarrow> ext fs (concat (map enc ps) @ t) = ext (fs @ ps) t"
proof (induction ps arbitrary: fs)
  case (Cons p ps)
  then show ?case using ext_frame [OF dec_enc [of p "concat (map enc ps) @ t"]] by simp
qed simp

text \<open>Whatever prefix of a well-formed stream has arrived, extraction yields a prefix of its
  frames and keeps exactly the bytes of the frame in progress.\<close>

lemma ext_prefix:
  "\<forall>p \<in> set ps. ok p \<Longrightarrow> a @ b = concat (map enc ps) \<Longrightarrow>
   \<exists>k r. ext fs a = (Inr (fs @ take k ps), r) \<and> r @ b = concat (map enc (drop k ps))"
proof (induction ps arbitrary: fs a)
  case Nil
  then show ?case using dec_empty by (auto simp: ext_stop)
next
  case (Cons p ps)
  then have p: "ok p" and eq: "a @ b = enc p @ concat (map enc ps)" by simp_all
  show ?case
  proof (cases "length a < length (enc p)")
    case True
    with eq have "a = take (length a) (enc p)"
      by (metis append_eq_conv_conj take_append diff_is_0_eq less_imp_le take0 append_Nil2)
    with p True have "dec a = Inr None" by (metis dec_partial)
    with Cons.prems show ?thesis by (intro exI [of _ 0] exI [of _ a]) (simp add: ext_stop)
  next
    case False
    define a' where "a' = drop (length (enc p)) a"
    have "take (length (enc p)) a = enc p"
      using False eq by (metis append_eq_conv_conj le_cases not_le take_append diff_is_0_eq append_Nil2 take0)
    then have a: "a = enc p @ a'" unfolding a'_def by (metis append_take_drop_id)
    with eq have eq': "a' @ b = concat (map enc ps)" by simp
    obtain k r where kr: "ext (fs @ [p]) a' = (Inr ((fs @ [p]) @ take k ps), r)"
        "r @ b = concat (map enc (drop k ps))"
      using Cons.IH [of a' "fs @ [p]"] Cons.prems eq' by auto
    have "ext fs a = ext (fs @ [p]) a'"
      unfolding a by (subst ext_frame [OF dec_enc [OF p]]) simp
    with kr show ?thesis by (intro exI [of _ "Suc k"] exI [of _ r]) simp
  qed
qed

end

section \<open>The code's reader is one\<close>

lemma try_decode_needs_header: "length b < 4 \<Longrightarrow> try_decode_frame b = Inr None"
  by (simp add: try_decode_frame_def)

interpretation tcp: frame_reader try_decode_frame extract_frames_loop
proof
  show "extract_frames_loop fs b =
      (case try_decode_frame b of
         Inr (Some (d, n)) \<Rightarrow> extract_frames_loop (fs @ [d]) (drop n b)
       | Inr None \<Rightarrow> (Inr fs, b)
       | Inl e \<Rightarrow> (Inl e, b))" for fs b
    by (subst extract_frames_loop.simps) (simp split: sum.split option.split)
qed (auto simp: try_decode_frame_def Let_def split: if_splits)

lemma length_frame_bytes [simp]: "length (frame_bytes p) = 4 + length p"
  by (simp add: frame_bytes_def)

lemma unat_frame_length: "length p \<le> MAX_FRAME_SIZE \<Longrightarrow> unat (of_nat (length p) :: 32 word) = length p"
  by (simp add: config_defs unat_of_nat)

interpretation tcp: frame_codec try_decode_frame extract_frames_loop frame_bytes
    "\<lambda>p. length p \<le> MAX_FRAME_SIZE"
proof
  show "try_decode_frame [] = Inr None" by (simp add: try_decode_frame_def)
  show "try_decode_frame (frame_bytes p @ c) = Inr (Some (p, length (frame_bytes p)))"
    if "length p \<le> MAX_FRAME_SIZE" for p c
    using that by (simp add: try_decode_frame_def frame_bytes_def unat_frame_length)
  show "try_decode_frame (take k (frame_bytes p)) = Inr None"
    if "length p \<le> MAX_FRAME_SIZE" "k < length (frame_bytes p)" for p k
    using that
    by (cases "k < 4") (auto simp: try_decode_frame_def frame_bytes_def unat_frame_length Let_def)
qed

section \<open>Receiving\<close>

lemma extract_pending_bound:
  assumes "extract_frames b = (Inr fs, r)" shows "length r < 4 + MAX_FRAME_SIZE"
  using tcp.ext_rest_incomplete [of "[]" b fs r] assms
  by (auto simp: extract_frames_def try_decode_frame_def Let_def config_defs split: if_splits)

lemma extract_never_reads_garbage:
  assumes "\<forall>p \<in> set ps. length p \<le> MAX_FRAME_SIZE" and "a @ b = concat (map frame_bytes ps)"
  shows "\<exists>k r. extract_frames a = (Inr (take k ps), r) \<and> r @ b = concat (map frame_bytes (drop k ps))"
  using tcp.ext_prefix [OF assms, of "[]"] by (simp add: extract_frames_def)

lemma receive_chunk_frames:
  assumes "\<forall>p \<in> set ps. length p \<le> MAX_FRAME_SIZE"
    and "pending @ c @ b = concat (map frame_bytes ps)"
    and "length pending < 4 + MAX_FRAME_SIZE" and "length c \<le> TCP_READ_BUF"
  obtains k r where "receive_chunk pending c = Inr (take k ps, r)"
    and "r @ b = concat (map frame_bytes (drop k ps))" and "length r < 4 + MAX_FRAME_SIZE"
proof -
  obtain k r where e: "extract_frames (pending @ c) = (Inr (take k ps), r)"
      and b: "r @ b = concat (map frame_bytes (drop k ps))"
    using extract_never_reads_garbage [of ps "pending @ c" b] assms(1,2) by auto
  have "length (pending @ c) \<le> MAX_PENDING_BUF"
    using assms(3,4) by (simp add: config_defs)
  with e have "receive_chunk pending c = Inr (take k ps, r)"
    by (simp add: receive_chunk_def del: length_append)
  then show thesis using b extract_pending_bound [OF e] by (rule that)
qed

lemma receive_chunks_frames:
  assumes "\<forall>p \<in> set ps. length p \<le> MAX_FRAME_SIZE" "\<forall>c \<in> set cs. length c \<le> TCP_READ_BUF"
    and "pending @ concat cs @ b = concat (map frame_bytes ps)"
    and "length pending < 4 + MAX_FRAME_SIZE"
  shows "\<exists>k r. receive_chunks pending cs = Inr (take k ps, r) \<and>
    r @ b = concat (map frame_bytes (drop k ps)) \<and> length r < 4 + MAX_FRAME_SIZE"
  using assms
proof (induction cs arbitrary: pending ps)
  case Nil
  then show ?case by (intro exI [of _ 0] exI [of _ pending]) simp
next
  case (Cons c cs)
  have "pending @ c @ (concat cs @ b) = concat (map frame_bytes ps)"
    and "length c \<le> TCP_READ_BUF" using Cons.prems by simp_all
  then obtain k r where kr: "receive_chunk pending c = Inr (take k ps, r)"
      and r: "r @ concat cs @ b = concat (map frame_bytes (drop k ps))" "length r < 4 + MAX_FRAME_SIZE"
    using receive_chunk_frames [of ps pending c "concat cs @ b"] Cons.prems(1,4) by metis
  have "\<forall>p \<in> set (drop k ps). length p \<le> MAX_FRAME_SIZE"
    using Cons.prems(1) set_drop_subset [of k ps] by blast
  then obtain j q where "receive_chunks r cs = Inr (take j (drop k ps), q)"
      and "q @ b = concat (map frame_bytes (drop j (drop k ps)))" "length q < 4 + MAX_FRAME_SIZE"
    using Cons.IH [of "drop k ps" r] Cons.prems(2) r by auto
  moreover have "drop (k + j) ps = drop j (drop k ps)" by (simp add: add.commute)
  ultimately show ?case using kr
    by (intro exI [of _ "k + j"] exI [of _ q]) (simp add: take_add del: drop_drop)
qed

lemma receive_chunk_incomplete: "receive_chunk pending c = Inr (fs, r) \<Longrightarrow> try_decode_frame r = Inr None"
  using tcp.ext_rest_incomplete [of "[]" "pending @ c" fs r]
  by (auto simp: receive_chunk_def extract_frames_def Let_def split: if_splits prod.splits sum.splits)

lemma receive_chunks_incomplete:
  "try_decode_frame pending = Inr None \<Longrightarrow> receive_chunks pending cs = Inr (fs, r) \<Longrightarrow> try_decode_frame r = Inr None"
proof (induction cs arbitrary: pending fs)
  case (Cons c cs)
  then show ?case using receive_chunk_incomplete by (fastforce split: sum.splits prod.splits)
qed simp

text \<open>An incomplete rest of a stream is shorter than the frame it begins.\<close>

lemma incomplete_rest_short:
  assumes "try_decode_frame r = Inr None" and "r @ b = frame_bytes p @ c" and "length p \<le> MAX_FRAME_SIZE"
  shows "length r < length (frame_bytes p)"
proof (rule ccontr)
  assume "\<not> ?thesis"
  then have "r = frame_bytes p @ drop (length (frame_bytes p)) r"
    using assms(2) by (metis append_eq_append_conv_if append_eq_conv_conj append_take_drop_id not_less)
  then have "try_decode_frame r = Inr (Some (p, length (frame_bytes p)))"
    using tcp.dec_enc [OF assms(3)] by metis
  with assms(1) show False by simp
qed

text \<open>C5 The frames a reader extracts do not depend on how TCP cuts the byte stream. Of a stream of frames none of
  which is longer than \<open>MAX_FRAME_SIZE\<close>, whatever part has arrived and in whatever chunks (each no longer than
  the read buffer), the reader never fails (neither the overflow check nor the frame check fires), it has delivered
  exactly the frames that have arrived completely, in order, and holds back exactly the bytes of the one in progress,
  fewer than that frame has. Once everything has arrived all payloads are delivered and nothing is held back.\<close>

theorem stream_reassembly:
  assumes "\<forall>p \<in> set ps. length p \<le> MAX_FRAME_SIZE" and "\<forall>c \<in> set cs. length c \<le> TCP_READ_BUF"
    and "concat cs @ rest = concat (map frame_bytes ps)"
  shows "\<exists>k pending. k \<le> length ps \<and> receive_chunks [] cs = Inr (take k ps, pending) \<and>
    pending @ rest = concat (map frame_bytes (drop k ps)) \<and>
    (k < length ps \<longrightarrow> length pending < length (frame_bytes (ps ! k))) \<and>
    (rest = [] \<longrightarrow> receive_chunks [] cs = Inr (ps, []))"
proof -
  obtain k0 pending where r: "receive_chunks [] cs = Inr (take k0 ps, pending)"
      and p: "pending @ rest = concat (map frame_bytes (drop k0 ps))"
    using receive_chunks_frames [OF assms(1,2), of "[]" rest] assms(3) by auto
  define k where "k = min k0 (length ps)"
  have k: "take k0 ps = take k ps" "drop k0 ps = drop k ps" "k \<le> length ps" by (auto simp: k_def min_def)
  have dec: "try_decode_frame pending = Inr None" by (rule receive_chunks_incomplete [OF _ r]) (simp add: try_decode_frame_def)
  have short: "length pending < length (frame_bytes (ps ! k))" if "k < length ps"
  proof (rule incomplete_rest_short [OF dec])
    show "pending @ rest = frame_bytes (ps ! k) @ concat (map frame_bytes (drop (Suc k) ps))"
      using p that by (simp add: k Cons_nth_drop_Suc [symmetric])
    show "length (ps ! k) \<le> MAX_FRAME_SIZE" using assms(1) that by simp
  qed
  have "receive_chunks [] cs = Inr (ps, [])" if "rest = []"
  proof -
    have "\<not> k < length ps"
    proof
      assume "k < length ps"
      with p that have "pending = frame_bytes (ps ! k) @ concat (map frame_bytes (drop (Suc k) ps))"
        by (simp add: k Cons_nth_drop_Suc [symmetric])
      with short [OF \<open>k < length ps\<close>] show False by simp
    qed
    with r p that k show ?thesis by simp
  qed
  with r p short k show ?thesis by auto
qed

lemma be_bytes_4:
  "be_bytes 4 x = [of_nat (x div 256 div 256 div 256 mod 256), of_nat (x div 256 div 256 mod 256),
    of_nat (x div 256 mod 256), of_nat (x mod 256)]"
proof -
  have "(4 :: nat) = Suc (Suc (Suc (Suc 0)))" by simp
  then show ?thesis by (simp only: be_bytes.simps append.simps)
qed

text \<open>Two frames, the second one empty, in three chunks.\<close>

theorem stream_reassembly_witness:
  "receive_chunks [] [[0, 0, 0], [1, 7, 0], [0, 0, 0]] = Inr ([[7], []], [])"
proof -
  have "concat [[0, 0, 0], [1, 7, 0], [0, 0, 0]] @ [] = concat (map frame_bytes [[7], []])"
    by (simp add: frame_bytes_def u32_to_be_def be_bytes_4)
  from stream_reassembly [OF _ _ this] show ?thesis by (simp add: config_defs del: receive_chunks.simps) blast
qed

text \<open>A frame written by \<open>encode_tcp_frame\<close>, whatever follows it on the stream, is
  read back by \<open>try_decode_frame\<close> as exactly its payload when the payload fits
  \<open>MAX_FRAME_SIZE\<close>, and is a fatal \<open>TooLarge\<close> error for the reader otherwise: the encoder
  itself never refuses.\<close>

theorem frame_roundtrip:
  assumes "serialize m = Some payload" and "length payload < 2 ^ 32"
  shows "\<exists>frame. encode_tcp_frame serialize m = Some frame \<and>
    try_decode_frame (frame @ rest) =
      (if length payload \<le> MAX_FRAME_SIZE then Inr (Some (payload, length frame))
       else Inl (TooLarge (length payload)))"
proof -
  have u: "unat (of_nat (length payload) :: 32 word) = length payload"
    using assms(2) by (simp add: unat_of_nat)
  show ?thesis using assms(1) u by (simp add: encode_tcp_frame_def try_decode_frame_def)
qed

theorem frame_roundtrip_witness:
  "\<exists>frame. encode_tcp_frame (\<lambda>m. Some [m, m]) (9 :: byte) = Some frame \<and>
    try_decode_frame (frame @ [1]) =
      (if length [9 :: byte, 9] \<le> MAX_FRAME_SIZE then Inr (Some ([9, 9], length frame))
       else Inl (TooLarge (length [9 :: byte, 9])))"
  by (rule frame_roundtrip) simp_all

end
