(* ===== verification/Rate_Limit.thy ===== *)
theory Rate_Limit
  imports Config Net_Addr
begin

text \<open>
  \<^verbatim>\<open>crates/server/src/rate_limit.rs\<close>: the token bucket in \<open>f64\<close> arithmetic and the
  per-IP registry of buckets. The current instant is an argument (\<open>Instant::now()\<close>);
  \<open>duration_since\<close> is zero for an earlier instant, as subtraction on \<open>nat\<close> is. The
  locale \<open>metered\<close> states what both limiters promise, a potential that pays for every
  allowed action, and derives the bound on allowed actions once.
\<close>

section \<open>The token bucket\<close>

record rate_limiter =
  rl_tokens :: rat
  rl_max_tokens :: rat
  rl_refill_rate :: rat
  rl_last_refill :: instant

definition rl_new :: "rat \<Rightarrow> rat \<Rightarrow> instant \<Rightarrow> rate_limiter" where
  "rl_new rate_per_sec burst now =
    \<lparr>rl_tokens = burst, rl_max_tokens = burst, rl_refill_rate = rate_per_sec, rl_last_refill = now\<rparr>"

definition rl_refill :: "instant \<Rightarrow> rate_limiter \<Rightarrow> rate_limiter" where
  "rl_refill now r =
    (let elapsed = as_secs_f64 (now - rl_last_refill r)
     in r\<lparr>rl_tokens := min (f64_add (rl_tokens r) (f64_mul elapsed (rl_refill_rate r))) (rl_max_tokens r),
          rl_last_refill := now\<rparr>)"

definition rl_check :: "instant \<Rightarrow> rate_limiter \<Rightarrow> bool \<times> rate_limiter" where
  "rl_check now r =
    (let r = rl_refill now r in
     if rl_tokens r \<ge> 1 then (True, r\<lparr>rl_tokens := f64_sub (rl_tokens r) 1\<rparr>) else (False, r))"

section \<open>The per-IP registry\<close>

record ip_entry =
  ie_limiter :: rate_limiter
  ie_refcount :: nat \<comment> \<open>\<open>u32\<close>, saturating\<close>
  ie_last_active :: instant

record ip_rate_limiter =
  irl_rate_per_sec :: rat
  irl_burst :: rat
  irl_map :: "(ip_addr \<times> ip_entry) list"

definition u32_max :: nat where "u32_max = 4294967295"

definition irl_new :: "rat \<Rightarrow> rat \<Rightarrow> ip_rate_limiter" where
  "irl_new rate_per_sec burst = \<lparr>irl_rate_per_sec = rate_per_sec, irl_burst = burst, irl_map = []\<rparr>"

definition irl_track :: "instant \<Rightarrow> ip_addr \<Rightarrow> ip_rate_limiter \<Rightarrow> ip_rate_limiter" where
  "irl_track now ip l =
    (let entry = (case hm_get (irl_map l) ip of
         Some e \<Rightarrow> e
       | None \<Rightarrow> \<lparr>ie_limiter = rl_new (irl_rate_per_sec l) (irl_burst l) now,
           ie_refcount = 0, ie_last_active = now\<rparr>);
       entry = entry\<lparr>ie_refcount := min (ie_refcount entry + 1) u32_max, ie_last_active := now\<rparr>
     in l\<lparr>irl_map := hm_insert ip entry (irl_map l)\<rparr>)"

definition irl_untrack :: "instant \<Rightarrow> ip_addr \<Rightarrow> ip_rate_limiter \<Rightarrow> ip_rate_limiter" where
  "irl_untrack now ip l =
    (case hm_get (irl_map l) ip of
       Some entry \<Rightarrow> l\<lparr>irl_map := hm_insert ip
         (entry\<lparr>ie_refcount := ie_refcount entry - 1, ie_last_active := now\<rparr>) (irl_map l)\<rparr>
     | None \<Rightarrow> l)"

definition irl_check :: "instant \<Rightarrow> ip_addr \<Rightarrow> ip_rate_limiter \<Rightarrow> bool \<times> ip_rate_limiter" where
  "irl_check now ip l =
    (case hm_get (irl_map l) ip of
       Some entry \<Rightarrow>
        (let (ok, limiter) = rl_check now (ie_limiter entry)
         in (ok, l\<lparr>irl_map := hm_insert ip
              (entry\<lparr>ie_last_active := now, ie_limiter := limiter\<rparr>) (irl_map l)\<rparr>))
     | None \<Rightarrow> (True, l))"

definition irl_sweep_idle :: "instant \<Rightarrow> duration \<Rightarrow> ip_rate_limiter \<Rightarrow> nat \<times> ip_rate_limiter" where
  "irl_sweep_idle now ttl l =
    (let before = length (irl_map l);
       m = hm_retain (\<lambda>_ e. ie_refcount e > 0 \<or> now - ie_last_active e < ttl) (irl_map l)
     in (before - length m, l\<lparr>irl_map := m\<rparr>))"

section \<open>The contract of a limiter\<close>

text \<open>
  A limiter runs events, some of which are requests it allows (\<open>True\<close>) or refuses. Its
  potential at an instant is what it could still allow; time adds at most \<open>gain\<close> to it per
  nanosecond, an allowed request takes 1, and the rounding of one step adds at most \<open>slack\<close>.
\<close>

fun run_events :: "('e \<Rightarrow> instant \<Rightarrow> 's \<Rightarrow> bool \<times> 's) \<Rightarrow> ('e \<times> instant) list \<Rightarrow> 's \<Rightarrow> bool list \<times> 's" where
  "run_events step [] s = ([], s)"
| "run_events step ((e, t) # es) s =
    (let (b, s1) = step e t s; (bs, s2) = run_events step es s1 in (b # bs, s2))"

fun legal_events ::
    "('e \<Rightarrow> instant \<Rightarrow> 's \<Rightarrow> bool \<times> 's) \<Rightarrow> ('e \<Rightarrow> 's \<Rightarrow> bool) \<Rightarrow> instant \<Rightarrow> ('e \<times> instant) list \<Rightarrow> 's \<Rightarrow> bool" where
  "legal_events step enabled t0 [] s = True"
| "legal_events step enabled t0 ((e, t) # es) s =
    (t0 \<le> t \<and> enabled e s \<and> legal_events step enabled t es (snd (step e t s)))"

fun end_time :: "instant \<Rightarrow> ('e \<times> instant) list \<Rightarrow> instant" where
  "end_time t0 [] = t0"
| "end_time t0 ((e, t) # es) = end_time t es"

locale metered =
  fixes step :: "'e \<Rightarrow> instant \<Rightarrow> 's \<Rightarrow> bool \<times> 's"
    and enabled :: "'e \<Rightarrow> 's \<Rightarrow> bool"
    and inv :: "instant \<Rightarrow> 's \<Rightarrow> bool"
    and pot :: "instant \<Rightarrow> 's \<Rightarrow> rat"
    and gain slack :: rat
  assumes step_inv: "inv t s \<Longrightarrow> t \<le> t' \<Longrightarrow> enabled e s \<Longrightarrow> inv t' (snd (step e t' s))"
    and step_pays: "inv t s \<Longrightarrow> t \<le> t' \<Longrightarrow> enabled e s \<Longrightarrow>
      pot t' (snd (step e t' s)) + (if fst (step e t' s) then 1 else 0)
        \<le> pot t s + gain * rat_of_nat (t' - t) + slack"
    and pot_nonneg: "inv t s \<Longrightarrow> 0 \<le> pot t s"
begin

lemma legal_end_time: "legal_events step enabled t0 es s \<Longrightarrow> t0 \<le> end_time t0 es"
proof (induction es arbitrary: t0 s)
  case (Cons a es)
  then show ?case by (cases a) (auto intro: order_trans)
qed simp

lemma run_inv: "inv t0 s \<Longrightarrow> legal_events step enabled t0 es s \<Longrightarrow> inv (end_time t0 es) (snd (run_events step es s))"
proof (induction es arbitrary: t0 s)
  case (Cons a es)
  obtain e t where a: "a = (e, t)" by (cases a)
  with Cons.prems have "inv t (snd (step e t s))" by (simp add: step_inv)
  with Cons a show ?case by (simp add: case_prod_beta)
qed simp

lemma allowed_bound_pot:
  "inv t0 s \<Longrightarrow> legal_events step enabled t0 es s \<Longrightarrow>
   rat_of_nat (count_list (fst (run_events step es s)) True) + pot (end_time t0 es) (snd (run_events step es s))
     \<le> pot t0 s + gain * rat_of_nat (end_time t0 es - t0) + of_nat (length es) * slack"
proof (induction es arbitrary: t0 s)
  case (Cons a es)
  obtain e t where a: "a = (e, t)" by (cases a)
  let ?s = "snd (step e t s)"
  let ?T = "end_time t es"
  from Cons.prems a have t: "t0 \<le> t" "enabled e s" "legal_events step enabled t es ?s" by simp_all
  have i: "inv t ?s" using step_inv Cons.prems(1) t by blast
  have T: "t \<le> ?T" using legal_end_time t(3) .
  have split: "rat_of_nat (?T - t0) = rat_of_nat (t - t0) + rat_of_nat (?T - t)"
    using t(1) T by (simp flip: of_nat_add)
  have "rat_of_nat (count_list (fst (run_events step es ?s)) True) + pot ?T (snd (run_events step es ?s))
     \<le> pot t ?s + gain * rat_of_nat (?T - t) + of_nat (length es) * slack"
    using Cons.IH i t(3) .
  moreover have "pot t ?s + (if fst (step e t s) then 1 else 0)
      \<le> pot t0 s + gain * rat_of_nat (t - t0) + slack"
    using step_pays Cons.prems(1) t(1,2) .
  moreover have "rat_of_nat (count_list (fst (run_events step (a # es) s)) True) =
      (if fst (step e t s) then 1 else 0) + rat_of_nat (count_list (fst (run_events step es ?s)) True)"
    using a by (simp add: case_prod_beta)
  moreover have "snd (run_events step (a # es) s) = snd (run_events step es ?s)" and "end_time t0 (a # es) = ?T"
    using a by (simp_all add: case_prod_beta)
  ultimately show ?case
    by (simp add: split distrib_left distrib_right split: if_splits)
qed simp

theorem allowed_bound:
  assumes "inv t0 s" and "legal_events step enabled t0 es s"
  shows "rat_of_nat (count_list (fst (run_events step es s)) True)
    \<le> pot t0 s + gain * rat_of_nat (end_time t0 es - t0) + of_nat (length es) * slack"
  using allowed_bound_pot [OF assms] pot_nonneg [OF run_inv [OF assms]] by linarith

end

section \<open>The token bucket keeps the contract\<close>

definition eps :: rat where "eps = 1 / 2 ^ 53"

definition bucket_gain :: "rat \<Rightarrow> rat" where
  "bucket_gain rate = rate * (1 + eps) ^ 4 / 1000000000"

definition limits_ok :: "rat \<Rightarrow> rat \<Rightarrow> bool" where
  "limits_ok rate burst \<longleftrightarrow> 0 \<le> rate \<and> 0 \<le> burst \<and> burst \<le> 2 ^ 53 \<and> f64 burst = burst"

definition bucket_ok :: "rat \<Rightarrow> rat \<Rightarrow> instant \<Rightarrow> rate_limiter \<Rightarrow> bool" where
  "bucket_ok rate burst t r \<longleftrightarrow> limits_ok rate burst \<and> rl_refill_rate r = rate \<and>
     rl_max_tokens r = burst \<and> 0 \<le> rl_tokens r \<and> rl_tokens r \<le> burst \<and>
     f64 (rl_tokens r) = rl_tokens r \<and> rl_last_refill r \<le> t"

definition bucket_pot :: "rat \<Rightarrow> rat \<Rightarrow> instant \<Rightarrow> rate_limiter \<Rightarrow> rat" where
  "bucket_pot rate burst t r =
    min burst (rl_tokens r + bucket_gain rate * rat_of_nat (t - rl_last_refill r))"

lemma eps_bounds [simp]: "0 < eps" "0 \<le> eps" "eps \<le> 1"
  by (simp_all add: eps_def)

lemma bucket_gain_nonneg: "0 \<le> rate \<Longrightarrow> 0 \<le> bucket_gain rate"
  by (simp add: bucket_gain_def)

lemma f64_upper: "0 \<le> x \<Longrightarrow> f64 x \<le> x * (1 + eps)"
  using fl_upper [of x 53] by (simp add: eps_def)

lemma as_secs_f64_nonneg: "0 \<le> as_secs_f64 d"
  by (simp add: as_secs_f64_def f64_add_def f64_div_def fl_nonneg)

lemma as_secs_f64_upper: "as_secs_f64 d \<le> rat_of_nat d / 1000000000 * (1 + eps) ^ 2"
proof -
  let ?s = "rat_of_nat (d div 1000000000)" and ?n = "rat_of_nat (d mod 1000000000)"
  have "rat_of_nat d = ?s * 1000000000 + ?n"
    by (metis div_mult_mod_eq of_nat_add of_nat_mult of_nat_numeral)
  then have d: "rat_of_nat d / 1000000000 = ?s + ?n / 1000000000" by (simp add: add_divide_distrib)
  have "f64 ?s + f64 (?n / 1000000000) \<le> ?s * (1 + eps) + ?n / 1000000000 * (1 + eps)"
    by (intro add_mono f64_upper) simp_all
  also have "\<dots> = rat_of_nat d / 1000000000 * (1 + eps)" by (simp add: d distrib_right)
  finally have le: "f64 ?s + f64 (?n / 1000000000) \<le> rat_of_nat d / 1000000000 * (1 + eps)" .
  have "as_secs_f64 d \<le> (f64 ?s + f64 (?n / 1000000000)) * (1 + eps)"
    unfolding as_secs_f64_def f64_add_def f64_div_def by (rule f64_upper) (simp add: fl_nonneg)
  also have "\<dots> \<le> rat_of_nat d / 1000000000 * (1 + eps) * (1 + eps)"
    using le by (rule mult_right_mono) simp
  finally show ?thesis by (simp add: power2_eq_square mult.assoc)
qed

lemma refill_upper:
  assumes "bucket_ok rate burst t r"
  shows "f64_add (rl_tokens r) (f64_mul (as_secs_f64 d) rate)
    \<le> rl_tokens r + bucket_gain rate * rat_of_nat d + burst * eps"
proof -
  let ?x = "as_secs_f64 d * rate"
  have rate: "0 \<le> rate" and tok: "0 \<le> rl_tokens r" "rl_tokens r \<le> burst"
    using assms by (simp_all add: bucket_ok_def limits_ok_def)
  have "0 \<le> ?x" using rate as_secs_f64_nonneg by simp
  then have m: "0 \<le> f64 ?x" "f64 ?x \<le> ?x * (1 + eps)" by (simp_all add: fl_nonneg f64_upper)
  have "?x * (1 + eps) \<le> rat_of_nat d / 1000000000 * (1 + eps) ^ 2 * rate * (1 + eps)"
    using as_secs_f64_upper rate by (intro mult_right_mono) simp_all
  with m(2) have f: "f64 ?x * (1 + eps) \<le> rat_of_nat d / 1000000000 * (1 + eps) ^ 2 * rate * (1 + eps) * (1 + eps)"
    by (intro mult_right_mono) simp_all
  have "f64 (rl_tokens r + f64 ?x) \<le> (rl_tokens r + f64 ?x) * (1 + eps)"
    using tok m(1) by (intro f64_upper) simp
  also have "\<dots> = rl_tokens r + rl_tokens r * eps + f64 ?x * (1 + eps)" by (simp add: algebra_simps)
  also have "\<dots> \<le> rl_tokens r + burst * eps
      + rat_of_nat d / 1000000000 * (1 + eps) ^ 2 * rate * (1 + eps) * (1 + eps)"
    using f mult_right_mono [OF tok(2) eps_bounds(2)] by linarith
  finally show ?thesis
    by (simp add: f64_add_def f64_mul_def bucket_gain_def numeral_eq_Suc algebra_simps)
qed

lemma rl_refill_sel [simp]:
  "rl_refill_rate (rl_refill t r) = rl_refill_rate r" "rl_max_tokens (rl_refill t r) = rl_max_tokens r"
  "rl_last_refill (rl_refill t r) = t"
  by (simp_all add: rl_refill_def Let_def)

lemma refill_ok:
  assumes "bucket_ok rate burst t r" shows "bucket_ok rate burst t' (rl_refill t' r)"
proof -
  let ?x = "f64_add (rl_tokens r) (f64_mul (as_secs_f64 (t' - rl_last_refill r)) rate)"
  have "0 \<le> f64_mul (as_secs_f64 (t' - rl_last_refill r)) rate"
    using assms as_secs_f64_nonneg
    by (simp add: f64_mul_def fl_nonneg bucket_ok_def limits_ok_def)
  then have "0 \<le> ?x" using assms by (simp add: f64_add_def fl_nonneg bucket_ok_def)
  moreover have "f64 ?x = ?x" by (simp add: f64_add_def fl_idem)
  ultimately show ?thesis
    using assms by (simp add: bucket_ok_def limits_ok_def rl_refill_def Let_def min_def)
qed

lemma refill_pot:
  assumes "bucket_ok rate burst t r"
  shows "rl_tokens (rl_refill t' r)
    \<le> min burst (rl_tokens r + bucket_gain rate * rat_of_nat (t' - rl_last_refill r)) + burst * eps"
proof -
  have "0 \<le> burst * eps" using assms by (simp add: bucket_ok_def limits_ok_def)
  moreover have "rl_refill_rate r = rate" "rl_max_tokens r = burst"
    using assms by (simp_all add: bucket_ok_def)
  ultimately show ?thesis
    using refill_upper [OF assms, of "t' - rl_last_refill r"]
    by (simp add: rl_refill_def Let_def min_def)
qed

lemma check_ok: "bucket_ok rate burst t r \<Longrightarrow> bucket_ok rate burst t' (snd (rl_check t' r))"
proof -
  assume "bucket_ok rate burst t r"
  note ok = refill_ok [OF this, of t']
  have "f64 (rl_tokens (rl_refill t' r) - 1) = rl_tokens (rl_refill t' r) - 1"
    if "1 \<le> rl_tokens (rl_refill t' r)"
    using that ok by (intro fl_sub_one_exact) (simp_all add: bucket_ok_def limits_ok_def)
  with ok show ?thesis
    by (simp add: rl_check_def Let_def bucket_ok_def f64_sub_def)
qed

lemma check_tokens:
  assumes "bucket_ok rate burst t r"
  shows "rl_tokens (snd (rl_check t' r)) + (if fst (rl_check t' r) then 1 else 0)
    = rl_tokens (rl_refill t' r)"
proof -
  note ok = refill_ok [OF assms, of t']
  have "f64 (rl_tokens (rl_refill t' r) - 1) = rl_tokens (rl_refill t' r) - 1"
    if "1 \<le> rl_tokens (rl_refill t' r)"
    using that ok by (intro fl_sub_one_exact) (simp_all add: bucket_ok_def limits_ok_def)
  then show ?thesis by (simp add: rl_check_def Let_def f64_sub_def)
qed

lemma check_last_refill: "rl_last_refill (snd (rl_check t' r)) = t'"
  by (simp add: rl_check_def Let_def)

lemma bucket_pot_now: "bucket_ok rate burst t r \<Longrightarrow> rl_last_refill r = t \<Longrightarrow> bucket_pot rate burst t r = rl_tokens r"
  by (simp add: bucket_pot_def bucket_ok_def min_def)

lemma bucket_pot_le: "bucket_pot rate burst t r \<le> burst"
  by (simp add: bucket_pot_def)

lemma bucket_pot_nonneg: "bucket_ok rate burst t r \<Longrightarrow> 0 \<le> bucket_pot rate burst t r"
  by (simp add: bucket_pot_def bucket_ok_def limits_ok_def bucket_gain_nonneg)

text \<open>Waiting from \<open>t\<close> to \<open>t'\<close> adds at most \<open>gain * (t' - t)\<close> to the potential.\<close>

lemma bucket_pot_wait:
  assumes "bucket_ok rate burst t r" and "t \<le> t'"
  shows "bucket_pot rate burst t' r \<le> bucket_pot rate burst t r + bucket_gain rate * rat_of_nat (t' - t)"
proof -
  have g: "0 \<le> bucket_gain rate"
    using assms(1) by (simp add: bucket_ok_def limits_ok_def bucket_gain_nonneg)
  have "rat_of_nat (t' - rl_last_refill r) = rat_of_nat (t - rl_last_refill r) + rat_of_nat (t' - t)"
    using assms by (simp add: bucket_ok_def flip: of_nat_add)
  moreover have "0 \<le> bucket_gain rate * rat_of_nat (t' - t)" using g by simp
  ultimately show ?thesis by (simp add: bucket_pot_def distrib_left min_def del: of_nat_diff)
qed

lemma check_pays:
  assumes "bucket_ok rate burst t r" and "t \<le> t'"
  shows "bucket_pot rate burst t' (snd (rl_check t' r)) + (if fst (rl_check t' r) then 1 else 0)
    \<le> bucket_pot rate burst t r + bucket_gain rate * rat_of_nat (t' - t) + burst * eps"
proof -
  have "bucket_pot rate burst t' (snd (rl_check t' r)) = rl_tokens (snd (rl_check t' r))"
    using check_ok [OF assms(1)] check_last_refill by (rule bucket_pot_now)
  then have "bucket_pot rate burst t' (snd (rl_check t' r)) + (if fst (rl_check t' r) then 1 else 0)
      \<le> bucket_pot rate burst t' r + burst * eps"
    using check_tokens [OF assms(1), of t'] refill_pot [OF assms(1), of t'] by (simp add: bucket_pot_def)
  with bucket_pot_wait [OF assms] show ?thesis by linarith
qed

interpretation bucket: metered "\<lambda>(_ :: unit) t r. rl_check t r" "\<lambda>_ _. True"
    "bucket_ok rate burst" "bucket_pot rate burst" "bucket_gain rate" "burst * eps" for rate burst
  by unfold_locales (simp_all add: check_ok check_pays bucket_pot_nonneg del: of_nat_diff)

section \<open>The registry keeps it for every address\<close>

datatype ip_event = Track ip_addr | Untrack ip_addr | CheckIp ip_addr | SweepIdle

text \<open>The result says whether a request from \<open>ip\<close> itself was allowed.\<close>

fun ip_step :: "duration \<Rightarrow> ip_addr \<Rightarrow> ip_event \<Rightarrow> instant \<Rightarrow> ip_rate_limiter \<Rightarrow> bool \<times> ip_rate_limiter" where
  "ip_step ttl ip (Track k) t l = (False, irl_track t k l)"
| "ip_step ttl ip (Untrack k) t l = (False, irl_untrack t k l)"
| "ip_step ttl ip (CheckIp k) t l = (let (b, l') = irl_check t k l in (b \<and> k = ip, l'))"
| "ip_step ttl ip SweepIdle t l = (False, snd (irl_sweep_idle t ttl l))"

fun ip_tracked :: "ip_event \<Rightarrow> ip_rate_limiter \<Rightarrow> bool" where
  "ip_tracked (CheckIp k) l = hm_contains (irl_map l) k"
| "ip_tracked _ l = True"

definition entry_ok :: "rat \<Rightarrow> rat \<Rightarrow> instant \<Rightarrow> ip_entry \<Rightarrow> bool" where
  "entry_ok rate burst t e \<longleftrightarrow> bucket_ok rate burst t (ie_limiter e) \<and>
     rl_last_refill (ie_limiter e) \<le> ie_last_active e \<and> ie_last_active e \<le> t"

definition irl_ok :: "duration \<Rightarrow> rat \<Rightarrow> rat \<Rightarrow> instant \<Rightarrow> ip_rate_limiter \<Rightarrow> bool" where
  "irl_ok ttl rate burst t l \<longleftrightarrow> limits_ok rate burst \<and> burst \<le> rate * rat_of_nat ttl / 1000000000 \<and>
     irl_rate_per_sec l = rate \<and> irl_burst l = burst \<and> keys_distinct (irl_map l) \<and>
     (\<forall>k e. hm_get (irl_map l) k = Some e \<longrightarrow> entry_ok rate burst t e)"

definition irl_pot :: "rat \<Rightarrow> rat \<Rightarrow> ip_addr \<Rightarrow> instant \<Rightarrow> ip_rate_limiter \<Rightarrow> rat" where
  "irl_pot rate burst ip t l =
    (case hm_get (irl_map l) ip of None \<Rightarrow> burst | Some e \<Rightarrow> bucket_pot rate burst t (ie_limiter e))"

lemma bucket_ok_later: "bucket_ok rate burst t r \<Longrightarrow> t \<le> t' \<Longrightarrow> bucket_ok rate burst t' r"
  by (simp add: bucket_ok_def)

lemma entry_ok_later: "entry_ok rate burst t e \<Longrightarrow> t \<le> t' \<Longrightarrow> entry_ok rate burst t' e"
  by (auto simp: entry_ok_def bucket_ok_later)

lemma irl_ok_later: "irl_ok ttl rate burst t l \<Longrightarrow> t \<le> t' \<Longrightarrow> irl_ok ttl rate burst t' l"
  unfolding irl_ok_def using entry_ok_later by blast

lemma rl_new_ok: "limits_ok rate burst \<Longrightarrow> bucket_ok rate burst t (rl_new rate burst t)"
  by (simp add: bucket_ok_def rl_new_def limits_ok_def)

lemma irl_new_ok:
  "limits_ok rate burst \<Longrightarrow> burst \<le> rate * rat_of_nat ttl / 1000000000 \<Longrightarrow>
   irl_ok ttl rate burst t (irl_new rate burst)"
  by (simp add: irl_ok_def irl_new_def)

lemma irl_step_ok:
  assumes "irl_ok ttl rate burst t l" and "t \<le> t'"
  shows "irl_ok ttl rate burst t' (snd (ip_step ttl ip e t' l))"
proof -
  note ok = irl_ok_later [OF assms]
  show ?thesis
  proof (cases e)
    case (Track k)
    with ok rl_new_ok [of rate burst t'] show ?thesis
      by (auto simp: irl_ok_def irl_track_def Let_def entry_ok_def rl_new_def bucket_ok_def split: option.splits)
  next
    case (Untrack k)
    with ok show ?thesis
      by (auto simp: irl_ok_def irl_untrack_def entry_ok_def bucket_ok_def split: option.splits)
  next
    case (CheckIp k)
    with ok check_ok [of rate burst t' _ t'] show ?thesis
      by (auto simp: irl_ok_def irl_check_def entry_ok_def case_prod_beta check_last_refill split: option.splits)
  next
    case SweepIdle
    with ok show ?thesis
      by (auto simp: irl_ok_def irl_sweep_idle_def Let_def split: option.splits if_splits)
  qed
qed

text \<open>A swept bucket would have been full again: it has been idle for \<open>ttl\<close>.\<close>

lemma idle_bucket_full:
  assumes "entry_ok rate burst t e" and "burst \<le> rate * rat_of_nat ttl / 1000000000"
    and "ttl \<le> t - ie_last_active e"
  shows "bucket_pot rate burst t (ie_limiter e) = burst"
proof -
  let ?r = "ie_limiter e"
  have rate: "0 \<le> rate" and tok: "0 \<le> rl_tokens ?r"
    using assms(1) by (simp_all add: entry_ok_def bucket_ok_def limits_ok_def)
  have ttl: "ttl \<le> t - rl_last_refill ?r" using assms by (simp add: entry_ok_def) linarith
  have "rate * 1 / 1000000000 \<le> bucket_gain rate"
    unfolding bucket_gain_def using rate
    by (intro divide_right_mono mult_left_mono one_le_power) simp_all
  then have "rate / 1000000000 * rat_of_nat ttl \<le> bucket_gain rate * rat_of_nat (t - rl_last_refill ?r)"
    using ttl rate by (intro mult_mono bucket_gain_nonneg) (simp_all del: of_nat_diff)
  with assms(2) tok show ?thesis by (simp add: bucket_pot_def min_def)
qed

lemma irl_pot_wait:
  assumes "irl_ok ttl rate burst t l" and "t \<le> t'"
  shows "irl_pot rate burst ip t' l \<le> irl_pot rate burst ip t l + bucket_gain rate * rat_of_nat (t' - t)"
proof (cases "hm_get (irl_map l) ip")
  case None
  then show ?thesis
    using assms(1) by (simp add: irl_pot_def irl_ok_def limits_ok_def bucket_gain_nonneg del: of_nat_diff)
next
  case (Some e)
  then show ?thesis
    using assms bucket_pot_wait [of rate burst t "ie_limiter e" t']
    by (auto simp: irl_pot_def irl_ok_def entry_ok_def simp del: of_nat_diff)
qed

lemma irl_entry_ok:
  "irl_ok ttl rate burst t l \<Longrightarrow> hm_get (irl_map l) k = Some e \<Longrightarrow> entry_ok rate burst t e"
  by (simp add: irl_ok_def)

lemma irl_track_pot:
  "irl_ok ttl rate burst t l \<Longrightarrow> irl_pot rate burst ip t (irl_track t k l) = irl_pot rate burst ip t l"
  by (auto simp: irl_pot_def irl_track_def irl_ok_def Let_def bucket_pot_def rl_new_def limits_ok_def
      split: option.splits)

lemma irl_untrack_pot: "irl_pot rate burst ip t (irl_untrack t k l) = irl_pot rate burst ip t l"
  by (auto simp: irl_pot_def irl_untrack_def split: option.splits)

lemma irl_sweep_pot:
  assumes "irl_ok ttl rate burst t l"
  shows "irl_pot rate burst ip t (snd (irl_sweep_idle t ttl l)) = irl_pot rate burst ip t l"
proof -
  have "keys_distinct (irl_map l)" and "burst \<le> rate * rat_of_nat ttl / 1000000000"
    using assms by (simp_all add: irl_ok_def)
  then show ?thesis
    using irl_entry_ok [OF assms] idle_bucket_full [of rate burst t _ ttl]
    by (auto simp: irl_pot_def irl_sweep_idle_def Let_def not_less split: option.splits)
qed

lemma irl_check_pays:
  assumes "irl_ok ttl rate burst t l" and "hm_contains (irl_map l) k"
  shows "irl_pot rate burst ip t (snd (irl_check t k l)) + (if fst (irl_check t k l) \<and> k = ip then 1 else 0)
    \<le> irl_pot rate burst ip t l + burst * eps"
proof -
  obtain e where e: "hm_get (irl_map l) k = Some e" using assms(2) by blast
  have b: "bucket_ok rate burst t (ie_limiter e)"
    using irl_entry_ok [OF assms(1) e] by (simp add: entry_ok_def)
  have "0 \<le> burst * eps" using assms(1) by (simp add: irl_ok_def limits_ok_def)
  with e check_pays [OF b order_refl] show ?thesis
    by (auto simp: irl_pot_def irl_check_def case_prod_beta split: if_splits)
qed

lemma irl_step_pays:
  assumes "irl_ok ttl rate burst t l" and "t \<le> t'" and "ip_tracked e l"
  shows "irl_pot rate burst ip t' (snd (ip_step ttl ip e t' l)) + (if fst (ip_step ttl ip e t' l) then 1 else 0)
    \<le> irl_pot rate burst ip t l + bucket_gain rate * rat_of_nat (t' - t) + burst * eps"
proof -
  note ok = irl_ok_later [OF assms(1,2)]
  have s: "0 \<le> burst * eps" using assms(1) by (simp add: irl_ok_def limits_ok_def)
  have "irl_pot rate burst ip t' (snd (ip_step ttl ip e t' l)) + (if fst (ip_step ttl ip e t' l) then 1 else 0)
      \<le> irl_pot rate burst ip t' l + burst * eps"
  proof (cases e)
    case (CheckIp k)
    with irl_check_pays [OF ok, of k ip] assms(3) show ?thesis by (simp add: case_prod_beta)
  qed (use s in \<open>simp_all add: irl_track_pot [OF ok] irl_untrack_pot irl_sweep_pot [OF ok]\<close>)
  with irl_pot_wait [OF assms(1,2), of ip] show ?thesis by linarith
qed

lemma irl_pot_nonneg: "irl_ok ttl rate burst t l \<Longrightarrow> 0 \<le> irl_pot rate burst ip t l"
  by (auto simp: irl_pot_def irl_ok_def limits_ok_def entry_ok_def bucket_pot_nonneg split: option.splits)

interpretation per_ip: metered "ip_step ttl ip" ip_tracked
    "irl_ok ttl rate burst" "irl_pot rate burst ip" "bucket_gain rate" "burst * eps"
  for ttl ip rate burst
  by unfold_locales (simp_all add: irl_step_ok irl_step_pays irl_pot_nonneg del: of_nat_diff)

section \<open>The bounds\<close>

text \<open>C12 However the requests from one address are spread over its connections and whatever
  \<open>track\<close>, \<open>untrack\<close> and \<open>sweep_idle\<close> calls come between them, the registry allows
  that address no more than its burst plus its rate times the elapsed time (plus the rounding
  error of the \<open>f64\<close> arithmetic, \<open>burst / 2^53\<close> per event): neither a second connection
  nor the reclaiming of an idle entry renews the budget.\<close>

theorem ip_budget:
  assumes "limits_ok rate burst" and "burst \<le> rate * rat_of_nat ttl / 1000000000"
    and "legal_events (ip_step ttl ip) ip_tracked t0 es (irl_new rate burst)"
  shows "rat_of_nat (count_list (fst (run_events (ip_step ttl ip) es (irl_new rate burst))) True)
    \<le> burst + bucket_gain rate * rat_of_nat (end_time t0 es - t0) + rat_of_nat (length es) * (burst * eps)"
  using per_ip.allowed_bound [OF irl_new_ok [OF assms(1,2), of t0] assms(3)]
  by (simp add: irl_pot_def irl_new_def)

lemma server_ip_limits_ok: "limits_ok RATE_LIMIT_IP_CMD_PER_SEC RATE_LIMIT_IP_CMD_BURST"
proof -
  have "f64 (of_nat 30) = of_nat 30" and "f64 (of_nat 60) = of_nat 60" by (simp_all add: fl_of_nat del: of_nat_numeral)
  then show ?thesis by (simp add: limits_ok_def config_defs)
qed

theorem ip_budget_witness:
  "rat_of_nat (count_list (fst (run_events (ip_step (secs 300) (V4 1))
      [(Track (V4 1), 0), (CheckIp (V4 1), 5), (Track (V4 1), 6), (Untrack (V4 1), 7), (SweepIdle, 9)]
      (irl_new RATE_LIMIT_IP_CMD_PER_SEC RATE_LIMIT_IP_CMD_BURST))) True)
    \<le> RATE_LIMIT_IP_CMD_BURST + bucket_gain RATE_LIMIT_IP_CMD_PER_SEC * rat_of_nat (9 - 0)
      + rat_of_nat 5 * (RATE_LIMIT_IP_CMD_BURST * eps)"
proof -
  let ?es = "[(Track (V4 1), 0), (CheckIp (V4 1), 5), (Track (V4 1), 6), (Untrack (V4 1), 7), (SweepIdle, 9)]"
  have f: "f64 30 = 30" "f64 60 = 60" using fl_of_nat [of 30 53] fl_of_nat [of 60 53] by simp_all
  have "legal_events (ip_step (secs 300) (V4 1)) ip_tracked 0 ?es
      (irl_new RATE_LIMIT_IP_CMD_PER_SEC RATE_LIMIT_IP_CMD_BURST)"
    by (simp add: irl_new_def irl_track_def)
  then show ?thesis
    using ip_budget [OF server_ip_limits_ok, of "secs 300" "V4 1" 0 ?es] f
    by (simp add: config_defs secs_def)
qed

text \<open>A \<open>RateLimiter\<close> asked at any instants allows no more than its burst plus its rate
  times the elapsed time (plus the rounding error of the \<open>f64\<close> arithmetic).\<close>

theorem limiter_bound:
  assumes "limits_ok rate burst"
    and "legal_events (\<lambda>(_ :: unit) t r. rl_check t r) (\<lambda>_ _. True) t0 es (rl_new rate burst t0)"
  shows "rat_of_nat (count_list (fst (run_events (\<lambda>_ t r. rl_check t r) es (rl_new rate burst t0))) True)
    \<le> burst + bucket_gain rate * rat_of_nat (end_time t0 es - t0) + rat_of_nat (length es) * (burst * eps)"
  using bucket.allowed_bound [OF rl_new_ok [OF assms(1)] assms(2)]
    bucket_pot_le [of rate burst t0 "rl_new rate burst t0"] by linarith

theorem limiter_bound_witness:
  "rat_of_nat (count_list (fst (run_events (\<lambda>(_ :: unit) t r. rl_check t r) [((), 5), ((), 7)]
      (rl_new RATE_LIMIT_CMD_PER_SEC RATE_LIMIT_CMD_BURST 3))) True)
    \<le> RATE_LIMIT_CMD_BURST + bucket_gain RATE_LIMIT_CMD_PER_SEC * rat_of_nat (7 - 3)
      + rat_of_nat 2 * (RATE_LIMIT_CMD_BURST * eps)"
proof -
  have "f64 10 = 10" "f64 20 = 20" using fl_of_nat [of 10 53] fl_of_nat [of 20 53] by simp_all
  then have "limits_ok RATE_LIMIT_CMD_PER_SEC RATE_LIMIT_CMD_BURST"
    by (simp add: limits_ok_def config_defs)
  from limiter_bound [OF this, of 3 "[((), 5), ((), 7)]"] show ?thesis by simp
qed

end
