(* ===== verification/Server_Tcp.thy ===== *)
theory Server_Tcp
  imports Server_Directory Server_Udp Framing Rate_Limit
begin

text \<open>
  \<^verbatim>\<open>crates/server/src/tcp.rs\<close>: the control connections. A server is the shared state, the
  outgoing queue of every connection, the per-IP limiter and the random generator; a connection
  keeps its name, its two limiters and its receive buffer. \<open>serialize\<close> and
  \<open>deserialize\<close> are bincode's, which is outside the repository. A handler runs from start to
  end here, and the frames of one read one after the other; the lock-level interleaving of several
  connections' state operations is the step relation of \<open>Server_Properties\<close>. TLS, the accept loop and the
  socket writes of \<open>writer_task\<close> are input and output.
\<close>

section \<open>Queues\<close>

definition CLIENT_QUEUE_CAPACITY :: nat where "CLIENT_QUEUE_CAPACITY = 128"
definition MAX_CONCURRENT_TLS_HANDSHAKES :: nat where "MAX_CONCURRENT_TLS_HANDSHAKES = 128"
definition TLS_HANDSHAKE_TIMEOUT :: duration where "TLS_HANDSHAKE_TIMEOUT = secs 5"
definition CLIENT_IDLE_TIMEOUT :: duration where "CLIENT_IDLE_TIMEOUT = secs 60"

text \<open>A bounded \<open>mpsc\<close> queue of frames; it is closed once the writer task has stopped.\<close>

record client_queue =
  cq_frames :: "byte list list"
  cq_open :: bool

definition queue_new :: client_queue where
  "queue_new = \<lparr>cq_frames = [], cq_open = True\<rparr>"

definition try_send :: "byte list \<Rightarrow> client_queue \<Rightarrow> client_queue option" where
  "try_send frame q =
    (if cq_open q \<and> length (cq_frames q) < CLIENT_QUEUE_CAPACITY
     then Some (q\<lparr>cq_frames := cq_frames q @ [frame]\<rparr>) else None)"

text \<open>The writer task: take a frame, write it; a failing write ends the task and drops the
  receiver.\<close>

definition writer_step :: "(byte list \<Rightarrow> bool) \<Rightarrow> client_queue \<Rightarrow> byte list option \<times> client_queue" where
  "writer_step write_ok q =
    (case cq_frames q of
       [] \<Rightarrow> (None, q)
     | frame # rest \<Rightarrow>
        if \<not> cq_open q then (None, q)
        else if write_ok frame then (Some frame, q\<lparr>cq_frames := rest\<rparr>)
        else (None, q\<lparr>cq_frames := [], cq_open := False\<rparr>))"

section \<open>The server\<close>

record tcp_server =
  srv_state :: server_state
  srv_senders :: "(socket_addr \<times> client_queue) list"
  srv_ip_limiter :: ip_rate_limiter
  srv_rng :: rng

type_synonym serializer = "server_message \<Rightarrow> byte list option"

definition encode :: "serializer \<Rightarrow> server_message \<Rightarrow> byte list option" where
  "encode serialize msg = encode_tcp_frame serialize msg"

definition deliver ::
    "((64 word \<Rightarrow> 64 word) \<Rightarrow> metrics \<Rightarrow> metrics) \<Rightarrow> byte list \<Rightarrow> socket_addr \<Rightarrow> tcp_server \<Rightarrow> tcp_server" where
  "deliver counter frame addr srv =
    (case hm_get (srv_senders srv) addr of
       None \<Rightarrow> srv
     | Some tx \<Rightarrow>
        (case try_send frame tx of
           None \<Rightarrow> srv\<lparr>srv_state := count m_tcp_drops_queue_full_update 1 (srv_state srv)\<rparr>
         | Some tx \<Rightarrow> srv\<lparr>srv_senders := hm_insert addr tx (srv_senders srv),
             srv_state := count counter 1 (srv_state srv)\<rparr>))"

definition send_to :: "serializer \<Rightarrow> socket_addr \<Rightarrow> server_message \<Rightarrow> tcp_server \<Rightarrow> tcp_server" where
  "send_to ser addr msg srv =
    (case encode ser msg of
       None \<Rightarrow> srv
     | Some frame \<Rightarrow> deliver m_tcp_sends_update frame addr srv)"

definition broadcast_to_channel ::
    "serializer \<Rightarrow> channel_id \<Rightarrow> socket_addr option \<Rightarrow> server_message \<Rightarrow> tcp_server \<Rightarrow> tcp_server" where
  "broadcast_to_channel ser ch exclude msg srv =
    (case encode ser msg of
       None \<Rightarrow> srv
     | Some frame \<Rightarrow>
        fold (deliver m_tcp_broadcast_sends_update frame)
          (broadcast_channel_addrs ch exclude (srv_state srv)) srv)"

definition channel_infos :: "server_state \<Rightarrow> channel_info list" where
  "channel_infos s = map (\<lambda>(ch, n). ChannelInfo ch n) (list_public_channels s)"

definition broadcast_channel_list :: "serializer \<Rightarrow> tcp_server \<Rightarrow> tcp_server" where
  "broadcast_channel_list ser srv =
    (case encode ser (ChannelList (channel_infos (srv_state srv))) of
       None \<Rightarrow> srv
     | Some frame \<Rightarrow>
        fold (deliver m_tcp_broadcast_sends_update frame) (map fst (srv_senders srv)) srv)"

definition is_public :: "channel_id \<Rightarrow> bool" where
  "is_public ch \<longleftrightarrow> starts_with PUBLIC_CHANNEL_PREFIX ch"

section \<open>The handlers\<close>

definition reply_error :: "serializer \<Rightarrow> socket_addr \<Rightarrow> string \<Rightarrow> tcp_server \<Rightarrow> tcp_server" where
  "reply_error ser addr message srv = send_to ser addr (SError message) srv"

definition handle_start_echo_test ::
    "serializer \<Rightarrow> instant \<Rightarrow> socket_addr \<Rightarrow> tcp_server \<Rightarrow> tcp_server option" where
  "handle_start_echo_test ser now addr srv =
    (case start_echo_test addr now (srv_rng srv) (srv_state srv) of
       None \<Rightarrow> None
     | Some (Inr (ch, udp_token, voice_key), s, r) \<Rightarrow>
        Some (send_to ser addr (EchoTestReady ch udp_token voice_key)
          (srv\<lparr>srv_state := s, srv_rng := r\<rparr>))
     | Some (Inl e, s, r) \<Rightarrow> Some (reply_error ser addr e (srv\<lparr>srv_state := s, srv_rng := r\<rparr>)))"

definition handle_create_channel ::
    "serializer \<Rightarrow> instant \<Rightarrow> socket_addr \<Rightarrow> string option \<Rightarrow> tcp_server \<Rightarrow> tcp_server option" where
  "handle_create_channel ser now addr chan_name srv =
    (case create_channel chan_name now (srv_rng srv) (srv_state srv) of
       None \<Rightarrow> None
     | Some (Inr ch, s, r) \<Rightarrow>
        let srv = send_to ser addr (ChannelCreated ch) (srv\<lparr>srv_state := s, srv_rng := r\<rparr>)
        in Some (if starts_with ''pub-'' ch then broadcast_channel_list ser srv else srv)
     | Some (Inl err, s, r) \<Rightarrow> Some (reply_error ser addr err (srv\<lparr>srv_state := s, srv_rng := r\<rparr>)))"

definition handle_join_channel ::
    "serializer \<Rightarrow> instant \<Rightarrow> socket_addr \<Rightarrow> string \<Rightarrow> channel_id \<Rightarrow> tcp_server \<Rightarrow> tcp_server option" where
  "handle_join_channel ser now addr name ch srv =
    (case join_channel addr ch now (srv_rng srv) (srv_state srv) of
       None \<Rightarrow> None
     | Some (Inr (names, udp_token, voice_key), s, r) \<Rightarrow>
        let srv = srv\<lparr>srv_state := s, srv_rng := r\<rparr>;
          srv = broadcast_to_channel ser ch (Some addr) (PeerJoined name) srv;
          srv = send_to ser addr (JoinedChannel ch names udp_token voice_key) srv
        in Some (if is_public ch then broadcast_channel_list ser srv else srv)
     | Some (Inl err, s, r) \<Rightarrow> Some (reply_error ser addr err (srv\<lparr>srv_state := s, srv_rng := r\<rparr>)))"

definition handle_leave_channel :: "serializer \<Rightarrow> socket_addr \<Rightarrow> tcp_server \<Rightarrow> tcp_server" where
  "handle_leave_channel ser addr srv =
    (case leave_channel addr (srv_state srv) of
       (Some (left_name, ch), s) \<Rightarrow>
        let srv = send_to ser addr LeftChannel (srv\<lparr>srv_state := s\<rparr>);
          srv = broadcast_to_channel ser ch None (PeerLeft left_name) srv
        in if is_public ch then broadcast_channel_list ser srv else srv
     | (None, s) \<Rightarrow> reply_error ser addr ''not in a channel'' (srv\<lparr>srv_state := s\<rparr>))"

definition handle_chat_message :: "serializer \<Rightarrow> socket_addr \<Rightarrow> string \<Rightarrow> string \<Rightarrow> tcp_server \<Rightarrow> tcp_server" where
  "handle_chat_message ser addr name text srv =
    (if length text > MAX_CHAT_LEN then reply_error ser addr ''message too long'' srv
     else case get_client addr (srv_state srv) of
       None \<Rightarrow> srv
     | Some client \<Rightarrow>
        (case ci_channel client of
           None \<Rightarrow> srv
         | Some ch \<Rightarrow> broadcast_to_channel ser ch (Some addr) (SChatMessage name text) srv))"

definition handle_direct_message ::
    "serializer \<Rightarrow> socket_addr \<Rightarrow> string \<Rightarrow> byte list \<Rightarrow> string \<Rightarrow> tcp_server \<Rightarrow> tcp_server" where
  "handle_direct_message ser addr name to_pubkey text srv =
    (if length text > MAX_CHAT_LEN then reply_error ser addr ''message too long'' srv
     else if length to_pubkey \<noteq> 32 then reply_error ser addr ''invalid pubkey'' srv
     else case Option.bind (get_client addr (srv_state srv)) ci_pubkey of
       None \<Rightarrow> reply_error ser addr ''must send Hello with pubkey first'' srv
     | Some from_pubkey \<Rightarrow>
        (case lookup_pubkey to_pubkey (srv_state srv) of
           None \<Rightarrow> reply_error ser addr ''recipient not online'' srv
         | Some target \<Rightarrow> send_to ser target (SDirectMessage from_pubkey name text) srv))"

text \<open>\<open>str::trim\<close> on UTF-8: the encodings of the characters with Unicode's White_Space
  property.\<close>

definition white_space :: "string list" where
  "white_space = map (map char_of)
    ([[9], [10], [11], [12], [13], [32], [0xC2, 0x85], [0xC2, 0xA0], [0xE1, 0x9A, 0x80],
      [0xE2, 0x80, 0xA8], [0xE2, 0x80, 0xA9], [0xE2, 0x80, 0xAF], [0xE2, 0x81, 0x9F], [0xE3, 0x80, 0x80]]
     @ map (\<lambda>i. [0xE2, 0x80, i]) [0x80..<0x8B :: nat])"

function strip_any :: "string list \<Rightarrow> string \<Rightarrow> string" where
  "strip_any ws s =
    (case List.find (\<lambda>w. w \<noteq> [] \<and> starts_with w s) ws of
       Some w \<Rightarrow> strip_any ws (drop (length w) s)
     | None \<Rightarrow> s)"
  by pat_completeness auto
termination
  by (relation "measure (\<lambda>(ws, s). length s)")
    (auto simp: find_Some_iff starts_with_def intro!: diff_less)

declare strip_any.simps [simp del]

definition trim :: "string \<Rightarrow> string" where
  "trim s = (let s = strip_any white_space s in rev (strip_any (map rev white_space) (rev s)))"

definition handle_set_name ::
    "serializer \<Rightarrow> socket_addr \<Rightarrow> string \<Rightarrow> string \<Rightarrow> tcp_server \<Rightarrow> string \<times> tcp_server" where
  "handle_set_name ser addr name new_name srv =
    (let new_name = trim new_name in
     if new_name = [] \<or> length new_name > MAX_NAME_LEN
     then (name, reply_error ser addr ''name must be 1-32 characters'' srv)
     else case rename_client addr new_name (srv_state srv) of
       (None, s) \<Rightarrow> (name, srv\<lparr>srv_state := s\<rparr>)
     | (Some (old_name, channel), s) \<Rightarrow>
        let srv = send_to ser addr (NameChanged old_name new_name) (srv\<lparr>srv_state := s\<rparr>);
          srv = (case channel of
              Some ch \<Rightarrow> broadcast_to_channel ser ch (Some addr) (NameChanged old_name new_name) srv
            | None \<Rightarrow> srv)
        in (new_name, srv))"

definition handle_list_channels :: "serializer \<Rightarrow> socket_addr \<Rightarrow> tcp_server \<Rightarrow> tcp_server" where
  "handle_list_channels ser addr srv =
    send_to ser addr (ChannelList (channel_infos (srv_state srv))) srv"

definition handle_hello :: "socket_addr \<Rightarrow> byte list option \<Rightarrow> tcp_server \<Rightarrow> tcp_server" where
  "handle_hello addr pubkey srv =
    (case pubkey of
       None \<Rightarrow> srv
     | Some pk \<Rightarrow>
        if length pk = 32 then srv\<lparr>srv_state := set_pubkey addr pk (srv_state srv)\<rparr> else srv)"

text \<open>The name is the connection's own variable; \<open>None\<close> is a loop that never returns.\<close>

fun handle_message ::
    "serializer \<Rightarrow> instant \<Rightarrow> socket_addr \<Rightarrow> client_message \<Rightarrow> string \<times> tcp_server \<Rightarrow> (string \<times> tcp_server) option" where
  "handle_message ser now addr (CreateChannel chan_name) (name, srv) =
    map_option (Pair name) (handle_create_channel ser now addr chan_name srv)"
| "handle_message ser now addr (JoinChannel ch) (name, srv) =
    map_option (Pair name) (handle_join_channel ser now addr name ch srv)"
| "handle_message ser now addr LeaveChannel (name, srv) =
    Some (name, handle_leave_channel ser addr srv)"
| "handle_message ser now addr (CChatMessage text) (name, srv) =
    Some (name, handle_chat_message ser addr name text srv)"
| "handle_message ser now addr (CDirectMessage to_pubkey text) (name, srv) =
    Some (name, handle_direct_message ser addr name to_pubkey text srv)"
| "handle_message ser now addr (SetName new_name) (name, srv) =
    Some (handle_set_name ser addr name new_name srv)"
| "handle_message ser now addr (Hello version protocol pubkey) (name, srv) =
    Some (name, handle_hello addr pubkey srv)"
| "handle_message ser now addr ListChannels (name, srv) =
    Some (name, handle_list_channels ser addr srv)"
| "handle_message ser now addr Ping (name, srv) = Some (name, send_to ser addr Pong srv)"
| "handle_message ser now addr StartEchoTest (name, srv) =
    map_option (Pair name) (handle_start_echo_test ser now addr srv)"
| "handle_message ser now addr StopEchoTest (name, srv) =
    Some (name, handle_leave_channel ser addr srv)"

section \<open>The reader loop\<close>

record connection =
  conn_name :: string
  conn_cmd_limiter :: rate_limiter
  conn_create_limiter :: rate_limiter
  conn_pending :: "byte list"

definition connection_new :: "instant \<Rightarrow> string \<Rightarrow> server_state \<Rightarrow> connection" where
  "connection_new now name s =
    (let m = rate_limit_multiplier s in
     \<lparr>conn_name = name,
      conn_cmd_limiter = rl_new (f64_mul RATE_LIMIT_CMD_PER_SEC m) (f64_mul RATE_LIMIT_CMD_BURST m) now,
      conn_create_limiter = rl_new (f64_mul RATE_LIMIT_CREATE_PER_SEC m) (f64_mul RATE_LIMIT_CREATE_BURST m) now,
      conn_pending = []\<rparr>)"

text \<open>The admission test of one message: per address, then per connection, then, for what makes
  channels, the stricter limit; a refusal stops the later tests.\<close>

definition admit ::
    "instant \<Rightarrow> socket_addr \<Rightarrow> client_message \<Rightarrow> connection \<times> ip_rate_limiter \<Rightarrow> bool \<times> connection \<times> ip_rate_limiter" where
  "admit now addr msg cl =
    (let (c, l) = cl;
       ip_check = (\<lambda>l. irl_check now (sock_ip addr) l)
     in case msg of
       Ping \<Rightarrow> (True, c, l)
     | Hello _ _ _ \<Rightarrow> (True, c, l)
     | _ \<Rightarrow>
        (let (ok1, l) = ip_check l in
         if \<not> ok1 then (False, c, l)
         else let (ok2, cmd) = rl_check now (conn_cmd_limiter c); c = c\<lparr>conn_cmd_limiter := cmd\<rparr> in
           if \<not> ok2 then (False, c, l)
           else (case msg of
               CreateChannel _ \<Rightarrow>
                 (let (ok3, create) = rl_check now (conn_create_limiter c)
                  in (ok3, c\<lparr>conn_create_limiter := create\<rparr>, l))
             | StartEchoTest \<Rightarrow>
                 (let (ok3, create) = rl_check now (conn_create_limiter c)
                  in (ok3, c\<lparr>conn_create_limiter := create\<rparr>, l))
             | _ \<Rightarrow> (True, c, l))))"

definition handle_frame ::
    "serializer \<Rightarrow> (byte list \<Rightarrow> client_message option) \<Rightarrow> instant \<Rightarrow> socket_addr \<Rightarrow> byte list \<Rightarrow>
     connection \<times> tcp_server \<Rightarrow> (connection \<times> tcp_server) option" where
  "handle_frame ser deserialize now addr frame_data cs =
    (let (c, srv) = cs in
     case deserialize frame_data of
       None \<Rightarrow> Some (c, srv)
     | Some msg \<Rightarrow>
        let (ok, c, l) = admit now addr msg (c, srv_ip_limiter srv); srv = srv\<lparr>srv_ip_limiter := l\<rparr>
        in if \<not> ok then
             Some (c, reply_error ser addr ''rate limited, slow down''
               (srv\<lparr>srv_state := count m_tcp_rate_limited_update 1 (srv_state srv)\<rparr>))
           else (case handle_message ser now addr msg (conn_name c, srv) of
               None \<Rightarrow> None
             | Some (name, srv) \<Rightarrow> Some (c\<lparr>conn_name := name\<rparr>, srv)))"

fun handle_frames ::
    "serializer \<Rightarrow> (byte list \<Rightarrow> client_message option) \<Rightarrow> instant \<Rightarrow> socket_addr \<Rightarrow> byte list list \<Rightarrow>
     connection \<times> tcp_server \<Rightarrow> (connection \<times> tcp_server) option" where
  "handle_frames ser de now addr [] cs = Some cs"
| "handle_frames ser de now addr (f # fs) cs =
    (case handle_frame ser de now addr f cs of
       None \<Rightarrow> None
     | Some cs \<Rightarrow> handle_frames ser de now addr fs cs)"

datatype read_event = Received "byte list" | Eof | ReadFailed | IdleTimeout

datatype loop_end = Disconnected | IoError | Refused read_error

text \<open>One turn of the loop: \<open>Inl\<close> ends it.\<close>

definition reader_step ::
    "serializer \<Rightarrow> (byte list \<Rightarrow> client_message option) \<Rightarrow> instant \<Rightarrow> socket_addr \<Rightarrow> read_event \<Rightarrow>
     connection \<times> tcp_server \<Rightarrow> (loop_end + connection \<times> tcp_server) option" where
  "reader_step ser de now addr ev cs =
    (case ev of
       Eof \<Rightarrow> Some (Inl Disconnected)
     | ReadFailed \<Rightarrow> Some (Inl IoError)
     | IdleTimeout \<Rightarrow> Some (Inl Disconnected)
     | Received bytes \<Rightarrow>
        let (c, srv) = cs in
        (case receive_chunk (conn_pending c) bytes of
           Inl e \<Rightarrow> Some (Inl (Refused e))
         | Inr (frames, pending) \<Rightarrow>
            map_option Inr (handle_frames ser de now addr frames (c\<lparr>conn_pending := pending\<rparr>, srv))))"

fun reader_loop ::
    "serializer \<Rightarrow> (byte list \<Rightarrow> client_message option) \<Rightarrow> socket_addr \<Rightarrow> (instant \<times> read_event) list \<Rightarrow>
     connection \<times> tcp_server \<Rightarrow> (loop_end option \<times> connection \<times> tcp_server) option" where
  "reader_loop ser de addr [] cs = Some (None, cs)"
| "reader_loop ser de addr ((now, ev) # evs) cs =
    (case reader_step ser de now addr ev cs of
       None \<Rightarrow> None
     | Some (Inl e) \<Rightarrow> Some (Some e, cs)
     | Some (Inr cs) \<Rightarrow> reader_loop ser de addr evs cs)"

section \<open>The life of a connection\<close>

definition client_connected ::
    "serializer \<Rightarrow> string \<Rightarrow> instant \<Rightarrow> socket_addr \<Rightarrow> tcp_server \<Rightarrow> (string + connection) \<times> tcp_server" where
  "client_connected ser version now addr srv =
    (case register_client addr (srv_state srv) of
       (Inl e, s) \<Rightarrow> (Inl e, srv\<lparr>srv_state := s\<rparr>)
     | (Inr name, s) \<Rightarrow>
        let push = (\<lambda>msg q. case encode ser msg of
              None \<Rightarrow> q
            | Some b \<Rightarrow> (case try_send b q of None \<Rightarrow> q | Some q \<Rightarrow> q));
          q = push (NameChanged [] name) (push (Welcome version (of_nat PROTOCOL_VERSION)) queue_new)
        in (Inr (connection_new now name s),
            srv\<lparr>srv_state := s, srv_ip_limiter := irl_track now (sock_ip addr) (srv_ip_limiter srv),
                srv_senders := hm_insert addr q (srv_senders srv)\<rparr>))"

definition client_disconnected :: "serializer \<Rightarrow> instant \<Rightarrow> socket_addr \<Rightarrow> tcp_server \<Rightarrow> tcp_server" where
  "client_disconnected ser now addr srv =
    (let srv = srv\<lparr>srv_senders := hm_remove addr (srv_senders srv)\<rparr>;
       (left, s) = remove_client addr (srv_state srv);
       srv = srv\<lparr>srv_state := s\<rparr>;
       srv = (case left of
           Some (left_name, Some ch) \<Rightarrow>
             (let srv = broadcast_to_channel ser ch None (PeerLeft left_name) srv
              in if is_public ch then broadcast_channel_list ser srv else srv)
         | _ \<Rightarrow> srv)
     in srv\<lparr>srv_ip_limiter := irl_untrack now (sock_ip addr) (srv_ip_limiter srv)\<rparr>)"

end
