(* ===== verification/Server_Tcp_Properties.thy ===== *)
theory Server_Tcp_Properties
  imports Server_Tcp
begin

text \<open>
  What the control connections do to the shared state (every handler is a sequence of steps of
  \<open>Server_Properties\<close>, so the invariant holds throughout) and to the queues: who gets which
  message, how long a queue can grow, what is left of a client that is gone.
\<close>

section \<open>Handlers are sequences of steps\<close>

definition core :: "tcp_server \<Rightarrow> server_state \<times> rng" where
  "core srv = (srv_state srv, srv_rng srv)"

lemma core_sel [simp]: "core (srv\<lparr>srv_senders := q\<rparr>) = core srv" "core (srv\<lparr>srv_ip_limiter := l\<rparr>) = core srv"
  by (simp_all add: core_def)

lemma count_step: "srv_step (s, r) (count c n s, r)"
  unfolding count_def by (rule srv_step.Count)

lemma deliver_steps [intro]: "steps (core srv) (core (deliver c f a srv))"
  by (auto simp: deliver_def core_def split: option.split intro: count_step)

lemma fold_deliver_steps [intro]: "steps (core srv) (core (fold (deliver c f) as srv))"
proof (induction as arbitrary: srv)
  case (Cons a as)
  then show ?case using deliver_steps [of srv c f a] by (auto intro: rtranclp_trans)
qed simp

lemma send_to_steps: "steps (core srv) (core (send_to ser a m srv))"
  by (auto simp: send_to_def split: option.split)

lemma broadcast_steps: "steps (core srv) (core (broadcast_to_channel ser ch x m srv))"
  by (auto simp: broadcast_to_channel_def split: option.split)

lemma broadcast_list_steps: "steps (core srv) (core (broadcast_channel_list ser srv))"
  by (auto simp: broadcast_channel_list_def split: option.split)

lemma send_to_steps' [intro]: "steps x (core srv) \<Longrightarrow> steps x (core (send_to ser a m srv))"
  using send_to_steps rtranclp_trans by metis

lemma reply_error_steps' [intro]: "steps x (core srv) \<Longrightarrow> steps x (core (reply_error ser a m srv))"
  unfolding reply_error_def by (rule send_to_steps')

lemma broadcast_steps' [intro]: "steps x (core srv) \<Longrightarrow> steps x (core (broadcast_to_channel ser ch e m srv))"
  using broadcast_steps rtranclp_trans by metis

lemma broadcast_list_steps' [intro]: "steps x (core srv) \<Longrightarrow> steps x (core (broadcast_channel_list ser srv))"
  using broadcast_list_steps rtranclp_trans by metis

lemma core_step: "srv_step (srv_state srv, srv_rng srv) (s, r) \<Longrightarrow> steps (core srv) (core (srv\<lparr>srv_state := s, srv_rng := r\<rparr>))"
  by (simp add: core_def)

lemma core_state_step: "srv_step (srv_state srv, srv_rng srv) (s, srv_rng srv) \<Longrightarrow> steps (core srv) (core (srv\<lparr>srv_state := s\<rparr>))"
  by (simp add: core_def)

lemma handle_start_echo_test_steps:
  "handle_start_echo_test ser now a srv = Some srv' \<Longrightarrow> steps (core srv) (core srv')"
  by (auto simp: handle_start_echo_test_def split: option.splits sum.splits prod.splits
      intro!: send_to_steps' reply_error_steps' core_step intro: srv_step.Echo)

lemma handle_create_channel_steps:
  "handle_create_channel ser now a n srv = Some srv' \<Longrightarrow> steps (core srv) (core srv')"
  by (auto simp: handle_create_channel_def Let_def split: option.splits sum.splits prod.splits if_splits
      intro!: send_to_steps' reply_error_steps' broadcast_list_steps' core_step intro: srv_step.Create)

lemma handle_join_channel_steps:
  "handle_join_channel ser now a n ch srv = Some srv' \<Longrightarrow> steps (core srv) (core srv')"
  by (auto simp: handle_join_channel_def Let_def split: option.splits sum.splits prod.splits if_splits
      intro!: send_to_steps' reply_error_steps' broadcast_steps' broadcast_list_steps' core_step intro: srv_step.Join)

lemma handle_leave_channel_steps: "steps (core srv) (core (handle_leave_channel ser a srv))"
  by (auto simp: handle_leave_channel_def Let_def split: option.splits prod.splits if_splits
      intro!: send_to_steps' reply_error_steps' broadcast_steps' broadcast_list_steps' core_state_step
      intro: srv_step.Leave)

lemma handle_chat_message_steps: "steps (core srv) (core (handle_chat_message ser a n text srv))"
  by (auto simp: handle_chat_message_def split: option.splits intro!: reply_error_steps' broadcast_steps')

lemma handle_direct_message_steps: "steps (core srv) (core (handle_direct_message ser a n pk text srv))"
  by (auto simp: handle_direct_message_def split: option.splits intro!: reply_error_steps' send_to_steps')

lemma handle_set_name_steps: "steps (core srv) (core (snd (handle_set_name ser a n n' srv)))"
  by (auto simp: handle_set_name_def Let_def split: option.splits prod.splits
      intro!: reply_error_steps' send_to_steps' broadcast_steps' core_state_step intro: srv_step.Rename)

lemma handle_hello_steps: "steps (core srv) (core (handle_hello a pk srv))"
  by (auto simp: handle_hello_def split: option.splits intro!: core_state_step intro: srv_step.Pubkey)

lemma handle_message_steps:
  "handle_message ser now a m (n, srv) = Some (n', srv') \<Longrightarrow> steps (core srv) (core srv')"
proof (cases m)
  case (SetName x)
  assume "handle_message ser now a m (n, srv) = Some (n', srv')"
  then show ?thesis using SetName handle_set_name_steps [of srv ser a n x] by simp
qed (auto simp: handle_list_channels_def
    intro: handle_start_echo_test_steps handle_create_channel_steps handle_join_channel_steps
      handle_leave_channel_steps handle_chat_message_steps handle_direct_message_steps handle_hello_steps)

lemma handle_frame_steps:
  assumes "handle_frame ser de now a f (c, srv) = Some (c', srv')"
  shows "steps (core srv) (core srv')"
proof (cases "de f")
  case None
  with assms show ?thesis by (simp add: handle_frame_def)
next
  case (Some msg)
  obtain ok c1 l where adm: "admit now a msg (c, srv_ip_limiter srv) = (ok, c1, l)"
    by (cases "admit now a msg (c, srv_ip_limiter srv)") auto
  let ?srv = "srv\<lparr>srv_ip_limiter := l\<rparr>"
  show ?thesis
  proof (cases ok)
    case True
    with assms Some adm show ?thesis
      using handle_message_steps [of ser now a msg "conn_name c1" ?srv]
      by (auto simp: handle_frame_def split: option.splits)
  next
    case False
    have "steps (core srv) (core (?srv\<lparr>srv_state := count m_tcp_rate_limited_update 1 (srv_state srv)\<rparr>))"
      by (auto simp: core_def intro: count_step)
    with False assms Some adm show ?thesis by (auto simp: handle_frame_def)
  qed
qed

lemma handle_frames_steps:
  "handle_frames ser de now a fs (c, srv) = Some (c', srv') \<Longrightarrow> steps (core srv) (core srv')"
proof (induction fs arbitrary: c srv)
  case (Cons f fs)
  then obtain c1 srv1 where "handle_frame ser de now a f (c, srv) = Some (c1, srv1)"
      "handle_frames ser de now a fs (c1, srv1) = Some (c', srv')"
    by (auto split: option.splits)
  with Cons.IH handle_frame_steps show ?case by (metis rtranclp_trans)
qed simp

lemma reader_loop_steps:
  "reader_loop ser de a evs (c, srv) = Some (e, c', srv') \<Longrightarrow> steps (core srv) (core srv')"
proof (induction evs arbitrary: c srv)
  case (Cons ev evs)
  obtain now x where ev: "ev = (now, x)" by (cases ev)
  show ?case
  proof (cases "reader_step ser de now a x (c, srv)")
    case None
    with Cons.prems ev show ?thesis by simp
  next
    case (Some res)
    show ?thesis
    proof (cases res)
      case (Inl y)
      with Some Cons.prems ev show ?thesis by simp
    next
      case (Inr cs)
      obtain c1 srv1 where cs: "cs = (c1, srv1)" by (cases cs)
      have "steps (core srv) (core srv1)"
        using Some Inr cs handle_frames_steps
        by (fastforce simp: reader_step_def split: read_event.splits sum.splits prod.splits)
      moreover have "steps (core srv1) (core srv')"
        using Cons.IH [of c1 srv1] Cons.prems Some Inr cs ev by simp
      ultimately show ?thesis by (rule rtranclp_trans)
    qed
  qed
qed simp

lemma client_disconnected_steps: "steps (core srv) (core (client_disconnected ser now a srv))"
proof -
  obtain left s where r: "remove_client a (srv_state srv) = (left, s)" by (cases "remove_client a (srv_state srv)")
  have "steps (core srv) (core (srv\<lparr>srv_senders := hm_remove a (srv_senders srv), srv_state := s\<rparr>))"
    using srv_step.Remove [OF r, of "srv_rng srv"] by (auto simp: core_def)
  then show ?thesis
    using r by (auto simp: client_disconnected_def Let_def split: option.split if_splits
        intro!: broadcast_list_steps' broadcast_steps')
qed

lemma client_connected_steps:
  "hm_get (clients (srv_state srv)) a = None \<Longrightarrow>
   steps (core srv) (core (snd (client_connected ser version now a srv)))"
proof -
  assume new: "hm_get (clients (srv_state srv)) a = None"
  obtain res s where r: "register_client a (srv_state srv) = (res, s)"
    by (cases "register_client a (srv_state srv)")
  have "srv_step (core srv) (s, srv_rng srv)"
    unfolding core_def by (rule srv_step.Register [OF new r])
  moreover have "core (snd (client_connected ser version now a srv)) = (s, srv_rng srv)"
    using r by (auto simp: client_connected_def core_def Let_def split: sum.split)
  ultimately show ?thesis by auto
qed

text \<open>However a connection's bytes arrive and whatever messages they decode to, everything its
  reader loop does to the shared state is a sequence of steps of the state's operations, so a
  reachable state of the server stays reachable, and with it the invariant holds after each
  connection's run, and after its disconnection, whatever the serializer does.\<close>

theorem reader_loop_reachable:
  assumes "reachable L (core srv)" and "reader_loop ser de addr evs (c, srv) = Some (e, c', srv')"
  shows "reachable L (core srv') \<and> reachable L (core (client_disconnected ser now addr srv')) \<and>
    server_ok (srv_state (client_disconnected ser now addr srv'))"
proof -
  have r: "reachable L (core srv')" by (rule steps_reachable [OF reader_loop_steps [OF assms(2)] assms(1)])
  then have "reachable L (core (client_disconnected ser now addr srv'))"
    by (rule steps_reachable [OF client_disconnected_steps])
  with r show ?thesis by (auto simp: core_def dest: reachableD)
qed

definition sample_server :: tcp_server where
  "sample_server = \<lparr>srv_state = sample_voice, srv_senders = [(alice, queue_new), (bob, queue_new)],
     srv_ip_limiter = irl_new 30 60, srv_rng = sample_rng_after\<rparr>"

definition sample_serialize :: serializer where
  "sample_serialize msg = Some (case msg of SChatMessage from text \<Rightarrow> string_bytes text | _ \<Rightarrow> [])"

lemma sample_server_reachable: "reachable sample_limits (core sample_server)"
  by (simp add: core_def sample_server_def sample_voice_reachable)

theorem reader_loop_reachable_witness:
  "\<exists>c' srv'. reader_loop sample_serialize (\<lambda>f. Some Ping) alice [(9, Received [0, 0]), (10, Eof)]
      (connection_new 8 ''user-1'' sample_voice, sample_server) = Some (Some Disconnected, c', srv') \<and>
    server_ok (srv_state (client_disconnected sample_serialize 11 alice srv'))"
proof -
  have x: "extract_frames [0, 0] = (Inr [], [0, 0])"
    unfolding extract_frames_def by (subst extract_frames_loop.simps) (simp add: try_decode_frame_def)
  have "\<exists>c' srv'. reader_loop sample_serialize (\<lambda>f. Some Ping) alice [(9, Received [0, 0]), (10, Eof)]
      (connection_new 8 ''user-1'' sample_voice, sample_server) = Some (Some Disconnected, c', srv')"
    by (simp add: reader_step_def receive_chunk_def connection_new_def Let_def config_defs x)
  with reader_loop_reachable [OF sample_server_reachable] show ?thesis by blast
qed

section \<open>Queues\<close>

definition push_frame :: "byte list \<Rightarrow> client_queue \<Rightarrow> client_queue" where
  "push_frame frame q = (case try_send frame q of Some q' \<Rightarrow> q' | None \<Rightarrow> q)"

lemma deliver_queue [simp]:
  "hm_get (srv_senders (deliver c f a srv)) x =
    (if x = a then map_option (push_frame f) (hm_get (srv_senders srv) x) else hm_get (srv_senders srv) x)"
  by (auto simp: deliver_def push_frame_def split: option.split)

lemma fold_deliver_queue:
  "distinct as \<Longrightarrow> hm_get (srv_senders (fold (deliver c f) as srv)) x =
    (if x \<in> set as then map_option (push_frame f) (hm_get (srv_senders srv) x) else hm_get (srv_senders srv) x)"
  by (induction as arbitrary: srv) auto

lemma deliver_state:
  "clients (srv_state (deliver c f a srv)) = clients (srv_state srv)"
  "channels (srv_state (deliver c f a srv)) = channels (srv_state srv)"
  "pubkey_index (srv_state (deliver c f a srv)) = pubkey_index (srv_state srv)"
  by (auto simp: deliver_def count_def split: option.split)

lemma fold_deliver_state:
  "clients (srv_state (fold (deliver c f) as srv)) = clients (srv_state srv)"
  "channels (srv_state (fold (deliver c f) as srv)) = channels (srv_state srv)"
  "pubkey_index (srv_state (fold (deliver c f) as srv)) = pubkey_index (srv_state srv)"
  by (induction as arbitrary: srv) (simp_all add: deliver_state)

lemma send_to_queue:
  "encode ser m = Some f \<Longrightarrow> hm_get (srv_senders (send_to ser a m srv)) x =
    (if x = a then map_option (push_frame f) (hm_get (srv_senders srv) x) else hm_get (srv_senders srv) x)"
  by (simp add: send_to_def)

lemma broadcast_addrs:
  assumes "keys_distinct (clients s)"
  shows "distinct (broadcast_channel_addrs ch exclude s)"
    and "a \<in> set (broadcast_channel_addrs ch exclude s) \<longleftrightarrow> member s a ch \<and> exclude \<noteq> Some a"
proof -
  show "distinct (broadcast_channel_addrs ch exclude s)"
    using assms unfolding broadcast_channel_addrs_def keys_distinct_def by (rule distinct_map_filter)
  show "a \<in> set (broadcast_channel_addrs ch exclude s) \<longleftrightarrow> member s a ch \<and> exclude \<noteq> Some a"
    using assms by (auto simp: broadcast_channel_addrs_def member_def in_channel_def hm_in_set image_iff)
qed

lemma chat_delivered:
  assumes "reachable L (core srv)" and "member (srv_state srv) a ch" and "length text \<le> MAX_CHAT_LEN"
    and "encode ser (SChatMessage name text) = Some frame"
    and "srv' = handle_chat_message ser a name text srv"
  shows "hm_get (srv_senders srv') x =
      (if member (srv_state srv) x ch \<and> x \<noteq> a then map_option (push_frame frame) (hm_get (srv_senders srv) x)
       else hm_get (srv_senders srv) x) \<and>
    clients (srv_state srv') = clients (srv_state srv) \<and> channels (srv_state srv') = channels (srv_state srv)"
proof -
  have kd: "keys_distinct (clients (srv_state srv))"
    using server_okD(1) [OF reachableD [OF assms(1) [unfolded core_def]]] by (simp add: wf_maps_def)
  have e: "srv' = fold (deliver m_tcp_broadcast_sends_update frame)
      (broadcast_channel_addrs ch (Some a) (srv_state srv)) srv"
    using assms(2-5) by (auto simp: handle_chat_message_def get_client_def member_def broadcast_to_channel_def)
  show ?thesis
    unfolding e by (auto simp: fold_deliver_queue broadcast_addrs [OF kd] fold_deliver_state)
qed

text \<open>A chat message of at most \<open>MAX_CHAT_LEN\<close> bytes from a member of a channel is appended
  (as one frame, with the sender's name) to the queue of every other member that has room, and to
  no other queue: not the sender's, and nobody's outside the channel; nothing but counters changes
  in the shared state.\<close>

theorem chat_reaches_members:
  assumes "reachable L (core srv)" and "member (srv_state srv) a ch" and "length text \<le> MAX_CHAT_LEN"
    and "encode ser (SChatMessage name text) = Some frame"
    and "srv' = handle_chat_message ser a name text srv"
  shows "hm_get (srv_senders srv') x =
      (if member (srv_state srv) x ch \<and> x \<noteq> a then map_option (push_frame frame) (hm_get (srv_senders srv) x)
       else hm_get (srv_senders srv) x) \<and>
    clients (srv_state srv') = clients (srv_state srv) \<and> channels (srv_state srv') = channels (srv_state srv)"
  using chat_delivered [OF assms] .

theorem chat_reaches_members_witness:
  "hm_get (srv_senders (handle_chat_message sample_serialize alice ''user-1'' ''hi'' sample_server)) bob =
    Some (push_frame (u32_to_be 2 @ string_bytes ''hi'') queue_new)"
proof -
  have m: "member (srv_state sample_server) alice lobby" "member (srv_state sample_server) bob lobby"
    "bob \<noteq> alice" "hm_get (srv_senders sample_server) bob = Some queue_new"
    by (simp_all add: member_def sample_server_def sample_voice_eq alice_def bob_def)
  have e: "encode sample_serialize (SChatMessage ''user-1'' ''hi'') = Some (u32_to_be 2 @ string_bytes ''hi'')"
    by (simp add: encode_def sample_serialize_def encode_tcp_frame_def)
  have l: "length ''hi'' \<le> MAX_CHAT_LEN" by (simp add: config_defs)
  from chat_reaches_members [OF sample_server_reachable m(1) l e refl, of bob] m
  show ?thesis by simp
qed

definition queues_ok :: "tcp_server \<Rightarrow> bool" where
  "queues_ok srv \<longleftrightarrow> keys_distinct (srv_senders srv) \<and>
     (\<forall>a q. hm_get (srv_senders srv) a = Some q \<longrightarrow> length (cq_frames q) \<le> CLIENT_QUEUE_CAPACITY)"

lemma try_send_bound: "try_send f q = Some q' \<Longrightarrow> length (cq_frames q') \<le> CLIENT_QUEUE_CAPACITY"
  by (auto simp: try_send_def split: if_splits)

lemma queues_ok_frame [simp]:
  "queues_ok (srv\<lparr>srv_state := s\<rparr>) = queues_ok srv" "queues_ok (srv\<lparr>srv_ip_limiter := l\<rparr>) = queues_ok srv"
  "queues_ok (srv\<lparr>srv_rng := r\<rparr>) = queues_ok srv"
  by (simp_all add: queues_ok_def)

lemma queues_ok_insert:
  "queues_ok srv \<Longrightarrow> length (cq_frames q) \<le> CLIENT_QUEUE_CAPACITY \<Longrightarrow>
   queues_ok (srv\<lparr>srv_senders := hm_insert a q (srv_senders srv)\<rparr>)"
  by (simp add: queues_ok_def)

lemma queues_ok_remove:
  "queues_ok srv \<Longrightarrow> queues_ok (srv\<lparr>srv_senders := hm_remove a (srv_senders srv)\<rparr>)"
  by (simp add: queues_ok_def)

lemma deliver_ok: "queues_ok srv \<Longrightarrow> queues_ok (deliver c f a srv)"
  by (auto simp: deliver_def dest: try_send_bound split: option.split intro: queues_ok_insert)

lemma fold_deliver_ok: "queues_ok srv \<Longrightarrow> queues_ok (fold (deliver c f) as srv)"
  by (induction as arbitrary: srv) (simp_all add: deliver_ok)

lemma send_to_ok: "queues_ok srv \<Longrightarrow> queues_ok (send_to ser a m srv)"
  by (auto simp: send_to_def deliver_ok split: option.split)

lemma reply_error_ok: "queues_ok srv \<Longrightarrow> queues_ok (reply_error ser a m srv)"
  by (simp add: reply_error_def send_to_ok)

lemma broadcast_ok: "queues_ok srv \<Longrightarrow> queues_ok (broadcast_to_channel ser ch e m srv)"
  by (auto simp: broadcast_to_channel_def fold_deliver_ok split: option.split)

lemma broadcast_list_ok: "queues_ok srv \<Longrightarrow> queues_ok (broadcast_channel_list ser srv)"
  by (auto simp: broadcast_channel_list_def fold_deliver_ok split: option.split)

lemmas sends_ok = send_to_ok reply_error_ok broadcast_ok broadcast_list_ok

lemma handle_message_ok:
  "handle_message ser now a m (n, srv) = Some (n', srv') \<Longrightarrow> queues_ok srv \<Longrightarrow> queues_ok srv'"
  by (cases m)
    (auto simp: handle_create_channel_def handle_join_channel_def handle_leave_channel_def
      handle_chat_message_def handle_direct_message_def handle_set_name_def handle_hello_def
      handle_list_channels_def handle_start_echo_test_def Let_def
      split: option.splits sum.splits prod.splits if_splits intro!: sends_ok)

lemma handle_frame_ok:
  assumes "handle_frame ser de now a f (c, srv) = Some (c', srv')" and "queues_ok srv"
  shows "queues_ok srv'"
  using assms handle_message_ok
  by (fastforce simp: handle_frame_def Let_def case_prod_beta sends_ok split: option.splits if_splits)

lemma handle_frames_ok:
  "handle_frames ser de now a fs (c, srv) = Some (c', srv') \<Longrightarrow> queues_ok srv \<Longrightarrow> queues_ok srv'"
proof (induction fs arbitrary: c srv)
  case (Cons f fs)
  then obtain c1 srv1 where "handle_frame ser de now a f (c, srv) = Some (c1, srv1)"
      "handle_frames ser de now a fs (c1, srv1) = Some (c', srv')"
    by (auto split: option.splits)
  with Cons.IH Cons.prems(2) handle_frame_ok show ?case by metis
qed simp

lemma client_connected_ok: "queues_ok srv \<Longrightarrow> queues_ok (snd (client_connected ser version now a srv))"
proof -
  assume ok: "queues_ok srv"
  have push: "length (cq_frames (case encode ser msg of None \<Rightarrow> q
      | Some b \<Rightarrow> (case try_send b q of None \<Rightarrow> q | Some q \<Rightarrow> q))) \<le> CLIENT_QUEUE_CAPACITY"
    if "length (cq_frames q) \<le> CLIENT_QUEUE_CAPACITY" for msg q
    using that by (auto dest: try_send_bound split: option.split)
  have "length (cq_frames queue_new) \<le> CLIENT_QUEUE_CAPACITY" by (simp add: queue_new_def)
  note q = push [OF push [OF this]]
  obtain res s where r: "register_client a (srv_state srv) = (res, s)"
    by (cases "register_client a (srv_state srv)")
  show ?thesis
    using ok r q by (auto simp: client_connected_def Let_def queues_ok_def split: sum.split)
qed

lemma client_disconnected_ok: "queues_ok srv \<Longrightarrow> queues_ok (client_disconnected ser now a srv)"
proof -
  assume ok: "queues_ok srv"
  obtain left s where r: "remove_client a (srv_state srv) = (left, s)" by (cases "remove_client a (srv_state srv)")
  have "queues_ok (srv\<lparr>srv_senders := hm_remove a (srv_senders srv), srv_state := s\<rparr>)"
    using queues_ok_remove [OF ok] by (simp add: queues_ok_def)
  then show ?thesis
    using r by (auto simp: client_disconnected_def Let_def sends_ok split: option.split)
qed

text \<open>Slow or stuck clients cannot make the server's memory grow: whatever a connection sends
  and whatever is broadcast, every outgoing queue stays within its 128 frames, frames for a full
  queue being dropped, from the connecting of a client to its disconnection.\<close>

theorem queues_bounded:
  assumes "queues_ok srv"
  shows "(handle_frames ser de now addr frames (c, srv) = Some (c', srv') \<longrightarrow> queues_ok srv') \<and>
    queues_ok (snd (client_connected ser version now addr srv)) \<and>
    queues_ok (client_disconnected ser now addr srv) \<and> queues_ok (broadcast_channel_list ser srv)"
  using assms handle_frames_ok client_connected_ok client_disconnected_ok broadcast_list_ok by blast

theorem queues_bounded_witness:
  "queues_ok (snd (client_connected sample_serialize ''1'' 3 carol sample_server)) \<and>
    hm_get (srv_senders (snd (client_connected sample_serialize ''1'' 3 carol sample_server))) carol \<noteq> None"
proof -
  have "queues_ok sample_server"
    by (auto simp: queues_ok_def sample_server_def keys_distinct_def alice_def bob_def queue_new_def
        CLIENT_QUEUE_CAPACITY_def split: if_splits)
  from queues_bounded [OF this] show ?thesis
    by (simp add: client_connected_def sample_server_def sample_voice_eq sample_state_def register_client_def
        sample_limits_def Let_def)
qed

section \<open>Direct messages, names, disconnection\<close>

text \<open>A direct message is refused, with an error to its sender only, when its text is too
  long, the recipient's key is not 32 bytes, the sender has not said hello with a key, or nobody
  online has the recipient's key; otherwise exactly the connection registered for that key gets it,
  marked with the sender's own key, and no queue but that one changes.\<close>

theorem direct_message_delivery:
  assumes "\<And>m. encode ser m = Some (frame m)"
    and "srv' = handle_direct_message ser a name pk text srv"
  shows "hm_get (srv_senders srv') x =
    (let s = srv_state srv; q = hm_get (srv_senders srv) x;
       from_key = Option.bind (get_client a s) ci_pubkey;
       refuse = (\<lambda>e. if x = a then map_option (push_frame (frame (SError e))) q else q)
     in if length text > MAX_CHAT_LEN then refuse ''message too long''
        else if length pk \<noteq> 32 then refuse ''invalid pubkey''
        else case from_key of
          None \<Rightarrow> refuse ''must send Hello with pubkey first''
        | Some key \<Rightarrow>
           (case lookup_pubkey pk s of
              None \<Rightarrow> refuse ''recipient not online''
            | Some target \<Rightarrow>
                if x = target then map_option (push_frame (frame (SDirectMessage key name text))) q else q))"
  using assms(1) unfolding assms(2)
  by (simp add: handle_direct_message_def reply_error_def send_to_queue Let_def split: option.split)

theorem direct_message_delivery_witness:
  "hm_get (srv_senders (handle_direct_message sample_serialize alice ''user-1'' [1] ''hi'' sample_server)) alice =
    Some (push_frame (u32_to_be 0) queue_new)"
proof -
  define frame where "frame m = (case encode sample_serialize m of Some f \<Rightarrow> f | None \<Rightarrow> [])" for m
  have e: "encode sample_serialize m = Some (frame m)" for m
    by (simp add: frame_def encode_def encode_tcp_frame_def sample_serialize_def)
  have f: "frame (SError ''invalid pubkey'') = u32_to_be 0"
    by (simp add: frame_def encode_def encode_tcp_frame_def sample_serialize_def)
  have q: "hm_get (srv_senders sample_server) alice = Some queue_new" by (simp add: sample_server_def)
  show ?thesis
    using direct_message_delivery [OF e refl, of alice "''user-1''" "[1]" "''hi''" sample_server alice]
    by (simp add: Let_def f q config_defs)
qed

text \<open>C11 The public key index forgets a key as soon as any client that used it disconnects: if
  two connections of one identity are online, the departure of the older one makes the newer one
  unreachable by direct messages, though it is still registered with that key.\<close>

theorem pubkey_lost_for_second_session:
  assumes "hm_get (clients s) a = Some c" and "ci_pubkey c = Some pk"
    and "hm_get (clients s) b = Some d" and "ci_pubkey d = Some pk" and "a \<noteq> b"
    and "s' = snd (remove_client a s)"
  shows "lookup_pubkey pk s' = None \<and> get_client b s' = Some d"
proof -
  have v: "pubkey_index (vacate_channel ch u x) = pubkey_index x" "clients (vacate_channel ch u x) = clients x"
    for ch u x by simp_all
  show ?thesis
    using assms
    by (auto simp: remove_client_def Let_def lookup_pubkey_def get_client_def split: option.split)
qed

theorem pubkey_lost_for_second_session_witness:
  "\<exists>s. reachable sample_limits (s, sample_rng_after) \<and> lookup_pubkey [1] s = Some bob \<and>
    lookup_pubkey [1] (snd (remove_client alice s)) = None \<and> get_client bob (snd (remove_client alice s)) \<noteq> None"
proof -
  define s where "s = set_pubkey bob [1] (set_pubkey alice [1] sample_voice)"
  have "reachable sample_limits (s, sample_rng_after)"
    unfolding s_def by (intro reachable.Step [OF _ srv_step.Pubkey] sample_voice_reachable)
  moreover have f: "hm_get (clients s) alice = Some (the (hm_get (clients s) alice))"
    "ci_pubkey (the (hm_get (clients s) alice)) = Some [1]"
    "hm_get (clients s) bob = Some (the (hm_get (clients s) bob))"
    "ci_pubkey (the (hm_get (clients s) bob)) = Some [1]" "alice \<noteq> bob" "lookup_pubkey [1] s = Some bob"
    by (simp_all add: s_def set_pubkey_def sample_voice_eq Let_def alice_def bob_def lookup_pubkey_def)
  moreover note pubkey_lost_for_second_session [OF f(1-5) refl]
  ultimately show ?thesis using f(3) by (intro exI [of _ s]) auto
qed

text \<open>Sending changes the queues and the counters, and nothing else of the shared state.\<close>

definition only_counts :: "tcp_server \<Rightarrow> tcp_server \<Rightarrow> bool" where
  "only_counts v w \<longleftrightarrow> (\<exists>m. srv_state w = srv_state v\<lparr>metrics := m\<rparr>) \<and>
     dom (map_of (srv_senders w)) = dom (map_of (srv_senders v)) \<and> srv_ip_limiter w = srv_ip_limiter v"

lemma only_counts_refl: "only_counts v v"
  by (auto simp: only_counts_def intro: exI [of _ "metrics (srv_state v)"])

lemma only_counts_trans: "only_counts u v \<Longrightarrow> only_counts v w \<Longrightarrow> only_counts u w"
  by (auto simp: only_counts_def)

lemma only_counts_deliver: "only_counts v (deliver c f a v)"
proof (cases "hm_get (srv_senders v) a")
  case (Some q)
  then show ?thesis
    by (auto simp: only_counts_def deliver_def count_def insert_absorb dom_def split: option.split)
qed (simp add: deliver_def only_counts_refl)

lemma only_counts_fold: "only_counts v (fold (deliver c f) as v)"
proof (induction as arbitrary: v)
  case (Cons x as)
  have "only_counts v (fold (deliver c f) as (deliver c f x v))"
    by (rule only_counts_trans [OF only_counts_deliver Cons.IH])
  then show ?case by simp
qed (simp add: only_counts_refl)

lemma only_counts_sends:
  "only_counts v (send_to ser a m v)" "only_counts v (reply_error ser a e v)"
  "only_counts v (broadcast_to_channel ser ch x m v)" "only_counts v (broadcast_channel_list ser v)"
  by (auto simp: send_to_def reply_error_def broadcast_to_channel_def broadcast_channel_list_def
      only_counts_refl only_counts_deliver only_counts_fold split: option.split)

lemma remove_client_get:
  "hm_get (clients (snd (remove_client a s))) x = (if x = a then None else hm_get (clients s) x)"
  by (auto simp: remove_client_def Let_def split: option.split)

lemma removed_client_gone:
  assumes ok: "server_ok s" and s': "s' = snd (remove_client a s)"
  shows "\<not> holds_token s' t a ch" and "lookup_pubkey pk s' \<noteq> Some a"
    and "udp_of s a = Some u \<Longrightarrow> member s a ch \<Longrightarrow> u \<notin> set (fill_channel_peers ch x s')"
proof -
  have ok': "server_ok s'" unfolding s' by (rule remove_client_ok [OF ok])
  have n: "hm_get (clients s') a = None" by (simp add: s' remove_client_get)
  have "\<not> member s' a ch" using n by (simp add: member_def)
  then show "\<not> holds_token s' t a ch"
    using server_okD(3) [OF ok'] unfolding wf_tokens_holds by blast
  show "lookup_pubkey pk s' \<noteq> Some a"
    using server_okD(6) [OF ok'] n unfolding wf_index_def lookup_pubkey_def by fastforce
  assume u: "udp_of s a = Some u" and m: "member s a ch"
  then have "sessions (directory_of s) a = Some (Some ch, Some u)"
    by (auto simp: directory_of_def member_def udp_of_def)
  then have "voice_peers (directory_of s') ch = voice_peers (directory_of s) ch - {u}"
    unfolding s' disconnect_directory [OF ok] by (simp add: spec_disconnect_def spec_vacate_def Let_def)
  then have "u \<notin> set (participants s' ch)" by (simp add: directory_of_participants [OF ok'])
  then show "u \<notin> set (fill_channel_peers ch x s')" by (simp add: cache_peers [OF ok'])
qed

text \<open>A disconnected client leaves nothing behind: it is no longer registered, has no queue,
  holds no token, its voice address is in no relay target list of its channel, no public key leads
  to it; the other clients' registrations are untouched.\<close>

theorem disconnect_leaves_nothing:
  assumes "reachable L (core srv)"
    and "srv' = client_disconnected ser now a srv"
  shows "get_client a (srv_state srv') = None \<and> hm_get (srv_senders srv') a = None \<and>
    (\<forall>t ch. \<not> holds_token (srv_state srv') t a ch) \<and> (\<forall>pk. lookup_pubkey pk (srv_state srv') \<noteq> Some a) \<and>
    (\<forall>u ch x. udp_of (srv_state srv) a = Some u \<longrightarrow> member (srv_state srv) a ch \<longrightarrow>
      u \<notin> set (fill_channel_peers ch x (srv_state srv'))) \<and>
    (b \<noteq> a \<longrightarrow> get_client b (srv_state srv') = get_client b (srv_state srv))"
proof -
  have ok: "server_ok (srv_state srv)" using assms(1) by (simp add: core_def reachableD)
  let ?s = "snd (remove_client a (srv_state srv))"
  let ?v = "srv\<lparr>srv_senders := hm_remove a (srv_senders srv), srv_state := ?s\<rparr>"
  have "\<exists>w. only_counts ?v w \<and> srv' = w\<lparr>srv_ip_limiter := irl_untrack now (sock_ip a) (srv_ip_limiter w)\<rparr>"
    unfolding assms(2) client_disconnected_def Let_def case_prod_beta
    by (rule exI, rule conjI [OF _ refl])
      (auto simp: only_counts_refl split: option.split
        intro: only_counts_sends only_counts_trans [OF only_counts_sends(3) only_counts_sends(4)])
  then obtain w m where w: "srv' = w\<lparr>srv_ip_limiter := irl_untrack now (sock_ip a) (srv_ip_limiter w)\<rparr>"
      "srv_state w = ?s\<lparr>metrics := m\<rparr>" "dom (map_of (srv_senders w)) = dom (map_of (hm_remove a (srv_senders srv)))"
    by (auto simp: only_counts_def)
  have st: "srv_state srv' = ?s\<lparr>metrics := m\<rparr>" using w by simp
  have "a \<notin> dom (map_of (srv_senders srv'))" unfolding w(1) by (simp add: w(3) domIff)
  then have q: "hm_get (srv_senders srv') a = None" by blast
  note gone = removed_client_gone [where a = a, OF ok refl]
  have "\<not> holds_token (srv_state srv') t a ch" for t ch using gone(1) by (simp add: st holds_token_def)
  moreover have "lookup_pubkey pk (srv_state srv') \<noteq> Some a" for pk
    using gone(2) by (simp add: st lookup_pubkey_def)
  moreover have "fill_channel_peers ch x (srv_state srv') = fill_channel_peers ch x ?s" for ch x
    by (simp add: st fill_channel_peers_def)
  moreover have "hm_get (clients (srv_state srv')) x = (if x = a then None else hm_get (clients (srv_state srv)) x)" for x
    by (simp add: st remove_client_get)
  ultimately show ?thesis using q gone(3) by (auto simp: get_client_def)
qed

theorem disconnect_leaves_nothing_witness:
  "get_client alice (srv_state (client_disconnected sample_serialize 9 alice sample_server)) = None \<and>
    alice_udp \<notin> set (fill_channel_peers lobby bob (srv_state (client_disconnected sample_serialize 9 alice sample_server)))"
proof -
  have "udp_of (srv_state sample_server) alice = Some alice_udp" "member (srv_state sample_server) alice lobby"
    by (simp_all add: udp_of_def member_def sample_server_def sample_voice_eq)
  with disconnect_leaves_nothing [OF sample_server_reachable refl] show ?thesis by blast
qed

end
