(* ===== verification/Server_Reader.thy ===== *)
theory Server_Reader
  imports Server_Tcp_Properties
begin

text \<open>
  What a control connection's reader loop (\<open>reader_loop\<close> of \<^verbatim>\<open>tcp.rs\<close>) comes to, as a function of the messages
  alone: which of them are admitted depends on their kinds, their times and the limiters, and the admitted ones are
  handled one after the other, wherever the reads happened to cut the stream.
\<close>

section \<open>The reference\<close>

fun exempt :: "client_message \<Rightarrow> bool" where
  "exempt Ping \<longleftrightarrow> True"
| "exempt (Hello _ _ _) \<longleftrightarrow> True"
| "exempt _ \<longleftrightarrow> False"

fun makes_channel :: "client_message \<Rightarrow> bool" where
  "makes_channel (CreateChannel _) \<longleftrightarrow> True"
| "makes_channel StartEchoTest \<longleftrightarrow> True"
| "makes_channel _ \<longleftrightarrow> False"

lemma makes_not_exempt: "makes_channel msg \<Longrightarrow> \<not> exempt msg"
  by (cases msg) simp_all

text \<open>The three limiters: of the address, of the connection, and of the connection for what makes channels. They are asked
  in this order, each one only if those before it allowed the message.\<close>

type_synonym limiters = "ip_rate_limiter \<times> rate_limiter \<times> rate_limiter"

definition ask :: "bool \<Rightarrow> ('l \<Rightarrow> bool \<times> 'l) \<Rightarrow> 'l \<Rightarrow> bool \<times> 'l" where
  "ask wanted check l = (if wanted then check l else (False, l))"

definition verdict :: "ip_addr \<Rightarrow> client_message \<Rightarrow> instant \<Rightarrow> limiters \<Rightarrow> bool \<times> limiters" where
  "verdict ip msg now = (\<lambda>(l, cmd, create).
    (let (ok1, l') = ask (\<not> exempt msg) (irl_check now ip) l;
         (ok2, cmd') = ask ok1 (rl_check now) cmd;
         (ok3, create') = ask (ok2 \<and> makes_channel msg) (rl_check now) create
     in (exempt msg \<or> (if makes_channel msg then ok3 else ok2), l', cmd', create')))"

definition verdicts :: "ip_addr \<Rightarrow> (client_message \<times> instant) list \<Rightarrow> limiters \<Rightarrow> bool list \<times> limiters" where
  "verdicts ip = run_events (verdict ip)"

text \<open>The messages, in order: an admitted one is handled, another one is counted and answered with an error.\<close>

fun serve ::
    "serializer \<Rightarrow> socket_addr \<Rightarrow> ((client_message \<times> instant) \<times> bool) list \<Rightarrow> string \<times> tcp_server \<Rightarrow> (string \<times> tcp_server) option" where
  "serve ser addr [] ns = Some ns"
| "serve ser addr (((msg, now), True) # ms) ns = Option.bind (handle_message ser now addr msg ns) (serve ser addr ms)"
| "serve ser addr (((msg, now), False) # ms) (name, srv) =
    serve ser addr ms (name, reply_error ser addr ''rate limited, slow down''
      (srv\<lparr>srv_state := count m_tcp_rate_limited_update 1 (srv_state srv)\<rparr>))"

definition decoded :: "(byte list \<Rightarrow> client_message option) \<Rightarrow> (byte list \<times> instant) list \<Rightarrow> (client_message \<times> instant) list" where
  "decoded de = List.map_filter (\<lambda>(p, t). map_option (\<lambda>msg. (msg, t)) (de p))"

section \<open>Handling does not look at the limiters\<close>

abbreviation limited_by :: "ip_rate_limiter \<Rightarrow> tcp_server \<Rightarrow> tcp_server" where
  "limited_by l srv \<equiv> srv\<lparr>srv_ip_limiter := l\<rparr>"

lemma deliver_limited: "deliver c f a (limited_by l srv) = limited_by l (deliver c f a srv)"
  by (simp add: deliver_def split: option.split)

lemma fold_deliver_limited: "fold (deliver c f) as (limited_by l srv) = limited_by l (fold (deliver c f) as srv)"
  by (induction as arbitrary: srv) (simp_all add: deliver_limited)

lemma send_to_limited: "send_to ser a m (limited_by l srv) = limited_by l (send_to ser a m srv)"
  by (simp add: send_to_def deliver_limited split: option.split)

lemma broadcast_limited: "broadcast_to_channel ser ch x m (limited_by l srv) = limited_by l (broadcast_to_channel ser ch x m srv)"
  by (simp add: broadcast_to_channel_def fold_deliver_limited split: option.split)

lemma broadcast_list_limited: "broadcast_channel_list ser (limited_by l srv) = limited_by l (broadcast_channel_list ser srv)"
  by (simp add: broadcast_channel_list_def fold_deliver_limited split: option.split)

lemma reply_error_limited: "reply_error ser a m (limited_by l srv) = limited_by l (reply_error ser a m srv)"
  by (simp add: reply_error_def send_to_limited)

lemma state_limited:
  "(limited_by l srv)\<lparr>srv_rng := r\<rparr> = limited_by l (srv\<lparr>srv_rng := r\<rparr>)"
  "(limited_by l srv)\<lparr>srv_state := s\<rparr> = limited_by l (srv\<lparr>srv_state := s\<rparr>)"
  by simp_all

lemmas limited = send_to_limited broadcast_limited broadcast_list_limited reply_error_limited state_limited

lemma handle_message_limited:
  "handle_message ser now a msg (name, limited_by l srv) =
    map_option (map_prod id (limited_by l)) (handle_message ser now a msg (name, srv))"
proof (cases msg)
  case (CreateChannel n)
  then show ?thesis by (auto simp: handle_create_channel_def limited Let_def split: option.split sum.split)
next
  case (JoinChannel ch)
  then show ?thesis by (auto simp: handle_join_channel_def limited Let_def split: option.split sum.split)
next
  case LeaveChannel
  then show ?thesis
    by (cases "leave_channel a (srv_state srv)"; cases "fst (leave_channel a (srv_state srv))")
      (auto simp: handle_leave_channel_def limited Let_def)
next
  case (CChatMessage body)
  then show ?thesis by (auto simp: handle_chat_message_def limited split: option.split)
next
  case (CDirectMessage key body)
  then show ?thesis by (auto simp: handle_direct_message_def limited split: option.split)
next
  case (SetName n)
  then show ?thesis
    by (cases "rename_client a (trim n) (srv_state srv)"; cases "fst (rename_client a (trim n) (srv_state srv))")
      (auto simp: handle_set_name_def limited Let_def split: option.split)
next
  case (Hello v p key)
  then show ?thesis by (auto simp: handle_hello_def limited split: option.split)
next
  case StartEchoTest
  then show ?thesis by (auto simp: handle_start_echo_test_def limited split: option.split sum.split)
next
  case StopEchoTest
  then show ?thesis
    by (cases "leave_channel a (srv_state srv)"; cases "fst (leave_channel a (srv_state srv))")
      (auto simp: handle_leave_channel_def limited Let_def)
qed (simp_all add: handle_list_channels_def limited)

section \<open>The loop is the reference\<close>

lemma serve_limited:
  "serve ser a ms (name, limited_by l srv) = map_option (map_prod id (limited_by l)) (serve ser a ms (name, srv))"
proof (induction ms arbitrary: name srv)
  case (Cons m ms)
  obtain now msg ok where m: "m = ((msg, now), ok)" by (cases m) auto
  show ?case
  proof (cases ok)
    case True
    then show ?thesis
      by (cases "handle_message ser now a msg (name, srv)") (auto simp: m handle_message_limited Cons.IH)
  next
    case False
    then show ?thesis by (simp add: m state_limited reply_error_limited Cons.IH)
  qed
qed simp

lemma serve_append:
  "serve ser a (ms @ ns) x = Option.bind (serve ser a ms x) (serve ser a ns)"
proof (induction ms arbitrary: x)
  case (Cons m ms)
  obtain now msg ok where m: "m = ((msg, now), ok)" by (cases m) auto
  show ?case by (cases ok; cases x; cases "handle_message ser now a msg x") (simp_all add: m Cons.IH)
qed simp

lemma admit_verdict:
  "admit now a msg (c, l) =
    (let (ok, l', cmd, create) = verdict (sock_ip a) msg now (l, conn_cmd_limiter c, conn_create_limiter c)
     in (ok, c\<lparr>conn_cmd_limiter := cmd, conn_create_limiter := create\<rparr>, l'))"
  by (cases msg) (simp_all add: admit_def verdict_def ask_def Let_def case_prod_beta)

text \<open>The state of the loop after messages have been served: the name they leave, and the limiters.\<close>

definition lims :: "connection \<Rightarrow> tcp_server \<Rightarrow> limiters" where
  "lims c srv = (srv_ip_limiter srv, conn_cmd_limiter c, conn_create_limiter c)"

definition leaving :: "limiters \<Rightarrow> connection \<Rightarrow> string \<times> tcp_server \<Rightarrow> connection \<times> tcp_server" where
  "leaving = (\<lambda>(l, cmd, create) c (name, srv).
    (c\<lparr>conn_name := name, conn_cmd_limiter := cmd, conn_create_limiter := create\<rparr>, limited_by l srv))"

lemma handle_frame_serves:
  assumes "de f = Some msg"
  shows "handle_frame ser de now a f (c, srv) =
    (let (ok, ls) = verdict (sock_ip a) msg now (lims c srv)
     in map_option (leaving ls c) (serve ser a [((msg, now), ok)] (conn_name c, srv)))"
proof -
  obtain ok l cmd create where v: "verdict (sock_ip a) msg now (lims c srv) = (ok, l, cmd, create)" by (metis prod_cases4)
  then have adm: "admit now a msg (c, srv_ip_limiter srv) = (ok, c\<lparr>conn_cmd_limiter := cmd, conn_create_limiter := create\<rparr>, l)"
    by (simp add: admit_verdict lims_def)
  show ?thesis
  proof (cases ok)
    case True
    then show ?thesis
      by (cases "handle_message ser now a msg (conn_name c, srv)")
        (auto simp: handle_frame_def assms adm v leaving_def handle_message_limited)
  next
    case False
    then show ?thesis
      by (simp add: handle_frame_def assms adm v leaving_def state_limited reply_error_limited)
  qed
qed

lemma lims_leaving: "leaving ls c ns = (c', srv') \<Longrightarrow> lims c' srv' = ls \<and> conn_name c' = fst ns"
  by (cases ls; cases ns) (auto simp: leaving_def lims_def)

lemma verdicts_Cons:
  "verdicts ip ((msg, t) # ms) ls =
    (let (ok, ls) = verdict ip msg t ls; (oks, ls) = verdicts ip ms ls in (ok # oks, ls))"
  by (simp add: verdicts_def)

lemma verdicts_append:
  "verdicts ip (ms @ ns) ls =
    (let (oks, ls) = verdicts ip ms ls; (oks', ls) = verdicts ip ns ls in (oks @ oks', ls))"
proof (induction ms arbitrary: ls)
  case (Cons m ms)
  then show ?case by (cases m) (simp add: verdicts_def case_prod_beta Let_def)
qed (simp add: verdicts_def)

lemma verdicts_length [simp]: "length (fst (verdicts ip ms ls)) = length ms"
proof (induction ms arbitrary: ls)
  case (Cons m ms)
  then show ?case by (cases m) (simp add: verdicts_def case_prod_beta Let_def)
qed (simp add: verdicts_def)

text \<open>What a list of messages makes of the loop's state.\<close>

definition served :: "serializer \<Rightarrow> socket_addr \<Rightarrow> (client_message \<times> instant) list \<Rightarrow> connection \<times> tcp_server \<Rightarrow> (connection \<times> tcp_server) option" where
  "served ser a ms = (\<lambda>(c, srv).
    (let (oks, ls) = verdicts (sock_ip a) ms (lims c srv)
     in map_option (leaving ls c) (serve ser a (zip ms oks) (conn_name c, srv))))"

lemma served_Nil: "served ser a [] x = Some x"
  by (cases x) (simp add: served_def verdicts_def lims_def leaving_def)

lemma served_eq:
  "verdicts (sock_ip a) ms (lims c srv) = (oks, ls) \<Longrightarrow>
   served ser a ms (c, srv) = map_option (leaving ls c) (serve ser a (zip ms oks) (conn_name c, srv))"
  by (simp add: served_def)

lemma served_append: "served ser a (ms @ ns) (c, srv) = Option.bind (served ser a ms (c, srv)) (served ser a ns)"
proof -
  obtain oks l cmd create where v: "verdicts (sock_ip a) ms (lims c srv) = (oks, l, cmd, create)" by (metis prod_cases4)
  obtain oks' ls' where v': "verdicts (sock_ip a) ns (l, cmd, create) = (oks', ls')" by (metis prod.collapse)
  have len: "length oks = length ms" using verdicts_length [of "sock_ip a" ms "lims c srv"] by (simp add: v)
  have "verdicts (sock_ip a) (ms @ ns) (lims c srv) = (oks @ oks', ls')" by (simp add: verdicts_append v v')
  then have lhs: "served ser a (ms @ ns) (c, srv) = map_option (leaving ls' c)
      (Option.bind (serve ser a (zip ms oks) (conn_name c, srv)) (serve ser a (zip ns oks')))"
    by (simp add: served_eq len serve_append)
  show ?thesis
  proof (cases "serve ser a (zip ms oks) (conn_name c, srv)")
    case None
    then show ?thesis by (simp add: lhs served_eq [OF v])
  next
    case (Some ns1)
    obtain name s1 where ns1: "ns1 = (name, s1)" by (cases ns1)
    let ?c1 = "c\<lparr>conn_name := name, conn_cmd_limiter := cmd, conn_create_limiter := create\<rparr>"
    have "lims ?c1 (limited_by l s1) = (l, cmd, create)" by (simp add: lims_def)
    then have "served ser a ns (?c1, limited_by l s1) =
        map_option (leaving ls' ?c1) (serve ser a (zip ns oks') (name, limited_by l s1))"
      using served_eq [of a ns ?c1 "limited_by l s1" oks' ls' ser] v' by simp
    moreover have "served ser a ms (c, srv) = Some (?c1, limited_by l s1)"
      by (simp add: served_eq [OF v] Some ns1 leaving_def)
    moreover have "leaving ls' ?c1 (map_prod id (limited_by l) x) = leaving ls' c x" for x
      by (cases x; cases ls') (simp add: leaving_def)
    ultimately show ?thesis
      by (simp add: lhs Some ns1 serve_limited option.map_comp o_def)
  qed
qed

text \<open>The frames of one read.\<close>

lemma decoded_Cons: "decoded de ((f, t) # fs) = (case de f of None \<Rightarrow> [] | Some msg \<Rightarrow> [(msg, t)]) @ decoded de fs"
  by (simp add: decoded_def List.map_filter_def split: option.split)

lemma decoded_append: "decoded de (xs @ ys) = decoded de xs @ decoded de ys"
  by (simp add: decoded_def List.map_filter_def)

lemma handle_frames_served:
  "handle_frames ser de now a fs x = served ser a (decoded de (map (\<lambda>f. (f, now)) fs)) x"
proof (induction fs arbitrary: x)
  case Nil
  show ?case by (simp add: served_Nil decoded_def List.map_filter_def)
next
  case (Cons f fs)
  obtain c srv where x: "x = (c, srv)" by (cases x)
  have one: "handle_frame ser de now a f (c, srv) = served ser a (decoded de [(f, now)]) (c, srv)"
  proof (cases "de f")
    case None
    then show ?thesis by (simp add: decoded_def List.map_filter_def served_Nil handle_frame_def)
  next
    case (Some msg)
    obtain ok ls where v: "verdict (sock_ip a) msg now (lims c srv) = (ok, ls)" by (metis prod.collapse)
    then have "verdicts (sock_ip a) [(msg, now)] (lims c srv) = ([ok], ls)" by (simp add: verdicts_def)
    with v Some show ?thesis
      by (simp add: handle_frame_serves [where de = de and f = f, OF Some] served_eq decoded_def List.map_filter_def)
  qed
  have "decoded de (map (\<lambda>f. (f, now)) (f # fs)) = decoded de [(f, now)] @ decoded de (map (\<lambda>f. (f, now)) fs)"
    by (simp flip: decoded_append)
  then show ?case
    by (cases "served ser a (decoded de [(f, now)]) (c, srv)") (simp_all add: x one served_append Cons.IH)
qed

lemma served_pending: "served ser a ms (c\<lparr>conn_pending := r\<rparr>, srv) =
    map_option (\<lambda>(c, s). (c\<lparr>conn_pending := r\<rparr>, s)) (served ser a ms (c, srv))"
proof -
  obtain oks ls where v: "verdicts (sock_ip a) ms (lims c srv) = (oks, ls)" by (metis prod.collapse)
  moreover have "leaving ls (c\<lparr>conn_pending := r\<rparr>) x = (\<lambda>(c, s). (c\<lparr>conn_pending := r\<rparr>, s)) (leaving ls c x)" for x
    by (cases ls; cases x) (simp add: leaving_def)
  ultimately show ?thesis
    by (cases "serve ser a (zip ms oks) (conn_name c, srv)") (simp_all add: served_def lims_def)
qed

text \<open>A stream of frames in any chunks.\<close>

lemma reader_serves:
  assumes "\<forall>p \<in> set ps. length p \<le> MAX_FRAME_SIZE" and "\<forall>(t, chunk) \<in> set chunks. length chunk \<le> TCP_READ_BUF"
    and "conn_pending c @ concat (map snd chunks) = concat (map frame_bytes ps)"
    and "length (conn_pending c) < 4 + MAX_FRAME_SIZE" and "try_decode_frame (conn_pending c) = Inr None"
    and "sorted (map fst chunks)"
  shows "\<exists>stamped. map fst stamped = ps \<and> snd ` set stamped \<subseteq> fst ` set chunks \<and> sorted (map snd stamped) \<and>
    reader_loop ser de a (map (\<lambda>(t, chunk). (t, Received chunk)) chunks) (c, srv) =
      map_option (\<lambda>(c, s). (None, c\<lparr>conn_pending := []\<rparr>, s)) (served ser a (decoded de stamped) (c, srv))"
  using assms
proof (induction chunks arbitrary: c srv ps)
  case Nil
  have "ps = []"
  proof (cases ps)
    case (Cons p qs)
    then have "try_decode_frame (conn_pending c) = Inr (Some (p, length (frame_bytes p)))"
      using Nil.prems(1,3) tcp.dec_enc [of p "concat (map frame_bytes qs)"] by simp
    with Nil.prems(5) show ?thesis by simp
  qed simp
  moreover from this have "c\<lparr>conn_pending := []\<rparr> = c" using Nil.prems(3) by simp
  ultimately show ?case by (intro exI [of _ "[]"]) (simp add: decoded_def List.map_filter_def served_Nil)
next
  case (Cons tc chunks)
  obtain t chunk where tc: "tc = (t, chunk)" by (rule prod.exhaust)
  have fit: "length chunk \<le> TCP_READ_BUF" "conn_pending c @ chunk @ concat (map snd chunks) = concat (map frame_bytes ps)"
    using Cons.prems(2,3) tc by auto
  obtain k r where k: "receive_chunk (conn_pending c) chunk = Inr (take k ps, r)"
      "r @ concat (map snd chunks) = concat (map frame_bytes (drop k ps))" "length r < 4 + MAX_FRAME_SIZE"
    using receive_chunk_frames [OF Cons.prems(1) fit(2) Cons.prems(4) fit(1)] by metis
  have dec: "try_decode_frame r = Inr None" by (rule receive_chunk_incomplete [OF k(1)])
  have small: "\<forall>p \<in> set (drop k ps). length p \<le> MAX_FRAME_SIZE" using Cons.prems(1) set_drop_subset [of k ps] by blast
  define now1 where "now1 = map (\<lambda>f. (f, t)) (take k ps)"
  have step: "reader_step ser de t a (Received chunk) (c, srv) =
      map_option (\<lambda>(c, s). Inr (c\<lparr>conn_pending := r\<rparr>, s)) (served ser a (decoded de now1) (c, srv))"
    by (simp add: reader_step_def k(1) handle_frames_served served_pending now1_def option.map_comp o_def split_def)
  define evs where "evs = map (\<lambda>(t, chunk). (t, Received chunk)) chunks"
  have evs: "map (\<lambda>(t, chunk). (t, Received chunk)) (tc # chunks) = (t, Received chunk) # evs" by (simp add: tc evs_def)
  have later: "\<exists>stamped. map fst stamped = drop k ps \<and> snd ` set stamped \<subseteq> fst ` set chunks \<and> sorted (map snd stamped) \<and>
      reader_loop ser de a evs (c0\<lparr>conn_pending := r\<rparr>, srv0) =
        map_option (\<lambda>(c, s). (None, c\<lparr>conn_pending := []\<rparr>, s)) (served ser a (decoded de stamped) (c0\<lparr>conn_pending := r\<rparr>, srv0))"
    for c0 srv0
    using Cons.IH [OF small, of "c0\<lparr>conn_pending := r\<rparr>" srv0] Cons.prems(2,6) k(2,3) dec by (simp add: tc evs_def)
  have stamps: "map fst (now1 @ st) = ps \<and> snd ` set (now1 @ st) \<subseteq> fst ` set (tc # chunks) \<and> sorted (map snd (now1 @ st))"
    if "map fst st = drop k ps" "snd ` set st \<subseteq> fst ` set chunks" "sorted (map snd st)" for st
  proof -
    have "\<forall>y \<in> fst ` set chunks. t \<le> y" using Cons.prems(6) by (simp add: tc)
    then have "\<forall>y \<in> snd ` set st. t \<le> y" using that(2) by blast
    then have "\<forall>x \<in> set (map snd now1). \<forall>y \<in> set (map snd st). x \<le> y" by (auto simp: now1_def)
    moreover have "sorted (map snd now1)" by (simp add: now1_def o_def map_replicate_const)
    ultimately show ?thesis using that by (auto simp: now1_def tc o_def sorted_append)
  qed
  show ?case
  proof (cases "served ser a (decoded de now1) (c, srv)")
    case None
    obtain st where "map fst st = drop k ps" "snd ` set st \<subseteq> fst ` set chunks" "sorted (map snd st)"
      using later by blast
    with stamps None step show ?thesis
      by (intro exI [of _ "now1 @ st"], subst evs) (simp add: tc decoded_append served_append)
  next
    case (Some z)
    obtain c0 srv0 where z: "z = (c0, srv0)" by (cases z)
    obtain st where st: "map fst st = drop k ps" "snd ` set st \<subseteq> fst ` set chunks" "sorted (map snd st)"
        "reader_loop ser de a evs (c0\<lparr>conn_pending := r\<rparr>, srv0) =
        map_option (\<lambda>(c, s). (None, c\<lparr>conn_pending := []\<rparr>, s)) (served ser a (decoded de st) (c0\<lparr>conn_pending := r\<rparr>, srv0))"
      using later [of c0 srv0] by blast
    with stamps [OF st(1-3)] Some step show ?thesis
      by (intro exI [of _ "now1 @ st"], subst evs)
        (simp add: tc z decoded_append served_append served_pending option.map_comp o_def split_def)
  qed
qed

section \<open>No flood\<close>

text \<open>Each of the connection's two buckets is a limiter of what it lets through.\<close>

definition paid :: "(client_message \<Rightarrow> bool) \<Rightarrow> ip_addr \<Rightarrow> client_message \<Rightarrow> instant \<Rightarrow> limiters \<Rightarrow> bool \<times> limiters" where
  "paid kind ip msg t ls = (let (ok, ls) = verdict ip msg t ls in (ok \<and> kind msg, ls))"

lemma ask_pays:
  assumes "bucket_ok rate burst t b" and "t \<le> t'"
  shows "bucket_ok rate burst t' (snd (ask w (rl_check t') b))"
    and "bucket_pot rate burst t' (snd (ask w (rl_check t') b)) + (if fst (ask w (rl_check t') b) then 1 else 0)
      \<le> bucket_pot rate burst t b + bucket_gain rate * rat_of_nat (t' - t) + burst * eps"
proof -
  have "0 \<le> burst * eps" using assms(1) by (simp add: bucket_ok_def limits_ok_def)
  then show "bucket_pot rate burst t' (snd (ask w (rl_check t') b)) + (if fst (ask w (rl_check t') b) then 1 else 0)
      \<le> bucket_pot rate burst t b + bucket_gain rate * rat_of_nat (t' - t) + burst * eps"
    using check_pays [OF assms] bucket_pot_wait [OF assms] by (cases w) (simp_all add: ask_def del: of_nat_diff)
  show "bucket_ok rate burst t' (snd (ask w (rl_check t') b))"
    using check_ok [OF assms(1)] bucket_ok_later [OF assms] by (simp add: ask_def)
qed

lemma verdict_create:
  "\<exists>w. snd (snd (snd (verdict ip msg t (l, cmd, create)))) = snd (ask w (rl_check t) create) \<and>
    (fst (verdict ip msg t (l, cmd, create)) \<and> makes_channel msg \<longrightarrow> fst (ask w (rl_check t) create))"
proof (cases "makes_channel msg")
  case True
  with makes_not_exempt [OF True] show ?thesis
    by (intro exI [of _ "fst (ask (fst (ask True (irl_check t ip) l)) (rl_check t) cmd)"])
      (simp add: verdict_def Let_def case_prod_beta)
next
  case False
  then show ?thesis by (intro exI [of _ False]) (simp add: verdict_def Let_def case_prod_beta ask_def)
qed

interpretation commands: metered "paid (\<lambda>msg. \<not> exempt msg) ip" "\<lambda>_ _. True"
    "\<lambda>t ls. bucket_ok rate burst t (fst (snd ls))" "\<lambda>t ls. bucket_pot rate burst t (fst (snd ls))"
    "bucket_gain rate" "burst * eps" for ip rate burst
proof
  fix t t' and ls :: limiters and msg
  assume ok: "bucket_ok rate burst t (fst (snd ls))" and t: "t \<le> t'"
  obtain l cmd create where ls: "ls = (l, cmd, create)" by (cases ls) auto
  obtain w where w: "snd (paid (\<lambda>msg. \<not> exempt msg) ip msg t' ls) = snd (verdict ip msg t' ls)"
      "fst (snd (snd (verdict ip msg t' ls))) = snd (ask w (rl_check t') cmd)"
      "fst (paid (\<lambda>msg. \<not> exempt msg) ip msg t' ls) \<Longrightarrow> fst (ask w (rl_check t') cmd)"
    by (rule that [of "fst (ask (\<not> exempt msg) (irl_check t' ip) l)"])
      (auto simp: paid_def verdict_def ls Let_def case_prod_beta ask_def split: if_splits)
  show "bucket_ok rate burst t' (fst (snd (snd (paid (\<lambda>msg. \<not> exempt msg) ip msg t' ls))))"
    unfolding w(1,2) using ask_pays(1) [OF _ t] ok by (simp add: ls)
  show "bucket_pot rate burst t' (fst (snd (snd (paid (\<lambda>msg. \<not> exempt msg) ip msg t' ls)))) +
      (if fst (paid (\<lambda>msg. \<not> exempt msg) ip msg t' ls) then 1 else 0)
      \<le> bucket_pot rate burst t (fst (snd ls)) + bucket_gain rate * rat_of_nat (t' - t) + burst * eps"
    unfolding w(1,2) using ask_pays(2) [OF _ t, of rate burst cmd w] ok w(3) by (auto simp: ls split: if_splits simp del: of_nat_diff)
qed (simp add: bucket_pot_nonneg)


interpretation creations: metered "paid makes_channel ip" "\<lambda>_ _. True"
    "\<lambda>t ls. bucket_ok rate burst t (snd (snd ls))" "\<lambda>t ls. bucket_pot rate burst t (snd (snd ls))"
    "bucket_gain rate" "burst * eps" for ip rate burst
proof
  fix t t' and ls :: limiters and msg
  assume ok: "bucket_ok rate burst t (snd (snd ls))" and t: "t \<le> t'"
  obtain l cmd create where ls: "ls = (l, cmd, create)" by (cases ls) auto
  obtain w where v: "snd (snd (snd (verdict ip msg t' ls))) = snd (ask w (rl_check t') create)"
      "fst (verdict ip msg t' ls) \<Longrightarrow> makes_channel msg \<Longrightarrow> fst (ask w (rl_check t') create)"
    using verdict_create [of ip msg t' l cmd create] unfolding ls by blast
  then have w: "snd (paid makes_channel ip msg t' ls) = snd (verdict ip msg t' ls)"
      "snd (snd (snd (verdict ip msg t' ls))) = snd (ask w (rl_check t') create)"
      "fst (paid makes_channel ip msg t' ls) \<Longrightarrow> fst (ask w (rl_check t') create)"
    by (auto simp: paid_def case_prod_beta)
  show "bucket_ok rate burst t' (snd (snd (snd (paid makes_channel ip msg t' ls))))"
    unfolding w(1,2) using ask_pays(1) [OF _ t] ok by (simp add: ls)
  show "bucket_pot rate burst t' (snd (snd (snd (paid makes_channel ip msg t' ls)))) +
      (if fst (paid makes_channel ip msg t' ls) then 1 else 0)
      \<le> bucket_pot rate burst t (snd (snd ls)) + bucket_gain rate * rat_of_nat (t' - t) + burst * eps"
    unfolding w(1,2) using ask_pays(2) [OF _ t, of rate burst create w] ok w(3) by (auto simp: ls split: if_splits simp del: of_nat_diff)
qed (simp add: bucket_pot_nonneg)

definition admitted :: "(client_message \<Rightarrow> bool) \<Rightarrow> (client_message \<times> instant) list \<Rightarrow> bool list \<Rightarrow> nat" where
  "admitted kind ms oks = length (filter (\<lambda>((msg, t), ok). ok \<and> kind msg) (zip ms oks))"

lemma admitted_paid:
  "count_list (fst (run_events (paid kind ip) ms ls)) True = admitted kind ms (fst (verdicts ip ms ls))"
proof (induction ms arbitrary: ls)
  case (Cons m ms)
  obtain msg t where m: "m = (msg, t)" by (cases m)
  show ?case
    using Cons.IH [of "snd (verdict ip msg t ls)"]
    by (simp add: m verdicts_def admitted_def paid_def case_prod_beta Let_def)
qed (simp add: admitted_def verdicts_def)

lemma sorted_legal: "sorted (t0 # map snd ms) \<Longrightarrow> legal_events step (\<lambda>_ _. True) t0 ms s"
  by (induction ms arbitrary: t0 s) auto

lemma end_time_le: "t0 \<le> T \<Longrightarrow> \<forall>t \<in> snd ` set ms. t \<le> T \<Longrightarrow> end_time t0 ms \<le> T"
  by (induction ms arbitrary: t0) auto

lemma decoded_times:
  "snd ` set (decoded de st) \<subseteq> snd ` set st" "length (decoded de st) \<le> length st"
  "sorted (map snd st) \<Longrightarrow> sorted (map snd (decoded de st))"
proof (induction st)
  case (Cons x st)
  obtain f t where x: "x = (f, t)" by (cases x)
  { case 1 with Cons show ?case by (auto simp: x decoded_Cons split: option.split) }
  { case 2 with Cons show ?case by (simp add: x decoded_Cons split: option.split) }
  { case 3
    then have "\<forall>y \<in> snd ` set st. t \<le> y" by (auto simp: x)
    with Cons 3 show ?case by (fastforce simp: x decoded_Cons split: option.split) }
qed (simp_all add: decoded_def List.map_filter_def)

text \<open>The two bounds for a connection whose limiters were new at \<open>t0\<close>.\<close>

lemma sorted_to_end: "sorted (t0 # map snd ms) \<Longrightarrow> \<forall>t \<in> snd ` set ms. t \<le> T \<Longrightarrow> t0 \<le> T \<Longrightarrow>
    0 \<le> gain \<Longrightarrow> gain * rat_of_nat (end_time t0 ms - t0) \<le> gain * rat_of_nat (T - t0)"
  using end_time_le [of t0 T ms] by (intro mult_left_mono) (auto simp del: of_nat_diff)

lemma flood_bound:
  assumes "rat_of_nat k \<le> bucket_pot rate burst t0 (rl_new rate burst t0) + bucket_gain rate * rat_of_nat (end_time t0 ms - t0)
      + of_nat (length ms) * (burst * eps)"
    and "limits_ok rate burst" and "sorted (t0 # map snd ms)" and "\<forall>t \<in> snd ` set ms. t \<le> T" and "t0 \<le> T" and "length ms \<le> n"
  shows "rat_of_nat k \<le> burst + bucket_gain rate * rat_of_nat (T - t0) + of_nat n * (burst * eps)"
proof -
  have "0 \<le> bucket_gain rate" "0 \<le> burst * eps" using assms(2) by (simp_all add: limits_ok_def bucket_gain_def eps_def)
  then have "of_nat (length ms) * (burst * eps) \<le> of_nat n * (burst * eps)"
    and "bucket_gain rate * rat_of_nat (end_time t0 ms - t0) \<le> bucket_gain rate * rat_of_nat (T - t0)"
    using assms(6) sorted_to_end [OF assms(3-5)] by (auto intro: mult_right_mono simp del: of_nat_diff)
  with assms(1) bucket_pot_le [of rate burst t0 "rl_new rate burst t0"] show ?thesis by linarith
qed

lemma admitted_bounds:
  assumes "limits_ok rate burst" and "limits_ok crate cburst" and "sorted (t0 # map snd ms)" and "\<forall>t \<in> snd ` set ms. t \<le> T"
    and "t0 \<le> T" and "length ms \<le> n"
    and "verdicts ip ms (l, rl_new rate burst t0, rl_new crate cburst t0) = (oks, ls)"
  shows "of_nat (admitted (\<lambda>msg. \<not> exempt msg) ms oks) \<le> burst + bucket_gain rate * rat_of_nat (T - t0) + of_nat n * (burst * eps)"
    and "of_nat (admitted makes_channel ms oks) \<le> cburst + bucket_gain crate * rat_of_nat (T - t0) + of_nat n * (cburst * eps)"
proof -
  let ?ls = "(l, rl_new rate burst t0, rl_new crate cburst t0)"
  have ok: "bucket_ok rate burst t0 (fst (snd ?ls))" "bucket_ok crate cburst t0 (snd (snd ?ls))"
    using assms(1,2) by (simp_all add: rl_new_ok)
  show "of_nat (admitted (\<lambda>msg. \<not> exempt msg) ms oks) \<le> burst + bucket_gain rate * rat_of_nat (T - t0) + of_nat n * (burst * eps)"
    using commands.allowed_bound [OF ok(1) sorted_legal [OF assms(3)], of ip] assms
    by (intro flood_bound [OF _ assms(1,3-6)]) (simp add: admitted_paid del: of_nat_diff)
  show "of_nat (admitted makes_channel ms oks) \<le> cburst + bucket_gain crate * rat_of_nat (T - t0) + of_nat n * (cburst * eps)"
    using creations.allowed_bound [OF ok(2) sorted_legal [OF assms(3)], of ip] assms
    by (intro flood_bound [OF _ assms(2-6)]) (simp add: admitted_paid del: of_nat_diff)
qed

text \<open>C4 What a client sends is served exactly once and in order. However the network cuts the stream of frames into
  reads, the reader loop comes to this: every frame, stamped with the time of a read (times never go back), is decoded;
  one that is no message is skipped; the limiters decide on each message from its kind and time alone; and the admitted ones
  are handled one after the other, each with the name the ones before left, while a refused one is only counted and
  answered with an error. Whatever a connection sends until \<open>T\<close>, no more than its burst plus its rate times the
  time since it began is admitted beyond pings and hellos, and likewise of what makes a channel.\<close>

theorem reader_serves_in_order:
  assumes "\<forall>p \<in> set ps. length p \<le> MAX_FRAME_SIZE" and "\<forall>(t, chunk) \<in> set chunks. length chunk \<le> TCP_READ_BUF \<and> t \<le> T"
    and "concat (map snd chunks) = concat (map frame_bytes ps)" and "sorted (t0 # map fst chunks)" and "t0 \<le> T"
    and "conn_pending c = []" and "limits_ok rate burst" and "limits_ok crate cburst"
    and "conn_cmd_limiter c = rl_new rate burst t0" and "conn_create_limiter c = rl_new crate cburst t0"
  shows "\<exists>stamped. map fst stamped = ps \<and> snd ` set stamped \<subseteq> fst ` set chunks \<and> sorted (map snd stamped) \<and>
    (let ms = decoded de stamped; (oks, ls) = verdicts (sock_ip a) ms (lims c srv)
     in reader_loop ser de a (map (\<lambda>(t, chunk). (t, Received chunk)) chunks) (c, srv) =
          map_option (\<lambda>x. (None, leaving ls c x)) (serve ser a (zip ms oks) (conn_name c, srv)) \<and>
        of_nat (admitted (\<lambda>msg. \<not> exempt msg) ms oks) \<le> burst + bucket_gain rate * rat_of_nat (T - t0) + of_nat (length ps) * (burst * eps) \<and>
        of_nat (admitted makes_channel ms oks) \<le> cburst + bucket_gain crate * rat_of_nat (T - t0) + of_nat (length ps) * (cburst * eps))"
proof -
  obtain stamped where st: "map fst stamped = ps" "snd ` set stamped \<subseteq> fst ` set chunks" "sorted (map snd stamped)"
      "reader_loop ser de a (map (\<lambda>(t, chunk). (t, Received chunk)) chunks) (c, srv) =
        map_option (\<lambda>(c, s). (None, c\<lparr>conn_pending := []\<rparr>, s)) (served ser a (decoded de stamped) (c, srv))"
    using reader_serves [OF assms(1), of chunks c ser de a srv] assms(2-4,6) by (fastforce simp: try_decode_frame_def)
  obtain oks ls where v: "verdicts (sock_ip a) (decoded de stamped) (lims c srv) = (oks, ls)" by (metis prod.collapse)
  have leaves: "(\<lambda>(c, s). (None, c\<lparr>conn_pending := []\<rparr>, s)) (leaving ls c x) = (None, leaving ls c x)" for x
    using assms(6) by (cases ls; cases x) (simp add: leaving_def)
  have loop: "reader_loop ser de a (map (\<lambda>(t, chunk). (t, Received chunk)) chunks) (c, srv) =
      map_option (\<lambda>x. (None, leaving ls c x)) (serve ser a (zip (decoded de stamped) oks) (conn_name c, srv))"
    unfolding st(4) served_eq [OF v] option.map_comp by (rule option.map_cong) (simp_all only: o_def leaves)
  have times: "\<forall>t \<in> snd ` set (decoded de stamped). t0 \<le> t \<and> t \<le> T"
    using decoded_times(1) [of de stamped] st(2) assms(2,4) by fastforce
  then have "sorted (t0 # map snd (decoded de stamped))" using decoded_times(3) [OF st(3)] by simp
  moreover have "length (decoded de stamped) \<le> length ps" using decoded_times(2) [of de stamped] st(1) by auto
  ultimately have "of_nat (admitted (\<lambda>msg. \<not> exempt msg) (decoded de stamped) oks)
      \<le> burst + bucket_gain rate * rat_of_nat (T - t0) + of_nat (length ps) * (burst * eps)"
    "of_nat (admitted makes_channel (decoded de stamped) oks)
      \<le> cburst + bucket_gain crate * rat_of_nat (T - t0) + of_nat (length ps) * (cburst * eps)"
    using admitted_bounds [OF assms(7,8) _ _ assms(5)] times v assms(9,10) by (auto simp: lims_def simp del: of_nat_diff)
  with st(1-3) v loop show ?thesis by (auto simp: Let_def simp del: of_nat_diff intro!: exI [of _ stamped])
qed

definition sample_connection :: connection where
  "sample_connection = \<lparr>conn_name = ''user-1'', conn_cmd_limiter = rl_new 10 20 3, conn_create_limiter = rl_new 1 3 3, conn_pending = []\<rparr>"

definition sample_decode :: "byte list \<Rightarrow> client_message option" where
  "sample_decode f = (if f = [1] then Some (CChatMessage ''hi'') else if f = [2] then Some Ping else None)"

definition sample_chunks :: "(instant \<times> byte list) list" where
  "sample_chunks = [(5, [0, 0, 0, 1, 1, 0, 0]), (9, [0, 1, 7, 0, 0, 0, 1, 2])]"

theorem reader_serves_in_order_witness:
  "\<exists>stamped. map fst stamped = [[1], [7], [2]] \<and> snd ` set stamped \<subseteq> fst ` set sample_chunks \<and> sorted (map snd stamped) \<and>
    (let ms = decoded sample_decode stamped; (oks, ls) = verdicts (sock_ip alice) ms (lims sample_connection sample_server)
     in reader_loop sample_serialize sample_decode alice (map (\<lambda>(t, chunk). (t, Received chunk)) sample_chunks) (sample_connection, sample_server) =
          map_option (\<lambda>x. (None, leaving ls sample_connection x))
            (serve sample_serialize alice (zip ms oks) (conn_name sample_connection, sample_server)) \<and>
        of_nat (admitted (\<lambda>msg. \<not> exempt msg) ms oks) \<le> 20 + bucket_gain 10 * rat_of_nat (9 - 3) + of_nat (length [[1], [7], [2 :: byte]]) * (20 * eps) \<and>
        of_nat (admitted makes_channel ms oks) \<le> 3 + bucket_gain 1 * rat_of_nat (9 - 3) + of_nat (length [[1], [7], [2 :: byte]]) * (3 * eps))"
proof (rule reader_serves_in_order)
  have "f64 20 = 20" "f64 3 = 3" using fl_of_nat [of 20 53] fl_of_nat [of 3 53] by simp_all
  then show "limits_ok 10 20" "limits_ok 1 3" by (simp_all add: limits_ok_def)
qed (simp_all add: sample_chunks_def sample_connection_def config_defs frame_bytes_def u32_to_be_def be_bytes_4)

end
