(* ===== verification/Server_Main.thy ===== *)
theory Server_Main
  imports Server_Tcp_Properties
begin

text \<open>
  \<^verbatim>\<open>crates/server/src/main.rs\<close>: the channels created at startup, one tick of the
  maintenance task and the notice sent at shutdown. Parsing the command line, spawning and
  supervising the tasks and waiting for signals are input and output.
\<close>

record server_args =
  arg_max_clients :: nat
  arg_max_channels :: nat
  arg_rate_limit_multiplier :: rat
  arg_public_channels :: "nat list list" \<comment> \<open>each name as code points\<close>

definition startup_multiplier :: "server_args \<Rightarrow> rat" where
  "startup_multiplier args = max (arg_rate_limit_multiplier args) (f64 (1 / 10000))"

definition startup_limits :: "server_args \<Rightarrow> limits" where
  "startup_limits args =
    \<lparr>max_channels = arg_max_channels args, max_clients = arg_max_clients args,
     limit_multiplier = startup_multiplier args\<rparr>"

text \<open>A name that sanitizes to nothing, is too long, or whose channel cannot be created is
  skipped.\<close>

fun startup_channels ::
    "(nat list \<Rightarrow> nat list) \<Rightarrow> instant \<Rightarrow> nat list list \<Rightarrow> server_state \<times> rng \<Rightarrow> (server_state \<times> rng) option" where
  "startup_channels lower now [] sr = Some sr"
| "startup_channels lower now (raw # raws) (s, r) =
    (let name = sanitize_channel_name lower raw in
     if name = [] then startup_channels lower now raws (s, r)
     else if length name > MAX_CHANNEL_NAME_LEN then startup_channels lower now raws (s, r)
     else (case create_persistent_channel name now r s of
         None \<Rightarrow> None
       | Some (res, s, r) \<Rightarrow> startup_channels lower now raws (s, r)))"

definition startup_server ::
    "(nat list \<Rightarrow> nat list) \<Rightarrow> instant \<Rightarrow> server_args \<Rightarrow> rng \<Rightarrow> tcp_server option" where
  "startup_server lower now args r =
    (let m = startup_multiplier args in
     case startup_channels lower now (arg_public_channels args) (state_new (startup_limits args), r) of
       None \<Rightarrow> None
     | Some (s, r) \<Rightarrow> Some \<lparr>srv_state = s, srv_senders = [],
         srv_ip_limiter = irl_new (f64_mul RATE_LIMIT_IP_CMD_PER_SEC m) (f64_mul RATE_LIMIT_IP_CMD_BURST m),
         srv_rng = r\<rparr>)"

text \<open>One tick of \<open>run_maintenance\<close>: the channels removed, the logged figures, the new
  previous snapshot.\<close>

definition maintenance_tick ::
    "serializer \<Rightarrow> instant \<Rightarrow> snapshot \<times> tcp_server \<Rightarrow> (channel_id list \<times> nat \<times> stats \<times> snapshot) \<times> snapshot \<times> tcp_server" where
  "maintenance_tick ser now ps =
    (let (prev, srv) = ps;
       (removed, s) = cleanup_empty_channels now (srv_state srv);
       srv = srv\<lparr>srv_state := s\<rparr>;
       srv = (if removed \<noteq> [] \<and> list_ex (starts_with PUBLIC_CHANNEL_PREFIX) removed
              then broadcast_channel_list ser srv else srv);
       (ip_reclaimed, l) = irl_sweep_idle now (secs IP_LIMITER_IDLE_TTL_SECS) (srv_ip_limiter srv);
       srv = srv\<lparr>srv_ip_limiter := l\<rparr>;
       stats = stats_of (srv_state srv);
       current = metrics_snapshot (metrics (srv_state srv));
       d = snapshot_delta current prev
     in ((removed, ip_reclaimed, stats, d), current, srv))"

definition shutdown_notice :: "serializer \<Rightarrow> tcp_server \<Rightarrow> tcp_server" where
  "shutdown_notice ser srv =
    (case encode_tcp_frame ser (SError ''server shutting down'') of
       None \<Rightarrow> srv
     | Some frame \<Rightarrow> srv\<lparr>srv_senders :=
         map (\<lambda>(addr, tx). (addr, case try_send frame tx of Some tx' \<Rightarrow> tx' | None \<Rightarrow> tx)) (srv_senders srv)\<rparr>)"

section \<open>Startup\<close>

lemma create_named_returns:
  "\<exists>res s' r'. create_persistent_channel name now r s = Some (res, s', r')"
  by (auto simp: create_persistent_channel_def create_channel_def Let_def case_prod_beta split: option.split sum.split)

lemma create_named_cases:
  assumes "create_persistent_channel name now r s = Some (res, s', r')"
  shows "persistent s' = (case res of Inr ch \<Rightarrow> List.insert (PUBLIC_CHANNEL_PREFIX @ name) (persistent s) | Inl _ \<Rightarrow> persistent s)"
    and "limits s' = limits s"
    and "max_channels (limits s) = 0 \<Longrightarrow> hm_get (channels s') (PUBLIC_CHANNEL_PREFIX @ name) \<noteq> None"
    and "max_channels (limits s) = 0 \<Longrightarrow> hm_get (channels s) (PUBLIC_CHANNEL_PREFIX @ name) = None \<Longrightarrow>
      PUBLIC_CHANNEL_PREFIX @ name \<in> set (persistent s')"
    and "hm_get (channels s) c \<noteq> None \<Longrightarrow> hm_get (channels s') c \<noteq> None"
    and "hm_get (channels s') c \<noteq> None \<Longrightarrow> hm_get (channels s) c \<noteq> None \<or> c \<in> set (persistent s')"
    and "set (persistent s) \<subseteq> set (persistent s')"
  using assms
  by (auto simp: create_persistent_channel_def create_channel_def add_channel_def at_channel_limit_def
      Let_def case_prod_beta split: option.splits sum.splits if_splits)

lemma startup_returns: "\<exists>y. startup_channels lower now raws sr = Some y"
proof (induction lower now raws sr rule: startup_channels.induct)
  case (2 lower now raw raws s r)
  obtain res s' r' where "create_persistent_channel (sanitize_channel_name lower raw) now r s = Some (res, s', r')"
    using create_named_returns by blast
  with 2 show ?case by (auto simp: Let_def)
qed simp

lemma startup_step:
  assumes "startup_channels lower now (raw # raws) (s, r) = Some y"
  obtains "sanitize_channel_name lower raw = [] \<or> length (sanitize_channel_name lower raw) > MAX_CHANNEL_NAME_LEN"
      "startup_channels lower now raws (s, r) = Some y"
  | res s1 r1 where "sanitize_channel_name lower raw \<noteq> []"
      "length (sanitize_channel_name lower raw) \<le> MAX_CHANNEL_NAME_LEN"
      "create_persistent_channel (sanitize_channel_name lower raw) now r s = Some (res, s1, r1)"
      "startup_channels lower now raws (s1, r1) = Some y"
  using assms by (auto simp: Let_def not_less split: if_splits option.splits)

lemma startup_reachable:
  "startup_channels lower now raws (s, r) = Some (s', r') \<Longrightarrow> reachable L (s, r) \<Longrightarrow> reachable L (s', r')"
proof (induction raws arbitrary: s r)
  case (Cons raw raws)
  from Cons.prems(1) show ?case
  proof (rule startup_step)
    fix res s1 r1
    assume "create_persistent_channel (sanitize_channel_name lower raw) now r s = Some (res, s1, r1)"
      and n: "startup_channels lower now raws (s1, r1) = Some (s', r')"
    then have "reachable L (s1, r1)" by (intro reachable.Step [OF Cons.prems(2)] srv_step.Persist)
    with n show ?case by (rule Cons.IH)
  qed (use Cons in blast)
qed simp

definition startup_name :: "(nat list \<Rightarrow> nat list) \<Rightarrow> nat list \<Rightarrow> channel_id \<Rightarrow> bool" where
  "startup_name lower raw ch \<longleftrightarrow> sanitize_channel_name lower raw \<noteq> [] \<and>
     length (sanitize_channel_name lower raw) \<le> MAX_CHANNEL_NAME_LEN \<and>
     ch = PUBLIC_CHANNEL_PREFIX @ sanitize_channel_name lower raw"

lemma startup_persistent:
  assumes "startup_channels lower now raws (s, r) = Some (s', r')"
    and "\<forall>c. hm_get (channels s) c \<noteq> None \<longleftrightarrow> c \<in> set (persistent s)" and "max_channels (limits s) = 0"
  shows "(\<forall>c. hm_get (channels s') c \<noteq> None \<longleftrightarrow> c \<in> set (persistent s')) \<and>
    set (persistent s') = set (persistent s) \<union> {ch. \<exists>raw \<in> set raws. startup_name lower raw ch}"
  using assms
proof (induction raws arbitrary: s r)
  case (Cons raw raws)
  from Cons.prems(1) show ?case
  proof (rule startup_step)
    assume "sanitize_channel_name lower raw = [] \<or> length (sanitize_channel_name lower raw) > MAX_CHANNEL_NAME_LEN"
      and n: "startup_channels lower now raws (s, r) = Some (s', r')"
    then have "\<not> startup_name lower raw ch" for ch by (auto simp: startup_name_def)
    with Cons.IH [OF n Cons.prems(2,3)] show ?thesis by auto
  next
    fix res s1 r1
    assume ok: "sanitize_channel_name lower raw \<noteq> []"
        "length (sanitize_channel_name lower raw) \<le> MAX_CHANNEL_NAME_LEN"
      and c: "create_persistent_channel (sanitize_channel_name lower raw) now r s = Some (res, s1, r1)"
      and n: "startup_channels lower now raws (s1, r1) = Some (s', r')"
    let ?ch = "PUBLIC_CHANNEL_PREFIX @ sanitize_channel_name lower raw"
    note f = create_named_cases [OF c]
    have ch: "?ch \<in> set (persistent s1)"
      using f(4) [OF Cons.prems(3)] f(7) Cons.prems(2) by blast
    have dom: "hm_get (channels s1) x \<noteq> None \<longleftrightarrow> x \<in> set (persistent s1)" for x
      using f(1) f(3) [OF Cons.prems(3)] f(5,6) Cons.prems(2,3) f(7)
      by (cases res) (auto simp del: not_None_eq)
    have "set (persistent s1) = insert ?ch (set (persistent s))"
      using f(1) ch by (cases res) auto
    moreover have "startup_name lower raw x \<longleftrightarrow> x = ?ch" for x using ok by (simp add: startup_name_def)
    moreover have "max_channels (limits s1) = 0" using f(2) Cons.prems(3) by simp
    ultimately show ?thesis using Cons.IH [OF n] dom by auto
  qed
qed simp

lemma startup_facts:
  assumes "rng_laws r" and "arg_max_channels args = 0"
  shows "\<exists>srv. startup_server lower now args r = Some srv \<and> reachable (startup_limits args) (core srv) \<and>
    queues_ok srv \<and>
    (\<forall>ch. (hm_get (channels (srv_state srv)) ch \<noteq> None \<longleftrightarrow> ch \<in> set (persistent (srv_state srv))) \<and>
      (ch \<in> set (persistent (srv_state srv)) \<longleftrightarrow>
        (\<exists>raw \<in> set (arg_public_channels args). startup_name lower raw ch)))"
proof -
  let ?s0 = "state_new (startup_limits args)"
  obtain s r' where y: "startup_channels lower now (arg_public_channels args) (?s0, r) = Some (s, r')"
    using startup_returns [of lower now "arg_public_channels args" "(?s0, r)"] by auto
  have "reachable (startup_limits args) (s, r')"
    by (rule startup_reachable [OF y]) (rule reachable.Start [OF assms(1)])
  moreover have "(\<forall>c. hm_get (channels s) c \<noteq> None \<longleftrightarrow> c \<in> set (persistent s)) \<and>
    set (persistent s) = set (persistent ?s0) \<union> {ch. \<exists>raw \<in> set (arg_public_channels args). startup_name lower raw ch}"
    by (rule startup_persistent [OF y])
      (simp_all add: state_new_def with_metrics_def startup_limits_def assms(2))
  ultimately show ?thesis
    using y by (auto simp: startup_server_def Let_def core_def queues_ok_def state_new_def with_metrics_def
        simp del: not_None_eq)
qed

text \<open>Startup always finishes, whatever names the operator configured; the server it leaves
  behind is reachable and, without a channel limit, its channels are exactly the persistent lobbies
  \<open>pub-\<close>\<open>name\<close> for the configured names that sanitize to 1 to 20 characters: names that
  sanitize to the same string share a lobby, all others are skipped.\<close>

theorem startup_exact:
  assumes "rng_laws r" and "arg_max_channels args = 0"
  shows "\<exists>srv. startup_server lower now args r = Some srv \<and> reachable (startup_limits args) (core srv) \<and>
    queues_ok srv \<and>
    (\<forall>ch. (hm_get (channels (srv_state srv)) ch \<noteq> None \<longleftrightarrow> ch \<in> set (persistent (srv_state srv))) \<and>
      (ch \<in> set (persistent (srv_state srv)) \<longleftrightarrow>
        (\<exists>raw \<in> set (arg_public_channels args). startup_name lower raw ch)))"
  by (rule startup_facts [OF assms])

definition sample_args :: server_args where
  "sample_args = \<lparr>arg_max_clients = 0, arg_max_channels = 0, arg_rate_limit_multiplier = 1,
     arg_public_channels = [code_points ''lobby'', code_points ''--'']\<rparr>"

theorem startup_exact_witness:
  "\<exists>srv. startup_server ascii_lower 0 sample_args sample_rng = Some srv \<and>
    lobby \<in> set (persistent (srv_state srv)) \<and> hm_get (channels (srv_state srv)) lobby \<noteq> None"
proof -
  have "startup_name ascii_lower (code_points ''lobby'') lobby"
    by (simp add: startup_name_def sanitize_channel_name_def code_points_def ascii_lower_def trim_matches_def
        name_char_def config_defs lobby_def char_of_def bit_iff_odd)
  then have "\<exists>raw \<in> set (arg_public_channels sample_args). startup_name ascii_lower raw lobby"
    by (simp add: sample_args_def)
  moreover have "arg_max_channels sample_args = 0" by (simp add: sample_args_def)
  ultimately show ?thesis using startup_exact [OF sample_rng_laws, of sample_args ascii_lower 0] by metis
qed

section \<open>Lobbies\<close>

lemma vacate_persistent: "persistent (vacate_channel ch u s) = persistent s"
  by simp

lemma srv_step_persistent: "srv_step x y \<Longrightarrow> set (persistent (fst x)) \<subseteq> set (persistent (fst y))"
proof (induction rule: srv_step.induct)
  case (Persist name now r s res s' r')
  then show ?case using create_named_cases(7) by simp
next
  case (Create name now r s res s' r')
  then show ?case by (auto simp: create_channel_def Let_def case_prod_beta split: if_splits option.splits)
next
  case (Join a ch now r s res s' r')
  then show ?case
    by (auto simp: join_channel_def rotate_voice_key_def Let_def case_prod_beta split: if_splits option.splits)
next
  case (Echo a now r s res s' r')
  then show ?case by (auto simp: start_echo_test_def Let_def case_prod_beta split: if_splits option.splits)
next
  case (UdpHello t u now s res s' r)
  then show ?case by (auto simp: register_udp_by_token_def Let_def case_prod_beta split: if_splits option.splits)
next
  case (Remove a s res s' r)
  then show ?case by (auto simp: remove_client_def Let_def split: option.splits)
next
  case (Cleanup grace ttl now s res s' r)
  then show ?case by (auto simp: cleanup_with_def Let_def)
qed (auto simp: register_client_def set_pubkey_def leave_channel_def rename_client_def Let_def
    split: if_splits option.splits)

text \<open>A lobby is never lost: whatever clients do and however long it stays empty, every
  persistent channel of a reachable state exists, with a voice key, in every later state.\<close>

theorem lobbies_survive:
  assumes "reachable L x" and "steps x y" and "ch \<in> set (persistent (fst x))"
  shows "ch \<in> set (persistent (fst y)) \<and> hm_get (channels (fst y)) ch \<noteq> None \<and>
    (\<exists>key. hm_get (channel_keys (fst y)) ch = Some key \<and> length key = 32)"
proof -
  have p: "ch \<in> set (persistent (fst y))"
    using assms(2,3) by (induction rule: rtranclp_induct) (use srv_step_persistent in blast)+
  have "server_ok (fst y)" using reachable_ok [OF steps_reachable [OF assms(2,1)]] by simp
  then have w: "wf_channels (fst y)" by (rule server_okD)
  with p have c: "hm_get (channels (fst y)) ch \<noteq> None" by (simp add: wf_channels_def)
  then have "hm_get (channel_keys (fst y)) ch \<noteq> None" using w by (simp add: wf_channels_def)
  then obtain key where key: "hm_get (channel_keys (fst y)) ch = Some key" by blast
  with w have "length key = 32" by (simp add: wf_channels_def)
  with p c key show ?thesis by blast
qed

theorem lobbies_survive_witness:
  "\<exists>x y. reachable (startup_limits sample_args) x \<and> srv_step x y \<and> lobby \<in> set (persistent (fst x)) \<and>
    hm_get (channels (fst y)) lobby \<noteq> None"
proof -
  from startup_facts [OF sample_rng_laws, of sample_args ascii_lower 0]
  obtain srv where "reachable (startup_limits sample_args) (core srv)"
    and l: "\<forall>ch. ch \<in> set (persistent (srv_state srv)) \<longleftrightarrow>
        (\<exists>raw \<in> set (arg_public_channels sample_args). startup_name ascii_lower raw ch)"
    by (auto simp: sample_args_def)
  moreover have "startup_name ascii_lower (code_points ''lobby'') lobby"
    by (simp add: startup_name_def sanitize_channel_name_def code_points_def ascii_lower_def trim_matches_def
        name_char_def config_defs lobby_def char_of_def bit_iff_odd)
  then have "lobby \<in> set (persistent (fst (core srv)))"
    using l by (auto simp: core_def sample_args_def)
  moreover have s: "srv_step (core srv) (snd (cleanup_with 0 0 9 (srv_state srv)), srv_rng srv)"
    unfolding core_def by (rule srv_step.Cleanup [OF surjective_pairing])
  ultimately show ?thesis using lobbies_survive [of _ "core srv" _ lobby] by blast
qed

end
