(* ===== verification/Invite.thy ===== *)
theory Invite
  imports Config
begin

text \<open>
  \<^verbatim>\<open>crates/shared/src/invite.rs\<close>: building and parsing \<open>tc://host:port/channel\<close>
  links. \<open>with_port\<close> is the authority both functions compute in line.
\<close>

fun str_find :: "char \<Rightarrow> string \<Rightarrow> nat option" where
  "str_find c [] = None"
| "str_find c (x # xs) = (if x = c then Some 0 else map_option Suc (str_find c xs))"

fun str_rfind :: "char \<Rightarrow> string \<Rightarrow> nat option" where
  "str_rfind c [] = None"
| "str_rfind c (x # xs) =
    (case str_rfind c xs of Some i \<Rightarrow> Some (Suc i) | None \<Rightarrow> if x = c then Some 0 else None)"

definition has_port :: "string \<Rightarrow> bool" where
  "has_port addr =
    (case str_rfind CHR '']'' addr of
       Some close \<Rightarrow> starts_with '':'' (drop (close + 1) addr)
     | None \<Rightarrow> count_list addr CHR '':'' = 1)"

definition with_port :: "string \<Rightarrow> string" where
  "with_port addr =
    (if has_port addr then addr
     else if CHR '':'' \<in> set addr \<and> \<not> starts_with ''['' addr
       then ''['' @ addr @ '']:'' @ decimal TCP_PORT
     else addr @ '':'' @ decimal TCP_PORT)"

definition invite_url :: "string \<Rightarrow> string option \<Rightarrow> string" where
  "invite_url addr channel =
    (let authority = with_port addr in
     case channel of
       Some c \<Rightarrow> if c \<noteq> [] then ''tc://'' @ authority @ ''/'' @ c else ''tc://'' @ authority
     | None \<Rightarrow> ''tc://'' @ authority)"

definition strip_prefix :: "string \<Rightarrow> string \<Rightarrow> string option" where
  "strip_prefix p s = (if starts_with p s then Some (drop (length p) s) else None)"

definition trim_slashes :: "string \<Rightarrow> string" where
  "trim_slashes s = rev (dropWhile (\<lambda>c. c = CHR ''/'') (rev (dropWhile (\<lambda>c. c = CHR ''/'') s)))"

definition parse_link :: "string \<Rightarrow> (string \<times> string option) option" where
  "parse_link raw =
    (case (case strip_prefix ''tc://'' raw of Some r \<Rightarrow> Some r | None \<Rightarrow> strip_prefix ''TC://'' raw) of
       None \<Rightarrow> None
     | Some rest \<Rightarrow>
        let (authority, path) = (case str_find CHR ''/'' rest of
            Some i \<Rightarrow> (take i rest, drop (i + 1) rest)
          | None \<Rightarrow> (rest, [])) in
        if authority = [] then None
        else let addr = with_port authority; channel = trim_slashes path
          in Some (addr, if channel = [] then None else Some channel))"

lemma str_rfind_None: "str_rfind c s = None \<longleftrightarrow> c \<notin> set s"
  by (induction s) (auto split: option.splits)

lemma str_rfind_append:
  "str_rfind c (s @ t) = (case str_rfind c t of Some i \<Rightarrow> Some (length s + i) | None \<Rightarrow> str_rfind c s)"
  by (induction s) (auto split: option.splits)

lemma str_find_append_notin: "c \<notin> set s \<Longrightarrow> str_find c (s @ c # t) = Some (length s)"
  by (induction s) auto

lemma str_find_notin: "c \<notin> set s \<Longrightarrow> str_find c s = None"
  by (induction s) auto

lemma decimal_TCP_PORT: "decimal TCP_PORT = ''7100''"
proof -
  have "char_of (48 + 7 :: nat) = CHR ''7''" "char_of (48 + 1 :: nat) = CHR ''1''" "char_of (48 :: nat) = CHR ''0''"
    by (simp_all add: char_of_def bit_iff_odd)
  then show ?thesis by (simp add: config_defs decimal.simps)
qed

text \<open>An address the program dials: a host name or an IPv4 literal, a bare IPv6 literal, or a
  bracketed one, each with or without a port.\<close>

definition dialable :: "string \<Rightarrow> bool" where
  "dialable addr \<longleftrightarrow> addr \<noteq> [] \<and> CHR ''/'' \<notin> set addr \<and>
     (if starts_with ''['' addr then last addr = CHR '']'' \<or> CHR '']'' \<in> set addr \<and> has_port addr
      else CHR '']'' \<notin> set addr)"

lemma with_port_has_port:
  assumes "dialable addr" shows "has_port (with_port addr)"
proof -
  consider "has_port addr" | "\<not> has_port addr" "CHR '':'' \<in> set addr" "\<not> starts_with ''['' addr"
    | "\<not> has_port addr" "starts_with ''['' addr" "last addr = CHR '']''" "addr \<noteq> []"
    | "\<not> has_port addr" "\<not> starts_with ''['' addr" "CHR '':'' \<notin> set addr" "CHR '']'' \<notin> set addr"
    using assms by (auto simp: dialable_def split: if_splits)
  then show ?thesis
  proof cases
    case 2
    have "str_rfind CHR '']'' (''['' @ addr @ '']:'' @ ''7100'') = Some (Suc (length addr))"
      by (simp add: str_rfind_append)
    with 2 show ?thesis by (simp add: with_port_def has_port_def decimal_TCP_PORT starts_with_def)
  next
    case 3
    then obtain a where a: "addr = a @ '']''" by (metis append_butlast_last_id)
    have "str_rfind CHR '']'' (addr @ '':'' @ ''7100'') = Some (length a)"
      by (simp add: a str_rfind_append)
    moreover have "drop (Suc (length a)) (addr @ '':'' @ ''7100'') = '':'' @ ''7100''"
      by (simp add: a)
    ultimately show ?thesis
      using 3 by (simp add: with_port_def has_port_def decimal_TCP_PORT starts_with_def)
  next
    case 4
    have "str_rfind CHR '']'' (addr @ '':'' @ ''7100'') = None"
      using 4 by (simp add: str_rfind_None)
    moreover have "count_list addr CHR '':'' = 0" using 4 by (simp add: count_list_0_iff)
    ultimately show ?thesis
      using 4 by (simp add: with_port_def has_port_def decimal_TCP_PORT)
  qed (simp add: with_port_def)
qed

lemma with_port_idem: "dialable addr \<Longrightarrow> with_port (with_port addr) = with_port addr"
  using with_port_has_port [of addr] by (simp add: with_port_def [of "with_port addr"])

lemma with_port_no_slash: "dialable addr \<Longrightarrow> CHR ''/'' \<notin> set (with_port addr) \<and> with_port addr \<noteq> []"
  by (auto simp: dialable_def with_port_def decimal_TCP_PORT)

lemma trim_slashes_id: "c = [] \<or> hd c \<noteq> CHR ''/'' \<and> last c \<noteq> CHR ''/'' \<Longrightarrow> trim_slashes c = c"
proof (cases "c = []")
  case False
  assume "c = [] \<or> hd c \<noteq> CHR ''/'' \<and> last c \<noteq> CHR ''/''"
  with False have "hd c \<noteq> CHR ''/''" and "last c \<noteq> CHR ''/''" by auto
  have "dropWhile (\<lambda>c. c = CHR ''/'') c = c"
    using False \<open>hd c \<noteq> CHR ''/''\<close> by (cases c) simp_all
  moreover have "dropWhile (\<lambda>c. c = CHR ''/'') (rev c) = rev c"
    using False \<open>last c \<noteq> CHR ''/''\<close> by (cases c rule: rev_cases) simp_all
  ultimately show ?thesis by (simp add: trim_slashes_def)
qed (simp add: trim_slashes_def)

text \<open>A link built by \<open>invite_url\<close> for an address the program dials parses back to that
  address with its port written out (the default one if it had none, a bare IPv6 literal
  bracketed) and to the channel it names; and parsing what \<open>parse_link\<close> returned changes
  nothing more.\<close>

theorem invite_roundtrip:
  assumes "dialable addr"
    and "\<forall>c. channel = Some c \<longrightarrow> c = [] \<or> hd c \<noteq> CHR ''/'' \<and> last c \<noteq> CHR ''/''"
  shows "parse_link (invite_url addr channel) =
      Some (with_port addr, if channel = Some [] then None else channel) \<and>
    has_port (with_port addr) \<and> with_port (with_port addr) = with_port addr"
proof -
  note a = with_port_no_slash [OF assms(1)] and i = with_port_idem [OF assms(1)]
  have p: "strip_prefix ''tc://'' (''tc://'' @ r) = Some r" for r
    by (simp add: strip_prefix_def starts_with_def)
  have "parse_link (invite_url addr channel) =
      Some (with_port addr, if channel = Some [] then None else channel)"
  proof (cases channel)
    case None
    then show ?thesis
      using a i p [of "with_port addr"]
      by (simp add: parse_link_def invite_url_def str_find_notin trim_slashes_def)
  next
    case (Some c)
    then have t: "trim_slashes c = c" using assms(2) by (intro trim_slashes_id) simp
    show ?thesis
    proof (cases "c = []")
      case True
      with Some a i p [of "with_port addr"] show ?thesis
        by (simp add: parse_link_def invite_url_def str_find_notin trim_slashes_def)
    next
      case False
      with Some a i t p [of "with_port addr @ ''/'' @ c"] show ?thesis
        by (simp add: parse_link_def invite_url_def str_find_append_notin)
    qed
  qed
  then show ?thesis using with_port_has_port [OF assms(1)] i by simp
qed

theorem invite_roundtrip_witness:
  "parse_link (invite_url ''::1'' (Some ''pub-room'')) = Some (with_port ''::1'', Some ''pub-room'')"
  using invite_roundtrip [of "''::1''" "Some ''pub-room''"]
  by (simp add: dialable_def starts_with_def)

end
