(* ===== verification/Tofu.thy ===== *)
theory Tofu
  imports Prelude
begin

text \<open>
  \<^verbatim>\<open>crates/client/src/tls.rs\<close>: trust on first use of the server's certificate.
  \<open>sha256\<close> is outside the repository and a parameter; the TLS handshake itself is rustls.
\<close>

definition hex_digit :: "nat \<Rightarrow> char" where
  "hex_digit d = char_of (if d < 10 then 48 + d else 87 + d)"

definition hex_byte :: "byte \<Rightarrow> string" where
  "hex_byte b = [hex_digit (unat b div 16), hex_digit (unat b mod 16)]"

definition cert_fingerprint :: "(byte list \<Rightarrow> byte list) \<Rightarrow> byte list \<Rightarrow> string" where
  "cert_fingerprint sha256 cert = ''sha256:'' @ concat (map hex_byte (sha256 cert))"

datatype tofu_result =
    TrustedNew string
  | TrustedKnown
  | Mismatch string string \<comment> \<open>expected, actual\<close>

record tofu_state =
  trusted :: "(string \<times> string) list"
  current_server :: string
  last_result :: "tofu_result option"

definition tofu_new :: "(string \<times> string) list \<Rightarrow> tofu_state" where
  "tofu_new t = \<lparr>trusted = t, current_server = [], last_result = None\<rparr>"

definition set_current_server :: "string \<Rightarrow> tofu_state \<Rightarrow> tofu_state" where
  "set_current_server addr s = s\<lparr>current_server := addr, last_result := None\<rparr>"

definition trust_server :: "string \<Rightarrow> string \<Rightarrow> tofu_state \<Rightarrow> tofu_state" where
  "trust_server addr fingerprint s = s\<lparr>trusted := hm_insert addr fingerprint (trusted s)\<rparr>"

definition remove_server :: "string \<Rightarrow> tofu_state \<Rightarrow> tofu_state" where
  "remove_server addr s = s\<lparr>trusted := hm_remove addr (trusted s)\<rparr>"

text \<open>The result is whether the certificate is accepted.\<close>

definition verify_server_cert ::
    "(byte list \<Rightarrow> byte list) \<Rightarrow> byte list \<Rightarrow> tofu_state \<Rightarrow> bool \<times> tofu_state" where
  "verify_server_cert sha256 end_entity s =
    (let fingerprint = cert_fingerprint sha256 end_entity; server = current_server s in
     case hm_get (trusted s) server of
       Some known \<Rightarrow>
        if known = fingerprint then (True, s\<lparr>last_result := Some TrustedKnown\<rparr>)
        else (True, s\<lparr>trusted := hm_insert server fingerprint (trusted s),
                      last_result := Some (Mismatch known fingerprint)\<rparr>)
     | None \<Rightarrow>
        (True, s\<lparr>trusted := hm_insert server fingerprint (trusted s),
                 last_result := Some (TrustedNew fingerprint)\<rparr>))"

definition verify_tls12_signature :: "byte list \<Rightarrow> bool" where
  "verify_tls12_signature message = True"

definition verify_tls13_signature :: "byte list \<Rightarrow> bool" where
  "verify_tls13_signature message = True"

text \<open>A connection attempt as the client makes it: name the server, then run the handshake.\<close>

definition tofu_connect ::
    "(byte list \<Rightarrow> byte list) \<Rightarrow> string \<Rightarrow> byte list \<Rightarrow> tofu_state \<Rightarrow> bool \<times> tofu_state" where
  "tofu_connect sha256 addr cert s = verify_server_cert sha256 cert (set_current_server addr s)"

lemma hex_digit_char: "d < 16 \<Longrightarrow> (of_char (hex_digit d) :: nat) = (if d < 10 then 48 + d else 87 + d)"
proof -
  assume "d < 16"
  have "(if d < 10 then 48 + d else 87 + d) mod 256 = (if d < 10 then 48 + d else 87 + d)"
    using \<open>d < 16\<close> by (auto intro: mod_less)
  then show ?thesis unfolding hex_digit_def of_char_of by simp
qed

lemma hex_digit_inj:
  assumes "d < 16" "e < 16" "hex_digit d = hex_digit e" shows "d = e"
proof -
  have "(if d < 10 then 48 + d else 87 + d) = (if e < 10 then 48 + e else 87 + e)"
    using hex_digit_char [OF assms(1)] hex_digit_char [OF assms(2)] assms(3) by simp
  then show ?thesis using assms(1,2) by (simp split: if_splits)
qed

lemma hex_byte_inj: "hex_byte a = hex_byte b \<Longrightarrow> a = b"
proof -
  assume e: "hex_byte a = hex_byte b"
  have u: "unat a < 256" "unat b < 256" using unat_lt2p [of a] unat_lt2p [of b] by simp_all
  with e have "unat a div 16 = unat b div 16" "unat a mod 16 = unat b mod 16"
    by (auto simp: hex_byte_def intro: hex_digit_inj)
  then have "unat a = unat b" by (metis div_mult_mod_eq)
  then show "a = b" by (rule word_unat_eq_iff [THEN iffD2])
qed

lemma hex_bytes_inj: "length xs = length ys \<Longrightarrow> concat (map hex_byte xs) = concat (map hex_byte ys) \<Longrightarrow> xs = ys"
proof (induction xs ys rule: list_induct2)
  case (Cons x xs y ys)
  then have "hex_byte x = hex_byte y" "concat (map hex_byte xs) = concat (map hex_byte ys)"
    by (simp_all add: hex_byte_def)
  with Cons.IH show ?case using hex_byte_inj by simp
qed simp

lemma fingerprint_inj:
  "length (sha256 a) = 32 \<Longrightarrow> length (sha256 b) = 32 \<Longrightarrow>
   cert_fingerprint sha256 a = cert_fingerprint sha256 b \<longleftrightarrow> sha256 a = sha256 b"
  using hex_bytes_inj [of "sha256 a" "sha256 b"] by (auto simp: cert_fingerprint_def)

lemma tofu_connect_eq:
  "tofu_connect sha256 addr cert s =
    (let fp = cert_fingerprint sha256 cert in
     (True, s\<lparr>current_server := addr,
        last_result := Some (case hm_get (trusted s) addr of
            None \<Rightarrow> TrustedNew fp | Some k \<Rightarrow> if k = fp then TrustedKnown else Mismatch k fp),
        trusted := if hm_get (trusted s) addr = Some fp then trusted s else hm_insert addr fp (trusted s)\<rparr>))"
  by (simp add: tofu_connect_def verify_server_cert_def set_current_server_def Let_def split: option.split)

text \<open>C14 A connection is never refused for its certificate. Whatever is stored, the certificate a server presents is
  accepted and is the one pinned for it afterwards, the pins of other servers being untouched: the first certificate is
  stored as new, the pinned one is recognised, and another one replaces the pin, which only the result kept for display
  reports. At the next connection to that server exactly the certificates with this one's digest count as known, any
  other (the one pinned before included) as a change from it.\<close>

theorem changed_certificate_accepted:
  assumes "\<And>c. length (sha256 c) = 32"
    and "tofu_connect sha256 addr cert s = (accepted, s')"
  shows "accepted \<and>
    last_result s' = Some (case hm_get (trusted s) addr of
        None \<Rightarrow> TrustedNew (cert_fingerprint sha256 cert)
      | Some pin \<Rightarrow> if pin = cert_fingerprint sha256 cert then TrustedKnown else Mismatch pin (cert_fingerprint sha256 cert)) \<and>
    hm_get (trusted s') addr = Some (cert_fingerprint sha256 cert) \<and>
    (\<forall>other. other \<noteq> addr \<longrightarrow> hm_get (trusted s') other = hm_get (trusted s) other) \<and>
    (\<forall>cert2 accepted2 s2. tofu_connect sha256 addr cert2 s' = (accepted2, s2) \<longrightarrow> accepted2 \<and>
      last_result s2 = Some (if sha256 cert2 = sha256 cert then TrustedKnown
        else Mismatch (cert_fingerprint sha256 cert) (cert_fingerprint sha256 cert2)))"
proof -
  have eq: "cert_fingerprint sha256 cert = cert_fingerprint sha256 c \<longleftrightarrow> sha256 c = sha256 cert" for c
    using fingerprint_inj [of sha256 cert c, OF assms(1) assms(1)] by (simp only: eq_commute)
  have pinned: "hm_get (trusted s') addr = Some (cert_fingerprint sha256 cert)"
    using assms(2) by (auto simp: tofu_connect_eq Let_def)
  moreover have "\<forall>cert2 accepted2 s2. tofu_connect sha256 addr cert2 s' = (accepted2, s2) \<longrightarrow> accepted2 \<and>
      last_result s2 = Some (if sha256 cert2 = sha256 cert then TrustedKnown
        else Mismatch (cert_fingerprint sha256 cert) (cert_fingerprint sha256 cert2))"
    using pinned by (auto simp: tofu_connect_eq Let_def eq)
  ultimately show ?thesis using assms(2) by (auto simp: tofu_connect_eq Let_def)
qed

text \<open>A first connection, and one after the server has changed its certificate.\<close>

theorem changed_certificate_accepted_witness:
  "\<exists>s1 s2. tofu_connect (\<lambda>c. replicate 32 (hd c)) ''h:7100'' [1] (tofu_new []) = (True, s1) \<and>
    last_result s1 = Some (TrustedNew (cert_fingerprint (\<lambda>c. replicate 32 (hd c)) [1])) \<and>
    tofu_connect (\<lambda>c. replicate 32 (hd c)) ''h:7100'' [2] s1 = (True, s2) \<and>
    last_result s2 = Some (Mismatch (cert_fingerprint (\<lambda>c. replicate 32 (hd c)) [1]) (cert_fingerprint (\<lambda>c. replicate 32 (hd c)) [2]))"
proof -
  let ?sha = "\<lambda>c :: byte list. replicate 32 (hd c)"
  obtain b s1 where c: "tofu_connect ?sha ''h:7100'' [1] (tofu_new []) = (b, s1)"
    by (cases "tofu_connect ?sha ''h:7100'' [1] (tofu_new [])")
  obtain b2 s2 where c2: "tofu_connect ?sha ''h:7100'' [2] s1 = (b2, s2)"
    by (cases "tofu_connect ?sha ''h:7100'' [2] s1")
  have "(replicate 32 2 :: byte list) \<noteq> replicate 32 1" by simp
  with changed_certificate_accepted [OF _ c] c c2 show ?thesis by (auto simp: tofu_new_def)
qed

end
