(* ===== verification/Diagnostics.thy ===== *)
theory Diagnostics
  imports Metrics
begin

text \<open>
  \<^verbatim>\<open>crates/client/src/diagnostics.rs\<close>: the client's audio glitch counters, their snapshot, the
  saturating difference of two snapshots and the question whether any defect was counted.
  Addition wraps at 64 bits.
\<close>

record audio_diagnostics =
  playback_dry :: "64 word"
  playback_trimmed_samples :: "64 word"
  playback_ring_overflow :: "64 word"
  capture_ring_overflow :: "64 word"
  plc_frames :: "64 word"
  fec_recovered :: "64 word"
  limiter_playback :: "64 word"
  limiter_capture :: "64 word"
  late_packets :: "64 word"
  accelerate_drops :: "64 word"
  expand_frames :: "64 word"
  output_starved :: "64 word"

record diagnostics_snapshot =
  d_playback_dry :: "64 word"
  d_playback_trimmed_samples :: "64 word"
  d_playback_ring_overflow :: "64 word"
  d_capture_ring_overflow :: "64 word"
  d_plc_frames :: "64 word"
  d_fec_recovered :: "64 word"
  d_limiter_playback :: "64 word"
  d_limiter_capture :: "64 word"
  d_late_packets :: "64 word"
  d_accelerate_drops :: "64 word"
  d_expand_frames :: "64 word"
  d_output_starved :: "64 word"

definition diag_new :: audio_diagnostics where
  "diag_new = \<lparr>playback_dry = 0, playback_trimmed_samples = 0, playback_ring_overflow = 0, capture_ring_overflow = 0, plc_frames = 0, fec_recovered = 0, limiter_playback = 0, limiter_capture = 0, late_packets = 0, accelerate_drops = 0, expand_frames = 0, output_starved = 0\<rparr>"

definition diag_zero :: diagnostics_snapshot where
  "diag_zero = \<lparr>d_playback_dry = 0, d_playback_trimmed_samples = 0, d_playback_ring_overflow = 0, d_capture_ring_overflow = 0, d_plc_frames = 0, d_fec_recovered = 0, d_limiter_playback = 0, d_limiter_capture = 0, d_late_packets = 0, d_accelerate_drops = 0, d_expand_frames = 0, d_output_starved = 0\<rparr>"

definition diag_snapshot :: "audio_diagnostics \<Rightarrow> diagnostics_snapshot" where
  "diag_snapshot m = \<lparr>d_playback_dry = playback_dry m,
     d_playback_trimmed_samples = playback_trimmed_samples m,
     d_playback_ring_overflow = playback_ring_overflow m,
     d_capture_ring_overflow = capture_ring_overflow m,
     d_plc_frames = plc_frames m,
     d_fec_recovered = fec_recovered m,
     d_limiter_playback = limiter_playback m,
     d_limiter_capture = limiter_capture m,
     d_late_packets = late_packets m,
     d_accelerate_drops = accelerate_drops m,
     d_expand_frames = expand_frames m,
     d_output_starved = output_starved m\<rparr>"

definition diag_delta :: "diagnostics_snapshot \<Rightarrow> diagnostics_snapshot \<Rightarrow> diagnostics_snapshot" where
  "diag_delta s earlier = \<lparr>d_playback_dry = saturating_sub (d_playback_dry s) (d_playback_dry earlier),
     d_playback_trimmed_samples = saturating_sub (d_playback_trimmed_samples s) (d_playback_trimmed_samples earlier),
     d_playback_ring_overflow = saturating_sub (d_playback_ring_overflow s) (d_playback_ring_overflow earlier),
     d_capture_ring_overflow = saturating_sub (d_capture_ring_overflow s) (d_capture_ring_overflow earlier),
     d_plc_frames = saturating_sub (d_plc_frames s) (d_plc_frames earlier),
     d_fec_recovered = saturating_sub (d_fec_recovered s) (d_fec_recovered earlier),
     d_limiter_playback = saturating_sub (d_limiter_playback s) (d_limiter_playback earlier),
     d_limiter_capture = saturating_sub (d_limiter_capture s) (d_limiter_capture earlier),
     d_late_packets = saturating_sub (d_late_packets s) (d_late_packets earlier),
     d_accelerate_drops = saturating_sub (d_accelerate_drops s) (d_accelerate_drops earlier),
     d_expand_frames = saturating_sub (d_expand_frames s) (d_expand_frames earlier),
     d_output_starved = saturating_sub (d_output_starved s) (d_output_starved earlier)\<rparr>"

definition has_glitches :: "diagnostics_snapshot \<Rightarrow> bool" where
  "has_glitches s \<longleftrightarrow> 0 < d_plc_frames s + d_fec_recovered s + d_playback_trimmed_samples s + d_playback_ring_overflow s + d_capture_ring_overflow s + d_late_packets s + d_limiter_playback s + d_limiter_capture s + d_expand_frames s + d_output_starved s"

definition is_zero :: "diagnostics_snapshot \<Rightarrow> bool" where
  "is_zero s \<longleftrightarrow> s = diag_zero"

lemma diag_delta_self: "is_zero (diag_delta s s)"
  by (simp add: is_zero_def diag_zero_def diag_delta_def saturating_sub_def)

lemma zero_no_glitches: "is_zero s \<Longrightarrow> \<not> has_glitches s"
  by (simp add: is_zero_def diag_zero_def has_glitches_def)

end
