(* ===== verification/Jitter.thy ===== *)
theory Jitter
  imports Config
begin

text \<open>
  \<^verbatim>\<open>crates/client/src/playout.rs\<close>, the per-sender jitter buffer: a ring of
  \<open>JITTER_BUF_MAX\<close> slots, a sequence number 0 marking an empty slot, and the jitter estimate that
  sizes the playout target. The abstract view (\<open>peek\<close> as a partial map from sequence numbers to
  payloads), the invariant of the ring and what each operation does to the view follow the code.
\<close>

subsection \<open>The buffer\<close>

definition FRAME_DURATION :: duration where
  "FRAME_DURATION = FRAME_SIZE * 1000000 div SAMPLE_RATE * 1000"

definition FRAME_MS :: rat where
  "FRAME_MS = f64_div (f64_mul (of_nat FRAME_SIZE) 1000) (of_nat SAMPLE_RATE)"

definition CELT_ONLY_TOC_CONFIG :: byte where "CELT_ONLY_TOC_CONFIG = 16"

definition TALKSPURT_ONSET_PACKETS :: nat where "TALKSPURT_ONSET_PACKETS = VAD_PREROLL_FRAMES + 1"

definition REANCHOR_MAX :: "32 word" where "REANCHOR_MAX = of_nat (JITTER_BUF_MAX div 2)"

definition seq_before :: "32 word \<Rightarrow> 32 word \<Rightarrow> bool" where
  "seq_before a b = (let diff = b - a in 0 < diff \<and> diff < 0x80000000)"

record jitter_buffer =
  slots :: "(32 word \<times> byte list) list"
  capacity :: nat
  next_seq :: "32 word"
  started :: bool
  provisional :: bool
  jitter_ms :: rat
  jb_reference :: "(instant \<times> 32 word) option"
  spurt_packets :: nat
  out_of_window :: nat

definition jb_new :: jitter_buffer where
  "jb_new = \<lparr>slots = replicate JITTER_BUF_MAX (0, []), capacity = JITTER_BUF_MAX, next_seq = 0,
     started = False, provisional = True, jitter_ms = 0, jb_reference = None, spurt_packets = 0,
     out_of_window = 0\<rparr>"

definition slot_of :: "jitter_buffer \<Rightarrow> 32 word \<Rightarrow> nat" where
  "slot_of jb seq = unat seq mod capacity jb"

definition jb_peek :: "32 word \<Rightarrow> jitter_buffer \<Rightarrow> byte list option" where
  "jb_peek seq jb = (let slot = slots jb ! slot_of jb seq in
     if fst slot = seq \<and> seq \<noteq> 0 then Some (snd slot) else None)"

definition reset_to :: "32 word \<Rightarrow> jitter_buffer \<Rightarrow> jitter_buffer" where
  "reset_to seq jb = jb\<lparr>next_seq := seq, provisional := True,
     slots := map (\<lambda>slot. (0, snd slot)) (slots jb), jitter_ms := 0, jb_reference := None,
     spurt_packets := 0, out_of_window := 0\<rparr>"

definition fits_from :: "32 word \<Rightarrow> jitter_buffer \<Rightarrow> bool" where
  "fits_from start jb = list_all (\<lambda>offset.
     let seq = next_seq jb + of_nat offset;
         buffered = fst (slots jb ! slot_of jb seq) = seq \<and> seq \<noteq> 0
     in \<not> buffered \<or> unat (seq - start) < capacity jb) [0..<capacity jb]"

text \<open>One step of the estimate: \<open>seq.wrapping_sub(ref_seq) as i32\<close> is the signed distance.\<close>

definition transit_difference :: "instant \<Rightarrow> 32 word \<Rightarrow> instant \<Rightarrow> 32 word \<Rightarrow> rat" where
  "transit_difference since ref_seq now seq =
    (let arrival_ms = f64_mul (as_secs_f64 (now - since)) 1000;
         seq_ms = f64_mul (of_int (sint (seq - ref_seq))) FRAME_MS
     in f64_sub arrival_ms seq_ms)"

definition ema :: "rat \<Rightarrow> rat \<Rightarrow> rat" where
  "ema j d = f64_add j (f64_div (f64_sub \<bar>d\<bar> j) 16)"

definition observe :: "32 word \<Rightarrow> instant \<Rightarrow> jitter_buffer \<Rightarrow> jitter_buffer" where
  "observe seq now jb =
    (let n = min (spurt_packets jb + 1) (2 ^ 32 - 1); jb = jb\<lparr>spurt_packets := n\<rparr> in
     if n < TALKSPURT_ONSET_PACKETS then jb
     else
       (let jb = (case jb_reference jb of
            Some (since, ref_seq) \<Rightarrow>
              jb\<lparr>jitter_ms := ema (jitter_ms jb) (transit_difference since ref_seq now seq)\<rparr>
          | None \<Rightarrow> jb)
        in jb\<lparr>jb_reference := Some (now, seq)\<rparr>))"

definition end_talkspurt :: "jitter_buffer \<Rightarrow> jitter_buffer" where
  "end_talkspurt jb = jb\<lparr>jb_reference := None, spurt_packets := 0\<rparr>"

definition store :: "32 word \<Rightarrow> byte list \<Rightarrow> instant \<Rightarrow> jitter_buffer \<Rightarrow> jitter_buffer" where
  "store seq opus_data now jb =
    (let jb = observe seq now jb in jb\<lparr>slots := (slots jb)[slot_of jb seq := (seq, opus_data)]\<rparr>)"

definition place :: "32 word \<Rightarrow> byte list \<Rightarrow> instant \<Rightarrow> jitter_buffer \<Rightarrow> jitter_buffer" where
  "place seq opus_data now jb =
    (if capacity jb \<le> unat (seq - next_seq jb) then
       (let jb = jb\<lparr>out_of_window := out_of_window jb + 1\<rparr> in
        if JITTER_RESYNC_AFTER \<le> out_of_window jb then store seq opus_data now (reset_to seq jb) else jb)
     else store seq opus_data now (jb\<lparr>out_of_window := 0\<rparr>))"

text \<open>The first component of \<open>jb_push\<close>: the packet was dropped as late.\<close>

definition jb_push :: "32 word \<Rightarrow> byte list \<Rightarrow> instant \<Rightarrow> jitter_buffer \<Rightarrow> bool \<times> jitter_buffer" where
  "jb_push seq opus_data now jb =
    (let jb = (if \<not> started jb then jb\<lparr>next_seq := seq, started := True\<rparr> else jb) in
     if seq_before seq (next_seq jb) then
       (let gap = next_seq jb - seq in
        if of_nat (capacity jb) * 2 < gap then (False, place seq opus_data now (reset_to seq jb))
        else if provisional jb \<and> gap \<le> REANCHOR_MAX \<and> fits_from seq jb
        then (False, place seq opus_data now (jb\<lparr>next_seq := seq\<rparr>))
        else (True, observe seq now jb))
     else (False, place seq opus_data now jb))"

definition skip_to_oldest :: "jitter_buffer \<Rightarrow> nat \<times> jitter_buffer" where
  "skip_to_oldest jb =
    (let skipped = (case find (\<lambda>offset. jb_peek (next_seq jb + of_nat offset) jb \<noteq> None) [0..<capacity jb] of
         Some offset \<Rightarrow> offset | None \<Rightarrow> 0);
         jb = jb\<lparr>next_seq := next_seq jb + of_nat skipped\<rparr>
     in (skipped, if 0 < skipped then jb\<lparr>provisional := False\<rparr> else jb))"

datatype pop_result = PopPacket | PopMissing | PopEmpty

definition has_future :: "jitter_buffer \<Rightarrow> bool" where
  "has_future jb = list_ex (\<lambda>offset.
     let future_seq = next_seq jb + of_nat offset; slot = slots jb ! slot_of jb future_seq
     in fst slot = future_seq \<and> fst slot \<noteq> 0) [1..<capacity jb]"

text \<open>\<open>jb_pop\<close> takes the caller's buffer and returns it: with a packet the two payload vectors
  are swapped.\<close>

definition jb_pop :: "byte list \<Rightarrow> jitter_buffer \<Rightarrow> pop_result \<times> byte list \<times> jitter_buffer" where
  "jb_pop buf jb =
    (if \<not> started jb then (PopEmpty, buf, jb)
     else
       (let idx = slot_of jb (next_seq jb); slot = slots jb ! idx in
        if fst slot = next_seq jb then
          (PopPacket, snd slot, jb\<lparr>slots := (slots jb)[idx := (0, buf)],
             next_seq := next_seq jb + 1, provisional := False\<rparr>)
        else if has_future jb then
          (PopMissing, buf, jb\<lparr>slots := (slots jb)[idx := (0, snd slot)],
             next_seq := next_seq jb + 1, provisional := False\<rparr>)
        else (PopEmpty, buf, jb)))"

definition count_buffered :: "jitter_buffer \<Rightarrow> nat" where
  "count_buffered jb = length (filter (\<lambda>offset.
     let seq = next_seq jb + of_nat offset in fst (slots jb ! slot_of jb seq) = seq \<and> seq \<noteq> 0)
     [0..<capacity jb])"

text \<open>\<open>as usize\<close> of a float saturates at 0; the ceiling is an integer below \<open>2^53\<close>.\<close>

definition target_frames :: "rat \<Rightarrow> nat" where
  "target_frames j =
    max PLAYOUT_TARGET_MIN_FRAMES (min PLAYOUT_TARGET_MAX_FRAMES
      (nat \<lceil>f64_div (f64_add (f64_mul 2 j) FRAME_MS) FRAME_MS\<rceil>))"

subsection \<open>The ring invariant\<close>

definition in_window :: "jitter_buffer \<Rightarrow> 32 word \<Rightarrow> bool" where
  "in_window jb seq \<longleftrightarrow> unat (seq - next_seq jb) < JITTER_BUF_MAX"

definition ring_ok :: "jitter_buffer \<Rightarrow> bool" where
  "ring_ok jb \<longleftrightarrow> capacity jb = JITTER_BUF_MAX \<and> length (slots jb) = JITTER_BUF_MAX \<and>
    (\<forall>i < JITTER_BUF_MAX. fst (slots jb ! i) \<noteq> 0 \<longrightarrow>
       unat (fst (slots jb ! i)) mod JITTER_BUF_MAX = i \<and> in_window jb (fst (slots jb ! i)))"

definition jb_ok :: "jitter_buffer \<Rightarrow> bool" where
  "jb_ok jb \<longleftrightarrow> ring_ok jb \<and> out_of_window jb < JITTER_RESYNC_AFTER \<and>
    0 \<le> jitter_ms jb \<and> f64 (jitter_ms jb) = jitter_ms jb \<and>
    (\<not> started jb \<longrightarrow> (\<forall>i < JITTER_BUF_MAX. fst (slots jb ! i) = 0))"

lemma buf_max [simp]: "JITTER_BUF_MAX = 15"
  by (simp add: JITTER_BUF_MAX_def)

lemma slot_bound: "ring_ok jb \<Longrightarrow> slot_of jb seq < length (slots jb)"
  by (simp add: ring_ok_def slot_of_def)

lemma word_off: "unat (s - (n + 1)) = unat (s - n) - 1" if "s \<noteq> n" for s n :: "32 word"
proof -
  have "1 \<le> s - n" using that by (simp add: word_le_nat_alt unat_gt_0 Suc_le_eq)
  then have "unat (s - n - 1) = unat (s - n) - 1" by (simp add: unat_sub)
  then show ?thesis by (simp add: diff_diff_eq)
qed

lemma word_at_off: "n + of_nat (unat (s - n)) = s" for s n :: "32 word"
  by simp

lemma off_of_nat: "k < 2 ^ 32 \<Longrightarrow> unat (n + of_nat k - n) = k" for n :: "32 word"
  by (simp add: unat_of_nat)

text \<open>With the invariant, looking a number up never finds anything outside the window.\<close>

lemma peek_in_window: "ring_ok jb \<Longrightarrow> jb_peek s jb = Some d \<Longrightarrow> in_window jb s \<and> s \<noteq> 0"
  using slot_bound [of jb s] by (auto simp: ring_ok_def jb_peek_def Let_def split: if_splits)

lemma slot_peek:
  "ring_ok jb \<Longrightarrow> i < 15 \<Longrightarrow> fst (slots jb ! i) \<noteq> 0 \<Longrightarrow>
   jb_peek (fst (slots jb ! i)) jb = Some (snd (slots jb ! i))"
  by (simp add: ring_ok_def jb_peek_def slot_of_def)

lemma ring_cases:
  assumes "ring_ok jb" and "i < 15"
  shows "fst (slots jb ! i) = 0 \<or> unat (fst (slots jb ! i)) mod 15 = i \<and> in_window jb (fst (slots jb ! i))"
  using assms by (auto simp: ring_ok_def)

subsection \<open>The estimate\<close>

lemma ema_nonneg:
  assumes "0 \<le> j" and "f64 j = j"
  shows "0 \<le> ema j d" and "f64 (ema j d) = ema j d"
proof -
  have "f64 (- j) \<le> f64 (\<bar>d\<bar> - j)" by (rule fl_mono) simp_all
  then have "- j \<le> f64_sub \<bar>d\<bar> j" using assms(2) by (simp add: f64_sub_def fl_minus)
  then have "f64 (- (j / 16)) \<le> f64_div (f64_sub \<bar>d\<bar> j) 16"
    unfolding f64_div_def by (intro fl_mono) (simp_all add: field_simps)
  moreover have "f64 (j / 16) \<le> f64 j" by (rule fl_mono) (use assms(1) in simp_all)
  ultimately have "- j \<le> f64_div (f64_sub \<bar>d\<bar> j) 16" using assms(2) by (simp add: fl_minus)
  then show "0 \<le> ema j d" by (simp add: ema_def f64_add_def fl_nonneg)
  show "f64 (ema j d) = ema j d" by (simp add: ema_def f64_add_def fl_idem)
qed

lemma observe_fields [simp]:
  "slots (observe s t jb) = slots jb" "capacity (observe s t jb) = capacity jb"
  "next_seq (observe s t jb) = next_seq jb" "started (observe s t jb) = started jb"
  "provisional (observe s t jb) = provisional jb" "out_of_window (observe s t jb) = out_of_window jb"
  by (simp_all add: observe_def Let_def split: option.split)

lemma observe_jitter:
  "0 \<le> jitter_ms jb \<Longrightarrow> f64 (jitter_ms jb) = jitter_ms jb \<Longrightarrow>
   0 \<le> jitter_ms (observe s t jb) \<and> f64 (jitter_ms (observe s t jb)) = jitter_ms (observe s t jb)"
  by (auto simp: observe_def Let_def ema_nonneg split: option.split)

lemma target_frames_bounds: "PLAYOUT_TARGET_MIN_FRAMES \<le> target_frames j \<and> target_frames j \<le> PLAYOUT_TARGET_MAX_FRAMES"
  by (simp add: target_frames_def config_defs)

lemma FRAME_MS_eq: "FRAME_MS = 20"
proof -
  have "f64 960000 = 960000" "f64 20 = 20"
    using fl_of_nat [of 960000 53] fl_of_nat [of 20 53] by simp_all
  then show ?thesis by (simp add: FRAME_MS_def f64_div_def f64_mul_def config_defs)
qed

lemma target_frames_mono: "i \<le> j \<Longrightarrow> target_frames i \<le> target_frames j"
proof -
  assume "i \<le> j"
  then have "f64_mul 2 i \<le> f64_mul 2 j" by (simp add: f64_mul_def fl_mono)
  then have "f64_add (f64_mul 2 i) FRAME_MS \<le> f64_add (f64_mul 2 j) FRAME_MS"
    by (simp add: f64_add_def fl_mono)
  then have "f64_div (f64_add (f64_mul 2 i) FRAME_MS) FRAME_MS \<le> f64_div (f64_add (f64_mul 2 j) FRAME_MS) FRAME_MS"
    by (simp add: f64_div_def fl_mono FRAME_MS_eq divide_right_mono)
  then have "nat \<lceil>f64_div (f64_add (f64_mul 2 i) FRAME_MS) FRAME_MS\<rceil> \<le>
    nat \<lceil>f64_div (f64_add (f64_mul 2 j) FRAME_MS) FRAME_MS\<rceil>"
    by (intro nat_mono ceiling_mono)
  then show ?thesis unfolding target_frames_def by (intro max.mono min.mono) simp_all
qed

subsection \<open>Every operation keeps the invariant\<close>

lemma ring_okI:
  assumes "capacity jb = 15" "length (slots jb) = 15"
    and "\<And>i. i < 15 \<Longrightarrow> fst (slots jb ! i) \<noteq> 0 \<Longrightarrow>
      unat (fst (slots jb ! i)) mod 15 = i \<and> in_window jb (fst (slots jb ! i))"
  shows "ring_ok jb"
  using assms by (simp add: ring_ok_def)

lemma ring_okD: "ring_ok jb \<Longrightarrow> capacity jb = 15 \<and> length (slots jb) = 15"
  by (simp add: ring_ok_def)

lemma ring_cong:
  assumes "ring_ok jb" "slots jb' = slots jb" "capacity jb' = capacity jb" "next_seq jb' = next_seq jb"
  shows "ring_ok jb'"
  using assms by (simp add: ring_ok_def in_window_def)

lemma peek_cong:
  "slots jb' = slots jb \<Longrightarrow> capacity jb' = capacity jb \<Longrightarrow> jb_peek s jb' = jb_peek s jb"
  by (simp add: jb_peek_def slot_of_def)

lemma reset_ring: "ring_ok jb \<Longrightarrow> ring_ok (reset_to s jb)"
  by (auto intro!: ring_okI dest: ring_okD simp: reset_to_def)

lemma reset_peek: "ring_ok jb \<Longrightarrow> jb_peek s (reset_to n jb) = None"
  using slot_bound [of jb s] by (simp add: jb_peek_def reset_to_def slot_of_def Let_def)

lemma store_ring:
  assumes "ring_ok jb" and "in_window jb s"
  shows "ring_ok (store s d t jb)"
proof (rule ring_okI)
  fix i assume i: "i < 15" and nz: "fst (slots (store s d t jb) ! i) \<noteq> 0"
  show "unat (fst (slots (store s d t jb) ! i)) mod 15 = i \<and>
    in_window (store s d t jb) (fst (slots (store s d t jb) ! i))"
    using ring_okD [OF assms(1)] ring_cases [OF assms(1) i] assms(2) i nz
    by (cases "i = slot_of jb s") (auto simp: store_def Let_def slot_of_def in_window_def)
qed (use ring_okD [OF assms(1)] in \<open>simp_all add: store_def Let_def\<close>)

lemma store_peek:
  assumes "ring_ok jb"
  shows "jb_peek x (store s d t jb) =
    (if x = s \<and> s \<noteq> 0 then Some d else if slot_of jb x = slot_of jb s then None else jb_peek x jb)"
  using slot_bound [OF assms, of s] by (auto simp: jb_peek_def store_def Let_def slot_of_def)

lemma store_fields [simp]:
  "next_seq (store s d t jb) = next_seq jb" "started (store s d t jb) = started jb"
  "capacity (store s d t jb) = capacity jb" "provisional (store s d t jb) = provisional jb"
  "out_of_window (store s d t jb) = out_of_window jb"
  by (simp_all add: store_def Let_def)

lemma store_jitter:
  "0 \<le> jitter_ms jb \<Longrightarrow> f64 (jitter_ms jb) = jitter_ms jb \<Longrightarrow>
   0 \<le> jitter_ms (store s d t jb) \<and> f64 (jitter_ms (store s d t jb)) = jitter_ms (store s d t jb)"
  using observe_jitter [of jb s t] by (simp add: store_def Let_def)

lemma place_ok:
  assumes "jb_ok jb" and "started jb"
  shows "jb_ok (place s d t jb) \<and> started (place s d t jb)"
proof (cases "15 \<le> unat (s - next_seq jb)")
  case True
  have r: "ring_ok jb" using assms(1) by (simp add: jb_ok_def)
  have "ring_ok (reset_to s (jb\<lparr>out_of_window := out_of_window jb + 1\<rparr>))"
    by (rule reset_ring, rule ring_cong [OF r]) simp_all
  then have "ring_ok (store s d t (reset_to s (jb\<lparr>out_of_window := out_of_window jb + 1\<rparr>)))"
    by (rule store_ring) (simp add: in_window_def reset_to_def)
  moreover have "ring_ok (jb\<lparr>out_of_window := out_of_window jb + 1\<rparr>)" by (rule ring_cong [OF r]) simp_all
  moreover have "capacity jb = 15" using ring_okD [OF r] ..
  ultimately show ?thesis
    using True assms
      store_jitter [of "reset_to s (jb\<lparr>out_of_window := out_of_window jb + 1\<rparr>)" s d t]
    by (auto simp: place_def Let_def jb_ok_def reset_to_def JITTER_RESYNC_AFTER_def)
next
  case False
  have r: "ring_ok (jb\<lparr>out_of_window := 0\<rparr>)"
    by (rule ring_cong [of jb]) (use assms(1) in \<open>simp_all add: jb_ok_def\<close>)
  then have "ring_ok (store s d t (jb\<lparr>out_of_window := 0\<rparr>))"
    by (rule store_ring) (use False in \<open>simp add: in_window_def\<close>)
  moreover have "capacity jb = 15" using ring_okD [OF r] by simp
  ultimately show ?thesis
    using False assms store_jitter [of "jb\<lparr>out_of_window := 0\<rparr>" s d t]
    by (auto simp: place_def Let_def jb_ok_def JITTER_RESYNC_AFTER_def)
qed

lemma jb_new_ok: "jb_ok jb_new"
  by (simp add: jb_ok_def ring_ok_def jb_new_def JITTER_RESYNC_AFTER_def)

text \<open>A window that may start earlier still holds everything that is buffered.\<close>

lemma fits_fromD:
  assumes "ring_ok jb" and "fits_from start jb" and "i < 15" and "fst (slots jb ! i) \<noteq> 0"
  shows "unat (fst (slots jb ! i) - start) < 15"
proof -
  let ?s = "fst (slots jb ! i)"
  from ring_cases [OF assms(1,3)] assms(4) have m: "unat ?s mod 15 = i" and w: "in_window jb ?s" by auto
  have c: "capacity jb = 15" using ring_okD [OF assms(1)] ..
  let ?o = "unat (?s - next_seq jb)"
  have "?o < 15" using w by (simp add: in_window_def)
  then have "?o \<in> set [0..<capacity jb]" using c by simp
  with assms(2) have "let seq = next_seq jb + of_nat ?o; buffered = fst (slots jb ! slot_of jb seq) = seq \<and> seq \<noteq> 0
      in \<not> buffered \<or> unat (seq - start) < capacity jb"
    unfolding fits_from_def list_all_iff by (rule bspec)
  then show ?thesis using m c assms(4) by (simp add: Let_def slot_of_def)
qed

lemma reanchor_ring:
  assumes "ring_ok jb" and "fits_from s jb"
  shows "ring_ok (jb\<lparr>next_seq := s\<rparr>)"
proof (rule ring_okI)
  fix i assume i: "i < 15" and nz: "fst (slots (jb\<lparr>next_seq := s\<rparr>) ! i) \<noteq> 0"
  then show "unat (fst (slots (jb\<lparr>next_seq := s\<rparr>) ! i)) mod 15 = i \<and>
    in_window (jb\<lparr>next_seq := s\<rparr>) (fst (slots (jb\<lparr>next_seq := s\<rparr>) ! i))"
    using ring_cases [OF assms(1) i] fits_fromD [OF assms i] by (simp add: in_window_def)
qed (use ring_okD [OF assms(1)] in simp_all)

lemma jb_ok_ring: "jb_ok jb \<Longrightarrow> ring_ok jb"
  by (simp add: jb_ok_def)

lemma start_ok: "jb_ok jb \<Longrightarrow> jb_ok (if \<not> started jb then jb\<lparr>next_seq := s, started := True\<rparr> else jb)"
  by (auto simp: jb_ok_def ring_ok_def)

lemma reset_ok: "jb_ok jb \<Longrightarrow> jb_ok (reset_to s jb)"
  using reset_ring [of jb s] by (auto simp: jb_ok_def reset_to_def JITTER_RESYNC_AFTER_def dest: ring_okD)

lemma reanchor_ok: "jb_ok jb \<Longrightarrow> fits_from s jb \<Longrightarrow> jb_ok (jb\<lparr>next_seq := s\<rparr>)"
  using reanchor_ring [of jb s] by (simp add: jb_ok_def)

lemma observe_ok: "jb_ok jb \<Longrightarrow> jb_ok (observe s t jb)"
  using ring_cong [of jb "observe s t jb"] observe_jitter [of jb s t] by (simp add: jb_ok_def)

lemma started_reset [simp]: "started (reset_to s jb) = started jb"
  by (simp add: reset_to_def)

lemma push_ok: "jb_ok jb \<Longrightarrow> jb_ok (snd (jb_push s d t jb)) \<and> started (snd (jb_push s d t jb))"
proof -
  assume ok: "jb_ok jb"
  define j where "j = (if \<not> started jb then jb\<lparr>next_seq := s, started := True\<rparr> else jb)"
  have j: "jb_ok j" "started j" using start_ok [OF ok, of s] by (simp_all add: j_def)
  have "jb_push s d t jb = (if seq_before s (next_seq j) then
       if of_nat (capacity j) * 2 < next_seq j - s then (False, place s d t (reset_to s j))
       else if provisional j \<and> next_seq j - s \<le> REANCHOR_MAX \<and> fits_from s j
       then (False, place s d t (j\<lparr>next_seq := s\<rparr>)) else (True, observe s t j)
     else (False, place s d t j))"
    by (simp add: jb_push_def j_def Let_def)
  then show ?thesis
    using j place_ok [OF j] place_ok [OF reset_ok [OF j(1)], of s] observe_ok [OF j(1)]
      place_ok [OF reanchor_ok [OF j(1)], of s]
    by auto
qed

lemma end_talkspurt_ok: "jb_ok jb \<Longrightarrow> jb_ok (end_talkspurt jb)"
  using ring_cong [of jb "end_talkspurt jb"] by (simp add: jb_ok_def end_talkspurt_def)

lemma unat_sub_of_nat: "k \<le> unat x \<Longrightarrow> unat (x - of_nat k) = unat x - k" for x :: "32 word"
proof -
  assume k: "k \<le> unat x"
  then have "k < 2 ^ 32" using unat_lt2p [of x] by simp
  then have "of_nat k \<le> x" using k by (simp add: word_le_nat_alt unat_of_nat)
  then show "unat (x - of_nat k) = unat x - k" using \<open>k < 2 ^ 32\<close> by (simp add: unat_sub unat_of_nat)
qed

lemma off_add: "k \<le> unat (s - n) \<Longrightarrow> unat (s - (n + of_nat k)) = unat (s - n) - k" for s n :: "32 word"
  using unat_sub_of_nat [of k "s - n"] by (simp add: diff_diff_eq)

lemma skip_least:
  assumes "ring_ok jb" and "skip_to_oldest jb = (k, jb')" and "jb_peek s jb = Some d"
  shows "k \<le> unat (s - next_seq jb)"
proof (rule ccontr)
  let ?P = "\<lambda>offset. jb_peek (next_seq jb + of_nat offset) jb \<noteq> None"
  let ?o = "unat (s - next_seq jb)"
  assume "\<not> k \<le> ?o"
  moreover have "?P ?o" using assms(3) by simp
  moreover have "find ?P [0..<capacity jb] = Some k"
    using assms(2) \<open>\<not> k \<le> ?o\<close> by (auto simp: skip_to_oldest_def Let_def split: option.splits)
  then have "\<not> ?P ?o" using \<open>\<not> k \<le> ?o\<close>
    unfolding find_Some_iff by (metis add.left_neutral length_upt nth_upt not_le order_less_trans diff_zero)
  ultimately show False by blast
qed

lemma skip_eq:
  "skip_to_oldest jb = (k, jb') \<Longrightarrow> jb' = jb\<lparr>next_seq := next_seq jb + of_nat k, provisional := provisional jb'\<rparr>"
  by (auto simp: skip_to_oldest_def Let_def)

lemma skip_ok: "jb_ok jb \<Longrightarrow> skip_to_oldest jb = (k, jb') \<Longrightarrow> jb_ok jb'"
proof -
  assume ok: "jb_ok jb" and e: "skip_to_oldest jb = (k, jb')"
  note r = jb_ok_ring [OF ok]
  note eq = skip_eq [OF e]
  have f: "slots jb' = slots jb" "capacity jb' = capacity jb" "next_seq jb' = next_seq jb + of_nat k"
    by (simp_all add: arg_cong [OF eq, of slots] arg_cong [OF eq, of capacity] arg_cong [OF eq, of next_seq])
  have "ring_ok jb'"
  proof (rule ring_okI)
    fix i assume i: "i < 15" and nz: "fst (slots jb' ! i) \<noteq> 0"
    then have "jb_peek (fst (slots jb ! i)) jb = Some (snd (slots jb ! i))"
      using slot_peek [OF r i] f by simp
    from skip_least [OF r e this] have "k \<le> unat (fst (slots jb ! i) - next_seq jb)" .
    then show "unat (fst (slots jb' ! i)) mod 15 = i \<and> in_window jb' (fst (slots jb' ! i))"
      using ring_cases [OF r i] nz f
      by (auto simp: in_window_def off_add intro: le_less_trans [OF diff_le_self])
  qed (use ring_okD [OF r] f in simp_all)
  then show "jb_ok jb'" using ok by (subst eq) (subst (asm) eq, simp add: jb_ok_def)
qed

lemma consume_ring:
  assumes "ring_ok jb"
  shows "ring_ok (jb\<lparr>slots := (slots jb)[slot_of jb (next_seq jb) := (0, b)],
    next_seq := next_seq jb + 1, provisional := p\<rparr>)" (is "ring_ok ?j")
proof (rule ring_okI)
  fix i assume i: "i < 15" and nz: "fst (slots ?j ! i) \<noteq> 0"
  have ne: "i \<noteq> slot_of jb (next_seq jb)" using nz ring_okD [OF assms] i by auto
  then have f: "fst (slots ?j ! i) = fst (slots jb ! i)" by simp
  with nz have "unat (fst (slots jb ! i)) mod 15 = i" "in_window jb (fst (slots jb ! i))"
    using ring_cases [OF assms i] by auto
  moreover from this(1) ne have "fst (slots jb ! i) \<noteq> next_seq jb"
    using ring_okD [OF assms] by (auto simp: slot_of_def)
  ultimately show "unat (fst (slots ?j ! i)) mod 15 = i \<and> in_window ?j (fst (slots ?j ! i))"
    using f word_off [of "fst (slots jb ! i)" "next_seq jb"] by (simp add: in_window_def)
qed (use ring_okD [OF assms] in simp_all)

lemma pop_ok: "jb_ok jb \<Longrightarrow> jb_pop buf jb = (res, out, jb') \<Longrightarrow> jb_ok jb' \<and> started jb' = started jb"
  using consume_ring [of jb]
  by (auto simp: jb_pop_def Let_def jb_ok_def split: if_splits)

subsection \<open>Runs of the buffer\<close>

datatype jb_op = Push "32 word" "byte list" instant | Pop | Skip | EndTalkspurt

fun jb_step :: "jb_op \<Rightarrow> jitter_buffer \<Rightarrow> jitter_buffer" where
  "jb_step (Push s d t) jb = snd (jb_push s d t jb)"
| "jb_step Pop jb = snd (snd (jb_pop [] jb))"
| "jb_step Skip jb = snd (skip_to_oldest jb)"
| "jb_step EndTalkspurt jb = end_talkspurt jb"

lemma step_ok: "jb_ok jb \<Longrightarrow> jb_ok (jb_step x jb)"
proof (cases x)
  case Pop
  assume "jb_ok jb"
  then have "jb_ok (snd (snd (jb_pop [] jb)))" using pop_ok [of jb "[]"] by (metis prod.collapse)
  with Pop show ?thesis by simp
next
  case Skip
  assume "jb_ok jb"
  then have "jb_ok (snd (skip_to_oldest jb))" using skip_ok [of jb] by (metis prod.collapse)
  with Skip show ?thesis by simp
qed (simp_all add: end_talkspurt_ok push_ok)

lemma run_ok: "jb_ok jb \<Longrightarrow> jb_ok (fold jb_step ops jb)"
  by (induction ops arbitrary: jb) (simp_all add: step_ok)

subsection \<open>The view: a map from sequence numbers to payloads\<close>

text \<open>Away from the wrap of the 32-bit counter the slots of a window are all different.\<close>

definition no_wrap :: "jitter_buffer \<Rightarrow> bool" where
  "no_wrap jb \<longleftrightarrow> 0 < unat (next_seq jb) \<and> unat (next_seq jb) + JITTER_BUF_MAX \<le> 2 ^ 32"

lemma unat_add_no_wrap: "unat a + unat b < 2 ^ 32 \<Longrightarrow> unat (a + b) = unat a + unat b" for a b :: "32 word"
  by (simp add: unat_word_ariths)

lemma unat_uminus: "x \<noteq> 0 \<Longrightarrow> unat (- x) = 2 ^ 32 - unat x" for x :: "32 word"
  using unat_sub_if' [of 0 x] by (auto simp: word_le_nat_alt unat_gt_0)

lemma mod_window_le:
  "(n + a) mod 15 = (n + b) mod 15 \<Longrightarrow> a < 15 \<Longrightarrow> b < 15 \<Longrightarrow> a \<le> b \<Longrightarrow> a = (b :: nat)"
  using mod_eq_dvd_iff_nat [of "n + a" "n + b" 15] dvd_imp_le [of 15 "b - a"]
  by (cases "b - a = 0") auto

lemma mod_window: "(n + a) mod 15 = (n + b) mod 15 \<Longrightarrow> a < 15 \<Longrightarrow> b < 15 \<Longrightarrow> a = (b :: nat)"
  using mod_window_le [of n a b] mod_window_le [of n b a] by (metis nle_le)

lemma unat_window:
  assumes "no_wrap jb" and "in_window jb s"
  shows "unat s = unat (next_seq jb) + unat (s - next_seq jb)" and "s \<noteq> 0"
proof -
  have "unat (next_seq jb + (s - next_seq jb)) = unat (next_seq jb) + unat (s - next_seq jb)"
    by (rule unat_add_no_wrap) (use assms in \<open>unfold no_wrap_def in_window_def buf_max, linarith\<close>)
  then show e: "unat s = unat (next_seq jb) + unat (s - next_seq jb)" by simp
  with assms(1) show "s \<noteq> 0" by (auto simp: no_wrap_def)
qed

lemma window_slots_inj:
  assumes "ring_ok jb" "no_wrap jb" "in_window jb x" "in_window jb y" "slot_of jb x = slot_of jb y"
  shows "x = y"
proof -
  have c: "capacity jb = 15" using ring_okD [OF assms(1)] ..
  let ?n = "unat (next_seq jb)" and ?a = "unat (x - next_seq jb)" and ?b = "unat (y - next_seq jb)"
  have e: "(?n + ?a) mod 15 = (?n + ?b) mod 15"
    using assms(5) c unat_window(1) [OF assms(2,3)] unat_window(1) [OF assms(2,4)] by (simp add: slot_of_def)
  have ab: "?a < 15" "?b < 15" using assms(3,4) by (simp_all add: in_window_def)
  have "?a = ?b" by (rule mod_window [OF e ab])
  then have "x - next_seq jb = y - next_seq jb" by (rule word_unat_eq_iff [THEN iffD2])
  then show ?thesis by simp
qed

lemma not_before: "unat (s - n) < 15 \<Longrightarrow> \<not> seq_before s n" for s n :: "32 word"
proof -
  assume a: "unat (s - n) < 15"
  have e: "n - s = - (s - n)" by simp
  show "\<not> seq_before s n"
  proof (cases "s - n = 0")
    case False
    then have "unat (n - s) = 2 ^ 32 - unat (s - n)" unfolding e by (rule unat_uminus)
    with a show ?thesis by (simp add: seq_before_def Let_def word_less_nat_alt)
  qed (simp add: seq_before_def)
qed

lemma place_stores:
  assumes "ring_ok jb" and "in_window jb s"
  shows "place s d t jb = store s d t (jb\<lparr>out_of_window := 0\<rparr>)"
  using assms ring_okD [OF assms(1)] by (simp add: place_def in_window_def)

lemma peek_stored: "ring_ok jb \<Longrightarrow> s \<noteq> 0 \<Longrightarrow> jb_peek s (store s d t jb) = Some d"
  by (simp add: store_peek)

lemma push_in_window:
  assumes "ring_ok jb" "started jb" "in_window jb s"
  shows "jb_push s d t jb = (False, store s d t (jb\<lparr>out_of_window := 0\<rparr>))"
  using assms not_before [of s "next_seq jb"] place_stores [OF assms(1,3)]
  by (simp add: jb_push_def in_window_def)

lemma push_view:
  assumes "ring_ok jb" "started jb" "no_wrap jb" "in_window jb s" and "jb_push s d t jb = (late, jb')"
  shows "\<not> late \<and> next_seq jb' = next_seq jb \<and> started jb' \<and> ring_ok jb' \<and>
    (\<forall>x. jb_peek x jb' = (if x = s then Some d else jb_peek x jb))"
proof -
  let ?j = "jb\<lparr>out_of_window := 0\<rparr>"
  have r: "ring_ok ?j" by (rule ring_cong [OF assms(1)]) simp_all
  have e: "late = False" "jb' = store s d t ?j"
    using push_in_window [OF assms(1,2,4)] assms(5) by simp_all
  have "ring_ok jb'" unfolding e by (rule store_ring [OF r]) (use assms(4) in \<open>simp add: in_window_def\<close>)
  moreover have "jb_peek x jb' = (if x = s then Some d else jb_peek x jb)" for x
  proof (cases "x \<noteq> s \<and> slot_of jb x = slot_of jb s")
    case True
    then have "\<not> in_window jb x" using window_slots_inj [OF assms(1,3) _ assms(4)] by auto
    then have "jb_peek x jb = None" using peek_in_window [OF assms(1)] by fastforce
    with True show ?thesis unfolding e store_peek [OF r] by (simp add: slot_of_def)
  next
    case False
    have "jb_peek x ?j = jb_peek x jb" by (rule peek_cong) simp_all
    with False show ?thesis
      unfolding e store_peek [OF r] using unat_window(2) [OF assms(3,4)] by (auto simp: slot_of_def)
  qed
  ultimately show ?thesis using e assms(2) by simp
qed

lemma has_future_iff:
  assumes "ring_ok jb"
  shows "has_future jb \<longleftrightarrow> (\<exists>x. x \<noteq> next_seq jb \<and> jb_peek x jb \<noteq> None)"
proof
  assume "has_future jb"
  then obtain k where k: "1 \<le> k" "k < 15" "fst (slots jb ! slot_of jb (next_seq jb + of_nat k)) = next_seq jb + of_nat k"
    "next_seq jb + of_nat k \<noteq> 0"
    using ring_okD [OF assms] by (auto simp: has_future_def list_ex_iff Let_def)
  have "unat (of_nat k :: 32 word) = k" using k(2) by (simp add: unat_of_nat)
  then have "of_nat k \<noteq> (0 :: 32 word)" using k(1) by (metis not_one_le_zero unat_0)
  then have "next_seq jb + of_nat k \<noteq> next_seq jb" by simp
  moreover have "jb_peek (next_seq jb + of_nat k) jb \<noteq> None" using k(3,4) by (simp add: jb_peek_def)
  ultimately show "\<exists>x. x \<noteq> next_seq jb \<and> jb_peek x jb \<noteq> None" by blast
next
  assume "\<exists>x. x \<noteq> next_seq jb \<and> jb_peek x jb \<noteq> None"
  then obtain x d where x: "x \<noteq> next_seq jb" "jb_peek x jb = Some d" by blast
  let ?k = "unat (x - next_seq jb)"
  have "?k < 15" "x \<noteq> 0" using peek_in_window [OF assms x(2)] by (simp_all add: in_window_def)
  moreover have "1 \<le> ?k" using x(1) by (simp add: Suc_le_eq unat_gt_0)
  ultimately have "?k \<in> set [1..<capacity jb]" using ring_okD [OF assms] by simp
  moreover have "fst (slots jb ! slot_of jb x) = x \<and> x \<noteq> 0"
    using x(2) by (auto simp: jb_peek_def Let_def split: if_splits)
  ultimately show "has_future jb" by (auto simp: has_future_def list_ex_iff Let_def intro!: bexI [of _ ?k])
qed

lemma consume_peek:
  assumes "ring_ok jb" "no_wrap jb"
  shows "jb_peek x (jb\<lparr>slots := (slots jb)[slot_of jb (next_seq jb) := (0, b)],
      next_seq := next_seq jb + 1, provisional := p\<rparr>) =
    (if x = next_seq jb then None else jb_peek x jb)"
proof (cases "slot_of jb x = slot_of jb (next_seq jb) \<and> x \<noteq> next_seq jb")
  case True
  moreover have "in_window jb (next_seq jb)" by (simp add: in_window_def)
  ultimately have "\<not> in_window jb x" using window_slots_inj [OF assms, of x "next_seq jb"] by auto
  then have "jb_peek x jb = None" using peek_in_window [OF assms(1)] by fastforce
  with True show ?thesis using slot_bound [OF assms(1)] by (auto simp: jb_peek_def slot_of_def Let_def)
next
  case False
  then show ?thesis using slot_bound [OF assms(1)] by (auto simp: jb_peek_def slot_of_def Let_def)
qed

text \<open>A pop as the view sees it.\<close>

lemma pop_view:
  assumes "ring_ok jb" "started jb" "no_wrap jb"
  shows "case jb_peek (next_seq jb) jb of
      Some d \<Rightarrow> \<exists>jb'. jb_pop buf jb = (PopPacket, d, jb') \<and> next_seq jb' = next_seq jb + 1 \<and> started jb' \<and>
        ring_ok jb' \<and> (\<forall>x. jb_peek x jb' = (if x = next_seq jb then None else jb_peek x jb))
    | None \<Rightarrow>
        if \<exists>x. jb_peek x jb \<noteq> None then
          \<exists>jb'. jb_pop buf jb = (PopMissing, buf, jb') \<and> next_seq jb' = next_seq jb + 1 \<and> started jb' \<and>
            ring_ok jb' \<and> (\<forall>x. jb_peek x jb' = jb_peek x jb)
        else jb_pop buf jb = (PopEmpty, buf, jb)"
proof (cases "jb_peek (next_seq jb) jb")
  case None
  have n0: "next_seq jb \<noteq> 0" using assms(3) by (auto simp: no_wrap_def)
  then have ne: "fst (slots jb ! slot_of jb (next_seq jb)) \<noteq> next_seq jb"
    using None by (auto simp: jb_peek_def Let_def split: if_splits)
  have hf: "has_future jb \<longleftrightarrow> (\<exists>x. jb_peek x jb \<noteq> None)"
    unfolding has_future_iff [OF assms(1)] using None by metis
  show ?thesis
    using None ne assms(2) consume_ring [OF assms(1)] consume_peek [OF assms(1,3)]
    by (auto simp: jb_pop_def Let_def hf simp del: not_None_eq)
next
  case (Some d)
  then have "fst (slots jb ! slot_of jb (next_seq jb)) = next_seq jb" "snd (slots jb ! slot_of jb (next_seq jb)) = d"
    by (auto simp: jb_peek_def Let_def split: if_splits)
  then show ?thesis
    using Some assms(2) consume_ring [OF assms(1)] consume_peek [OF assms(1,3)]
    by (auto simp: jb_pop_def Let_def)
qed

subsection \<open>Feeding and draining\<close>

definition feed :: "(32 word \<times> byte list \<times> instant) list \<Rightarrow> jitter_buffer \<Rightarrow> jitter_buffer" where
  "feed ps jb = fold (\<lambda>(s, d, t) jb. snd (jb_push s d t jb)) ps jb"

lemma feed_simps [simp]:
  "feed [] jb = jb" "feed ((s, d, t) # ps) jb = feed ps (snd (jb_push s d t jb))"
  by (simp_all add: feed_def)

lemma feed_ok: "jb_ok jb \<Longrightarrow> jb_ok (feed ps jb)"
  by (induction ps arbitrary: jb) (auto simp: push_ok)

text \<open>At most \<open>k\<close> pops, ending at the first empty one: a payload or a loss per sequence number.\<close>

fun played :: "nat \<Rightarrow> byte list \<Rightarrow> jitter_buffer \<Rightarrow> byte list option list" where
  "played 0 buf jb = []"
| "played (Suc k) buf jb = (case jb_pop buf jb of
      (PopPacket, out, jb') \<Rightarrow> Some out # played k out jb'
    | (PopMissing, out, jb') \<Rightarrow> None # played k out jb'
    | (PopEmpty, out, jb') \<Rightarrow> [])"

lemma feed_view:
  assumes "ring_ok jb" "started jb" "no_wrap jb"
    and "\<And>s d t. (s, d, t) \<in> set ps \<Longrightarrow> in_window jb s \<and> d = payload s"
  shows "ring_ok (feed ps jb) \<and> started (feed ps jb) \<and> next_seq (feed ps jb) = next_seq jb \<and>
    (\<forall>x. jb_peek x (feed ps jb) = (if x \<in> fst ` set ps then Some (payload x) else jb_peek x jb))"
  using assms
proof (induction ps arbitrary: jb)
  case (Cons p ps)
  obtain s d t where p: "p = (s, d, t)" by (cases p)
  obtain late j where j: "jb_push s d t jb = (late, j)" by (cases "jb_push s d t jb")
  have sw: "in_window jb s" "d = payload s" using Cons.prems(4) [of s d t] p by simp_all
  note v = push_view [OF Cons.prems(1,2,3) sw(1) j]
  have "ring_ok (feed ps j) \<and> started (feed ps j) \<and> next_seq (feed ps j) = next_seq j \<and>
    (\<forall>x. jb_peek x (feed ps j) = (if x \<in> fst ` set ps then Some (payload x) else jb_peek x j))"
  proof (rule Cons.IH)
    show "in_window j s' \<and> d' = payload s'" if "(s', d', t') \<in> set ps" for s' d' t'
      using Cons.prems(4) [of s' d' t'] that v by (simp add: in_window_def)
  qed (use v Cons.prems(3) in \<open>simp_all add: no_wrap_def\<close>)
  with v j p sw show ?case by auto
qed simp

lemma shift_map: "map (\<lambda>i. V (n + of_nat i)) [0..<Suc m] = V n # map (\<lambda>i. V (n + 1 + of_nat i)) [0..<m]"
  for n :: "32 word"
  by (simp add: map_upt_Suc add.assoc add.commute [of 1] del: upt_Suc)

lemma played_view:
  assumes "ring_ok jb" "started jb" "0 < unat (next_seq jb)" "unat (next_seq jb) + 15 + k \<le> 2 ^ 32"
    and "\<And>x. jb_peek x jb = V x" "\<And>x. V x \<noteq> None \<Longrightarrow> unat (x - next_seq jb) < m"
    and "m \<le> k" "m = 0 \<or> V (next_seq jb + of_nat (m - 1)) \<noteq> None"
  shows "played k buf jb = map (\<lambda>i. V (next_seq jb + of_nat i)) [0..<m]"
  using assms
proof (induction k arbitrary: jb buf V m)
  case (Suc k)
  let ?n = "next_seq jb"
  have nw: "no_wrap jb" using Suc.prems(3,4) by (simp add: no_wrap_def)
  note pop = pop_view [OF Suc.prems(1,2) nw, of buf]
  show ?case
  proof (cases m)
    case 0
    then have none: "jb_peek x jb = None" for x using Suc.prems(5,6) [of x] by (cases "V x") auto
    with pop 0 show ?thesis by simp
  next
    case (Suc m')
    let ?V = "\<lambda>x. if x = ?n then None else V x"
    have ex: "\<exists>x. jb_peek x jb \<noteq> None" using Suc.prems(5,8) Suc by (metis Zero_not_Suc)
    obtain out jb' where jb': "jb_pop buf jb = (if V ?n = None then PopMissing else PopPacket, out, jb')"
      "V ?n \<noteq> None \<Longrightarrow> V ?n = Some out"
      "next_seq jb' = ?n + 1" "started jb'" "ring_ok jb'" "\<And>x. jb_peek x jb' = ?V x"
      using pop ex Suc.prems(5) [of ?n] Suc.prems(5) by (cases "V ?n") auto
    have u: "unat (?n + 1) = unat ?n + 1"
      using unat_add_no_wrap [of ?n 1] Suc.prems(4) by simp
    have "played k out jb' = map (\<lambda>i. ?V (next_seq jb' + of_nat i)) [0..<m']"
    proof (rule Suc.IH)
      show "unat (x - next_seq jb') < m'" if "?V x \<noteq> None" for x
      proof -
        have "x \<noteq> ?n" "V x \<noteq> None" using that by (auto split: if_splits)
        then show ?thesis
          using Suc.prems(6) [of x] \<open>m = Suc m'\<close> word_off [of x ?n] jb'(3)
          by (cases "unat (x - ?n)") (auto simp: unat_eq_0)
      qed
      show "m' = 0 \<or> ?V (next_seq jb' + of_nat (m' - 1)) \<noteq> None"
      proof (cases m')
        case (Suc q)
        have "unat (of_nat m' :: 32 word) = m'" using Suc.prems(4,7) \<open>m = Suc m'\<close> by (simp add: unat_of_nat)
        then have "of_nat m' \<noteq> (0 :: 32 word)" using \<open>m' = Suc q\<close> by (metis Zero_not_Suc unat_0)
        then have "?n + of_nat m' \<noteq> ?n" by simp
        moreover have "next_seq jb' + of_nat (m' - 1) = ?n + of_nat m'" using Suc jb'(3) by simp
        ultimately show ?thesis using Suc.prems(8) \<open>m = Suc m'\<close> by simp
      qed simp
    qed (use jb' u Suc.prems(3,4,7) \<open>m = Suc m'\<close> in simp_all)
    also have "\<dots> = map (\<lambda>i. V (?n + 1 + of_nat i)) [0..<m']"
    proof (rule map_cong [OF refl])
      fix i assume "i \<in> set [0..<m']"
      then have "Suc i < 2 ^ 32" using Suc.prems(4,7) \<open>m = Suc m'\<close> by auto
      then have "unat (of_nat (Suc i) :: 32 word) = Suc i" by (simp only: unat_of_nat) simp
      then have "of_nat (Suc i) \<noteq> (0 :: 32 word)" by (metis Zero_not_Suc unat_0)
      then show "?V (next_seq jb' + of_nat i) = V (?n + 1 + of_nat i)" using jb'(3) by (simp add: add.assoc)
    qed
    finally show ?thesis
      using jb'(1,2) \<open>m = Suc m'\<close> shift_map [of V ?n m'] by (cases "V ?n") simp_all
  qed
qed simp

section \<open>Properties\<close>

text \<open>C17 Whatever arrives and whenever the buffer is read, the ring stays well formed: every slot
  index the code computes is inside the ring, every buffered packet lies in the window that starts
  at the next number to play, no packet stands in a slot that is not its own, the count of
  out-of-window packets stays below the resync limit, and the jitter estimate never becomes negative,
  so the playout target is between its two bounds.\<close>

theorem ring_invariant:
  fixes ops :: "jb_op list" and x :: "32 word"
  defines "jb \<equiv> fold jb_step ops jb_new"
  shows "slot_of jb x < length (slots jb) \<and>
    (case jb_peek x jb of None \<Rightarrow> True | Some d \<Rightarrow> unat (x - next_seq jb) < JITTER_BUF_MAX) \<and>
    list_all (\<lambda>i. let seq = fst (slots jb ! i) in seq = 0 \<or> slot_of jb seq = i) [0..<JITTER_BUF_MAX] \<and>
    out_of_window jb < JITTER_RESYNC_AFTER \<and> 0 \<le> jitter_ms jb \<and>
    target_frames (jitter_ms jb) \<in> {PLAYOUT_TARGET_MIN_FRAMES..PLAYOUT_TARGET_MAX_FRAMES}"
proof -
  have ok: "jb_ok jb" unfolding jb_def by (rule run_ok [OF jb_new_ok])
  note r = jb_ok_ring [OF ok]
  have "case jb_peek x jb of None \<Rightarrow> True | Some d \<Rightarrow> unat (x - next_seq jb) < JITTER_BUF_MAX"
    using peek_in_window [OF r, of x] by (simp add: in_window_def split: option.split)
  moreover have "list_all (\<lambda>i. let seq = fst (slots jb ! i) in seq = 0 \<or> slot_of jb seq = i) [0..<JITTER_BUF_MAX]"
    unfolding list_all_iff Let_def slot_of_def
    using ring_cases [OF r] ring_okD [OF r] by (metis atLeastLessThan_iff atLeastLessThan_upt buf_max)
  ultimately show ?thesis
    using slot_bound [OF r] target_frames_bounds ok by (simp add: jb_ok_def)
qed

text \<open>C15 Reordering, duplication and loss inside the window are repaired: when any packets of the
  window arrive, in any order, some of them several times, then popping plays them in the order
  of their sequence numbers, each once with its own payload, reports every number below the last arrived
  one that never arrived as exactly one loss, and then stops.\<close>

theorem playout_order:
  assumes "jb_ok jb" and "started jb" and "0 < unat (next_seq jb)" and "unat (next_seq jb) + 30 \<le> 2 ^ 32"
    and "\<forall>x. jb_peek x jb = None"
    and "\<forall>(s, d, t) \<in> set ps. unat (s - next_seq jb) < m \<and> d = payload s"
    and "m \<le> JITTER_BUF_MAX" and "m = 0 \<or> next_seq jb + of_nat (m - 1) \<in> fst ` set ps"
  shows "played JITTER_BUF_MAX buf (feed ps jb) =
    map (\<lambda>i. let s = next_seq jb + of_nat i in if s \<in> fst ` set ps then Some (payload s) else None) [0..<m]"
proof -
  let ?V = "\<lambda>x. if x \<in> fst ` set ps then Some (payload x) else None"
  have nw: "no_wrap jb" using assms(3,4) by (simp add: no_wrap_def)
  have v: "ring_ok (feed ps jb) \<and> started (feed ps jb) \<and> next_seq (feed ps jb) = next_seq jb \<and>
    (\<forall>x. jb_peek x (feed ps jb) = (if x \<in> fst ` set ps then Some (payload x) else jb_peek x jb))"
    by (rule feed_view [OF jb_ok_ring [OF assms(1)] assms(2) nw])
      (use assms(6,7) in \<open>auto simp: in_window_def\<close>)
  have "played JITTER_BUF_MAX buf (feed ps jb) = map (\<lambda>i. ?V (next_seq (feed ps jb) + of_nat i)) [0..<m]"
  proof (rule played_view)
    show "unat (x - next_seq (feed ps jb)) < m" if "?V x \<noteq> None" for x
      using that assms(6) v by (auto split: if_splits)
  qed (use v assms(3-5,7,8) in auto)
  then show ?thesis using v by (simp add: Let_def)
qed

definition sample_buffer :: jitter_buffer where
  "sample_buffer = jb_new\<lparr>started := True, next_seq := 7\<rparr>"

lemma sample_buffer_ok: "jb_ok sample_buffer" "started sample_buffer" "next_seq sample_buffer = 7"
  "jb_peek x sample_buffer = None"
  using jb_new_ok
  by (simp_all add: sample_buffer_def jb_ok_def ring_ok_def jb_new_def jb_peek_def slot_of_def)

theorem playout_order_witness:
  "played JITTER_BUF_MAX [] (feed [(9, [3], 40), (7, [1], 41), (10, [4], 42), (9, [3], 43)] sample_buffer) =
    [Some [1], None, Some [3], Some [4]]"
proof -
  have e: "[0..<4] = [0, 1, 2, 3 :: nat]" by (simp add: upt_rec)
  show ?thesis
    using playout_order [OF sample_buffer_ok(1,2), of "[(9, [3], 40), (7, [1], 41), (10, [4], 42), (9, [3], 43)]" 4
        "\<lambda>s. if s = 7 then [1] else if s = 9 then [3] else [4]" "[]"]
    unfolding e by (simp add: sample_buffer_ok)
qed

text \<open>What one arrival can do: be buffered, be dropped as late (one of the last
  \<open>2 * JITTER_BUF_MAX\<close> numbers played, nothing else changes in the window), or be dropped as too far
  ahead and counted.\<close>

lemma not_before_far: "\<not> seq_before s n \<Longrightarrow> s \<noteq> n \<Longrightarrow> 2 ^ 31 \<le> unat (n - s)" for s n :: "32 word"
proof -
  assume a: "\<not> seq_before s n" and "s \<noteq> n"
  then have "0 < n - s" by (simp add: word_neq_0_conv [symmetric])
  with a have "0x80000000 \<le> n - s" by (auto simp: seq_before_def)
  then have "unat (0x80000000 :: 32 word) \<le> unat (n - s)" unfolding word_le_nat_alt .
  moreover have "unat (0x80000000 :: 32 word) = 2 ^ 31" by simp
  ultimately show ?thesis by simp
qed

lemma push_cases:
  assumes "jb_ok jb" "started jb" "s \<noteq> 0"
  shows "jb_peek s (snd (jb_push s d t jb)) = Some d \<or>
    1 \<le> unat (next_seq jb - s) \<and> unat (next_seq jb - s) \<le> 30 \<and> next_seq (snd (jb_push s d t jb)) = next_seq jb \<and>
      slots (snd (jb_push s d t jb)) = slots jb \<or>
    15 \<le> unat (s - next_seq jb) \<and> 2 ^ 31 \<le> unat (next_seq jb - s) \<and>
    next_seq (snd (jb_push s d t jb)) = next_seq jb \<and> slots (snd (jb_push s d t jb)) = slots jb \<and>
    out_of_window (snd (jb_push s d t jb)) = out_of_window jb + 1 \<and> out_of_window jb + 1 < JITTER_RESYNC_AFTER"
proof -
  note r = jb_ok_ring [OF assms(1)]
  have c: "capacity jb = 15" using ring_okD [OF r] ..
  have cap: "of_nat (capacity jb) * 2 = (30 :: 32 word)" using c by simp
  have fresh: "jb_peek s (place s d t j) = Some d" if "ring_ok j" "next_seq j = s" for j
    using that(2) peek_stored [OF ring_cong [OF that(1), of "j\<lparr>out_of_window := 0\<rparr>"] assms(3)]
    by (subst place_stores [OF that(1)]) (simp_all add: in_window_def)
  consider (before) "seq_before s (next_seq jb)" | (inw) "\<not> seq_before s (next_seq jb)" "in_window jb s"
    | (far) "\<not> seq_before s (next_seq jb)" "\<not> in_window jb s" by blast
  then show ?thesis
  proof cases
    case before
    show ?thesis
    proof (cases "30 < next_seq jb - s")
      case True
      then have "jb_push s d t jb = (False, place s d t (reset_to s jb))"
        using before assms(2) cap by (simp add: jb_push_def Let_def)
      moreover have "next_seq (reset_to s jb) = s" by (simp add: reset_to_def)
      ultimately show ?thesis using fresh [OF reset_ring [OF r]] by simp
    next
      case False
      show ?thesis
      proof (cases "provisional jb \<and> next_seq jb - s \<le> REANCHOR_MAX \<and> fits_from s jb")
        case True
        then have "jb_push s d t jb = (False, place s d t (jb\<lparr>next_seq := s\<rparr>))"
          using before assms(2) cap False by (simp add: jb_push_def Let_def)
        then show ?thesis using fresh [OF reanchor_ring [OF r]] True by simp
      next
        case nr: False
        then have "jb_push s d t jb = (True, observe s t jb)"
          using before assms(2) cap False by (auto simp: jb_push_def Let_def)
        moreover have "1 \<le> unat (next_seq jb - s)" "unat (next_seq jb - s) \<le> 30"
          using before False by (simp_all add: seq_before_def Let_def word_less_nat_alt word_le_nat_alt)
        ultimately show ?thesis by simp
      qed
    qed
  next
    case inw
    then show ?thesis
      using push_in_window [OF r assms(2) inw(2)] peek_stored [OF ring_cong [OF r, of "jb\<lparr>out_of_window := 0\<rparr>"] assms(3)]
      by simp
  next
    case far
    then have f: "15 \<le> unat (s - next_seq jb)" by (simp add: in_window_def)
    then have "s \<noteq> next_seq jb" by auto
    then have "2 ^ 31 \<le> unat (next_seq jb - s)" by (rule not_before_far [OF far(1)])
    moreover have p: "jb_push s d t jb = (False, place s d t jb)" using far assms(2) by (simp add: jb_push_def Let_def)
    moreover have "jb_peek s (place s d t jb) = Some d \<or> place s d t jb = jb\<lparr>out_of_window := out_of_window jb + 1\<rparr> \<and>
      out_of_window jb + 1 < JITTER_RESYNC_AFTER"
    proof (cases "JITTER_RESYNC_AFTER \<le> out_of_window jb + 1")
      case True
      let ?j = "reset_to s (jb\<lparr>out_of_window := out_of_window jb + 1\<rparr>)"
      have "ring_ok ?j" by (rule reset_ring, rule ring_cong [OF r]) simp_all
      then show ?thesis using True f c assms(3) by (simp add: place_def Let_def peek_stored)
    qed (use f c in \<open>simp add: place_def Let_def\<close>)
    ultimately show ?thesis using f by auto
  qed
qed

text \<open>What playback does to the buffer between two arrivals.\<close>

datatype playback = TakeFrame "byte list" | SkipAhead | SpurtOver

fun playback_step :: "playback \<Rightarrow> jitter_buffer \<Rightarrow> jitter_buffer" where
  "playback_step (TakeFrame buf) jb = snd (snd (jb_pop buf jb))"
| "playback_step SkipAhead jb = snd (skip_to_oldest jb)"
| "playback_step SpurtOver jb = end_talkspurt jb"

definition hear :: "((32 word \<times> byte list \<times> instant) \<times> playback list) list \<Rightarrow> jitter_buffer \<Rightarrow> jitter_buffer" where
  "hear rounds jb = fold (\<lambda>((s, d, t), ops) jb. fold playback_step ops (snd (jb_push s d t jb))) rounds jb"

lemma playback_ok: "jb_ok jb \<Longrightarrow> started jb \<Longrightarrow> jb_ok (playback_step x jb) \<and> started (playback_step x jb)"
proof (cases x)
  case (TakeFrame buf)
  assume "jb_ok jb" "started jb"
  with TakeFrame show ?thesis using pop_ok [of jb buf] by (metis playback_step.simps(1) prod.collapse)
next
  case SkipAhead
  assume a: "jb_ok jb" "started jb"
  then have "jb_ok (snd (skip_to_oldest jb))" using skip_ok [of jb] by (metis prod.collapse)
  with a SkipAhead show ?thesis by (simp add: skip_to_oldest_def Let_def)
qed (simp_all add: end_talkspurt_ok, simp add: end_talkspurt_def)

text \<open>Without a new packet in the window, the playout point advances only over what was there at \<open>n\<close>, and once more over
  number 0 when that is the next.\<close>

definition left_of :: "32 word \<Rightarrow> nat \<Rightarrow> jitter_buffer \<Rightarrow> bool" where
  "left_of n k jb \<longleftrightarrow> next_seq jb = n + of_nat k \<and> (k \<le> 15 \<or> k = 16 \<and> n + 15 = 0) \<and>
    (\<forall>x. jb_peek x jb \<noteq> None \<longrightarrow> unat (x - n) < 15)"

lemma left_of_start: "jb_ok jb \<Longrightarrow> left_of (next_seq jb) 0 jb"
  using peek_in_window [OF jb_ok_ring] by (fastforce simp: left_of_def in_window_def)

lemma left_of_cong: "slots j = slots jb \<Longrightarrow> next_seq j = next_seq jb \<Longrightarrow> capacity j = capacity jb \<Longrightarrow> left_of n k jb \<Longrightarrow> left_of n k j"
  using peek_cong [of j jb] by (simp add: left_of_def)

lemma peek_off: "left_of n k jb \<Longrightarrow> jb_peek (next_seq jb + of_nat i) jb \<noteq> None \<Longrightarrow> i < 15 \<Longrightarrow> k + i < 15"
proof -
  assume a: "left_of n k jb" "jb_peek (next_seq jb + of_nat i) jb \<noteq> None" "i < 15"
  have "next_seq jb + of_nat i = n + of_nat (k + i)" using a(1) by (simp add: left_of_def)
  with a(1,2) have "unat (n + of_nat (k + i) - n) < 15" unfolding left_of_def by metis
  then show ?thesis using a by (subst (asm) off_of_nat) (auto simp: left_of_def)
qed

lemma peek_cleared:
  "ring_ok jb \<Longrightarrow> jb_peek x (jb\<lparr>slots := (slots jb)[i := (0, b)], next_seq := m, provisional := p\<rparr>) \<noteq> None \<Longrightarrow> jb_peek x jb \<noteq> None"
  using slot_bound [of jb x] by (cases "slot_of jb x = i") (auto simp: jb_peek_def slot_of_def Let_def split: if_splits)

lemma playback_left:
  assumes "jb_ok jb" and "started jb" and "left_of n k jb"
  shows "\<exists>k' \<ge> k. left_of n k' (playback_step x jb) \<and> out_of_window (playback_step x jb) = out_of_window jb"
proof (cases x)
  case (TakeFrame buf)
  note r = jb_ok_ring [OF assms(1)]
  let ?tag = "fst (slots jb ! slot_of jb (next_seq jb))"
  have one: "\<exists>k' \<ge> k. left_of n k' j \<and> out_of_window j = out_of_window jb"
    if "j = jb\<lparr>slots := (slots jb)[i := (0, b)], next_seq := next_seq jb + 1, provisional := False\<rparr>"
      and "Suc k \<le> 15 \<or> Suc k = 16 \<and> n + 15 = 0" for j i b
    using that assms(3) peek_cleared [OF r]
    by (intro exI [of _ "Suc k"]) (auto simp: left_of_def add.assoc add.commute [of 1])
  show ?thesis
  proof (cases "?tag = next_seq jb")
    case True
    have "Suc k \<le> 15 \<or> Suc k = 16 \<and> n + 15 = 0"
    proof (cases "next_seq jb = 0")
      case True
      have "k \<noteq> 16"
      proof
        assume "k = 16"
        with True assms(3) have "n + 16 = 0" "n + 15 = 0" by (simp_all add: left_of_def)
        moreover have "n + 16 = (n + 15) + 1" by simp
        ultimately show False by simp
      qed
      then show ?thesis using True assms(3) by (auto simp: left_of_def le_less)
    next
      case False
      with \<open>?tag = next_seq jb\<close> have "jb_peek (next_seq jb + of_nat 0) jb \<noteq> None" by (simp add: jb_peek_def)
      from peek_off [OF assms(3) this] show ?thesis by simp
    qed
    with True show ?thesis using assms(2) by (intro one) (auto simp: TakeFrame jb_pop_def Let_def)
  next
    case False
    show ?thesis
    proof (cases "has_future jb")
      case True
      then obtain y where y: "y \<noteq> next_seq jb" "jb_peek y jb \<noteq> None" using has_future_iff [OF r] by blast
      then have "unat (y - next_seq jb) < 15" using peek_in_window [OF r] by (fastforce simp: in_window_def)
      moreover have "1 \<le> unat (y - next_seq jb)" using y(1) by (simp add: Suc_le_eq unat_gt_0)
      ultimately have "Suc k \<le> 15" using peek_off [OF assms(3), of "unat (y - next_seq jb)"] y(2) by simp
      with False True show ?thesis using assms(2) by (intro one) (auto simp: TakeFrame jb_pop_def Let_def)
    next
      case nf: False
      with False assms show ?thesis by (intro exI [of _ k]) (simp add: TakeFrame jb_pop_def Let_def)
    qed
  qed
next
  case SkipAhead
  obtain i j where j: "skip_to_oldest jb = (i, j)" by (cases "skip_to_oldest jb")
  let ?P = "\<lambda>offset. jb_peek (next_seq jb + of_nat offset) jb \<noteq> None"
  have "i = 0 \<or> ?P i \<and> i < 15"
    using j ring_okD [OF jb_ok_ring [OF assms(1)]]
    by (auto simp: skip_to_oldest_def Let_def find_Some_iff split: option.splits)
  then have "k + i < 15 \<or> i = 0" using peek_off [OF assms(3)] by blast
  moreover note eq = skip_eq [OF j]
  have "jb_peek y j = jb_peek y jb" for y by (subst eq, rule peek_cong) simp_all
  moreover have "next_seq j = next_seq jb + of_nat i" "out_of_window j = out_of_window jb"
    using arg_cong [OF eq, of next_seq] arg_cong [OF eq, of out_of_window] by simp_all
  ultimately show ?thesis
    using assms(3) by (intro exI [of _ "k + i"]) (auto simp: SkipAhead j left_of_def add.assoc)
next
  case SpurtOver
  then show ?thesis using left_of_cong [OF _ _ _ assms(3), of "end_talkspurt jb"] by (auto simp: end_talkspurt_def)
qed

lemma playbacks_left:
  assumes "jb_ok jb" and "started jb" and "left_of n k jb"
  shows "\<exists>k' \<ge> k. left_of n k' (fold playback_step xs jb) \<and> out_of_window (fold playback_step xs jb) = out_of_window jb"
  using assms
proof (induction xs arbitrary: k jb)
  case (Cons x xs)
  obtain k' where k': "k \<le> k'" "left_of n k' (playback_step x jb)" "out_of_window (playback_step x jb) = out_of_window jb"
    using playback_left [OF Cons.prems] by blast
  show ?case using Cons.IH [OF _ _ k'(2)] playback_ok [OF Cons.prems(1,2)] k' order_trans by fastforce
qed auto

lemma hear_ok: "jb_ok jb \<Longrightarrow> started jb \<Longrightarrow> jb_ok (hear rounds jb) \<and> started (hear rounds jb)"
proof (induction rounds arbitrary: jb)
  case (Cons r rounds)
  obtain s d t ops where r: "r = ((s, d, t), ops)" by (cases r) auto
  have "jb_ok (fold playback_step ops j) \<and> started (fold playback_step ops j)" if "jb_ok j" "started j" for j
    using that by (induction ops arbitrary: j) (auto simp: playback_ok)
  with push_ok [OF Cons.prems(1), of s d t] show ?case using Cons.IH by (simp add: r hear_def)
qed (simp add: hear_def)

text \<open>A sender of consecutive numbers \<open>s\<close>, \<open>s + 1\<close>, \dots: the state as its packet \<open>m\<close> arrives. While none of them has been
  buffered, a round changes the window only by what playback takes.\<close>

definition arriving :: "32 word \<Rightarrow> (nat \<Rightarrow> byte list) \<Rightarrow> (nat \<Rightarrow> instant) \<Rightarrow> (nat \<Rightarrow> playback list) \<Rightarrow> nat \<Rightarrow> jitter_buffer \<Rightarrow> jitter_buffer" where
  "arriving s p t ops m jb = hear (map (\<lambda>i. ((s + of_nat i, p i, t i), ops i)) [0..<m]) jb"

definition heard :: "32 word \<Rightarrow> (nat \<Rightarrow> byte list) \<Rightarrow> (nat \<Rightarrow> instant) \<Rightarrow> (nat \<Rightarrow> playback list) \<Rightarrow> nat \<Rightarrow> jitter_buffer \<Rightarrow> bool" where
  "heard s p t ops m jb \<longleftrightarrow>
    jb_peek (s + of_nat m) (snd (jb_push (s + of_nat m) (p m) (t m) (arriving s p t ops m jb))) = Some (p m)"

lemma arriving_Suc:
  "arriving s p t ops (Suc m) jb = fold playback_step (ops m) (snd (jb_push (s + of_nat m) (p m) (t m) (arriving s p t ops m jb)))"
  by (simp add: arriving_def hear_def)

lemma deaf_round:
  assumes "jb_ok jb" and "started jb" and "left_of n k (arriving s p t ops m jb)" and "s + of_nat m \<noteq> 0"
    and "\<not> heard s p t ops m jb"
  shows "\<exists>k' \<ge> k. left_of n k' (arriving s p t ops (Suc m) jb) \<and>
    (1 \<le> unat (n + of_nat k - (s + of_nat m)) \<and> unat (n + of_nat k - (s + of_nat m)) \<le> 30 \<or>
     2 ^ 31 \<le> unat (n + of_nat k - (s + of_nat m)) \<and>
     out_of_window (arriving s p t ops (Suc m) jb) = out_of_window (arriving s p t ops m jb) + 1 \<and>
     out_of_window (arriving s p t ops m jb) + 1 < 3)"
proof -
  let ?B = "arriving s p t ops m jb"
  let ?P = "snd (jb_push (s + of_nat m) (p m) (t m) ?B)"
  have B: "jb_ok ?B" "started ?B" using hear_ok [OF assms(1,2)] by (simp_all add: arriving_def)
  have P: "jb_ok ?P" "started ?P" using push_ok [OF B(1)] by simp_all
  have n: "next_seq ?B = n + of_nat k" using assms(3) by (simp add: left_of_def)
  note c = push_cases [OF B assms(4), of "p m" "t m"]
  have "capacity ?P = capacity ?B" using ring_okD [OF jb_ok_ring] B(1) P(1) by metis
  then have "left_of n k ?P"
    using left_of_cong [OF _ _ _ assms(3), of ?P] c assms(5) by (auto simp: heard_def)
  from playbacks_left [OF P this, of "ops m"] c assms(5) show ?thesis
    unfolding arriving_Suc n by (auto simp: heard_def JITTER_RESYNC_AFTER_def)
qed

text \<open>The numbers of a restarted counter lie shortly before the playout point: every round brings the two closer, but for
  what playback still takes from the old stream.\<close>

lemma heard_before:
  assumes "jb_ok jb" and "started jb" and "\<forall>i \<le> 45. s + of_nat i \<noteq> 0"
    and "1 \<le> unat (next_seq jb - s)" and "unat (next_seq jb - s) \<le> 30"
  shows "\<exists>m \<le> 45. heard s p t ops m jb"
proof (rule ccontr)
  let ?n = "next_seq jb" and ?g = "unat (next_seq jb - s)"
  assume "\<not> ?thesis"
  then have deaf: "\<not> heard s p t ops m jb" if "m \<le> 45" for m using that by blast
  have n: "?n = s + of_nat ?g" by simp
  have "m \<le> 45 \<Longrightarrow> \<exists>k. left_of ?n k (arriving s p t ops m jb) \<and> m < ?g + k" for m
  proof (induction m)
    case 0
    then show ?case using left_of_start [OF assms(1)] assms(4) by (auto simp: arriving_def hear_def intro!: exI [of _ 0])
  next
    case (Suc m)
    then obtain k where k: "left_of ?n k (arriving s p t ops m jb)" "m < ?g + k" by auto
    have nz: "s + of_nat m \<noteq> 0" "s + of_nat (Suc m) \<noteq> 0" using assms(3) Suc.prems by (metis Suc_leD, metis)
    obtain k' where k': "k \<le> k'" "left_of ?n k' (arriving s p t ops (Suc m) jb)"
      using deaf_round [OF assms(1,2) k(1) nz(1) deaf] Suc.prems by auto
    have "Suc m \<noteq> ?g + k'"
    proof
      assume "Suc m = ?g + k'"
      then have "?n + of_nat k' = s + of_nat (Suc m)" by (subst n) (metis add.assoc of_nat_add)
      with deaf_round [OF assms(1,2) k'(2) nz(2) deaf [OF Suc.prems]] show False by simp
    qed
    with k' k(2) show ?case by (intro exI [of _ k']) simp
  qed
  from this [of 45] obtain k where k: "left_of ?n k (arriving s p t ops 45 jb)" "45 < ?g + k" by auto
  then have e: "k = 16" "?g = 30" "?n + 15 = 0" using assms(5) by (auto simp: left_of_def)
  have "s + of_nat 45 = (s + of_nat 30) + 15" by simp
  also have "\<dots> = 0" using n e by simp
  finally show False using assms(3) by blast
qed

text \<open>Numbers far ahead of the window resynchronise it at the third.\<close>

lemma heard_beyond:
  assumes "jb_ok jb" and "started jb" and "\<forall>i \<le> 45. s + of_nat i \<noteq> 0" and "2 ^ 31 \<le> unat (next_seq jb - s)"
  shows "\<exists>m \<le> 45. heard s p t ops m jb"
proof (rule ccontr)
  let ?n = "next_seq jb"
  assume "\<not> ?thesis"
  then have deaf: "\<not> heard s p t ops m jb" if "m \<le> 45" for m using that by blast
  define a where "a = unat (s - ?n)"
  have s: "s = ?n + of_nat a" by (simp add: a_def)
  have sz: "s \<noteq> 0" using spec [OF assms(3), of 0] by simp
  have "s \<noteq> ?n" using assms(4) by auto
  then have a: "a \<le> 2 ^ 31" using assms(4) unat_uminus [of "?n - s"] by (simp add: a_def)
  have start: "left_of ?n 0 (arriving s p t ops 0 jb)" using left_of_start [OF assms(1)] by (simp add: arriving_def hear_def)
  have "15 \<le> a"
    using push_cases [OF assms(1,2) sz, of "p 0" "t 0"] deaf [of 0] assms(4) by (auto simp: heard_def arriving_def hear_def a_def)
  have far: "\<exists>k'. left_of ?n k' (arriving s p t ops (Suc m) jb) \<and>
      out_of_window (arriving s p t ops (Suc m) jb) = out_of_window (arriving s p t ops m jb) + 1 \<and>
      out_of_window (arriving s p t ops m jb) + 1 < 3"
    if k: "left_of ?n k (arriving s p t ops m jb)" and "m \<le> 2" for k m
  proof -
    have "k \<le> a"
      using k \<open>15 \<le> a\<close> s sz by (cases "a = 15") (auto simp: left_of_def)
    define d where "d = a + m - k"
    have "s + of_nat m = ?n + of_nat (a + m)" by (subst s) simp
    also have "a + m = k + d" using \<open>k \<le> a\<close> by (simp add: d_def)
    finally have e: "?n + of_nat k - (s + of_nat m) = - of_nat d" by simp
    have "unat (- of_nat d :: 32 word) = (if d = 0 then 0 else 2 ^ 32 - d)"
    proof (cases "d = 0")
      case False
      have u: "unat (of_nat d :: 32 word) = d" using a that(2) by (simp add: d_def unat_of_nat)
      with False have "of_nat d \<noteq> (0 :: 32 word)" by (metis unat_0)
      with u False show ?thesis using unat_uminus [of "of_nat d :: 32 word"] by simp
    qed simp
    then have "\<not> (1 \<le> unat (- of_nat d :: 32 word) \<and> unat (- of_nat d :: 32 word) \<le> 30)"
      using a that(2) by (auto simp: d_def)
    moreover have "s + of_nat m \<noteq> 0" using assms(3) that(2) by simp
    ultimately show ?thesis using deaf_round [OF assms(1,2) k _ deaf] that(2) e by auto
  qed
  obtain k1 where 1: "left_of ?n k1 (arriving s p t ops 1 jb)" "out_of_window (arriving s p t ops 1 jb) = out_of_window (arriving s p t ops 0 jb) + 1"
    using far [OF start] by auto
  obtain k2 where 2: "left_of ?n k2 (arriving s p t ops 2 jb)" "out_of_window (arriving s p t ops 2 jb) = out_of_window (arriving s p t ops 1 jb) + 1"
    using far [OF 1(1)] by (auto simp: numeral_2_eq_2)
  show False using far [OF 2(1)] 1(2) 2(2) by simp
qed

text \<open>C16 A sender is never muted by its own history for long: whatever state the buffer is in (window lost in a long
  outage, counter restarted by a reconnect while old packets still wait for playout), and whatever playback takes from it
  between the arrivals, if a sender's packets arrive with consecutive nonzero numbers, then one of the first 46 is
  buffered for playout as it arrives: 30 numbers of grace and the 15 the ring can still play.\<close>

theorem stream_is_heard:
  assumes "jb_ok jb" and "started jb" and "\<forall>i \<le> 45. s + of_nat i \<noteq> 0"
  shows "\<exists>m \<le> 45. jb_peek (s + of_nat m) (snd (jb_push (s + of_nat m) (p m) (t m)
    (hear (map (\<lambda>i. ((s + of_nat i, p i, t i), ops i)) [0..<m]) jb))) = Some (p m)"
proof -
  have sz: "s \<noteq> 0" using spec [OF assms(3), of 0] by simp
  from push_cases [OF assms(1,2) sz, of "p 0" "t 0"]
  consider "heard s p t ops 0 jb" | "1 \<le> unat (next_seq jb - s)" "unat (next_seq jb - s) \<le> 30" | "2 ^ 31 \<le> unat (next_seq jb - s)"
    by (auto simp: heard_def arriving_def hear_def)
  then have "\<exists>m \<le> 45. heard s p t ops m jb"
    using heard_before [OF assms(1-3)] heard_beyond [OF assms(1-3)] by cases auto
  then show ?thesis by (simp add: heard_def arriving_def)
qed

theorem stream_is_heard_witness:
  "\<exists>m \<le> 45. jb_peek (2 + of_nat m) (snd (jb_push (2 + of_nat m) [of_nat m] m
    (hear (map (\<lambda>i. ((2 + of_nat i, [of_nat i], i), [TakeFrame [], SkipAhead])) [0..<m]) sample_buffer))) = Some [of_nat m]"
proof -
  have i: "unat (of_nat i :: 32 word) = i" if "i \<le> 45" for i using that by (simp add: unat_of_nat)
  have "(2 :: 32 word) + of_nat i \<noteq> 0" if "i \<le> 45" for i
  proof -
    have "2 + i < 2 ^ 32" using that by simp
    then have "unat (2 :: 32 word) + unat (of_nat i :: 32 word) < 2 ^ 32" unfolding i [OF that] by simp
    then have "unat (2 + of_nat i :: 32 word) = unat (2 :: 32 word) + unat (of_nat i :: 32 word)"
      by (rule unat_add_no_wrap)
    moreover have "unat (2 :: 32 word) = 2" by simp
    ultimately have "unat (2 + of_nat i :: 32 word) \<noteq> 0" by linarith
    then show ?thesis by (metis unat_0)
  qed
  then have "\<forall>i \<le> 45. (2 :: 32 word) + of_nat i \<noteq> 0" by blast
  from stream_is_heard [OF sample_buffer_ok(1,2) this, of "\<lambda>i. [of_nat i]" "\<lambda>i. i" "\<lambda>_. [TakeFrame [], SkipAhead]"] show ?thesis .
qed

text \<open>Number 0 marks an empty slot, so when the 32-bit counter wraps, a pop at number 0 of an
  empty buffer is taken for a packet: it returns whatever payload the slot last held (that of
  a packet played long ago, or nothing) although no packet is buffered, and moves on.\<close>

theorem wrap_plays_stale_slot:
  assumes "jb_ok jb" and "started jb" and "next_seq jb = 0" and "fst (slots jb ! 0) = 0"
  shows "jb_peek 0 jb = None \<and>
    (\<exists>jb'. jb_pop buf jb = (PopPacket, snd (slots jb ! 0), jb') \<and> next_seq jb' = 1)"
  using assms by (simp add: jb_pop_def slot_of_def jb_peek_def Let_def)

lemma played_packet:
  "jb_pop buf jb = (PopPacket, out, jb') \<Longrightarrow> played (Suc k) buf jb = Some out # played k out jb'"
  by simp

definition wrapped_buffer :: jitter_buffer where
  "wrapped_buffer = feed [(4294967294, [4], 0), (4294967295, [5], 1)] jb_new"

lemma jb_new_eq:
  "jb_new = \<lparr>slots = [(0, []), (0, []), (0, []), (0, []), (0, []), (0, []), (0, []), (0, []), (0, []), (0, []),
       (0, []), (0, []), (0, []), (0, []), (0, [])], capacity = 15, next_seq = 0, started = False,
     provisional = True, jitter_ms = 0, jb_reference = None, spurt_packets = 0, out_of_window = 0\<rparr>"
  by (simp add: jb_new_def numeral_eq_Suc)

lemma observe_onset:
  "spurt_packets jb < 5 \<Longrightarrow> observe s t jb = jb\<lparr>spurt_packets := spurt_packets jb + 1\<rparr>"
  by (simp add: observe_def Let_def TALKSPURT_ONSET_PACKETS_def config_defs)

lemma wrapped_buffer_eq:
  "wrapped_buffer = \<lparr>slots = [(4294967295, [5]), (0, []), (0, []), (0, []), (0, []), (0, []), (0, []), (0, []),
       (0, []), (0, []), (0, []), (0, []), (0, []), (0, []), (4294967294, [4])], capacity = 15,
     next_seq = 4294967294, started = True, provisional = True, jitter_ms = 0, jb_reference = None,
     spurt_packets = 2, out_of_window = 0\<rparr>"
  by (simp add: wrapped_buffer_def jb_new_eq jb_push_def seq_before_def place_def store_def observe_onset slot_of_def)

definition wrapped_played :: jitter_buffer where
  "wrapped_played = snd (snd (jb_pop [4] (snd (snd (jb_pop [] wrapped_buffer)))))"

lemma wrapped_pops:
  "jb_pop [] wrapped_buffer = (PopPacket, [4], snd (snd (jb_pop [] wrapped_buffer)))"
  "jb_pop [4] (snd (snd (jb_pop [] wrapped_buffer))) = (PopPacket, [5], wrapped_played)"
  "started wrapped_played" "next_seq wrapped_played = 0" "slots wrapped_played ! 0 = (0, [4])"
  by (simp_all add: wrapped_played_def wrapped_buffer_eq jb_pop_def slot_of_def)

theorem wrap_plays_stale_slot_witness:
  "played 3 [] wrapped_buffer = [Some [4], Some [5], Some [4]]"
proof -
  have "jb_ok wrapped_buffer" unfolding wrapped_buffer_def by (rule feed_ok [OF jb_new_ok])
  then have ok: "jb_ok wrapped_played" using pop_ok wrapped_pops(1,2) by metis
  from wrap_plays_stale_slot [OF ok wrapped_pops(3,4), of "[5]"] wrapped_pops(5)
  obtain jb' where "jb_pop [5] wrapped_played = (PopPacket, [4], jb')" by auto
  then have "played (Suc 0) [5] wrapped_played = [Some [4]]" by (simp add: played_packet)
  then show ?thesis
    unfolding numeral_3_eq_3 played_packet [OF wrapped_pops(1)] played_packet [OF wrapped_pops(2)] by simp
qed

end
