(* ===== verification/Client_Stats.thy ===== *)
theory Client_Stats
  imports Config
begin

text \<open>
  \<^verbatim>\<open>crates/client/src/voice.rs\<close>, adaptive quality: the quality tiers, the loss statistics kept
  over windows of \<open>STATS_WINDOW_PACKETS\<close> packets and the settings the encoder is given. The encoder
  itself (libopus) is outside the repository; what is handed to it is a value of \<open>encoder_settings\<close>.
\<close>

datatype quality_tier = High | Medium | Low | Minimum

fun tier_as_str :: "quality_tier \<Rightarrow> string" where
  "tier_as_str High = ''high''"
| "tier_as_str Medium = ''medium''"
| "tier_as_str Low = ''low''"
| "tier_as_str Minimum = ''minimum''"

fun tier_to_u8 :: "quality_tier \<Rightarrow> 8 word" where
  "tier_to_u8 High = 0"
| "tier_to_u8 Medium = 1"
| "tier_to_u8 Low = 2"
| "tier_to_u8 Minimum = 3"

definition tier_from_u8 :: "8 word \<Rightarrow> quality_tier" where
  "tier_from_u8 v = (if v = 1 then Medium else if v = 2 then Low else if v = 3 then Minimum else High)"

definition tier_from_loss :: "8 word \<Rightarrow> quality_tier" where
  "tier_from_loss loss_percent =
    (if of_nat LOSS_THRESH_MINIMUM \<le> loss_percent then Minimum
     else if of_nat LOSS_THRESH_LOW \<le> loss_percent then Low
     else if of_nat LOSS_THRESH_MEDIUM \<le> loss_percent then Medium
     else High)"

fun tier_bitrate :: "quality_tier \<Rightarrow> int" where
  "tier_bitrate High = BITRATE_HIGH"
| "tier_bitrate Medium = BITRATE_MEDIUM"
| "tier_bitrate Low = BITRATE_LOW"
| "tier_bitrate Minimum = BITRATE_MINIMUM"

fun tier_complexity :: "quality_tier \<Rightarrow> nat" where
  "tier_complexity High = COMPLEXITY_HIGH"
| "tier_complexity Medium = COMPLEXITY_MEDIUM"
| "tier_complexity Low = COMPLEXITY_LOW"
| "tier_complexity Minimum = COMPLEXITY_MINIMUM"

definition fec_loss_hint :: "8 word \<Rightarrow> 8 word" where
  "fec_loss_hint measured_loss = max measured_loss (of_nat FEC_MIN_LOSS_PERC)"

text \<open>What \<open>apply_quality_settings\<close> is called with; the second component is the hint returned.\<close>

record encoder_settings =
  es_bitrate :: int
  es_complexity :: nat
  es_fec :: bool
  es_loss_percent :: "8 word"

definition tier_apply :: "quality_tier \<Rightarrow> 8 word \<Rightarrow> encoder_settings \<times> 8 word" where
  "tier_apply tier measured_loss = (let loss_hint = fec_loss_hint measured_loss in
     (\<lparr>es_bitrate = tier_bitrate tier, es_complexity = tier_complexity tier, es_fec = True,
       es_loss_percent = loss_hint\<rparr>, loss_hint))"

subsection \<open>Tiers are ordered from the best to the worst\<close>

instantiation quality_tier :: linorder
begin

definition less_eq_quality_tier :: "quality_tier \<Rightarrow> quality_tier \<Rightarrow> bool" where
  "s \<le> t \<longleftrightarrow> tier_to_u8 s \<le> tier_to_u8 t"

definition less_quality_tier :: "quality_tier \<Rightarrow> quality_tier \<Rightarrow> bool" where
  "s < t \<longleftrightarrow> tier_to_u8 s < tier_to_u8 t"

instance
proof
  fix s t u :: quality_tier
  show "s < t \<longleftrightarrow> s \<le> t \<and> \<not> t \<le> s" by (auto simp: less_eq_quality_tier_def less_quality_tier_def)
  show "s \<le> s" by (simp add: less_eq_quality_tier_def)
  show "s \<le> t \<Longrightarrow> t \<le> u \<Longrightarrow> s \<le> u" by (simp add: less_eq_quality_tier_def)
  show "s \<le> t \<Longrightarrow> t \<le> s \<Longrightarrow> s = t" by (cases s; cases t) (simp_all add: less_eq_quality_tier_def word_le_nat_alt)
  show "s \<le> t \<or> t \<le> s" by (auto simp: less_eq_quality_tier_def)
qed

end

lemma tier_roundtrip [simp]: "tier_from_u8 (tier_to_u8 t) = t"
  by (cases t) (simp_all add: tier_from_u8_def)

lemma tier_from_loss_mono: "a \<le> b \<Longrightarrow> tier_from_loss a \<le> tier_from_loss b"
  by (auto simp: tier_from_loss_def less_eq_quality_tier_def config_defs)

lemma tier_bitrate_antimono: "s \<le> t \<Longrightarrow> tier_bitrate t \<le> tier_bitrate s"
  by (cases s; cases t) (simp_all add: less_eq_quality_tier_def word_le_nat_alt config_defs)

lemma tier_complexity_antimono: "s \<le> t \<Longrightarrow> tier_complexity t \<le> tier_complexity s"
  by (cases s; cases t) (simp_all add: less_eq_quality_tier_def word_le_nat_alt config_defs)

subsection \<open>Loss statistics\<close>

record network_stats =
  ns_received :: "32 word"
  ns_lost :: "32 word"
  ns_loss_percent :: "8 word"
  ns_current_tier :: "8 word"

definition stats_new :: network_stats where
  "stats_new = \<lparr>ns_received = 0, ns_lost = 0, ns_loss_percent = 0, ns_current_tier = tier_to_u8 High\<rparr>"

definition record_received :: "network_stats \<Rightarrow> network_stats" where
  "record_received s = s\<lparr>ns_received := ns_received s + 1\<rparr>"

definition record_lost :: "network_stats \<Rightarrow> network_stats" where
  "record_lost s = s\<lparr>ns_lost := ns_lost s + 1\<rparr>"

definition current_tier :: "network_stats \<Rightarrow> quality_tier" where
  "current_tier s = tier_from_u8 (ns_current_tier s)"

text \<open>\<open>as f32\<close> rounds; \<open>as u8\<close> truncates and saturates.\<close>

definition loss_of :: "32 word \<Rightarrow> 32 word \<Rightarrow> 8 word" where
  "loss_of lost all = of_nat (min 255 (nat \<lfloor>f32_mul (f32_div (f32 (of_nat (unat lost))) (f32 (of_nat (unat all)))) 100\<rfloor>))"

definition maybe_finalize_window :: "network_stats \<Rightarrow> network_stats" where
  "maybe_finalize_window s =
    (let all = ns_received s + ns_lost s in
     if of_nat STATS_WINDOW_PACKETS \<le> all then
       (let loss = loss_of (ns_lost s) all in
        s\<lparr>ns_loss_percent := loss, ns_current_tier := tier_to_u8 (tier_from_loss loss),
          ns_received := 0, ns_lost := 0\<rparr>)
     else s)"

text \<open>The callers always finalize right after recording.\<close>

fun record_packet :: "bool \<Rightarrow> network_stats \<Rightarrow> network_stats" where
  "record_packet True s = maybe_finalize_window (record_received s)"
| "record_packet False s = maybe_finalize_window (record_lost s)"

definition stats_ok :: "network_stats \<Rightarrow> bool" where
  "stats_ok s \<longleftrightarrow> unat (ns_received s) + unat (ns_lost s) < STATS_WINDOW_PACKETS \<and>
    unat (ns_loss_percent s) \<le> 100 \<and> current_tier s = tier_from_loss (ns_loss_percent s)"

lemma loss_of_le: "unat lost \<le> unat all \<Longrightarrow> unat (loss_of lost all) \<le> 100"
proof -
  assume le: "unat lost \<le> unat all"
  let ?a = "f32 (of_nat (unat lost))" and ?b = "f32 (of_nat (unat all))"
  have "?a \<le> ?b" by (intro fl_mono of_nat_mono le) simp
  moreover have "0 \<le> ?a" by (intro fl_nonneg of_nat_0_le_iff)
  ultimately have "?a / ?b \<le> 1" by (cases "?b = 0") (simp_all add: divide_le_eq_1)
  then have "f32_div ?a ?b \<le> f32 1" unfolding f32_div_def by (rule fl_mono) simp
  then have "f32_div ?a ?b \<le> 1" using fl_of_nat [of 1 24] by simp
  then have "f32_mul (f32_div ?a ?b) 100 \<le> f32 100" unfolding f32_mul_def by (intro fl_mono) simp_all
  moreover have "f32 100 = 100" using fl_of_nat [of 100 24] by simp
  ultimately have "\<lfloor>f32_mul (f32_div ?a ?b) 100\<rfloor> \<le> 100" by linarith
  then have "nat \<lfloor>f32_mul (f32_div ?a ?b) 100\<rfloor> \<le> 100" by linarith
  then show ?thesis by (simp add: loss_of_def unat_of_nat min_def)
qed

lemma record_packet_ok: "stats_ok s \<Longrightarrow> stats_ok (record_packet got s)"
proof -
  assume ok: "stats_ok s"
  have step: "stats_ok (maybe_finalize_window s')"
    if s': "unat (ns_received s') + unat (ns_lost s') \<le> 150" "unat (ns_loss_percent s') \<le> 100"
      "current_tier s' = tier_from_loss (ns_loss_percent s')" for s'
  proof -
    have u: "unat (ns_received s' + ns_lost s') = unat (ns_received s') + unat (ns_lost s')"
      using s'(1) by (simp add: unat_word_ariths)
    then have "unat (loss_of (ns_lost s') (ns_received s' + ns_lost s')) \<le> 100" by (intro loss_of_le) simp
    then show ?thesis
      using s' u by (auto simp: maybe_finalize_window_def Let_def stats_ok_def current_tier_def
          STATS_WINDOW_PACKETS_def word_le_nat_alt)
  qed
  have r: "unat (ns_received s + 1) = unat (ns_received s) + 1" "unat (ns_lost s + 1) = unat (ns_lost s) + 1"
    using ok by (simp_all add: stats_ok_def STATS_WINDOW_PACKETS_def unat_word_ariths)
  show ?thesis
    by (cases got; simp; rule step)
      (use ok r in \<open>simp_all add: stats_ok_def record_received_def record_lost_def current_tier_def STATS_WINDOW_PACKETS_def\<close>)
qed

lemma stats_new_ok: "stats_ok stats_new"
  by (simp add: stats_ok_def stats_new_def current_tier_def tier_from_loss_def tier_from_u8_def config_defs)

lemma record_packets_ok: "stats_ok s \<Longrightarrow> stats_ok (fold record_packet ps s)"
  by (induction ps arbitrary: s) (simp_all add: record_packet_ok)

text \<open>While a window is open its counters follow the packets and nothing else changes.\<close>

definition count_got :: "bool \<Rightarrow> bool list \<Rightarrow> nat" where
  "count_got b ps = length (filter (\<lambda>p. p = b) ps)"

lemma count_got_sum: "count_got True ps + count_got False ps = length ps"
  by (induction ps) (auto simp: count_got_def)

lemma open_step:
  assumes "unat (ns_received s) + unat (ns_lost s) + 1 < 150"
  shows "record_packet got s =
    (if got then s\<lparr>ns_received := ns_received s + 1\<rparr> else s\<lparr>ns_lost := ns_lost s + 1\<rparr>)"
proof -
  have "unat (ns_received s + 1 + ns_lost s) = unat (ns_received s) + 1 + unat (ns_lost s)"
    "unat (ns_received s + (ns_lost s + 1)) = unat (ns_received s) + 1 + unat (ns_lost s)"
    using assms by (simp_all add: unat_word_ariths)
  with assms show ?thesis
    by (cases got) (simp_all add: record_received_def record_lost_def maybe_finalize_window_def Let_def
        STATS_WINDOW_PACKETS_def word_le_nat_alt)
qed

lemma open_window:
  assumes "unat (ns_received s) + unat (ns_lost s) + length ps < 150"
  shows "fold record_packet ps s =
    s\<lparr>ns_received := ns_received s + of_nat (count_got True ps), ns_lost := ns_lost s + of_nat (count_got False ps)\<rparr>"
  using assms
proof (induction ps arbitrary: s)
  case (Cons p ps)
  have o: "unat (ns_received s) + unat (ns_lost s) + 1 < 150" using Cons.prems by simp
  note step = open_step [OF o, of p]
  have "unat (ns_received s + 1) = unat (ns_received s) + 1" "unat (ns_lost s + 1) = unat (ns_lost s) + 1"
    using o by (simp_all add: unat_word_ariths)
  then have "unat (ns_received (record_packet p s)) + unat (ns_lost (record_packet p s)) + length ps < 150"
    using Cons.prems step by (cases p) simp_all
  from Cons.IH [OF this] show ?case using step by (cases p) (simp_all add: count_got_def)
qed (simp add: count_got_def)

lemma finalize_full:
  assumes "ns_received s + ns_lost s = 150"
  shows "maybe_finalize_window s = s\<lparr>ns_loss_percent := loss_of (ns_lost s) 150,
    ns_current_tier := tier_to_u8 (tier_from_loss (loss_of (ns_lost s) 150)), ns_received := 0, ns_lost := 0\<rparr>"
  using assms by (simp add: maybe_finalize_window_def Let_def STATS_WINDOW_PACKETS_def)

text \<open>Loss is measured over whole windows: from an empty window, recording 150 packets sets the
  loss percentage to the share of the lost ones, truncated, sets the tier to the one for that loss and
  opens an empty window; recording fewer changes neither. More losses never give a better
  tier, so never a higher bitrate.\<close>

theorem loss_window:
  assumes "ns_received s = 0" and "ns_lost s = 0" and "length ps \<le> STATS_WINDOW_PACKETS"
  shows "let s' = fold record_packet ps s in
    if length ps = STATS_WINDOW_PACKETS then
      ns_received s' = 0 \<and> ns_lost s' = 0 \<and>
      ns_loss_percent s' = loss_of (of_nat (count_got False ps)) (of_nat STATS_WINDOW_PACKETS) \<and>
      current_tier s' = tier_from_loss (ns_loss_percent s') \<and>
      (\<forall>m \<le> ns_loss_percent s'. tier_bitrate (current_tier s') \<le> tier_bitrate (tier_from_loss m))
    else ns_loss_percent s' = ns_loss_percent s \<and> current_tier s' = current_tier s"
proof (cases "length ps = 150")
  case False
  with assms have "unat (ns_received s) + unat (ns_lost s) + length ps < 150" by (simp add: STATS_WINDOW_PACKETS_def)
  from open_window [OF this] show ?thesis using False by (simp add: Let_def STATS_WINDOW_PACKETS_def current_tier_def)
next
  case True
  then obtain qs p where ps: "ps = qs @ [p]" by (cases ps rule: rev_cases) auto
  let ?r = "count_got True qs" and ?l = "count_got False qs"
  have n: "?r + ?l = 149" using count_got_sum [of qs] True ps by simp
  have "fold record_packet qs s = s\<lparr>ns_received := of_nat ?r, ns_lost := of_nat ?l\<rparr>"
    using open_window [of s qs] assms True ps by simp
  then have e: "fold record_packet ps s = record_packet p (s\<lparr>ns_received := of_nat ?r, ns_lost := of_nat ?l\<rparr>)"
    using ps by simp
  have r: "of_nat ?r = (149 - of_nat ?l :: 32 word)"
    using arg_cong [OF n, of "of_nat :: nat \<Rightarrow> 32 word"] by (simp add: eq_diff_eq)
  have c: "of_nat (count_got False ps) = (if p then of_nat ?l else of_nat ?l + 1 :: 32 word)"
    using ps by (simp add: count_got_def)
  have w: "ns_received s' + ns_lost s' = 150"
    if "s' = (if p then record_received else record_lost) (s\<lparr>ns_received := of_nat ?r, ns_lost := of_nat ?l\<rparr>)" for s'
    using that by (cases p) (simp_all add: record_received_def record_lost_def r)
  have "ns_received (fold record_packet ps s) = 0 \<and> ns_lost (fold record_packet ps s) = 0 \<and>
    ns_loss_percent (fold record_packet ps s) = loss_of (of_nat (count_got False ps)) 150 \<and>
    current_tier (fold record_packet ps s) = tier_from_loss (ns_loss_percent (fold record_packet ps s))"
    unfolding e c using finalize_full [OF w [OF refl]]
    by (cases p) (simp_all add: record_received_def record_lost_def current_tier_def)
  moreover from this have "\<forall>m \<le> ns_loss_percent (fold record_packet ps s).
      tier_bitrate (current_tier (fold record_packet ps s)) \<le> tier_bitrate (tier_from_loss m)"
    using tier_bitrate_antimono tier_from_loss_mono by metis
  ultimately show ?thesis using True by (simp add: Let_def STATS_WINDOW_PACKETS_def)
qed

theorem loss_window_witness:
  "let s = fold record_packet (replicate 105 True @ replicate 45 False) stats_new in
    ns_loss_percent s = loss_of 45 150 \<and> tier_bitrate (current_tier s) \<le> BITRATE_HIGH"
proof -
  let ?ps = "replicate 105 True @ replicate 45 False"
  have f: "ns_received stats_new = 0" "ns_lost stats_new = 0" "length ?ps \<le> STATS_WINDOW_PACKETS"
    by (simp_all add: stats_new_def STATS_WINDOW_PACKETS_def)
  have "count_got False ?ps = 45" by (simp add: count_got_def)
  moreover have "tier_from_loss 0 = High" by (simp add: tier_from_loss_def config_defs)
  moreover have "length ?ps = STATS_WINDOW_PACKETS" by (simp add: STATS_WINDOW_PACKETS_def)
  ultimately show ?thesis
    using loss_window [OF f] by (auto simp: Let_def STATS_WINDOW_PACKETS_def dest: spec [where x = 0])
qed

end
