(* ===== verification/Capture_Level.thy ===== *)
theory Capture_Level
  imports Config
begin

text \<open>
  \<^verbatim>\<open>crates/client/src/limiter.rs\<close>, \<^verbatim>\<open>agc.rs\<close> and the RMS and loudness functions of \<^verbatim>\<open>level.rs\<close>:
  the soft limiter, the automatic capture gain and the levels. A sample is an \<open>f32\<close>, a rational
  rounded after every operation. \<open>tanh\<close> and \<open>log10\<close> come from the C library, whose
  rounding is not specified; they are parameters, and what is used of \<open>tanh\<close> is \<open>tanh_laws\<close>.
\<close>

definition tanh_laws :: "(rat \<Rightarrow> rat) \<Rightarrow> bool" where
  "tanh_laws tanhf \<longleftrightarrow> (\<forall>x \<ge> 0. 0 \<le> tanhf x \<and> tanhf x \<le> 1)"

definition fclamp :: "rat \<Rightarrow> rat \<Rightarrow> rat \<Rightarrow> rat" where
  "fclamp lo hi x = (if x < lo then lo else if hi < x then hi else x)"

subsection \<open>The limiter\<close>

definition soft_clip :: "(rat \<Rightarrow> rat) \<Rightarrow> rat \<Rightarrow> rat" where
  "soft_clip tanhf x =
    (let knee = LIMITER_KNEE; a = \<bar>x\<bar> in
     if a \<le> knee then x
     else
       (let over = f32_div (f32_sub a knee) (f32_sub 1 knee);
            shaped = min (f32_add knee (f32_mul (f32_sub 1 knee) (tanhf over))) (f32_sub 1 (f32_div f32_epsilon 2))
        in if x < 0 then - shaped else shaped))"

fun limit_in_place :: "(rat \<Rightarrow> rat) \<Rightarrow> rat list \<Rightarrow> bool \<times> rat list" where
  "limit_in_place tanhf [] = (False, [])"
| "limit_in_place tanhf (s # buf) =
    (let a = \<bar>s\<bar>; (engaged, out) = limit_in_place tanhf buf in
     if LIMITER_KNEE < a then (1 \<le> a \<or> engaged, soft_clip tanhf s # out) else (engaged, s # out))"

subsection \<open>Levels\<close>

definition rms :: "rat list \<Rightarrow> rat" where
  "rms frame = f32_sqrt (f32_div (foldl f32_add 0 (map (\<lambda>s. f32_mul s s) frame)) (f32 (of_nat (max (length frame) 1))))"

definition loudness :: "(rat \<Rightarrow> rat) \<Rightarrow> rat \<Rightarrow> rat" where
  "loudness log10f r =
    (if r \<le> 0 then 0
     else
       (let dbfs = f32_mul 20 (log10f r) in
        fclamp 0 1 (f32_div (f32_sub dbfs LEVEL_FLOOR_DBFS) (f32_sub LEVEL_CEIL_DBFS LEVEL_FLOOR_DBFS))))"

subsection \<open>Automatic gain\<close>

record agc =
  agc_gain :: rat

definition agc_new :: agc where "agc_new = \<lparr>agc_gain = 1\<rparr>"

definition agc_adapt :: "rat \<Rightarrow> rat \<Rightarrow> rat" where
  "agc_adapt r gain =
    (if AGC_FLOOR_RMS < r then
       (let want = fclamp AGC_MIN_GAIN AGC_MAX_GAIN (f32_div AGC_TARGET_RMS r);
            rate = (if want < gain then AGC_ATTACK else AGC_RELEASE)
        in f32_add gain (f32_mul (f32_sub want gain) rate))
     else gain)"

definition agc_process :: "(rat \<Rightarrow> rat) \<Rightarrow> rat list \<Rightarrow> agc \<Rightarrow> rat \<times> rat list \<times> agc" where
  "agc_process tanhf frame agc =
    (if frame = [] then (agc_gain agc, frame, agc)
     else
       (let r = f32_sqrt (f32_div (foldl f32_add 0 (map (\<lambda>s. f32_mul s s) frame)) (f32 (of_nat (length frame))));
            gain = agc_adapt r (agc_gain agc)
        in (gain, map (\<lambda>s. soft_clip tanhf (f32_mul s gain)) frame, agc\<lparr>agc_gain := gain\<rparr>)))"

subsection \<open>Bounds\<close>

lemma f32_exact: "\<bar>m\<bar> \<le> 2 ^ 24 \<Longrightarrow> f32 (of_int m * 2 powi k) = of_int m * 2 powi k"
  by (rule fl_exact) simp_all

lemma f32_small [simp]:
  "f32 1 = 1" "f32 8 = 8" "f32 (1 / 4) = 1 / 4" "f32_sub 1 (f32_div f32_epsilon 2) = 1 - 1 / 2 ^ 24"
proof -
  show "f32 1 = 1" "f32 8 = 8" using fl_of_nat [of 1 24] fl_of_nat [of 8 24] by simp_all
  have e: "(1 / 4 :: rat) = of_int 1 * 2 powi (- 2)" "(1 / 2 ^ 24 :: rat) = of_int 1 * 2 powi (- 24)"
    "(1 - 1 / 2 ^ 24 :: rat) = of_int (2 ^ 24 - 1) * 2 powi (- 24)"
    by (simp_all add: power_int_def power_one_over)
  show "f32 (1 / 4) = 1 / 4" unfolding e by (rule f32_exact) simp
  have "f32 (1 / 2 ^ 24) = 1 / 2 ^ 24" unfolding e by (rule f32_exact) simp
  moreover have "f32 (1 - 1 / 2 ^ 24) = 1 - 1 / 2 ^ 24" unfolding e(3) by (rule f32_exact) simp
  moreover have "f32_epsilon / 2 = 1 / 2 ^ 24" by (simp add: f32_epsilon_def)
  ultimately show "f32_sub 1 (f32_div f32_epsilon 2) = 1 - 1 / 2 ^ 24"
    unfolding f32_sub_def f32_div_def by (simp only:)
qed

lemma f32_upper: "0 \<le> x \<Longrightarrow> f32 x \<le> x * (1 + 1 / 2 ^ 24)"
  using fl_upper [of x 24] by simp

lemma knee_bounds: "0 < LIMITER_KNEE" "LIMITER_KNEE < 1" "f32 LIMITER_KNEE = LIMITER_KNEE"
proof -
  have "f32 (1 / 4) \<le> LIMITER_KNEE" unfolding LIMITER_KNEE_def by (rule fl_mono) simp_all
  then show "0 < LIMITER_KNEE" by simp
  have "LIMITER_KNEE \<le> 4 / 5 * (1 + 1 / 2 ^ 24)" unfolding LIMITER_KNEE_def by (rule f32_upper) simp
  also have "\<dots> < 1" by simp
  finally show "LIMITER_KNEE < 1" .
  show "f32 LIMITER_KNEE = LIMITER_KNEE" by (simp add: LIMITER_KNEE_def fl_idem)
qed

lemma soft_clip_knee: "\<bar>x\<bar> \<le> LIMITER_KNEE \<Longrightarrow> soft_clip tanhf x = x"
  by (simp add: soft_clip_def)

lemma soft_clip_bounds:
  assumes "tanh_laws tanhf" and "LIMITER_KNEE < \<bar>x\<bar>"
  shows "LIMITER_KNEE \<le> \<bar>soft_clip tanhf x\<bar>" and "\<bar>soft_clip tanhf x\<bar> < 1" and "(soft_clip tanhf x < 0) = (x < 0)"
proof -
  let ?over = "f32_div (f32_sub \<bar>x\<bar> LIMITER_KNEE) (f32_sub 1 LIMITER_KNEE)"
  let ?s = "min (f32_add LIMITER_KNEE (f32_mul (f32_sub 1 LIMITER_KNEE) (tanhf ?over))) (1 - 1 / 2 ^ 24)"
  have d: "0 \<le> f32_sub 1 LIMITER_KNEE" "0 \<le> f32_sub \<bar>x\<bar> LIMITER_KNEE"
    using knee_bounds(2) assms(2) by (simp_all add: f32_sub_def fl_nonneg)
  then have "0 \<le> ?over" by (simp add: f32_div_def fl_nonneg)
  then have "0 \<le> tanhf ?over" using assms(1) by (simp add: tanh_laws_def)
  then have "0 \<le> f32_mul (f32_sub 1 LIMITER_KNEE) (tanhf ?over)" using d by (simp add: f32_mul_def fl_nonneg)
  then have "f32 LIMITER_KNEE \<le> f32_add LIMITER_KNEE (f32_mul (f32_sub 1 LIMITER_KNEE) (tanhf ?over))"
    unfolding f32_add_def by (intro fl_mono) simp_all
  moreover have "LIMITER_KNEE \<le> 1 - 1 / 2 ^ 24"
  proof -
    have "LIMITER_KNEE \<le> 4 / 5 * (1 + 1 / 2 ^ 24)" unfolding LIMITER_KNEE_def by (rule f32_upper) simp
    also have "\<dots> \<le> 1 - 1 / 2 ^ 24" by simp
    finally show ?thesis .
  qed
  ultimately have s: "LIMITER_KNEE \<le> ?s" "?s < 1" by (simp_all add: knee_bounds(3) min_less_iff_disj)
  have c: "soft_clip tanhf x = (if x < 0 then - ?s else ?s)" using assms(2) by (simp add: soft_clip_def Let_def)
  show "LIMITER_KNEE \<le> \<bar>soft_clip tanhf x\<bar>" "\<bar>soft_clip tanhf x\<bar> < 1" "(soft_clip tanhf x < 0) = (x < 0)"
    unfolding c using s knee_bounds(1) by auto
qed

lemma soft_clip_inside: "tanh_laws tanhf \<Longrightarrow> \<bar>soft_clip tanhf x\<bar> < 1"
  using soft_clip_bounds(2) [of tanhf x] soft_clip_knee [of x tanhf] knee_bounds(2)
  by (cases "\<bar>x\<bar> \<le> LIMITER_KNEE") auto

lemma limit_in_place_eq: "limit_in_place tanhf buf = (list_ex (\<lambda>s. 1 \<le> \<bar>s\<bar>) buf, map (soft_clip tanhf) buf)"
proof (induction buf)
  case (Cons s buf)
  have "\<not> 1 \<le> \<bar>s\<bar>" if "\<bar>s\<bar> \<le> LIMITER_KNEE" using that knee_bounds(2) by simp
  then show ?case using Cons soft_clip_knee [of s tanhf] by (auto simp: Let_def)
qed simp

text \<open>One step towards a target never leaves an interval that holds both ends.\<close>

lemma approach_up:
  assumes "g \<le> w" "0 \<le> rate" "rate \<le> 1 / 2"
  shows "g \<le> g + f32_mul (f32_sub w g) rate \<and> g + f32_mul (f32_sub w g) rate \<le> w"
proof -
  have d: "0 \<le> f32_sub w g" "f32_sub w g \<le> (w - g) * (1 + 1 / 2 ^ 24)"
    using assms(1) f32_upper [of "w - g"] by (simp_all add: f32_sub_def fl_nonneg)
  have m: "0 \<le> f32_mul (f32_sub w g) rate" using d assms(2) by (simp add: f32_mul_def fl_nonneg)
  have "f32_mul (f32_sub w g) rate \<le> f32_sub w g * rate * (1 + 1 / 2 ^ 24)"
    unfolding f32_mul_def by (rule f32_upper) (use d assms(2) in simp)
  also have "\<dots> \<le> ((w - g) * (1 + 1 / 2 ^ 24)) * (1 / 2) * (1 + 1 / 2 ^ 24)"
    by (intro mult_mono d assms(3)) (use d assms in simp_all)
  also have "\<dots> = (w - g) * ((1 + 1 / 2 ^ 24) * (1 / 2) * (1 + 1 / 2 ^ 24))" by (simp only: mult.assoc)
  also have "\<dots> \<le> (w - g) * 1" by (rule mult_left_mono) (use assms(1) in simp_all)
  finally show ?thesis using m by simp
qed

lemma approach_minus: "f32_mul (f32_sub (- w) (- g)) rate = - f32_mul (f32_sub w g) rate"
proof -
  have "f32_sub (- w) (- g) = - f32_sub w g" using fl_minus [of 24 "w - g"] by (simp add: f32_sub_def)
  then show ?thesis using fl_minus [of 24 "f32_sub w g * rate"] by (simp add: f32_mul_def)
qed

lemma approach_bounds:
  assumes "lo \<le> g" "g \<le> hi" "lo \<le> w" "w \<le> hi" "0 \<le> rate" "rate \<le> 1 / 2" "f32 lo = lo" "f32 hi = hi"
  shows "lo \<le> f32_add g (f32_mul (f32_sub w g) rate) \<and> f32_add g (f32_mul (f32_sub w g) rate) \<le> hi"
proof -
  have "lo \<le> g + f32_mul (f32_sub w g) rate \<and> g + f32_mul (f32_sub w g) rate \<le> hi"
  proof (cases "g \<le> w")
    case True
    with approach_up [OF True assms(5,6)] assms show ?thesis by linarith
  next
    case False
    then have "- g \<le> - w" by simp
    from approach_up [OF this assms(5,6)] assms show ?thesis unfolding approach_minus by linarith
  qed
  then have "f32 lo \<le> f32_add g (f32_mul (f32_sub w g) rate)" "f32_add g (f32_mul (f32_sub w g) rate) \<le> f32 hi"
    unfolding f32_add_def by (auto intro: fl_mono)
  then show ?thesis using assms(7,8) by simp
qed

lemma agc_rates: "0 \<le> AGC_ATTACK" "AGC_ATTACK \<le> 1 / 2" "0 \<le> AGC_RELEASE" "AGC_RELEASE \<le> 1 / 2"
proof -
  have "f32 (7 / 20) \<le> 7 / 20 * (1 + 1 / 2 ^ 24)" "f32 (3 / 100) \<le> 3 / 100 * (1 + 1 / 2 ^ 24)"
    by (rule f32_upper, simp)+
  then show "0 \<le> AGC_ATTACK" "AGC_ATTACK \<le> 1 / 2" "0 \<le> AGC_RELEASE" "AGC_RELEASE \<le> 1 / 2"
    by (simp_all add: AGC_ATTACK_def AGC_RELEASE_def fl_nonneg)
qed

definition agc_ok :: "agc \<Rightarrow> bool" where
  "agc_ok agc \<longleftrightarrow> AGC_MIN_GAIN \<le> agc_gain agc \<and> agc_gain agc \<le> AGC_MAX_GAIN"

lemma agc_adapt_bounds:
  assumes "AGC_MIN_GAIN \<le> g" "g \<le> AGC_MAX_GAIN"
  shows "AGC_MIN_GAIN \<le> agc_adapt r g \<and> agc_adapt r g \<le> AGC_MAX_GAIN"
proof -
  have e: "AGC_MIN_GAIN = 1 / 4" "AGC_MAX_GAIN = 8" by (simp_all add: AGC_MIN_GAIN_def AGC_MAX_GAIN_def)
  have "1 / 4 \<le> fclamp (1 / 4) 8 x" "fclamp (1 / 4) 8 x \<le> 8" for x by (simp_all add: fclamp_def)
  then show ?thesis
    using assms approach_bounds [of "1 / 4" g 8] agc_rates by (simp add: agc_adapt_def Let_def e)
qed

lemma agc_process_ok:
  assumes "agc_ok agc" and "tanh_laws tanhf" and "agc_process tanhf frame agc = (g, out, agc')"
  shows "agc_ok agc' \<and> g = agc_gain agc' \<and> length out = length frame \<and> list_all (\<lambda>s. \<bar>s\<bar> < 1) out"
  using assms agc_adapt_bounds [of "agc_gain agc"] soft_clip_inside [OF assms(2)]
  by (auto simp: agc_process_def Let_def agc_ok_def list_all_iff split: if_splits)

subsection \<open>A capture stream\<close>

fun agc_run :: "(rat \<Rightarrow> rat) \<Rightarrow> rat list list \<Rightarrow> agc \<Rightarrow> rat list list \<times> agc" where
  "agc_run tanhf [] agc = ([], agc)"
| "agc_run tanhf (frame # frames) agc =
    (let (g, out, agc) = agc_process tanhf frame agc; (outs, agc) = agc_run tanhf frames agc
     in (out # outs, agc))"

lemma agc_new_ok: "agc_ok agc_new"
  by (simp add: agc_ok_def agc_new_def AGC_MIN_GAIN_def AGC_MAX_GAIN_def)

lemma agc_run_ok:
  "agc_ok agc \<Longrightarrow> tanh_laws tanhf \<Longrightarrow> agc_run tanhf frames agc = (outs, agc') \<Longrightarrow>
   agc_ok agc' \<and> list_all (list_all (\<lambda>s. \<bar>s\<bar> < 1)) outs"
proof (induction frames arbitrary: agc outs agc')
  case (Cons frame frames)
  obtain g out mid where p: "agc_process tanhf frame agc = (g, out, mid)" by (cases "agc_process tanhf frame agc")
  obtain rest last where r: "agc_run tanhf frames mid = (rest, last)" by (cases "agc_run tanhf frames mid")
  have e: "outs = out # rest" "agc' = last" using Cons.prems(3) p r by (simp_all add: Let_def)
  note ok = agc_process_ok [OF Cons.prems(1,2) p]
  then show ?case using Cons.IH [OF _ Cons.prems(2) r] unfolding e by simp
qed simp

text \<open>A frame that is not louder than the floor teaches nothing; any other moves the gain towards
  what the frame asks for, down or up, never past it.\<close>

lemma agc_adapt_between:
  assumes "f32 g = g" and "AGC_FLOOR_RMS < r"
  defines "want \<equiv> fclamp AGC_MIN_GAIN AGC_MAX_GAIN (f32_div AGC_TARGET_RMS r)"
  shows "min g want \<le> agc_adapt r g \<and> agc_adapt r g \<le> max g want"
proof -
  have "f32 (f32_div AGC_TARGET_RMS r) = f32_div AGC_TARGET_RMS r" by (simp add: f32_div_def fl_idem)
  then have w: "f32 want = want" by (simp add: want_def fclamp_def AGC_MIN_GAIN_def AGC_MAX_GAIN_def)
  have "f32 (min g want) = min g want" "f32 (max g want) = max g want" using w assms(1) by (simp_all add: min_def max_def)
  then show ?thesis
    using approach_bounds [of "min g want" g "max g want" want] agc_rates assms(2)
    by (simp add: agc_adapt_def Let_def flip: want_def)
qed

text \<open>The capture chain stays inside its bounds on every input, rounding included: from
  the first frame on the automatic gain lies between its minimum and its maximum, every sample it
  puts out is strictly inside full scale, quiet frames leave the gain alone, and a loud one never
  moves it past the gain it asks for. The limiter alone passes samples up to the knee
  unchanged, keeps the sign of all others and reports exactly whether a sample reached full scale.\<close>

theorem capture_bounded:
  assumes "tanh_laws tanhf" and "agc_run tanhf frames agc_new = (outs, agc)"
  shows "AGC_MIN_GAIN \<le> agc_gain agc \<and> agc_gain agc \<le> AGC_MAX_GAIN \<and>
    list_all (list_all (\<lambda>s. \<bar>s\<bar> < 1)) outs \<and>
    (if r \<le> AGC_FLOOR_RMS then agc_adapt r (agc_gain agc) = agc_gain agc
     else agc_adapt r (f32 g) \<le> max (f32 g) (fclamp AGC_MIN_GAIN AGC_MAX_GAIN (f32_div AGC_TARGET_RMS r)) \<and>
       min (f32 g) (fclamp AGC_MIN_GAIN AGC_MAX_GAIN (f32_div AGC_TARGET_RMS r)) \<le> agc_adapt r (f32 g)) \<and>
    limit_in_place tanhf buf = (list_ex (\<lambda>s. 1 \<le> \<bar>s\<bar>) buf, map (soft_clip tanhf) buf) \<and>
    (if \<bar>x\<bar> \<le> LIMITER_KNEE then soft_clip tanhf x = x
     else LIMITER_KNEE \<le> \<bar>soft_clip tanhf x\<bar> \<and> \<bar>soft_clip tanhf x\<bar> < 1 \<and> (soft_clip tanhf x < 0) = (x < 0))"
proof (intro conjI)
  note ok = agc_run_ok [OF agc_new_ok assms]
  then show "AGC_MIN_GAIN \<le> agc_gain agc" "agc_gain agc \<le> AGC_MAX_GAIN" "list_all (list_all (\<lambda>s. \<bar>s\<bar> < 1)) outs"
    by (simp_all add: agc_ok_def)
  show "if r \<le> AGC_FLOOR_RMS then agc_adapt r (agc_gain agc) = agc_gain agc
     else agc_adapt r (f32 g) \<le> max (f32 g) (fclamp AGC_MIN_GAIN AGC_MAX_GAIN (f32_div AGC_TARGET_RMS r)) \<and>
       min (f32 g) (fclamp AGC_MIN_GAIN AGC_MAX_GAIN (f32_div AGC_TARGET_RMS r)) \<le> agc_adapt r (f32 g)"
    using agc_adapt_between [of "f32 g" r] fl_idem [of 24 g] by (simp add: agc_adapt_def)
  show "if \<bar>x\<bar> \<le> LIMITER_KNEE then soft_clip tanhf x = x
     else LIMITER_KNEE \<le> \<bar>soft_clip tanhf x\<bar> \<and> \<bar>soft_clip tanhf x\<bar> < 1 \<and> (soft_clip tanhf x < 0) = (x < 0)"
    using soft_clip_knee [of x tanhf] soft_clip_bounds [OF assms(1), of x] by auto
qed (rule limit_in_place_eq)

text \<open>A stand-in for \<open>tanh\<close>: the rational \<open>x / (1 + x)\<close>.\<close>

definition sample_tanh :: "rat \<Rightarrow> rat" where "sample_tanh x = x / (1 + x)"

lemma sample_tanh_laws: "tanh_laws sample_tanh"
  by (simp add: tanh_laws_def sample_tanh_def divide_le_eq_1)

theorem capture_bounded_witness:
  "\<exists>outs agc. agc_run sample_tanh [[1 / 2, - 3], [0]] agc_new = (outs, agc) \<and> agc_gain agc \<le> AGC_MAX_GAIN \<and>
    \<bar>soft_clip sample_tanh (- 3)\<bar> < 1"
proof -
  obtain outs agc where r: "agc_run sample_tanh [[1 / 2, - 3], [0]] agc_new = (outs, agc)"
    by (cases "agc_run sample_tanh [[1 / 2, - 3], [0]] agc_new")
  have "\<not> \<bar>- 3 :: rat\<bar> \<le> LIMITER_KNEE" using knee_bounds(2) by simp
  with capture_bounded [OF sample_tanh_laws r, of 0 0 "[]" "- 3"] r show ?thesis by auto
qed

end
