(* ===== verification/Live_Levels.thy ===== *)
theory Live_Levels
  imports Capture_Level
begin

text \<open>
  \<^verbatim>\<open>crates/client/src/level.rs\<close>, \<open>LiveLevels\<close>: the loudness of the own microphone and of every
  sender, with a version that moves when a value changed. Each method runs under the peers' lock (or on
  one atomic) and is one function here. Levels are compared as numbers: two zeros of different
  sign count as equal.
\<close>

record peer =
  p_name :: string
  p_level :: rat
  p_seen :: bool

record live_levels =
  ll_own :: rat
  ll_version :: "64 word"
  ll_peers :: "peer list"

definition ll_new :: live_levels where
  "ll_new = \<lparr>ll_own = 0, ll_version = 0, ll_peers = []\<rparr>"

fun copy_peers :: "peer list \<Rightarrow> (string \<times> rat) list \<Rightarrow> (string \<times> rat) list" where
  "copy_peers [] out = out"
| "copy_peers (p # ps) [] = (p_name p, p_level p) # copy_peers ps []"
| "copy_peers (p # ps) (slot # out) = (p_name p, p_level p) # copy_peers ps out"

definition ll_snapshot :: "(string \<times> rat) list \<Rightarrow> live_levels \<Rightarrow> (string \<times> rat) list \<times> rat \<times> 64 word" where
  "ll_snapshot out l = (copy_peers (ll_peers l) (take (length (ll_peers l)) out), ll_own l, ll_version l)"

definition set_own :: "rat \<Rightarrow> live_levels \<Rightarrow> live_levels" where
  "set_own level l = (if ll_own l \<noteq> level then l\<lparr>ll_own := level, ll_version := ll_version l + 1\<rparr> else l)"

fun upsert_peer :: "string \<Rightarrow> rat \<Rightarrow> peer list \<Rightarrow> bool \<times> peer list" where
  "upsert_peer name level [] = (True, [\<lparr>p_name = name, p_level = level, p_seen = True\<rparr>])"
| "upsert_peer name level (p # ps) =
    (if p_name p = name then (p_level p \<noteq> level, p\<lparr>p_level := level, p_seen := True\<rparr> # ps)
     else (let (changed, ps') = upsert_peer name level ps in (changed, p # ps')))"

fun upsert_all :: "(string \<times> rat) list \<Rightarrow> bool \<times> peer list \<Rightarrow> bool \<times> peer list" where
  "upsert_all [] acc = acc"
| "upsert_all ((name, level) # levels) (changed, ps) =
    (let (c, ps') = upsert_peer name level ps in upsert_all levels (changed \<or> c, ps'))"

definition publish_peers :: "(string \<times> rat) list \<Rightarrow> live_levels \<Rightarrow> live_levels" where
  "publish_peers levels l =
    (let (changed, peers) = upsert_all levels (False, map (\<lambda>p. p\<lparr>p_seen := False\<rparr>) (ll_peers l));
         kept = filter p_seen peers;
         changed = (changed \<or> length kept \<noteq> length peers);
         l = l\<lparr>ll_peers := kept\<rparr>
     in if changed then l\<lparr>ll_version := ll_version l + 1\<rparr> else l)"

definition ll_clear :: "live_levels \<Rightarrow> live_levels" where
  "ll_clear l = publish_peers [] (set_own 0 l)"

lemma copy_peers_eq: "length out \<le> length ps \<Longrightarrow> copy_peers ps out = map (\<lambda>p. (p_name p, p_level p)) ps"
  by (induction ps out rule: copy_peers.induct) auto

text \<open>A snapshot does not depend on what the reused vector held.\<close>

lemma ll_snapshot_eq: "ll_snapshot out l = (map (\<lambda>p. (p_name p, p_level p)) (ll_peers l), ll_own l, ll_version l)"
  by (simp add: ll_snapshot_def copy_peers_eq)

subsection \<open>What publishing does to the map of levels\<close>

definition level_of :: "peer list \<Rightarrow> string \<Rightarrow> rat option" where
  "level_of ps name = map_option p_level (find (\<lambda>p. p_name p = name) ps)"

lemma level_of_simps [simp]:
  "level_of [] n = None"
  "level_of (p # ps) n = (if p_name p = n then Some (p_level p) else level_of ps n)"
  by (simp_all add: level_of_def)

lemma upsert_names: "p_name ` set (snd (upsert_peer n v ps)) = insert n (p_name ` set ps)"
  by (induction ps) (auto simp: case_prod_beta Let_def)

lemma upsert_distinct: "distinct (map p_name ps) \<Longrightarrow> distinct (map p_name (snd (upsert_peer n v ps)))"
proof (induction ps)
  case (Cons p ps)
  then show ?case using upsert_names [of n v ps] by (auto simp: case_prod_beta Let_def image_iff)
qed simp

lemma upsert_level: "level_of (snd (upsert_peer n v ps)) = (level_of ps)(n := Some v)"
  by (induction ps) (auto simp: case_prod_beta Let_def)

lemma upsert_changed: "fst (upsert_peer n v ps) \<longleftrightarrow> level_of ps n \<noteq> Some v"
  by (induction ps) (auto simp: case_prod_beta Let_def)

definition seen_names :: "peer list \<Rightarrow> string set" where
  "seen_names ps = p_name ` set (filter p_seen ps)"

lemma seen_names_simps [simp]:
  "seen_names [] = {}"
  "seen_names (p # ps) = (if p_seen p then insert (p_name p) (seen_names ps) else seen_names ps)"
  by (simp_all add: seen_names_def)

lemma upsert_seen: "seen_names (snd (upsert_peer n v ps)) = insert n (seen_names ps)"
  by (induction ps) (auto simp: case_prod_beta Let_def)

lemma upsert_all_eq:
  assumes "distinct (map p_name ps)" and "distinct (map fst levels)"
    and "upsert_all levels (c, ps) = (c', ps')"
  shows "distinct (map p_name ps') \<and> level_of ps' = level_of ps ++ map_of levels \<and>
    seen_names ps' = seen_names ps \<union> fst ` set levels \<and> p_name ` set ps' = p_name ` set ps \<union> fst ` set levels \<and>
    (c' \<longleftrightarrow> c \<or> \<not> map_of levels \<subseteq>\<^sub>m level_of ps)"
  using assms
proof (induction levels arbitrary: c ps)
  case (Cons nv levels)
  obtain n v where nv: "nv = (n, v)" by (cases nv)
  obtain d qs where u: "upsert_peer n v ps = (d, qs)" by (cases "upsert_peer n v ps")
  have q: "distinct (map p_name qs)" "level_of qs = (level_of ps)(n := Some v)"
    "seen_names qs = insert n (seen_names ps)" "p_name ` set qs = insert n (p_name ` set ps)"
    "d \<longleftrightarrow> level_of ps n \<noteq> Some v"
    using upsert_distinct [OF Cons.prems(1), of n v] upsert_level [of n v ps]
      upsert_seen [of n v ps] upsert_names [of n v ps] upsert_changed [of n v ps] u by simp_all
  have r: "upsert_all levels (c \<or> d, qs) = (c', ps')" using Cons.prems(3) nv u by simp
  have n: "n \<notin> fst ` set levels" "distinct (map fst levels)" using Cons.prems(2) nv by (auto simp: image_iff)
  then have m: "map_of levels n = None" by (simp add: map_of_eq_None_iff)
  note IH = Cons.IH [OF q(1) n(2) r]
  have e1: "map_of levels \<subseteq>\<^sub>m level_of qs \<longleftrightarrow> map_of levels \<subseteq>\<^sub>m level_of ps"
    unfolding q(2) map_le_def using m by auto
  have e2: "map_of (nv # levels) \<subseteq>\<^sub>m level_of ps \<longleftrightarrow>
      level_of ps n = Some v \<and> map_of levels \<subseteq>\<^sub>m level_of ps"
    unfolding nv using m by (auto simp: map_le_def)
  have e3: "level_of ps ++ map_of (nv # levels) = (level_of ps)(n := Some v) ++ map_of levels"
    unfolding nv using m by (auto simp: map_add_def fun_eq_iff split: option.split)
  have e4: "fst ` set (nv # levels) = insert n (fst ` set levels)" unfolding nv by simp
  have i: "distinct (map p_name ps')" "level_of ps' = level_of qs ++ map_of levels"
    "seen_names ps' = seen_names qs \<union> fst ` set levels" "p_name ` set ps' = p_name ` set qs \<union> fst ` set levels"
    "c' \<longleftrightarrow> (c \<or> d) \<or> \<not> map_of levels \<subseteq>\<^sub>m level_of qs"
    using IH by blast+
  have "c' \<longleftrightarrow> c \<or> \<not> (level_of ps n = Some v \<and> map_of levels \<subseteq>\<^sub>m level_of ps)"
    unfolding i(5) e1 q(5) by argo
  then show ?case unfolding e2 e3 e4 i(2-4) q(2-4) by (intro conjI i(1)) simp_all
qed (auto simp: map_le_def)

lemma level_of_dom: "level_of ps n = None \<longleftrightarrow> n \<notin> p_name ` set ps"
  by (induction ps) auto

lemma dom_level_of: "dom (level_of ps) = p_name ` set ps"
  using level_of_dom by (metis domIff subsetI subset_antisym)

lemma level_of_seen:
  "distinct (map p_name ps) \<Longrightarrow>
   level_of (filter p_seen ps) n = (if n \<in> seen_names ps then level_of ps n else None)"
proof (induction ps)
  case (Cons p ps)
  have "p_name p \<notin> seen_names ps" using Cons.prems by (auto simp: seen_names_def)
  then show ?case using Cons by auto
qed simp

lemma insert_subset_iff: "a \<notin> A \<Longrightarrow> A \<subseteq> S \<longleftrightarrow> insert a A \<subseteq> insert a S"
  by blast

lemma all_seen:
  assumes "distinct (map p_name ps)"
  shows "length (filter p_seen ps) = length ps \<longleftrightarrow> p_name ` set ps \<subseteq> seen_names ps"
  using assms
proof (induction ps)
  case (Cons p ps)
  have n: "p_name p \<notin> seen_names ps" "p_name p \<notin> p_name ` set ps"
    using Cons.prems by (auto simp: seen_names_def)
  have IH: "length (filter p_seen ps) = length ps \<longleftrightarrow> p_name ` set ps \<subseteq> seen_names ps"
    by (rule Cons.IH) (use Cons.prems in simp)
  show ?case
  proof (cases "p_seen p")
    case True
    have e: "length (filter p_seen (p # ps)) = length (p # ps) \<longleftrightarrow> length (filter p_seen ps) = length ps"
      "p_name ` set (p # ps) = insert (p_name p) (p_name ` set ps)" "seen_names (p # ps) = insert (p_name p) (seen_names ps)"
      using True by simp_all
    show ?thesis unfolding e IH by (rule insert_subset_iff [OF n(2)])
  next
    case False
    have "length (filter p_seen ps) < length (p # ps)" by (simp add: le_imp_less_Suc)
    then show ?thesis using False n(1) by simp
  qed
qed simp

lemma unseen_eq:
  "level_of (map (\<lambda>p. p\<lparr>p_seen := False\<rparr>) ps) = level_of ps" "seen_names (map (\<lambda>p. p\<lparr>p_seen := False\<rparr>) ps) = {}"
  "p_name ` set (map (\<lambda>p. p\<lparr>p_seen := False\<rparr>) ps) = p_name ` set ps"
  "map p_name (map (\<lambda>p. p\<lparr>p_seen := False\<rparr>) ps) = map p_name ps"
  by (induction ps) auto

lemma map_eq_iff_le: "m = m' \<longleftrightarrow> m' \<subseteq>\<^sub>m m \<and> dom m \<subseteq> dom m'"
proof
  assume r: "m' \<subseteq>\<^sub>m m \<and> dom m \<subseteq> dom m'"
  have "m x = m' x" for x
  proof (cases "m' x")
    case None
    then show ?thesis using r by (metis domIff subsetD)
  next
    case (Some y)
    then show ?thesis using r by (metis domI map_le_def)
  qed
  then show "m = m'" by blast
qed simp

lemma publish_distinct:
  assumes "distinct (map p_name (ll_peers l))" and "distinct (map fst levels)"
  shows "distinct (map p_name (ll_peers (publish_peers levels l)))"
proof -
  let ?u = "map (\<lambda>p. p\<lparr>p_seen := False\<rparr>) (ll_peers l)"
  obtain c ps where u: "upsert_all levels (False, ?u) = (c, ps)" by (cases "upsert_all levels (False, ?u)")
  have d: "distinct (map p_name ?u)" unfolding unseen_eq by (rule assms(1))
  have "distinct (map p_name ps)" using upsert_all_eq [OF d assms(2) u] by blast
  then have "distinct (map p_name (filter p_seen ps))" by (rule distinct_map_filter)
  then show ?thesis using u by (simp add: publish_peers_def Let_def)
qed

text \<open>Publishing the levels of the current senders replaces the peer set by exactly these
  senders with these levels (names that are not published any more are dropped, others updated in
  place), and the version moves if and only if something changed, so a reader that sees the
  same version again may skip the copy; what a snapshot returns depends only on the stored levels,
  not on what the reused vector held.\<close>

theorem publish_exact:
  assumes "distinct (map p_name (ll_peers l))" and "distinct (map fst levels)"
  shows "let l' = publish_peers levels l in
    distinct (map p_name (ll_peers l')) \<and> level_of (ll_peers l') = map_of levels \<and> ll_own l' = ll_own l \<and>
    ll_version l' = ll_version l + (if level_of (ll_peers l) = map_of levels then 0 else 1) \<and>
    ll_snapshot out l' = (map (\<lambda>p. (p_name p, p_level p)) (ll_peers l'), ll_own l', ll_version l')"
proof -
  let ?u = "map (\<lambda>p. p\<lparr>p_seen := False\<rparr>) (ll_peers l)"
  obtain c ps where u: "upsert_all levels (False, ?u) = (c, ps)" by (cases "upsert_all levels (False, ?u)")
  have d: "distinct (map p_name ?u)" unfolding unseen_eq by (rule assms(1))
  note e = upsert_all_eq [OF d assms(2) u, unfolded unseen_eq]
  have dp: "distinct (map p_name ps)" and lv: "level_of ps = level_of (ll_peers l) ++ map_of levels"
    and sn: "seen_names ps = fst ` set levels" and nm: "p_name ` set ps = p_name ` set (ll_peers l) \<union> fst ` set levels"
    and c: "c \<longleftrightarrow> \<not> map_of levels \<subseteq>\<^sub>m level_of (ll_peers l)"
    using e by auto
  have "level_of (filter p_seen ps) n = map_of levels n" for n
    unfolding level_of_seen [OF dp] sn lv using map_of_eq_None_iff [of levels n]
    by (cases "map_of levels n") (simp_all add: map_add_def)
  then have l: "level_of (filter p_seen ps) = map_of levels" by blast
  have "length (filter p_seen ps) = length ps \<longleftrightarrow> p_name ` set (ll_peers l) \<subseteq> fst ` set levels"
    unfolding all_seen [OF dp] sn nm by blast
  also have "\<dots> \<longleftrightarrow> dom (level_of (ll_peers l)) \<subseteq> dom (map_of levels)"
    unfolding dom_level_of dom_map_of_conv_image_fst ..
  finally have "c \<or> length (filter p_seen ps) \<noteq> length ps \<longleftrightarrow> level_of (ll_peers l) \<noteq> map_of levels"
    unfolding c map_eq_iff_le [of "level_of (ll_peers l)"] by blast
  moreover have "distinct (map p_name (filter p_seen ps))" using dp by (rule distinct_map_filter)
  ultimately show ?thesis using l u by (simp add: publish_peers_def Let_def ll_snapshot_eq)
qed

theorem publish_exact_witness:
  "let l = publish_peers [(''ann'', 1 / 2), (''bob'', 0)] (publish_peers [(''bob'', 1)] ll_new) in
    level_of (ll_peers l) ''bob'' = Some 0 \<and> ll_version l = 2"
proof -
  have d: "distinct (map p_name (ll_peers ll_new))" by (simp add: ll_new_def)
  have v: "ll_version ll_new = 0" "level_of (ll_peers ll_new) = map_of []" by (simp_all add: ll_new_def level_of_def fun_eq_iff)
  note one = publish_exact [OF d, of "[(''bob'', 1)]" "[]", simplified Let_def]
  have n: "Map.empty \<noteq> [''bob'' \<mapsto> (1 :: rat)]" "[''bob'' \<mapsto> (1 :: rat)] \<noteq> map_of [(''ann'', 1 / 2), (''bob'', 0)]"
    by (metis map_upd_nonempty, rule notI, drule fun_cong [of _ _ "''ann''"], simp)
  have d1: "distinct (map p_name (ll_peers (publish_peers [(''bob'', 1)] ll_new)))" using one by simp
  show ?thesis
    using publish_exact [OF d1, of "[(''ann'', 1 / 2), (''bob'', 0)]" "[]", simplified Let_def] one v n
    by (simp add: Let_def)
qed

end
