(* ===== verification/Peer_Gain.thy ===== *)
theory Peer_Gain
  imports Capture_Level
begin

text \<open>
  \<^verbatim>\<open>crates/client/src/peer_gain.rs\<close>: the listener's volume per sender name, kept as a
  factor. The map is replaced as a whole on every write, so a value of it is the state.
\<close>

type_synonym peer_gains = "(string \<times> rat) list"

definition max_gain :: rat where
  "max_gain = f32_div (of_nat PEER_VOL_MAX_PCT) 100"

definition is_unity :: "rat \<Rightarrow> bool" where
  "is_unity gain \<longleftrightarrow> \<bar>f32_sub gain 1\<bar> < f32_epsilon"

definition pct_to_gain :: "32 word \<Rightarrow> rat" where
  "pct_to_gain pct = fclamp 0 max_gain (f32_div (f32 (of_nat (min (unat pct) PEER_VOL_MAX_PCT))) 100)"

text \<open>\<open>f32::round\<close> rounds halves away from zero; the cast truncates and saturates at 0.\<close>

definition gain_to_pct :: "rat \<Rightarrow> 32 word" where
  "gain_to_pct gain = of_nat (min (2 ^ 32 - 1) (nat \<lfloor>f32_mul gain 100 + 1 / 2\<rfloor>))"

definition pg_new :: peer_gains where "pg_new = []"

fun set_all_from_pct :: "(string \<times> 32 word) list \<Rightarrow> peer_gains" where
  "set_all_from_pct [] = []"
| "set_all_from_pct ((name, pct) # pcts) =
    (let gain = pct_to_gain pct; m = set_all_from_pct pcts in
     if \<not> is_unity gain then hm_insert name gain m else m)"

definition from_pct_map :: "(string \<times> 32 word) list \<Rightarrow> peer_gains" where
  "from_pct_map pcts = set_all_from_pct pcts"

definition pg_get :: "string \<Rightarrow> peer_gains \<Rightarrow> rat" where
  "pg_get name m = (case hm_get m name of Some gain \<Rightarrow> gain | None \<Rightarrow> 1)"

definition set_pct :: "string \<Rightarrow> 32 word \<Rightarrow> peer_gains \<Rightarrow> peer_gains" where
  "set_pct name pct m =
    (let gain = pct_to_gain pct in
     if is_unity gain then hm_remove name m else hm_insert name gain m)"

definition pg_rename :: "string \<Rightarrow> string \<Rightarrow> peer_gains \<Rightarrow> peer_gains" where
  "pg_rename old new m = (case hm_get m old of None \<Rightarrow> m
     | Some gain \<Rightarrow> hm_insert new gain (hm_remove old m))"

definition pct_map :: "peer_gains \<Rightarrow> (string \<times> 32 word) list" where
  "pct_map m = map (\<lambda>(name, gain). (name, gain_to_pct gain)) m"

lemma f32_100: "f32 100 = 100" "f32 (of_nat k) = of_nat k" if "k \<le> 200"
  using fl_of_nat [of 100 24] fl_of_nat [of k 24] that by simp_all

lemma pct_to_gain_eq:
  "pct_to_gain pct = f32 (of_nat (min (unat pct) 200) / 100)" (is "_ = f32 (of_nat ?p / 100)")
proof -
  have "f32 (of_nat ?p / 100) \<le> max_gain"
    unfolding max_gain_def f32_div_def PEER_VOL_MAX_PCT_def
    by (rule fl_mono) (simp_all add: divide_right_mono)
  moreover have "0 \<le> f32 (of_nat ?p / 100)" by (simp add: fl_nonneg)
  ultimately show ?thesis
    using f32_100(2) [of ?p] by (simp add: pct_to_gain_def fclamp_def f32_div_def PEER_VOL_MAX_PCT_def)
qed

text \<open>The factor is within a thousandth of the percentage; so percent to factor and back is exact
  up to the cap, and only 100 counts as unchanged.\<close>

lemma pct_to_gain_near:
  "\<bar>pct_to_gain pct - of_nat (min (unat pct) 200) / 100\<bar> \<le> 1 / 1000" "0 \<le> pct_to_gain pct"
proof -
  define q where "q = (of_nat (min (unat pct) 200) / 100 :: rat)"
  have "(of_nat (min (unat pct) 200) :: rat) \<le> of_nat 200" by (simp only: of_nat_le_iff)
  then have q: "0 \<le> q" "q \<le> 2" by (simp_all add: q_def)
  have "\<bar>f32 q - q\<bar> \<le> q / 2 ^ 24" by (rule fl_error) (use q in simp_all)
  also have "\<dots> \<le> 1 / 1000" using q by simp
  finally show "\<bar>pct_to_gain pct - of_nat (min (unat pct) 200) / 100\<bar> \<le> 1 / 1000"
    unfolding pct_to_gain_eq q_def .
  show "0 \<le> pct_to_gain pct" unfolding pct_to_gain_eq using q(1) fl_nonneg by (simp add: q_def)
qed

lemma pct_roundtrip: "gain_to_pct (pct_to_gain pct) = of_nat (min (unat pct) 200)"
proof -
  define p where "p = min (unat pct) 200"
  define g where "g = pct_to_gain pct"
  have "(of_nat p :: rat) \<le> of_nat 200" by (simp only: of_nat_le_iff p_def)
  then have p: "(of_nat p :: rat) \<le> 200" by simp
  have g: "\<bar>g - of_nat p / 100\<bar> \<le> 1 / 1000" "0 \<le> g"
    using pct_to_gain_near [of pct] unfolding p_def g_def by blast+
  then have "g \<le> 3" using p by linarith
  have "\<bar>f32 (g * 100) - g * 100\<bar> \<le> g * 100 / 2 ^ 24" by (rule fl_error) (use g in simp_all)
  also have "\<dots> \<le> 1 / 1000" using \<open>g \<le> 3\<close> by simp
  finally have "\<bar>f32_mul g 100 - of_nat p\<bar> < 1 / 2" using g(1) unfolding f32_mul_def by linarith
  then have "of_nat p \<le> f32_mul g 100 + 1 / 2" "f32_mul g 100 + 1 / 2 < of_nat p + 1" by linarith+
  then have "\<lfloor>f32_mul g 100 + 1 / 2\<rfloor> = int p" by (intro floor_unique) simp_all
  then show ?thesis by (simp add: gain_to_pct_def flip: p_def g_def) (simp add: p_def)
qed

lemma unity_iff: "is_unity (pct_to_gain pct) \<longleftrightarrow> unat pct = 100"
proof
  assume "unat pct = 100"
  then have "pct_to_gain pct = 1" by (simp add: pct_to_gain_eq)
  then show "is_unity (pct_to_gain pct)" by (simp add: is_unity_def f32_sub_def f32_epsilon_def)
next
  assume u: "is_unity (pct_to_gain pct)"
  let ?g = "pct_to_gain pct"
  have "\<bar>?g - 1\<bar> < 1 / 1000"
  proof (rule ccontr)
    assume "\<not> \<bar>?g - 1\<bar> < 1 / 1000"
    then consider "1 / 1000 \<le> ?g - 1" | "1 / 1000 \<le> 1 - ?g" by linarith
    then show False
    proof cases
      case 1
      then have "f32 (1 / 1000) \<le> f32_sub ?g 1" unfolding f32_sub_def by (intro fl_mono) simp_all
      moreover have "\<bar>f32 (1 / 1000) - 1 / 1000\<bar> \<le> 1 / 1000 / 2 ^ 24" by (rule fl_error) simp_all
      ultimately show False using u by (simp add: is_unity_def f32_epsilon_def abs_le_iff abs_less_iff)
    next
      case 2
      then have "f32 (1 / 1000) \<le> f32 (1 - ?g)" by (intro fl_mono) simp_all
      moreover have "f32 (1 - ?g) = - f32_sub ?g 1" using fl_minus [of 24 "?g - 1"] by (simp add: f32_sub_def)
      moreover have "\<bar>f32 (1 / 1000) - 1 / 1000\<bar> \<le> 1 / 1000 / 2 ^ 24" by (rule fl_error) simp_all
      ultimately show False using u by (simp add: is_unity_def f32_epsilon_def abs_le_iff abs_less_iff)
    qed
  qed
  define p where "p = min (unat pct) 200"
  have "\<bar>?g - of_nat p / 100\<bar> \<le> 1 / 1000" using pct_to_gain_near(1) [of pct] by (simp add: p_def)
  with \<open>\<bar>?g - 1\<bar> < 1 / 1000\<close> have "99 < (of_nat p :: rat)" "(of_nat p :: rat) < 101" by linarith+
  then have "of_nat 99 < (of_nat p :: rat)" "(of_nat p :: rat) < of_nat 101" by simp_all
  then have "99 < p" "p < 101" by (simp_all only: of_nat_less_iff)
  then show "unat pct = 100" by (simp add: p_def min_def split: if_splits)
qed

lemma hm_get_pct_map: "hm_get (pct_map m) name = map_option gain_to_pct (hm_get m name)"
  by (induction m) (auto simp: pct_map_def)

text \<open>What the settings show for a name: the stored percentage, 100 for an absent entry.\<close>

definition shown_pct :: "peer_gains \<Rightarrow> string \<Rightarrow> 32 word" where
  "shown_pct m name = (case hm_get (pct_map m) name of Some pct \<Rightarrow> pct | None \<Rightarrow> 100)"

lemma capped_hundred: "(of_nat (min (unat pct) 200) = (100 :: 32 word)) \<longleftrightarrow> unat pct = 100"
proof -
  have "(of_nat (min (unat pct) 200) = (of_nat 100 :: 32 word)) \<longleftrightarrow> min (unat pct) 200 = 100"
    by (subst word_unat_eq_iff) (simp add: unat_of_nat min_def)
  then show ?thesis by auto
qed

lemma set_all_keys: "distinct (map fst pcts) \<Longrightarrow> hm_get (set_all_from_pct pcts) name =
    (case map_of pcts name of Some pct \<Rightarrow> if unat pct = 100 then None else Some (pct_to_gain pct) | None \<Rightarrow> None)"
proof (induction pcts)
  case (Cons np pcts)
  obtain n p where np: "np = (n, p)" by (cases np)
  have "map_of pcts n = None" using Cons.prems np by (simp add: map_of_eq_None_iff)
  then show ?case using Cons np unity_iff [of p] by (auto simp: Let_def)
qed simp

text \<open>A volume set for a peer is the volume shown and stored for it: after setting a percentage
  the settings show that percentage, capped at 200, for this name and what they showed before for every
  other; the factor used for mixing is within a thousandth of it; 100 means no entry. A rename
  moves the volume to the new name.\<close>

theorem volume_roundtrip:
  "shown_pct (set_pct name pct m) = (shown_pct m)(name := of_nat (min (unat pct) PEER_VOL_MAX_PCT)) \<and>
    \<bar>pg_get name (set_pct name pct m) - of_nat (min (unat pct) PEER_VOL_MAX_PCT) / 100\<bar> \<le> 1 / 1000 \<and>
    (hm_get (set_pct name pct m) name = None) = (unat pct = 100) \<and>
    pg_get new (pg_rename name new m) =
      (case hm_get m name of None \<Rightarrow> pg_get new m | Some gain \<Rightarrow> gain)"
proof (intro conjI)
  show "shown_pct (set_pct name pct m) = (shown_pct m)(name := of_nat (min (unat pct) PEER_VOL_MAX_PCT))"
    unfolding PEER_VOL_MAX_PCT_def
    using pct_roundtrip [of pct] unity_iff [of pct]
    by (auto simp: fun_eq_iff shown_pct_def hm_get_pct_map set_pct_def Let_def split: option.splits)
  show "(hm_get (set_pct name pct m) name = None) = (unat pct = 100)"
    using unity_iff [of pct] by (simp add: set_pct_def Let_def)
  show "\<bar>pg_get name (set_pct name pct m) - of_nat (min (unat pct) PEER_VOL_MAX_PCT) / 100\<bar> \<le> 1 / 1000"
    using unity_iff [of pct] pct_to_gain_near(1) [of pct]
    by (auto simp: pg_get_def set_pct_def Let_def PEER_VOL_MAX_PCT_def)
  show "pg_get new (pg_rename name new m) = (case hm_get m name of None \<Rightarrow> pg_get new m | Some gain \<Rightarrow> gain)"
    by (simp add: pg_get_def pg_rename_def split: option.split)
qed

end
