(* ===== verification/Codec.thy ===== *)
theory Codec
  imports Capture_Level Client_Stats
begin

text \<open>
  \<^verbatim>\<open>crates/client/src/codec.rs\<close>: the wrappers around libopus and RNNoise. Both libraries
  are outside the repository. A libopus decoder is a parameter \<open>dec\<close>: given a packet (\<open>None\<close>
  for concealment) and the FEC flag it returns the decoded samples (\<open>None\<close> for an error) and its next
  state; an encoder is a state with the operations of \<open>encoder_lib\<close>; an RNNoise state is advanced by a parameter \<open>denoise\<close> on frames of \<open>DENOISE_FRAME\<close> samples.
\<close>

subsection \<open>The decoder\<close>

type_synonym 'd opus = "byte list option \<Rightarrow> bool \<Rightarrow> 'd \<Rightarrow> rat list option \<times> 'd"

record 'd opus_decoder =
  od_decoder :: 'd
  od_buf :: "rat list"

definition od_new :: "'d \<Rightarrow> 'd opus_decoder" where
  "od_new d = \<lparr>od_decoder = d, od_buf = replicate FRAME_SIZE 0\<rparr>"

text \<open>Samples are written to the front of the reused buffer; an error leaves the buffer alone.\<close>

definition od_decode_float :: "'d opus \<Rightarrow> byte list option \<Rightarrow> bool \<Rightarrow> 'd opus_decoder \<Rightarrow> rat list option \<times> 'd opus_decoder" where
  "od_decode_float dec packet fec od =
    (case dec packet fec (od_decoder od) of
       (Some pcm, d) \<Rightarrow> (Some pcm, od\<lparr>od_decoder := d, od_buf := pcm @ drop (length pcm) (od_buf od)\<rparr>)
     | (None, d) \<Rightarrow> (None, od\<lparr>od_decoder := d\<rparr>))"

definition od_decode :: "'d opus \<Rightarrow> byte list \<Rightarrow> 'd opus_decoder \<Rightarrow> rat list option \<times> 'd opus_decoder" where
  "od_decode dec opus_data = od_decode_float dec (Some opus_data) False"

definition od_decode_plc :: "'d opus \<Rightarrow> 'd opus_decoder \<Rightarrow> rat list option \<times> 'd opus_decoder" where
  "od_decode_plc dec = od_decode_float dec None False"

definition od_decode_fec :: "'d opus \<Rightarrow> byte list \<Rightarrow> 'd opus_decoder \<Rightarrow> rat list option \<times> 'd opus_decoder" where
  "od_decode_fec dec next_packet = od_decode_float dec (Some next_packet) True"

definition od_frame :: "nat \<Rightarrow> 'd opus_decoder \<Rightarrow> rat list" where
  "od_frame len od = take len (od_buf od)"

lemma od_frame_decoded:
  "od_decode_float dec packet fec od = (Some pcm, od') \<Longrightarrow> od_frame (length pcm) od' = pcm"
  by (auto simp: od_decode_float_def od_frame_def split: prod.splits option.splits)

subsection \<open>Noise suppression\<close>

definition DENOISE_FRAME :: nat where "DENOISE_FRAME = 480"

record 's denoiser =
  dn_state :: 's
  dn_in :: "rat list"
  dn_out :: "rat list"

definition denoise_chunk :: "(rat list \<Rightarrow> rat list \<Rightarrow> 's \<Rightarrow> rat list \<times> 's) \<Rightarrow> rat list \<Rightarrow> 's denoiser \<Rightarrow> rat list \<times> 's denoiser" where
  "denoise_chunk denoise chunk dn =
    (let inp = map (\<lambda>c. f32_mul c 32768) chunk; (out, s) = denoise (dn_out dn) inp (dn_state dn)
     in (map (\<lambda>v. fclamp (- 1) 1 (f32_div v 32768)) out, dn\<lparr>dn_in := inp, dn_out := out, dn_state := s\<rparr>))"

text \<open>The chunks of \<open>chunks_mut(N)\<close>, the last one possibly shorter and then left as it is.\<close>

function denoise_process ::
    "(rat list \<Rightarrow> rat list \<Rightarrow> 's \<Rightarrow> rat list \<times> 's) \<Rightarrow> rat list \<Rightarrow> 's denoiser \<Rightarrow> rat list \<times> 's denoiser" where
  "denoise_process denoise pcm dn =
    (if length pcm < DENOISE_FRAME then (pcm, dn)
     else
       (let (chunk, dn) = denoise_chunk denoise (take DENOISE_FRAME pcm) dn;
            (rest, dn) = denoise_process denoise (drop DENOISE_FRAME pcm) dn
        in (chunk @ rest, dn)))"
  by auto

termination by (relation "measure (\<lambda>(denoise, pcm, dn). length pcm)") (auto simp: DENOISE_FRAME_def)

declare denoise_process.simps [simp del]

text \<open>RNNoise fills the whole output frame it is given.\<close>

definition denoise_laws :: "(rat list \<Rightarrow> rat list \<Rightarrow> 's \<Rightarrow> rat list \<times> 's) \<Rightarrow> bool" where
  "denoise_laws denoise \<longleftrightarrow>
    (\<forall>out inp s. length inp = DENOISE_FRAME \<longrightarrow> length (fst (denoise out inp s)) = DENOISE_FRAME)"

lemma denoise_chunk_ok:
  assumes "denoise_laws denoise" and "length chunk = DENOISE_FRAME" and "denoise_chunk denoise chunk dn = (out, dn')"
  shows "length out = DENOISE_FRAME \<and> list_all (\<lambda>s. - 1 \<le> s \<and> s \<le> 1) out"
  using assms
  by (auto simp: denoise_chunk_def denoise_laws_def Let_def case_prod_beta list_all_iff fclamp_def)

lemma denoise_process_ok:
  assumes "denoise_laws denoise" and "denoise_process denoise pcm dn = (out, dn')"
  shows "length out = length pcm \<and> (let k = length pcm div DENOISE_FRAME * DENOISE_FRAME in
    list_all (\<lambda>s. - 1 \<le> s \<and> s \<le> 1) (take k out) \<and> drop k out = drop k pcm)"
  using assms
proof (induction denoise pcm dn arbitrary: out dn' rule: denoise_process.induct)
  case (1 denoise pcm dn)
  show ?case
  proof (cases "length pcm < DENOISE_FRAME")
    case True
    then show ?thesis using "1.prems" by (simp add: denoise_process.simps [of denoise pcm])
  next
    case False
    obtain c dm where c: "denoise_chunk denoise (take DENOISE_FRAME pcm) dn = (c, dm)"
      by (cases "denoise_chunk denoise (take DENOISE_FRAME pcm) dn")
    obtain r de where r: "denoise_process denoise (drop DENOISE_FRAME pcm) dm = (r, de)"
      by (cases "denoise_process denoise (drop DENOISE_FRAME pcm) dm")
    have o: "out = c @ r" using "1.prems"(2) False c r by (subst (asm) denoise_process.simps) simp
    have l: "length (take DENOISE_FRAME pcm) = DENOISE_FRAME" using False by simp
    note ck = denoise_chunk_ok [OF "1.prems"(1) l c]
    note IH = "1.IH" [OF False c [symmetric] refl "1.prems"(1) r]
    let ?k = "length (drop DENOISE_FRAME pcm) div DENOISE_FRAME * DENOISE_FRAME"
    have "length pcm = DENOISE_FRAME + length (drop DENOISE_FRAME pcm)" using False by simp
    then have k: "length pcm div DENOISE_FRAME * DENOISE_FRAME = DENOISE_FRAME + ?k"
      by (metis DENOISE_FRAME_def add.commute div_add_self2 mult.commute mult_Suc_right plus_1_eq_Suc zero_neq_numeral)
    show ?thesis unfolding o k using ck IH False by (simp add: Let_def add.commute)
  qed
qed

subsection \<open>The encoder\<close>

text \<open>The setters of a libopus encoder, \<open>True\<close> for success, and the encoding of a frame into a buffer of
  the given size, \<open>None\<close> for an error.\<close>

record 'e encoder_lib =
  lib_set_bitrate :: "int \<Rightarrow> 'e \<Rightarrow> bool \<times> 'e"
  lib_set_complexity :: "nat \<Rightarrow> 'e \<Rightarrow> bool \<times> 'e"
  lib_set_inband_fec :: "bool \<Rightarrow> 'e \<Rightarrow> bool \<times> 'e"
  lib_set_packet_loss_perc :: "8 word \<Rightarrow> 'e \<Rightarrow> bool \<times> 'e"
  lib_set_vbr :: "bool \<Rightarrow> 'e \<Rightarrow> bool \<times> 'e"
  lib_set_dtx :: "bool \<Rightarrow> 'e \<Rightarrow> bool \<times> 'e"
  lib_set_signal_voice :: "'e \<Rightarrow> bool \<times> 'e"
  lib_encode_float :: "rat list \<Rightarrow> nat \<Rightarrow> 'e \<Rightarrow> byte list option \<times> 'e"

text \<open>The \<open>?\<close> of the setters: go on after success, return the error otherwise.\<close>

definition and_then :: "bool \<times> 'e \<Rightarrow> ('e \<Rightarrow> bool \<times> 'e) \<Rightarrow> bool \<times> 'e" where
  "and_then r f = (if fst r then f (snd r) else r)"

definition oe_new :: "'e encoder_lib \<Rightarrow> 'e option \<Rightarrow> 'e option" where
  "oe_new lib made = (case made of
      None \<Rightarrow> None
    | Some e \<Rightarrow> (case and_then (lib_set_dtx lib True e) (lib_set_signal_voice lib) of
        (True, e) \<Rightarrow> Some e
      | (False, e) \<Rightarrow> None))"

definition apply_quality_settings :: "'e encoder_lib \<Rightarrow> encoder_settings \<Rightarrow> 'e \<Rightarrow> bool \<times> 'e" where
  "apply_quality_settings lib es e =
    and_then (and_then (and_then (lib_set_bitrate lib (es_bitrate es) e)
      (lib_set_complexity lib (es_complexity es)))
      (lib_set_inband_fec lib (es_fec es)))
      (lib_set_packet_loss_perc lib (es_loss_percent es))"

definition set_constant_bitrate :: "'e encoder_lib \<Rightarrow> bool \<Rightarrow> 'e \<Rightarrow> bool \<times> 'e" where
  "set_constant_bitrate lib on e = and_then (lib_set_vbr lib (\<not> on) e) (lib_set_dtx lib (\<not> on))"

definition oe_encode :: "'e encoder_lib \<Rightarrow> rat list \<Rightarrow> 'e \<Rightarrow> byte list option \<times> 'e" where
  "oe_encode lib pcm e = lib_encode_float lib pcm MAX_OPUS_PACKET e"

end
