(* ===== verification/Playout_Stream.thy ===== *)
theory Playout_Stream
  imports Jitter Client_Stats Diagnostics Codec
begin

text \<open>
  \<^verbatim>\<open>crates/client/src/playout.rs\<close>, one sender: the depth history, the stream's state machine
  (idle, playing) and \<open>render\<close>, which produces one 20 ms frame. The buffers and counters the code passes by
  mutable reference travel in one record, \<open>render_ctx\<close>; the libopus decoder is the
  parameter \<open>dec\<close> of \<^verbatim>\<open>Codec\<close>.
\<close>

subsection \<open>Depth history\<close>

record depth_window =
  dw_ring :: "nat list"
  dw_next :: nat
  dw_len :: nat

definition dw_new :: depth_window where
  "dw_new = \<lparr>dw_ring = replicate PLAYOUT_ACCEL_WINDOW_FRAMES 0, dw_next = 0, dw_len = 0\<rparr>"

definition dw_push :: "nat \<Rightarrow> depth_window \<Rightarrow> depth_window" where
  "dw_push depth w = w\<lparr>dw_ring := (dw_ring w)[dw_next w := min depth 255],
     dw_next := (dw_next w + 1) mod length (dw_ring w), dw_len := min (dw_len w + 1) (length (dw_ring w))\<rparr>"

definition dw_min :: "depth_window \<Rightarrow> nat" where
  "dw_min w = (case take (dw_len w) (dw_ring w) of [] \<Rightarrow> 0 | d # ds \<Rightarrow> fold min ds d)"

definition dw_reset :: "depth_window \<Rightarrow> depth_window" where
  "dw_reset w = w\<lparr>dw_next := 0, dw_len := 0\<rparr>"

subsection \<open>The stream\<close>

datatype stream_state = Idle | Playing

datatype frame_op =
    Packet "32 word"
  | Accelerated "32 word" "32 word"
  | Fec "32 word"
  | Plc
  | Expand

record 'd sender_stream =
  ss_jitter :: jitter_buffer
  ss_decoder :: "'d opus_decoder"
  ss_last_packet :: instant
  ss_state :: stream_state
  ss_first_idle_arrival :: "instant option"
  ss_hold :: nat
  ss_pending_expand :: "64 word"
  ss_depths :: depth_window
  ss_frame_rms :: rat

record scratch =
  sc_opus :: "byte list"
  sc_frame :: "rat list"
  sc_head :: "rat list"

record 'd render_ctx =
  rc_stream :: "'d sender_stream"
  rc_scratch :: scratch
  rc_diag :: audio_diagnostics
  rc_stats :: network_stats

definition ss_new :: "'d opus_decoder \<Rightarrow> instant \<Rightarrow> 'd sender_stream" where
  "ss_new decoder now = \<lparr>ss_jitter = jb_new, ss_decoder = decoder, ss_last_packet = now, ss_state = Idle,
     ss_first_idle_arrival = None, ss_hold = 0, ss_pending_expand = 0, ss_depths = dw_new, ss_frame_rms = 0\<rparr>"

definition ss_target :: "'d sender_stream \<Rightarrow> nat" where
  "ss_target st = target_frames (jitter_ms (ss_jitter st))"

definition go_idle :: "'d sender_stream \<Rightarrow> 'd sender_stream" where
  "go_idle st = st\<lparr>ss_state := Idle, ss_hold := 0, ss_pending_expand := 0, ss_first_idle_arrival := None,
     ss_depths := dw_reset (ss_depths st), ss_jitter := end_talkspurt (ss_jitter st)\<rparr>"

definition should_accelerate :: "nat \<Rightarrow> rat list \<Rightarrow> 'd sender_stream \<Rightarrow> bool" where
  "should_accelerate target frame st =
    (if dw_len (ss_depths st) < PLAYOUT_ACCEL_MIN_OBSERVED then False
     else if dw_min (ss_depths st) \<le> target + 1 then False
     else
       (let force = min (target + 1 + PLAYOUT_ACCEL_FORCE_EXCESS) (JITTER_BUF_MAX - 2)
        in force < dw_min (ss_depths st) \<or> rms frame < PLAYOUT_ACCEL_MAX_RMS))"

subsection \<open>Decoding into the frame buffer\<close>

definition copy_frame :: "rat list \<Rightarrow> rat list \<Rightarrow> rat list" where
  "copy_frame pcm frame =
    (let n = min (length pcm) (length frame) in take n pcm @ replicate (length frame - n) 0)"

definition conceal_into :: "'d opus \<Rightarrow> 'd opus_decoder \<Rightarrow> rat list \<Rightarrow> 'd opus_decoder \<times> rat list" where
  "conceal_into dec decoder frame = (case od_decode_plc dec decoder of
      (Some pcm, d) \<Rightarrow> (d, copy_frame pcm frame)
    | (None, d) \<Rightarrow> (d, replicate (length frame) 0))"

definition decode_into :: "'d opus \<Rightarrow> byte list \<Rightarrow> 'd opus_decoder \<Rightarrow> rat list \<Rightarrow> 'd opus_decoder \<times> rat list" where
  "decode_into dec opus_data decoder frame = (case od_decode dec opus_data decoder of
      (Some pcm, d) \<Rightarrow> (d, copy_frame pcm frame)
    | (None, d) \<Rightarrow> conceal_into dec d frame)"

definition crossfade :: "rat list \<Rightarrow> rat list \<Rightarrow> rat list" where
  "crossfade head frame =
    map (\<lambda>(i, s, h). let t = f32_div (f32 (of_nat (i + 1))) (f32 (of_nat (length head + 1)))
                     in f32_add (f32_mul h (f32_sub 1 t)) (f32_mul s t))
      (enumerate 0 (zip frame head)) @ drop (length head) frame"

lemma length_copy_frame [simp]: "length (copy_frame pcm frame) = length frame"
  by (simp add: copy_frame_def Let_def)

lemma length_conceal [simp]: "length (snd (conceal_into dec d frame)) = length frame"
  by (simp add: conceal_into_def split: prod.split option.split)

lemma length_decode [simp]: "length (snd (decode_into dec p d frame)) = length frame"
  by (simp add: decode_into_def split: prod.split option.split)

lemma length_crossfade: "length head \<le> length frame \<Longrightarrow> length (crossfade head frame) = length frame"
  by (simp add: crossfade_def)

subsection \<open>Rendering one frame\<close>

text \<open>The idle branch: \<open>False\<close> while the stream stays silent.\<close>

definition activate :: "instant \<Rightarrow> nat \<Rightarrow> nat \<Rightarrow> 'd render_ctx \<Rightarrow> bool \<times> 'd render_ctx" where
  "activate now target pull ctx =
    (let st = rc_stream ctx in
     if ss_state st \<noteq> Idle then (True, ctx)
     else
       (let buffered = count_buffered (ss_jitter st) in
        if buffered = 0 then (False, ctx\<lparr>rc_stream := st\<lparr>ss_first_idle_arrival := None\<rparr>\<rparr>)
        else
          (let arrived = (case ss_first_idle_arrival st of Some t \<Rightarrow> t | None \<Rightarrow> now);
               st = st\<lparr>ss_first_idle_arrival := Some arrived\<rparr>;
               lead = target + pull;
               waited = (FRAME_DURATION * lead \<le> now - arrived)
           in if buffered < lead \<and> \<not> waited then (False, ctx\<lparr>rc_stream := st\<rparr>)
              else
                (let (skipped, jitter) = skip_to_oldest (ss_jitter st) in
                 (True, ctx\<lparr>rc_stream := st\<lparr>ss_state := Playing, ss_first_idle_arrival := None, ss_hold := 0,
                      ss_depths := dw_reset (ss_depths st), ss_jitter := jitter\<rparr>,
                    rc_stats := (record_packet False ^^ skipped) (rc_stats ctx)\<rparr>)))))"

text \<open>A quiet frame is dropped: the next packet is decoded too and faded in from the dropped one's head.\<close>

definition accelerate :: "'d opus \<Rightarrow> 32 word \<Rightarrow> 32 word \<Rightarrow> 'd render_ctx \<Rightarrow> frame_op \<times> 'd render_ctx" where
  "accelerate dec seq fresh ctx =
    (let st = rc_stream ctx; sc = rc_scratch ctx;
         head = take (length (sc_head sc)) (sc_frame sc);
         (res, opus, jitter) = jb_pop (sc_opus sc) (ss_jitter st);
         (decoder, frame) = decode_into dec opus (ss_decoder st) (sc_frame sc)
     in (Accelerated seq fresh,
         ctx\<lparr>rc_stream := st\<lparr>ss_jitter := jitter, ss_decoder := decoder, ss_depths := dw_reset (ss_depths st)\<rparr>,
             rc_scratch := sc\<lparr>sc_opus := opus, sc_head := head, sc_frame := crossfade head frame\<rparr>,
             rc_stats := record_packet True (rc_stats ctx),
             rc_diag := (rc_diag ctx)\<lparr>accelerate_drops := accelerate_drops (rc_diag ctx) + 1\<rparr>\<rparr>))"

definition render_packet :: "'d opus \<Rightarrow> nat \<Rightarrow> 32 word \<Rightarrow> 'd render_ctx \<Rightarrow> frame_op \<times> 'd render_ctx" where
  "render_packet dec target seq ctx =
    (let st = rc_stream ctx; sc = rc_scratch ctx;
         diag = (if 0 < ss_pending_expand st
           then (rc_diag ctx)\<lparr>expand_frames := expand_frames (rc_diag ctx) + ss_pending_expand st\<rparr> else rc_diag ctx);
         (decoder, frame) = decode_into dec (sc_opus sc) (ss_decoder st) (sc_frame sc);
         st = st\<lparr>ss_hold := 0, ss_pending_expand := 0, ss_decoder := decoder\<rparr>;
         ctx = ctx\<lparr>rc_stream := st, rc_scratch := sc\<lparr>sc_frame := frame\<rparr>,
                   rc_stats := record_packet True (rc_stats ctx), rc_diag := diag\<rparr>
     in if should_accelerate target frame st then
          (let fresh = next_seq (ss_jitter st) in
           if jb_peek fresh (ss_jitter st) \<noteq> None then accelerate dec seq fresh ctx
           else (Packet seq, ctx))
        else (Packet seq, ctx))"

definition render_missing :: "'d opus \<Rightarrow> 'd render_ctx \<Rightarrow> frame_op \<times> 'd render_ctx" where
  "render_missing dec ctx =
    (let st = rc_stream ctx; sc = rc_scratch ctx;
         seq = next_seq (ss_jitter st);
         usable = (case jb_peek seq (ss_jitter st) of
             Some (toc # p) \<Rightarrow> if drop_bit 3 toc < CELT_ONLY_TOC_CONFIG then Some (toc # p) else None
           | Some [] \<Rightarrow> None
           | None \<Rightarrow> None);
         (fec, decoder) = (case usable of Some p \<Rightarrow> od_decode_fec dec p (ss_decoder st) | None \<Rightarrow> (None, ss_decoder st));
         stats = record_packet False (rc_stats ctx)
     in case fec of
          Some pcm \<Rightarrow>
            (Fec seq, ctx\<lparr>rc_stream := st\<lparr>ss_hold := 0, ss_decoder := decoder\<rparr>,
               rc_scratch := sc\<lparr>sc_frame := copy_frame (od_frame (length pcm) decoder) (sc_frame sc)\<rparr>,
               rc_stats := stats, rc_diag := (rc_diag ctx)\<lparr>fec_recovered := fec_recovered (rc_diag ctx) + 1\<rparr>\<rparr>)
        | None \<Rightarrow>
            (let (decoder, frame) = conceal_into dec decoder (sc_frame sc) in
             (Plc, ctx\<lparr>rc_stream := st\<lparr>ss_hold := 0, ss_decoder := decoder\<rparr>,
                rc_scratch := sc\<lparr>sc_frame := frame\<rparr>,
                rc_stats := stats, rc_diag := (rc_diag ctx)\<lparr>plc_frames := plc_frames (rc_diag ctx) + 1\<rparr>\<rparr>)))"

definition render_empty :: "'d opus \<Rightarrow> 'd render_ctx \<Rightarrow> frame_op option \<times> 'd render_ctx" where
  "render_empty dec ctx =
    (let st = (rc_stream ctx)\<lparr>ss_hold := ss_hold (rc_stream ctx) + 1\<rparr> in
     if PLAYOUT_HOLD_FRAMES < ss_hold st then (None, ctx\<lparr>rc_stream := go_idle st\<rparr>)
     else
       (let (decoder, frame) = conceal_into dec (ss_decoder st) (sc_frame (rc_scratch ctx)) in
        (Some Expand, ctx\<lparr>rc_stream := st\<lparr>ss_pending_expand := ss_pending_expand st + 1, ss_decoder := decoder\<rparr>,
           rc_scratch := (rc_scratch ctx)\<lparr>sc_frame := frame\<rparr>\<rparr>)))"

definition render :: "'d opus \<Rightarrow> instant \<Rightarrow> nat \<Rightarrow> 'd render_ctx \<Rightarrow> frame_op option \<times> 'd render_ctx" where
  "render dec now pull ctx =
    (let target = ss_target (rc_stream ctx); (go, ctx) = activate now target pull ctx in
     if \<not> go then (None, ctx)
     else
       (let st = rc_stream ctx;
            depths = dw_push (count_buffered (ss_jitter st)) (ss_depths st);
            seq = next_seq (ss_jitter st);
            (res, opus, jitter) = jb_pop (sc_opus (rc_scratch ctx)) (ss_jitter st);
            ctx = ctx\<lparr>rc_stream := st\<lparr>ss_depths := depths, ss_jitter := jitter\<rparr>,
                      rc_scratch := (rc_scratch ctx)\<lparr>sc_opus := opus\<rparr>\<rparr>
        in case res of
             PopPacket \<Rightarrow> apfst Some (render_packet dec target seq ctx)
           | PopMissing \<Rightarrow> apfst Some (render_missing dec ctx)
           | PopEmpty \<Rightarrow> render_empty dec ctx))"

subsection \<open>The depth history is a sliding window\<close>

text \<open>The reference: the last \<open>PLAYOUT_ACCEL_WINDOW_FRAMES\<close> depths since the last reset.\<close>

definition dw_ok :: "depth_window \<Rightarrow> bool" where
  "dw_ok w \<longleftrightarrow> length (dw_ring w) = PLAYOUT_ACCEL_WINDOW_FRAMES \<and> dw_next w < PLAYOUT_ACCEL_WINDOW_FRAMES \<and>
    dw_len w \<le> PLAYOUT_ACCEL_WINDOW_FRAMES \<and> (dw_len w < PLAYOUT_ACCEL_WINDOW_FRAMES \<longrightarrow> dw_next w = dw_len w)"

definition dw_list :: "depth_window \<Rightarrow> nat list" where
  "dw_list w = (if dw_len w < PLAYOUT_ACCEL_WINDOW_FRAMES then take (dw_len w) (dw_ring w)
     else drop (dw_next w) (dw_ring w) @ take (dw_next w) (dw_ring w))"

lemma dw_new_ok: "dw_ok dw_new" "dw_list dw_new = []"
  by (simp_all add: dw_ok_def dw_new_def dw_list_def PLAYOUT_ACCEL_WINDOW_FRAMES_def)

lemma dw_reset_ok: "dw_ok w \<Longrightarrow> dw_ok (dw_reset w)" "dw_list (dw_reset w) = []"
  by (simp_all add: dw_ok_def dw_reset_def dw_list_def PLAYOUT_ACCEL_WINDOW_FRAMES_def)

lemma dw_push_ok: "dw_ok w \<Longrightarrow> dw_ok (dw_push d w)"
  by (auto simp: dw_ok_def dw_push_def PLAYOUT_ACCEL_WINDOW_FRAMES_def mod_Suc)

lemma dw_push_list:
  assumes "dw_ok w"
  shows "dw_list (dw_push d w) =
    drop (length (dw_list w) + 1 - PLAYOUT_ACCEL_WINDOW_FRAMES) (dw_list w @ [min d 255])"
proof -
  let ?n = "PLAYOUT_ACCEL_WINDOW_FRAMES" and ?r = "dw_ring w" and ?i = "dw_next w" and ?l = "dw_len w"
  have n: "?n = 50" by (simp add: PLAYOUT_ACCEL_WINDOW_FRAMES_def)
  have r: "length ?r = ?n" "?i < ?n" "?l \<le> ?n" and i: "?l < ?n \<Longrightarrow> ?i = ?l"
    using assms by (simp_all add: dw_ok_def)
  consider (fill) "?l + 1 < ?n" | (last) "?l + 1 = ?n" | (full) "?l = ?n" using r(3) by linarith
  then show ?thesis
  proof cases
    case fill
    then show ?thesis using r i by (simp add: dw_list_def dw_push_def n take_Suc_conv_app_nth)
  next
    case last
    then have e: "?i = 49" "?l = 49" using i n by simp_all
    have "?r[49 := min d 255] = take 49 ?r @ [min d 255]"
      using r(1) n by (simp add: upd_conv_take_nth_drop)
    then show ?thesis using e r(1) by (simp add: dw_list_def dw_push_def n)
  next
    case full
    then have u: "?r[?i := min d 255] = take ?i ?r @ min d 255 # drop (Suc ?i) ?r"
      using r by (simp add: upd_conv_take_nth_drop)
    have dr: "drop ?i ?r = ?r ! ?i # drop (Suc ?i) ?r" using r by (simp add: Cons_nth_drop_Suc)
    show ?thesis
    proof (cases "Suc ?i = ?n")
      case True
      then show ?thesis using full r u dr by (simp add: dw_list_def dw_push_def n)
    next
      case False
      then have "(?i + 1) mod length ?r = Suc ?i" using r by simp
      then show ?thesis using full r u dr by (simp add: dw_list_def dw_push_def n)
    qed
  qed
qed

lemma fold_min_Min: "fold min ds d = Min (set (d # ds))" for d :: nat
  using Min.set_eq_fold [of d ds] by simp

lemma dw_min_list: "dw_ok w \<Longrightarrow> dw_min w = (if dw_list w = [] then 0 else Min (set (dw_list w)))"
proof -
  assume ok: "dw_ok w"
  have s: "set (dw_list w) = set (take (dw_len w) (dw_ring w))"
  proof (cases "dw_len w < PLAYOUT_ACCEL_WINDOW_FRAMES")
    case False
    then have "take (dw_len w) (dw_ring w) = dw_ring w" using ok by (simp add: dw_ok_def)
    moreover have "set (drop (dw_next w) (dw_ring w) @ take (dw_next w) (dw_ring w)) = set (dw_ring w)"
      using append_take_drop_id [of "dw_next w" "dw_ring w"] by (metis set_append sup_commute)
    ultimately show ?thesis using False by (simp only: dw_list_def if_False)
  qed (simp add: dw_list_def)
  have e: "dw_list w = [] \<longleftrightarrow> take (dw_len w) (dw_ring w) = []" using s by (metis set_empty)
  show ?thesis
  proof (cases "take (dw_len w) (dw_ring w)")
    case Nil
    then show ?thesis unfolding s e dw_min_def by (simp only: list.case simp_thms if_True)
  next
    case (Cons d ds)
    then show ?thesis unfolding s e dw_min_def Cons by (simp only: list.case fold_min_Min list.distinct if_False)
  qed
qed

subsection \<open>The stream invariant\<close>

definition ss_ok :: "'d sender_stream \<Rightarrow> bool" where
  "ss_ok st \<longleftrightarrow> jb_ok (ss_jitter st) \<and> dw_ok (ss_depths st) \<and> ss_hold st \<le> PLAYOUT_HOLD_FRAMES \<and>
    (ss_state st = Idle \<longrightarrow> ss_hold st = 0)"

lemma ss_new_ok: "ss_ok (ss_new d now)"
  by (simp add: ss_ok_def ss_new_def jb_new_ok dw_new_ok)

lemma go_idle_ok: "jb_ok (ss_jitter st) \<Longrightarrow> dw_ok (ss_depths st) \<Longrightarrow> ss_ok (go_idle st)"
  by (simp add: ss_ok_def go_idle_def dw_reset_ok end_talkspurt_ok)

text \<open>What each branch does to the fields the invariants speak of.\<close>

lemma activate_cases:
  assumes "activate now target pull ctx = (go, ctx')"
  shows "(\<not> go \<and> ss_state (rc_stream ctx') = Idle \<and> ss_state (rc_stream ctx) = Idle \<and>
      ss_jitter (rc_stream ctx') = ss_jitter (rc_stream ctx) \<and> ss_hold (rc_stream ctx') = ss_hold (rc_stream ctx) \<and>
      ss_depths (rc_stream ctx') = ss_depths (rc_stream ctx)) \<or>
    (go \<and> ctx' = ctx \<and> ss_state (rc_stream ctx) = Playing) \<or>
    (go \<and> ss_state (rc_stream ctx) = Idle \<and> ss_state (rc_stream ctx') = Playing \<and> ss_hold (rc_stream ctx') = 0 \<and>
      ss_depths (rc_stream ctx') = dw_reset (ss_depths (rc_stream ctx)) \<and>
      (\<exists>k. skip_to_oldest (ss_jitter (rc_stream ctx)) = (k, ss_jitter (rc_stream ctx'))))"
proof -
  obtain k j where k: "skip_to_oldest (ss_jitter (rc_stream ctx)) = (k, j)"
    by (cases "skip_to_oldest (ss_jitter (rc_stream ctx))")
  have "ss_state (rc_stream ctx) = Idle \<or> ss_state (rc_stream ctx) = Playing"
    by (cases "ss_state (rc_stream ctx)") simp_all
  then show ?thesis using assms k by (auto simp: activate_def Let_def split: if_splits)
qed

lemma activate_frame:
  "rc_scratch (snd (activate now target pull ctx)) = rc_scratch ctx"
  "rc_diag (snd (activate now target pull ctx)) = rc_diag ctx"
  by (simp_all add: activate_def Let_def case_prod_beta)

lemma activate_ok:
  assumes "ss_ok (rc_stream ctx)" and "activate now target pull ctx = (go, ctx')"
  shows "ss_ok (rc_stream ctx')"
  using activate_cases [OF assms(2)] assms(1) skip_ok dw_reset_ok(1) by (auto simp: ss_ok_def)

lemma accelerate_facts:
  assumes "accelerate dec seq fresh ctx = (x, ctx')" and "jb_pop (sc_opus (rc_scratch ctx)) (ss_jitter (rc_stream ctx)) = (res, out, j)"
  shows "x = Accelerated seq fresh \<and> ss_jitter (rc_stream ctx') = j \<and> ss_state (rc_stream ctx') = ss_state (rc_stream ctx) \<and>
    ss_hold (rc_stream ctx') = ss_hold (rc_stream ctx) \<and> ss_depths (rc_stream ctx') = dw_reset (ss_depths (rc_stream ctx))"
  using assms by (auto simp: accelerate_def Let_def case_prod_beta)

lemma render_packet_facts:
  assumes "render_packet dec target seq ctx = (x, ctx')"
  shows "x \<noteq> Expand \<and> ss_state (rc_stream ctx') = ss_state (rc_stream ctx) \<and> ss_hold (rc_stream ctx') = 0 \<and>
    ss_depths (rc_stream ctx') \<in> {ss_depths (rc_stream ctx), dw_reset (ss_depths (rc_stream ctx))} \<and>
    (ss_jitter (rc_stream ctx') = ss_jitter (rc_stream ctx) \<or>
      jb_peek (next_seq (ss_jitter (rc_stream ctx))) (ss_jitter (rc_stream ctx)) \<noteq> None \<and>
      (\<exists>buf res out. jb_pop buf (ss_jitter (rc_stream ctx)) = (res, out, ss_jitter (rc_stream ctx'))))"
proof -
  obtain d frame where d: "decode_into dec (sc_opus (rc_scratch ctx)) (ss_decoder (rc_stream ctx)) (sc_frame (rc_scratch ctx)) = (d, frame)"
    by (cases "decode_into dec (sc_opus (rc_scratch ctx)) (ss_decoder (rc_stream ctx)) (sc_frame (rc_scratch ctx))")
  obtain res out j where p: "jb_pop (sc_opus (rc_scratch ctx)) (ss_jitter (rc_stream ctx)) = (res, out, j)"
    by (cases "jb_pop (sc_opus (rc_scratch ctx)) (ss_jitter (rc_stream ctx))")
  show ?thesis
    using assms d p unfolding render_packet_def
    by (auto simp: Let_def simp del: not_None_eq split: if_splits dest!: accelerate_facts)
qed

lemma render_missing_facts:
  assumes "render_missing dec ctx = (x, ctx')"
  shows "x \<noteq> Expand \<and> ss_state (rc_stream ctx') = ss_state (rc_stream ctx) \<and> ss_hold (rc_stream ctx') = 0 \<and>
    ss_depths (rc_stream ctx') = ss_depths (rc_stream ctx) \<and> ss_jitter (rc_stream ctx') = ss_jitter (rc_stream ctx)"
  using assms by (auto simp: render_missing_def Let_def case_prod_beta split: option.splits)

lemma render_empty_facts:
  assumes "render_empty dec ctx = (x, ctx')"
  shows "(x = None \<and> PLAYOUT_HOLD_FRAMES \<le> ss_hold (rc_stream ctx) \<and>
      (\<exists>st. rc_stream ctx' = go_idle st \<and> ss_jitter st = ss_jitter (rc_stream ctx) \<and> ss_depths st = ss_depths (rc_stream ctx))) \<or>
    (x = Some Expand \<and> ss_hold (rc_stream ctx) < PLAYOUT_HOLD_FRAMES \<and>
      ss_state (rc_stream ctx') = ss_state (rc_stream ctx) \<and> ss_hold (rc_stream ctx') = ss_hold (rc_stream ctx) + 1 \<and>
      ss_depths (rc_stream ctx') = ss_depths (rc_stream ctx) \<and> ss_jitter (rc_stream ctx') = ss_jitter (rc_stream ctx))"
proof (cases "PLAYOUT_HOLD_FRAMES \<le> ss_hold (rc_stream ctx)")
  case True
  then show ?thesis
    using assms by (auto simp: render_empty_def Let_def intro!: exI [of _ "(rc_stream ctx)\<lparr>ss_hold := ss_hold (rc_stream ctx) + 1\<rparr>"])
next
  case False
  then show ?thesis using assms by (auto simp: render_empty_def Let_def case_prod_beta)
qed

text \<open>One rendered frame, as the invariants see it: \<open>entered\<close> is the jitter buffer after a possible
  activation, \<open>held\<close> the underrun count the frame starts from.\<close>

definition entered :: "'d sender_stream \<Rightarrow> jitter_buffer \<Rightarrow> bool" where
  "entered st j \<longleftrightarrow> (ss_state st = Playing \<and> j = ss_jitter st) \<or>
    (ss_state st = Idle \<and> (\<exists>k. skip_to_oldest (ss_jitter st) = (k, j)))"

definition held :: "'d sender_stream \<Rightarrow> nat" where
  "held st = (if ss_state st = Playing then ss_hold st else 0)"

definition consumes :: "jitter_buffer \<Rightarrow> jitter_buffer \<Rightarrow> bool" where
  "consumes j j' \<longleftrightarrow> (\<exists>buf res out. jb_pop buf j = (res, out, j') \<and> res \<noteq> PopEmpty)"

lemma render_cases:
  assumes "render dec now pull ctx = (x, ctx')"
  shows "(x = None \<and> ss_state (rc_stream ctx) = Idle \<and> ss_state (rc_stream ctx') = Idle \<and>
      ss_jitter (rc_stream ctx') = ss_jitter (rc_stream ctx) \<and> ss_hold (rc_stream ctx') = ss_hold (rc_stream ctx) \<and>
      ss_depths (rc_stream ctx') = ss_depths (rc_stream ctx)) \<or>
    (\<exists>j w. entered (rc_stream ctx) j \<and> (dw_ok (ss_depths (rc_stream ctx)) \<longrightarrow> dw_ok w) \<and>
     ((\<exists>frame j2. x = Some frame \<and> frame \<noteq> Expand \<and> ss_state (rc_stream ctx') = Playing \<and> ss_hold (rc_stream ctx') = 0 \<and>
        ss_depths (rc_stream ctx') = w \<and> consumes j j2 \<and>
        (ss_jitter (rc_stream ctx') = j2 \<or> jb_peek (next_seq j2) j2 \<noteq> None \<and>
          (\<exists>buf res out. jb_pop buf j2 = (res, out, ss_jitter (rc_stream ctx'))))) \<or>
      (x = Some Expand \<and> ss_state (rc_stream ctx') = Playing \<and> held (rc_stream ctx) < PLAYOUT_HOLD_FRAMES \<and>
        ss_hold (rc_stream ctx') = held (rc_stream ctx) + 1 \<and> ss_depths (rc_stream ctx') = w \<and>
        (\<exists>buf out. jb_pop buf j = (PopEmpty, out, ss_jitter (rc_stream ctx')))) \<or>
      (x = None \<and> PLAYOUT_HOLD_FRAMES \<le> held (rc_stream ctx) \<and>
        (\<exists>st buf out. rc_stream ctx' = go_idle st \<and> ss_depths st = w \<and> jb_pop buf j = (PopEmpty, out, ss_jitter st)))))"
proof -
  let ?t = "ss_target (rc_stream ctx)"
  obtain go c1 where a: "activate now ?t pull ctx = (go, c1)" by (cases "activate now ?t pull ctx")
  note act = activate_cases [OF a]
  show ?thesis
  proof (cases go)
    case False
    then have "x = None" "ctx' = c1" using assms a by (simp_all add: render_def Let_def)
    with False act show ?thesis by auto
  next
    case True
    let ?st = "rc_stream c1"
    obtain res out j2 where p: "jb_pop (sc_opus (rc_scratch c1)) (ss_jitter ?st) = (res, out, j2)"
      by (cases "jb_pop (sc_opus (rc_scratch c1)) (ss_jitter ?st)")
    define w where "w = dw_push (count_buffered (ss_jitter ?st)) (ss_depths ?st)"
    define c2 where "c2 = c1\<lparr>rc_stream := ?st\<lparr>ss_depths := w, ss_jitter := j2\<rparr>,
      rc_scratch := (rc_scratch c1)\<lparr>sc_opus := out\<rparr>\<rparr>"
    have r: "(x, ctx') = (case res of
        PopPacket \<Rightarrow> apfst Some (render_packet dec ?t (next_seq (ss_jitter ?st)) c2)
      | PopMissing \<Rightarrow> apfst Some (render_missing dec c2)
      | PopEmpty \<Rightarrow> render_empty dec c2)"
      unfolding c2_def w_def assms [symmetric] using a p True by (simp add: render_def Let_def)
    have ent: "entered (rc_stream ctx) (ss_jitter ?st)" and st: "ss_state ?st = Playing" "ss_hold ?st = held (rc_stream ctx)"
      using act True by (auto simp: entered_def held_def)
    have ws: "dw_ok (ss_depths (rc_stream ctx)) \<Longrightarrow> dw_ok w" "dw_ok (ss_depths (rc_stream ctx)) \<Longrightarrow> dw_ok (dw_reset w)"
      using act True dw_push_ok dw_reset_ok(1) by (auto simp: w_def)
    have f: "ss_jitter (rc_stream c2) = j2" "ss_depths (rc_stream c2) = w" "ss_state (rc_stream c2) = Playing"
      "ss_hold (rc_stream c2) = held (rc_stream ctx)" using st by (simp_all add: c2_def)
    show ?thesis
    proof (cases res)
      case PopPacket
      obtain y where y: "render_packet dec ?t (next_seq (ss_jitter ?st)) c2 = (y, ctx')" "x = Some y"
        using r PopPacket by (cases "render_packet dec ?t (next_seq (ss_jitter ?st)) c2") auto
      have c: "consumes (ss_jitter ?st) j2" using p PopPacket unfolding consumes_def by blast
      note pf = render_packet_facts [OF y(1), unfolded f]
      then consider "ss_depths (rc_stream ctx') = w" | "ss_depths (rc_stream ctx') = dw_reset w" by blast
      then show ?thesis
      proof cases
        case 1
        with pf y(2) c ent ws(1) show ?thesis by (intro disjI2 exI [of _ "ss_jitter ?st"] exI [of _ w]) blast
      next
        case 2
        with pf y(2) c ent ws(2) show ?thesis
          by (intro disjI2 exI [of _ "ss_jitter ?st"] exI [of _ "dw_reset w"]) blast
      qed
    next
      case PopMissing
      obtain y where y: "render_missing dec c2 = (y, ctx')" "x = Some y"
        using r PopMissing by (cases "render_missing dec c2") auto
      have c: "consumes (ss_jitter ?st) j2" using p PopMissing unfolding consumes_def by blast
      note mf = render_missing_facts [OF y(1), unfolded f]
      with y(2) c ent ws(1) show ?thesis by (intro disjI2 exI [of _ "ss_jitter ?st"] exI [of _ w]) blast
    next
      case PopEmpty
      then have "render_empty dec c2 = (x, ctx')" using r by simp
      note ef = render_empty_facts [OF this, unfolded f]
      show ?thesis
        using ef p PopEmpty ent ws(1) by (intro disjI2 exI [of _ "ss_jitter ?st"] exI [of _ w]) blast
    qed
  qed
qed

lemma entered_ok: "ss_ok st \<Longrightarrow> entered st j \<Longrightarrow> jb_ok j"
  using skip_ok by (auto simp: entered_def ss_ok_def)

lemma consumes_ok: "jb_ok j \<Longrightarrow> consumes j j' \<Longrightarrow> jb_ok j'"
  using pop_ok by (auto simp: consumes_def)

lemma render_ok:
  assumes "ss_ok (rc_stream ctx)" and "render dec now pull ctx = (x, ctx')"
  shows "ss_ok (rc_stream ctx')"
proof -
  have jok: "jb_ok j'" if "entered (rc_stream ctx) j" "jb_pop buf j = (res, out, j')" for j buf res out j'
    using entered_ok [OF assms(1) that(1)] pop_ok [OF _ that(2)] by blast
  have dw: "dw_ok (ss_depths (rc_stream ctx))" using assms(1) by (simp add: ss_ok_def)
  consider (silent) "ss_state (rc_stream ctx) = Idle" "ss_state (rc_stream ctx') = Idle"
      "ss_jitter (rc_stream ctx') = ss_jitter (rc_stream ctx)" "ss_hold (rc_stream ctx') = ss_hold (rc_stream ctx)"
      "ss_depths (rc_stream ctx') = ss_depths (rc_stream ctx)"
    | (frame) j j2 where "entered (rc_stream ctx) j" "ss_state (rc_stream ctx') = Playing" "ss_hold (rc_stream ctx') = 0"
        "dw_ok (ss_depths (rc_stream ctx'))" "consumes j j2"
        "ss_jitter (rc_stream ctx') = j2 \<or> (\<exists>buf res out. jb_pop buf j2 = (res, out, ss_jitter (rc_stream ctx')))"
    | (expand) j buf out where "entered (rc_stream ctx) j" "ss_state (rc_stream ctx') = Playing"
        "ss_hold (rc_stream ctx') \<le> PLAYOUT_HOLD_FRAMES" "dw_ok (ss_depths (rc_stream ctx'))"
        "jb_pop buf j = (PopEmpty, out, ss_jitter (rc_stream ctx'))"
    | (ended) j st buf out where "entered (rc_stream ctx) j" "rc_stream ctx' = go_idle st" "dw_ok (ss_depths st)"
        "jb_pop buf j = (PopEmpty, out, ss_jitter st)"
    using render_cases [OF assms(2)] dw by (elim disjE exE conjE) (force simp: Suc_le_eq)+
  then show ?thesis
  proof cases
    case silent
    then show ?thesis using assms(1) by (simp add: ss_ok_def)
  next
    case frame
    have j2: "jb_ok j2" by (rule consumes_ok [OF entered_ok [OF assms(1) frame(1)] frame(5)])
    then have "jb_ok (ss_jitter (rc_stream ctx'))" using frame(6) pop_ok by blast
    then show ?thesis using frame by (simp add: ss_ok_def)
  next
    case expand
    then show ?thesis using jok [OF expand(1,5)] by (simp add: ss_ok_def)
  next
    case ended
    show ?thesis unfolding ended(2) by (rule go_idle_ok [OF jok [OF ended(1,4)] ended(3)])
  qed
qed

section \<open>One sender over time\<close>

text \<open>Arrival of a packet of this sender, the second half of the engine's \<open>on_packet\<close>.\<close>

definition ss_arrive :: "32 word \<Rightarrow> byte list \<Rightarrow> instant \<Rightarrow> 'd sender_stream \<Rightarrow> bool \<times> 'd sender_stream" where
  "ss_arrive seq opus_data now st =
    (let (late, jitter) = jb_push seq opus_data now (ss_jitter st);
         st = st\<lparr>ss_last_packet := now, ss_jitter := jitter\<rparr>
     in (late, if \<not> late \<and> ss_state st = Idle then
          st\<lparr>ss_first_idle_arrival := (case ss_first_idle_arrival st of Some t \<Rightarrow> Some t | None \<Rightarrow> Some now)\<rparr> else st))"

lemma ss_arrive_ok:
  assumes "ss_ok st" and "ss_arrive seq d now st = (late, st')"
  shows "ss_ok st' \<and> ss_state st' = ss_state st \<and> ss_hold st' = ss_hold st"
  using assms push_ok [of "ss_jitter st" seq d now]
  by (auto simp: ss_arrive_def ss_ok_def Let_def case_prod_beta split: if_splits)

datatype stream_event = Arrive "32 word" "byte list" instant | Tick instant nat

fun stream_run :: "'d opus \<Rightarrow> stream_event list \<Rightarrow> 'd render_ctx \<Rightarrow> frame_op option list \<times> 'd render_ctx" where
  "stream_run dec [] ctx = ([], ctx)"
| "stream_run dec (Arrive seq d now # es) ctx =
    stream_run dec es (ctx\<lparr>rc_stream := snd (ss_arrive seq d now (rc_stream ctx))\<rparr>)"
| "stream_run dec (Tick now pull # es) ctx =
    (let (x, ctx) = render dec now pull ctx; (xs, ctx) = stream_run dec es ctx in (x # xs, ctx))"

fun longest_run :: "('a \<Rightarrow> bool) \<Rightarrow> nat \<Rightarrow> 'a list \<Rightarrow> nat" where
  "longest_run P n [] = n"
| "longest_run P n (x # xs) = (if P x then longest_run P (n + 1) xs else max n (longest_run P 0 xs))"

lemma render_hold:
  assumes "ss_ok (rc_stream ctx)" and "render dec now pull ctx = (x, ctx')"
  shows "x = Some Expand \<Longrightarrow> ss_hold (rc_stream ctx') = held (rc_stream ctx) + 1 \<and> ss_state (rc_stream ctx') = Playing"
    and "(x = None) = (ss_state (rc_stream ctx') = Idle)"
proof -
  have i: "ss_state (go_idle st) = Idle" for st :: "'a sender_stream" by (simp add: go_idle_def)
  show "x = Some Expand \<Longrightarrow> ss_hold (rc_stream ctx') = held (rc_stream ctx) + 1 \<and> ss_state (rc_stream ctx') = Playing"
    using render_cases [OF assms(2)] by auto
  show "(x = None) = (ss_state (rc_stream ctx') = Idle)"
    using render_cases [OF assms(2)] i by (elim disjE exE conjE) simp_all
qed

lemma run_holds:
  assumes "ss_ok (rc_stream ctx)" and "stream_run dec es ctx = (xs, ctx')" and "n \<le> held (rc_stream ctx)"
  shows "ss_ok (rc_stream ctx') \<and> longest_run (\<lambda>x. x = Some Expand) n xs \<le> PLAYOUT_HOLD_FRAMES"
  using assms
proof (induction dec es ctx arbitrary: n xs rule: stream_run.induct)
  case (1 dec ctx)
  have "held (rc_stream ctx) \<le> PLAYOUT_HOLD_FRAMES" using 1(1) by (simp add: held_def ss_ok_def)
  then show ?case using 1 by auto
next
  case (2 dec seq d now es ctx)
  obtain late st where a: "ss_arrive seq d now (rc_stream ctx) = (late, st)"
    by (cases "ss_arrive seq d now (rc_stream ctx)")
  note ok = ss_arrive_ok [OF 2(2) a]
  show ?case
  proof (rule "2.IH")
    show "n \<le> held (rc_stream (ctx\<lparr>rc_stream := snd (ss_arrive seq d now (rc_stream ctx))\<rparr>))"
      using "2.prems"(3) ok a by (simp add: held_def split: if_splits)
  qed (use "2.prems" a ok in simp_all)
next
  case (3 dec now pull es ctx)
  obtain x c where r: "render dec now pull ctx = (x, c)" by (cases "render dec now pull ctx")
  obtain ys c2 where t: "stream_run dec es c = (ys, c2)" by (cases "stream_run dec es c")
  have e: "xs = x # ys" "stream_run dec es c = (ys, ctx')" using "3.prems"(2) r t by simp_all
  note ok = render_ok [OF "3.prems"(1) r]
  note h = render_hold [OF "3.prems"(1) r]
  have le: "held (rc_stream ctx) \<le> PLAYOUT_HOLD_FRAMES" using "3.prems"(1) by (simp add: held_def ss_ok_def)
  show ?case
  proof (cases "x = Some Expand")
    case True
    then have "n + 1 \<le> held (rc_stream c)" using h(1) "3.prems"(3) by (simp add: held_def)
    from "3.IH" [OF refl r [symmetric] ok e(2) this] show ?thesis using True e by simp
  next
    case False
    from "3.IH" [OF refl r [symmetric] ok e(2), of 0] show ?thesis using False e "3.prems"(3) le by simp
  qed
qed

text \<open>A sender's gap is never papered over for long: whatever packets arrive and whenever
  frames are pulled, a stream never puts more than \<open>PLAYOUT_HOLD_FRAMES\<close> invented frames in a row into
  the output, and a pull returns no frame exactly when it leaves the stream idle.\<close>

theorem concealment_bounded:
  assumes "rc_stream ctx = ss_new decoder t0" and "stream_run dec es ctx = (xs, ctx')"
    and "render dec now pull ctx' = (x, final)"
  shows "longest_run (\<lambda>x. x = Some Expand) 0 (xs @ [x]) \<le> PLAYOUT_HOLD_FRAMES \<and>
    (x = None) = (ss_state (rc_stream final) = Idle)"
proof -
  have app: "stream_run dec (es @ [Tick now pull]) c = (ys @ [y], d)"
    if "stream_run dec es c = (ys, c')" "render dec now pull c' = (y, d)" for c c' d ys y
    using that
  proof (induction dec es c arbitrary: ys rule: stream_run.induct)
    case (3 dec now pull es ctx)
    then show ?case by (auto simp: case_prod_beta Let_def prod_eq_iff)
  qed auto
  have ok: "ss_ok (rc_stream ctx)" using assms(1) ss_new_ok by simp
  have "ss_ok (rc_stream ctx')" using run_holds [OF ok assms(2), of 0] by simp
  from render_hold(2) [OF this assms(3)] show ?thesis
    using run_holds [OF ok app [OF assms(2,3)], of 0] by simp
qed

text \<open>A decoder that always returns a short silent frame.\<close>

definition sample_dec :: "unit opus" where "sample_dec p fec d = (Some [0, 0], d)"

definition sample_ctx :: "unit render_ctx" where
  "sample_ctx = \<lparr>rc_stream = ss_new (od_new ()) 0,
     rc_scratch = \<lparr>sc_opus = [], sc_frame = replicate FRAME_SIZE 0, sc_head = replicate 240 0\<rparr>,
     rc_diag = diag_new, rc_stats = stats_new\<rparr>"

theorem concealment_bounded_witness:
  "\<exists>xs ctx x final. stream_run sample_dec [Arrive 1 [0] 5, Tick 6 1, Tick 40000000 1, Tick 60000000 1] sample_ctx = (xs, ctx) \<and>
    render sample_dec 80000000 1 ctx = (x, final) \<and> length xs = 3 \<and>
    longest_run (\<lambda>x. x = Some Expand) 0 (xs @ [x]) \<le> PLAYOUT_HOLD_FRAMES"
proof -
  let ?es = "[Arrive 1 [0] 5, Tick 6 1, Tick 40000000 1, Tick 60000000 1]"
  obtain xs ctx where r: "stream_run sample_dec ?es sample_ctx = (xs, ctx)"
    by (cases "stream_run sample_dec ?es sample_ctx")
  obtain x final where f: "render sample_dec 80000000 1 ctx = (x, final)" by (cases "render sample_dec 80000000 1 ctx")
  have "rc_stream sample_ctx = ss_new (od_new ()) 0" by (simp add: sample_ctx_def)
  from concealment_bounded [OF this r f] have "longest_run (\<lambda>x. x = Some Expand) 0 (xs @ [x]) \<le> PLAYOUT_HOLD_FRAMES" by simp
  moreover have "length xs = 3" using r by (auto simp: case_prod_beta Let_def)
  ultimately show ?thesis using r f by blast
qed

subsection \<open>A sender that stops falls silent\<close>

text \<open>Everything buffered lies within the next \<open>k\<close> numbers, away from the wrap of the counter.\<close>

definition spans :: "jitter_buffer \<Rightarrow> nat \<Rightarrow> bool" where
  "spans jb k \<longleftrightarrow> ring_ok jb \<and> started jb \<and> 0 < unat (next_seq jb) \<and> unat (next_seq jb) + k + 15 \<le> 2 ^ 32 \<and>
    (\<forall>x. jb_peek x jb \<noteq> None \<longrightarrow> unat (x - next_seq jb) < k)"

lemma spans_no_wrap: "spans jb k \<Longrightarrow> no_wrap jb"
  by (simp add: spans_def no_wrap_def)

lemma spans_advance:
  assumes "spans jb k" and "ring_ok jb'" "started jb'" "next_seq jb' = next_seq jb + 1"
    and "\<And>x. jb_peek x jb' \<noteq> None \<Longrightarrow> x \<noteq> next_seq jb \<and> jb_peek x jb \<noteq> None" and "0 < k"
  shows "spans jb' (k - 1)"
proof -
  have u: "unat (next_seq jb + 1) = unat (next_seq jb) + 1"
    using unat_add_no_wrap [of "next_seq jb" 1] assms(1) by (simp add: spans_def)
  have "unat (x - next_seq jb') < k - 1" if "jb_peek x jb' \<noteq> None" for x
  proof -
    have x: "x \<noteq> next_seq jb" "unat (x - next_seq jb) < k" using assms(5) [OF that] assms(1) by (simp_all add: spans_def)
    then have "unat (x - next_seq jb) \<noteq> 0" by (simp add: unat_eq_0)
    then show ?thesis using x word_off [OF x(1)] by (simp add: assms(4))
  qed
  then show ?thesis using assms u by (simp add: spans_def)
qed

lemma spans_pop:
  assumes "spans jb k" and "jb_pop buf jb = (res, out, jb')"
  shows "(res = PopEmpty \<and> jb' = jb \<and> (\<forall>x. jb_peek x jb = None)) \<or> (res \<noteq> PopEmpty \<and> 0 < k \<and> spans jb' (k - 1))"
proof -
  have s: "ring_ok jb" "started jb" using assms(1) by (simp_all add: spans_def)
  note pop = pop_view [OF s spans_no_wrap [OF assms(1)], of buf]
  have pos: "0 < k" if "jb_peek x jb \<noteq> None" for x
    using assms(1) that unfolding spans_def by (metis gr0I not_less0)
  show ?thesis
  proof (cases "jb_peek (next_seq jb) jb")
    case (Some d)
    with pop assms(2) have f: "res = PopPacket" "next_seq jb' = next_seq jb + 1" "started jb'" "ring_ok jb'"
      "\<forall>x. jb_peek x jb' = (if x = next_seq jb then None else jb_peek x jb)" by auto
    have "0 < k" by (rule pos [of "next_seq jb"]) (simp add: Some)
    moreover have "spans jb' (k - 1)"
      by (rule spans_advance [OF assms(1) f(4,3,2)]) (use f(5) \<open>0 < k\<close> in \<open>auto split: if_splits\<close>)
    ultimately show ?thesis using f(1) by simp
  next
    case None
    show ?thesis
    proof (cases "\<exists>x. jb_peek x jb \<noteq> None")
      case True
      with None pop assms(2) have f: "res = PopMissing" "next_seq jb' = next_seq jb + 1" "started jb'" "ring_ok jb'"
        "\<forall>x. jb_peek x jb' = jb_peek x jb" by (auto simp del: not_None_eq)
      have "0 < k" using True pos by blast
      moreover have "spans jb' (k - 1)"
        by (rule spans_advance [OF assms(1) f(4,3,2)]) (use f(5) None \<open>0 < k\<close> in auto)
      ultimately show ?thesis using f(1) by simp
    next
      case False
      with None pop assms(2) show ?thesis by (auto simp del: not_None_eq)
    qed
  qed
qed

lemma spans_skip:
  assumes "jb_ok jb" "spans jb k" and "skip_to_oldest jb = (n, jb')"
  shows "\<exists>m \<le> k. spans jb' m"
proof (cases "n = 0")
  case True
  have f: "slots jb' = slots jb" "capacity jb' = capacity jb" "next_seq jb' = next_seq jb" "started jb' = started jb"
    using assms(3) True by (auto simp: skip_to_oldest_def Let_def)
  have "spans jb' k" using assms(2) ring_cong [of jb jb'] peek_cong [OF f(1,2)] f by (simp add: spans_def)
  then show ?thesis by blast
next
  case False
  have "find (\<lambda>offset. jb_peek (next_seq jb + of_nat offset) jb \<noteq> None) [0..<capacity jb] = Some n"
    using assms(3) False by (auto simp: skip_to_oldest_def Let_def split: option.splits)
  then obtain d where d: "jb_peek (next_seq jb + of_nat n) jb = Some d" and n: "n < capacity jb"
    by (auto simp: find_Some_iff)
  have "capacity jb = 15" using assms(2) ring_okD by (auto simp: spans_def)
  then have "unat (of_nat n :: 32 word) = n" using n by (simp add: unat_of_nat)
  then have nk: "n < k" using assms(2) d by (auto simp: spans_def)
  have u: "unat (next_seq jb + of_nat n) = unat (next_seq jb) + n"
    using unat_add_no_wrap [of "next_seq jb" "of_nat n"] assms(2) nk \<open>unat (of_nat n :: 32 word) = n\<close>
    by (simp add: spans_def)
  have e: "slots jb' = slots jb" "capacity jb' = capacity jb" "next_seq jb' = next_seq jb + of_nat n" "started jb' = started jb"
    using assms(3) False by (auto simp: skip_to_oldest_def Let_def)
  have pk: "jb_peek x jb' = jb_peek x jb" for x by (rule peek_cong [OF e(1,2)])
  have "unat (x - next_seq jb') < k - n" if "jb_peek x jb' \<noteq> None" for x
  proof -
    have "jb_peek x jb \<noteq> None" using that pk [of x] by simp
    then obtain y where y: "jb_peek x jb = Some y" by blast
    have "ring_ok jb" using assms(2) by (simp add: spans_def)
    from skip_least [OF this assms(3) y] have "n \<le> unat (x - next_seq jb)" .
    moreover have "unat (x - next_seq jb) < k" using assms(2) y by (auto simp: spans_def)
    ultimately show ?thesis by (simp add: e(3) off_add)
  qed
  moreover have "ring_ok jb'" using skip_ok [OF assms(1,3)] by (rule jb_ok_ring)
  ultimately have "spans jb' (k - n)" using assms(2) nk u e by (simp add: spans_def)
  then show ?thesis by (intro exI [of _ "k - n"]) simp
qed

definition patience :: "nat \<Rightarrow> nat \<Rightarrow> nat" where
  "patience k h = (if k = 0 then PLAYOUT_HOLD_FRAMES + 1 - h else k + PLAYOUT_HOLD_FRAMES + 1)"

lemma tick_progress:
  assumes "ss_ok (rc_stream ctx)" and "spans (ss_jitter (rc_stream ctx)) k"
    and "render dec now pull ctx = (Some x, ctx')"
  shows "\<exists>m. spans (ss_jitter (rc_stream ctx')) m \<and> patience m (held (rc_stream ctx')) < patience k (held (rc_stream ctx))"
proof -
  have enter: "\<exists>m \<le> k. spans j m" if "entered (rc_stream ctx) j" for j
    using that assms(2) spans_skip [OF _ assms(2)] assms(1) by (auto simp: entered_def ss_ok_def)
  consider (frame) j j2 where "entered (rc_stream ctx) j" "ss_state (rc_stream ctx') = Playing" "ss_hold (rc_stream ctx') = 0"
      "consumes j j2" "ss_jitter (rc_stream ctx') = j2 \<or>
        (\<exists>buf res out. jb_pop buf j2 = (res, out, ss_jitter (rc_stream ctx')))"
    | (expand) j buf out where "entered (rc_stream ctx) j" "ss_state (rc_stream ctx') = Playing"
      "held (rc_stream ctx) < PLAYOUT_HOLD_FRAMES" "ss_hold (rc_stream ctx') = held (rc_stream ctx) + 1"
      "jb_pop buf j = (PopEmpty, out, ss_jitter (rc_stream ctx'))"
    using render_cases [OF assms(3)] by (elim disjE exE conjE) (force)+
  then show ?thesis
  proof cases
    case frame
    obtain m where m: "m \<le> k" "spans j m" using enter [OF frame(1)] by blast
    have c: "0 < m" "spans j2 (m - 1)" using frame(4) spans_pop [OF m(2)] unfolding consumes_def by blast+
    have "\<exists>n \<le> m - 1. spans (ss_jitter (rc_stream ctx')) n"
      using frame(5)
    proof
      assume "\<exists>buf res out. jb_pop buf j2 = (res, out, ss_jitter (rc_stream ctx'))"
      then show ?thesis using spans_pop [OF c(2)] by (metis diff_le_self order_refl c(2))
    qed (use c(2) in auto)
    then obtain n where n: "n \<le> m - 1" "spans (ss_jitter (rc_stream ctx')) n" by blast
    moreover have "held (rc_stream ctx') = 0" using frame(2,3) by (simp add: held_def)
    ultimately show ?thesis using c(1) m(1) by (intro exI [of _ n]) (auto simp: patience_def)
  next
    case expand
    obtain m where m: "m \<le> k" "spans j m" using enter [OF expand(1)] by blast
    have "ss_jitter (rc_stream ctx') = j" "\<forall>x. jb_peek x j = None" using spans_pop [OF m(2) expand(5)] by auto
    with m(2) have "spans (ss_jitter (rc_stream ctx')) 0" by (simp add: spans_def)
    moreover have "held (rc_stream ctx') = held (rc_stream ctx) + 1" using expand(2,4) by (simp add: held_def)
    ultimately show ?thesis using expand(3) by (intro exI [of _ 0]) (auto simp: patience_def)
  qed
qed

lemma fst_run_Tick:
  "fst (stream_run dec (Tick now pull # es) ctx) =
    fst (render dec now pull ctx) # fst (stream_run dec es (snd (render dec now pull ctx)))"
  by (simp add: case_prod_beta Let_def)

lemma ticks_end:
  assumes "ss_ok (rc_stream ctx)" and "spans (ss_jitter (rc_stream ctx)) k"
    and "patience k (held (rc_stream ctx)) \<le> length ts"
  shows "None \<in> set (fst (stream_run dec (map (\<lambda>(now, pull). Tick now pull) ts) ctx))"
  using assms
proof (induction ts arbitrary: ctx k)
  case Nil
  have "held (rc_stream ctx) \<le> PLAYOUT_HOLD_FRAMES" using Nil(1) by (simp add: held_def ss_ok_def)
  then show ?case using Nil(3) by (simp add: patience_def split: if_splits)
next
  case (Cons t ts)
  obtain now pull where t: "t = (now, pull)" by (cases t)
  obtain x c where r: "render dec now pull ctx = (x, c)" by (cases "render dec now pull ctx")
  show ?case
  proof (cases x)
    case None
    then show ?thesis using t r by (simp add: fst_run_Tick del: stream_run.simps)
  next
    case (Some y)
    obtain m where m: "spans (ss_jitter (rc_stream c)) m" "patience m (held (rc_stream c)) < patience k (held (rc_stream ctx))"
      using tick_progress [OF Cons.prems(1,2)] r Some by blast
    then have "patience m (held (rc_stream c)) \<le> length ts" using Cons.prems(3) by simp
    with m have "None \<in> set (fst (stream_run dec (map (\<lambda>(now, pull). Tick now pull) ts) c))"
      by (intro Cons.IH [OF render_ok [OF Cons.prems(1) r]])
    then show ?thesis using t r by (simp add: fst_run_Tick del: stream_run.simps)
  qed
qed

text \<open>C20 When a sender stops, its stream falls silent: whatever is buffered and however the stream
  got there, among any 19 consecutive pulls without a new packet (the ring's 15 slots, the 3
  invented frames and one) there is one that produces nothing, which it does only when it leaves
  the stream idle.\<close>

theorem stream_falls_silent:
  assumes "ss_ok (rc_stream ctx)" and "started (ss_jitter (rc_stream ctx))"
    and "0 < unat (next_seq (ss_jitter (rc_stream ctx)))" and "unat (next_seq (ss_jitter (rc_stream ctx))) + 30 \<le> 2 ^ 32"
    and "JITTER_BUF_MAX + PLAYOUT_HOLD_FRAMES + 1 \<le> length ts"
  shows "None \<in> set (fst (stream_run dec (map (\<lambda>(now, pull). Tick now pull) ts) ctx))"
proof (rule ticks_end)
  have r: "ring_ok (ss_jitter (rc_stream ctx))" using assms(1) by (simp add: ss_ok_def jb_ok_def)
  show "spans (ss_jitter (rc_stream ctx)) 15"
    using assms(2-4) r peek_in_window [OF r] by (auto simp: spans_def in_window_def)
  show "patience 15 (held (rc_stream ctx)) \<le> length ts" using assms(5) by (simp add: patience_def)
qed (rule assms(1))

theorem stream_falls_silent_witness:
  "None \<in> set (fst (stream_run sample_dec (map (\<lambda>(now, pull). Tick now pull) (replicate 19 (7, 1)))
     (sample_ctx\<lparr>rc_stream := (ss_new (od_new ()) 0)\<lparr>ss_jitter := sample_buffer, ss_state := Playing\<rparr>\<rparr>)))"
  by (rule stream_falls_silent)
    (simp_all add: ss_ok_def ss_new_def sample_buffer_ok dw_new_ok config_defs)

end
