(* ===== verification/Playout.thy ===== *)
theory Playout
  imports Playout_Stream Peer_Gain
begin

text \<open>
  \<^verbatim>\<open>crates/client/src/playout.rs\<close>, the engine over all senders, the output's low-water logic
  and the pump that fills the output. The output ring (\<^verbatim>\<open>ringbuf\<close>) is outside the
  repository: its operations are a parameter with the laws \<open>ring_laws\<close>. The signals of the audio
  callback (\<open>queued\<close>, \<open>request\<close>) are read as they are when a pump starts.
\<close>

subsection \<open>The engine\<close>

record 'd playout_engine =
  pe_streams :: "(string \<times> 'd sender_stream) list"
  pe_scratch :: scratch
  pe_packets_since_prune :: nat
  pe_levels_epoch :: "64 word"

definition pe_new :: "'d playout_engine" where
  "pe_new = (let fade = SAMPLE_RATE * PLAYBACK_FADE_MS div 1000 in
     \<lparr>pe_streams = [], pe_scratch = \<lparr>sc_opus = [], sc_frame = replicate FRAME_SIZE 0,
        sc_head = replicate (max 1 (min fade FRAME_SIZE)) 0\<rparr>,
      pe_packets_since_prune = 0, pe_levels_epoch = 0\<rparr>)"

definition prune :: "instant \<Rightarrow> 'd playout_engine \<Rightarrow> 'd playout_engine" where
  "prune now e = e\<lparr>pe_streams := hm_retain (\<lambda>name s. now - ss_last_packet s < secs SENDER_STREAM_TTL_SECS) (pe_streams e)\<rparr>"

text \<open>\<open>mk\<close> is \<open>OpusDecoder::new\<close>, \<open>None\<close> when it fails.\<close>

definition ensure_stream ::
    "'d opus_decoder option \<Rightarrow> string \<Rightarrow> instant \<Rightarrow> 'd playout_engine \<Rightarrow> bool \<times> 'd playout_engine" where
  "ensure_stream mk name now e =
    (if hm_contains (pe_streams e) name then (True, e)
     else
       (let e = (if MAX_SENDER_STREAMS \<le> length (pe_streams e) then prune now e else e) in
        if MAX_SENDER_STREAMS \<le> length (pe_streams e) then (False, e)
        else
          (case mk of None \<Rightarrow> (False, e)
           | Some decoder \<Rightarrow> (True, e\<lparr>pe_streams := hm_insert name (ss_new decoder now) (pe_streams e)\<rparr>))))"

definition pe_on_packet ::
    "'d opus_decoder option \<Rightarrow> string \<Rightarrow> 32 word \<Rightarrow> byte list \<Rightarrow> instant \<Rightarrow> 'd playout_engine \<Rightarrow> bool \<times> 'd playout_engine" where
  "pe_on_packet mk name seq opus_data now e =
    (let e = e\<lparr>pe_packets_since_prune := pe_packets_since_prune e + 1\<rparr>;
         e = (if STATS_WINDOW_PACKETS \<le> pe_packets_since_prune e
              then prune now (e\<lparr>pe_packets_since_prune := 0\<rparr>) else e);
         (ok, e) = ensure_stream mk name now e
     in if \<not> ok then (False, e)
        else
          (case hm_get (pe_streams e) name of
             None \<Rightarrow> (False, e)
           | Some stream \<Rightarrow>
              (let (late, stream) = ss_arrive seq opus_data now stream
               in (late, e\<lparr>pe_streams := hm_insert name stream (pe_streams e)\<rparr>))))"

subsection \<open>Mixing\<close>

text \<open>One sender's frame into the first \<open>n\<close> samples of \<open>out\<close>: the first contributor overwrites,
  the others add; a gain of one is not multiplied.\<close>

definition mix_frame :: "bool \<Rightarrow> rat \<Rightarrow> rat list \<Rightarrow> rat list \<Rightarrow> rat list" where
  "mix_frame first gain frame out =
    (let n = length frame; unity = (\<bar>f32_sub gain 1\<bar> < f32_epsilon); old = take n out in
     (case (first, unity) of
        (True, True) \<Rightarrow> frame
      | (True, False) \<Rightarrow> map (\<lambda>s. f32_mul s gain) frame
      | (False, True) \<Rightarrow> map2 (\<lambda>m s. f32_add m s) old frame
      | (False, False) \<Rightarrow> map2 (\<lambda>m s. f32_add m (f32_mul s gain)) old frame) @ drop n out)"

record mix_state =
  mx_scratch :: scratch
  mx_diag :: audio_diagnostics
  mx_stats :: network_stats
  mx_out :: "rat list"
  mx_contributors :: nat
  mx_levels_written :: bool

fun render_streams ::
    "'d opus \<Rightarrow> instant \<Rightarrow> nat \<Rightarrow> peer_gains \<Rightarrow> nat \<Rightarrow> (string \<times> 'd sender_stream) list \<Rightarrow> mix_state \<Rightarrow>
     (string \<times> 'd sender_stream) list \<times> mix_state" where
  "render_streams dec now pull gains n [] mx = ([], mx)"
| "render_streams dec now pull gains n ((name, stream) # streams) mx =
    (let was_playing = (ss_state stream = Playing);
         (x, ctx) = render dec now pull \<lparr>rc_stream = stream, rc_scratch = mx_scratch mx, rc_diag = mx_diag mx,
                      rc_stats = mx_stats mx\<rparr>;
         mx = mx\<lparr>mx_scratch := rc_scratch ctx, mx_diag := rc_diag ctx, mx_stats := rc_stats ctx\<rparr>;
         stream = rc_stream ctx;
         (stream, mx) = (case x of
            None \<Rightarrow> if was_playing then (stream\<lparr>ss_frame_rms := 0\<rparr>, mx\<lparr>mx_levels_written := True\<rparr>) else (stream, mx)
          | Some op \<Rightarrow>
              (let frame = take n (sc_frame (mx_scratch mx)) in
               (stream\<lparr>ss_frame_rms := rms frame\<rparr>,
                mx\<lparr>mx_levels_written := True,
                   mx_out := mix_frame (mx_contributors mx = 0) (pg_get name gains) frame (mx_out mx),
                   mx_contributors := mx_contributors mx + 1\<rparr>)));
         (streams, mx) = render_streams dec now pull gains n streams mx
     in ((name, stream) # streams, mx))"

text \<open>The frame length, or \<open>None\<close> when no sender is playing; the mix is in the last component's \<open>mx_out\<close>.\<close>

definition render_frame ::
    "'d opus \<Rightarrow> instant \<Rightarrow> nat \<Rightarrow> peer_gains \<Rightarrow> rat list \<Rightarrow> audio_diagnostics \<Rightarrow> network_stats \<Rightarrow> 'd playout_engine \<Rightarrow>
     nat option \<times> rat list \<times> audio_diagnostics \<times> network_stats \<times> 'd playout_engine" where
  "render_frame dec now pull gains out diag stats e =
    (let n = min FRAME_SIZE (length out);
         (streams, mx) = render_streams dec now pull gains n (pe_streams e)
            \<lparr>mx_scratch = pe_scratch e, mx_diag = diag, mx_stats = stats, mx_out = out, mx_contributors = 0,
             mx_levels_written = False\<rparr>;
         e = e\<lparr>pe_streams := streams, pe_scratch := mx_scratch mx,
               pe_levels_epoch := (if mx_levels_written mx then pe_levels_epoch e + 1 else pe_levels_epoch e)\<rparr>
     in (if mx_contributors mx = 0 then None else Some n, mx_out mx, mx_diag mx, mx_stats mx, e))"

definition frame_levels :: "'d playout_engine \<Rightarrow> (string \<times> rat) list" where
  "frame_levels e = map (\<lambda>(name, s). (name, ss_frame_rms s)) (pe_streams e)"

definition pe_frame_rms :: "string \<Rightarrow> 'd playout_engine \<Rightarrow> rat" where
  "pe_frame_rms name e = (case hm_get (pe_streams e) name of Some s \<Rightarrow> ss_frame_rms s | None \<Rightarrow> 0)"

definition pe_playing :: "'d playout_engine \<Rightarrow> nat" where
  "pe_playing e = length (filter (\<lambda>(name, s). ss_state s = Playing) (pe_streams e))"

definition pe_active :: "'d playout_engine \<Rightarrow> bool" where
  "pe_active e = list_ex (\<lambda>(name, s). ss_state s = Playing \<or> 0 < count_buffered (ss_jitter s)) (pe_streams e)"

subsection \<open>The output\<close>

record output_state =
  op_level :: nat
  op_low_water :: nat

definition output_new :: "nat \<Rightarrow> nat \<Rightarrow> output_state" where
  "output_new level device_request =
    \<lparr>op_level = level, op_low_water = max PLAYOUT_OUTPUT_LOW_WATER (device_request + FRAME_SIZE)\<rparr>"

definition wants_frame :: "output_state \<Rightarrow> bool" where
  "wants_frame outp \<longleftrightarrow> op_level outp < op_low_water outp"

definition output_pull :: "output_state \<Rightarrow> nat" where
  "output_pull outp = (op_low_water outp - op_level outp + FRAME_SIZE - 1) div FRAME_SIZE"

subsection \<open>The pump\<close>

record 'd playout_pump =
  pp_engine :: "'d playout_engine"
  pp_mix :: "rat list"
  pp_virtual_until :: instant

definition pp_new :: "instant \<Rightarrow> 'd playout_pump" where
  "pp_new now = \<lparr>pp_engine = pe_new, pp_mix = replicate FRAME_SIZE 0, pp_virtual_until = now\<rparr>"

definition pp_on_packet ::
    "'d opus_decoder option \<Rightarrow> string \<Rightarrow> 32 word \<Rightarrow> byte list \<Rightarrow> instant \<Rightarrow> 'd playout_pump \<Rightarrow> bool \<times> 'd playout_pump" where
  "pp_on_packet mk name seq opus_data now p =
    (let (late, e) = pe_on_packet mk name seq opus_data now (pp_engine p) in (late, p\<lparr>pp_engine := e\<rparr>))"

definition needs_tick :: "'d playout_pump \<Rightarrow> bool" where
  "needs_tick p = pe_active (pp_engine p)"

definition pp_levels_epoch :: "'d playout_pump \<Rightarrow> 64 word" where
  "pp_levels_epoch p = pe_levels_epoch (pp_engine p)"

definition pp_frame_levels :: "'d playout_pump \<Rightarrow> (string \<times> rat) list" where
  "pp_frame_levels p = frame_levels (pp_engine p)"

definition pp_frame_rms :: "string \<Rightarrow> 'd playout_pump \<Rightarrow> rat" where
  "pp_frame_rms name p = pe_frame_rms name (pp_engine p)"

text \<open>The ring's operations: how much it holds, how much it can take, and the push of a slice, which returns
  how many samples it took.\<close>

record 'r ring_ops =
  occupied_len :: "'r \<Rightarrow> nat"
  vacant_len :: "'r \<Rightarrow> nat"
  push_slice :: "rat list \<Rightarrow> 'r \<Rightarrow> nat \<times> 'r"

definition ring_laws :: "'r ring_ops \<Rightarrow> bool" where
  "ring_laws ops \<longleftrightarrow> (\<forall>xs r. let (k, r') = push_slice ops xs r in
     k = min (length xs) (vacant_len ops r) \<and> occupied_len ops r' = occupied_len ops r + k \<and>
     vacant_len ops r' = vacant_len ops r - k)"

definition push_counted :: "'r ring_ops \<Rightarrow> rat list \<Rightarrow> 'r \<Rightarrow> 64 word \<Rightarrow> 'r \<times> 64 word" where
  "push_counted ops samples r overflow =
    (let (pushed, r) = push_slice ops samples r in
     (r, if pushed < length samples then overflow + of_nat (length samples - pushed) else overflow))"

record ('d, 'r) pump_ctx =
  pc_pump :: "'d playout_pump"
  pc_ring :: 'r
  pc_diag :: audio_diagnostics
  pc_stats :: network_stats

definition pump_render ::
    "'d opus \<Rightarrow> instant \<Rightarrow> nat \<Rightarrow> peer_gains \<Rightarrow> ('d, 'r) pump_ctx \<Rightarrow> nat option \<times> ('d, 'r) pump_ctx" where
  "pump_render dec now pull gains c =
    (let (n, mix, diag, stats, e) =
       render_frame dec now pull gains (pp_mix (pc_pump c)) (pc_diag c) (pc_stats c) (pp_engine (pc_pump c))
     in (n, c\<lparr>pc_pump := (pc_pump c)\<lparr>pp_engine := e, pp_mix := mix\<rparr>, pc_diag := diag, pc_stats := stats\<rparr>))"

text \<open>The loop with a playback device; \<open>None\<close> is a loop that never leaves.\<close>

partial_function (option) pump_device ::
    "'d opus \<Rightarrow> 'r ring_ops \<Rightarrow> nat \<Rightarrow> nat \<Rightarrow> instant \<Rightarrow> peer_gains \<Rightarrow> ('d, 'r) pump_ctx \<Rightarrow> ('d, 'r) pump_ctx option" where
  "pump_device dec ops request queued now gains c =
    (let outp = output_new (occupied_len ops (pc_ring c) + queued) request in
     if \<not> wants_frame outp then Some c
     else
       (case pump_render dec now (output_pull outp) gains c of
          (None, c) \<Rightarrow> Some c
        | (Some n, c) \<Rightarrow>
           (let room = vacant_len ops (pc_ring c);
                (r, overflow) = push_counted ops (take n (pp_mix (pc_pump c))) (pc_ring c) (playback_ring_overflow (pc_diag c));
                c = c\<lparr>pc_ring := r, pc_diag := (pc_diag c)\<lparr>playback_ring_overflow := overflow\<rparr>\<rparr>
            in if room < n then Some c else pump_device dec ops request queued now gains c)))"

definition virtual_level :: "instant \<Rightarrow> instant \<Rightarrow> nat" where
  "virtual_level until now = (until - now) div 1000 * SAMPLE_RATE div 1000000"

text \<open>The loop without a device: a virtual output that takes a frame every 20 ms.\<close>

partial_function (option) pump_virtual ::
    "'d opus \<Rightarrow> instant \<Rightarrow> peer_gains \<Rightarrow> ('d, 'r) pump_ctx \<Rightarrow> ('d, 'r) pump_ctx option" where
  "pump_virtual dec now gains c =
    (let outp = output_new (virtual_level (pp_virtual_until (pc_pump c)) now) 0 in
     if \<not> wants_frame outp then Some c
     else
       (case pump_render dec now (output_pull outp) gains c of
          (None, c) \<Rightarrow> Some (c\<lparr>pc_pump := (pc_pump c)\<lparr>pp_virtual_until := now\<rparr>\<rparr>)
        | (Some n, c) \<Rightarrow>
            pump_virtual dec now gains
              (c\<lparr>pc_pump := (pc_pump c)\<lparr>pp_virtual_until := pp_virtual_until (pc_pump c) + FRAME_DURATION\<rparr>\<rparr>)))"

text \<open>\<open>pump\<close>: with or without a device; the number of playing senders is what it publishes.\<close>

definition pump ::
    "'d opus \<Rightarrow> 'r ring_ops option \<Rightarrow> nat \<Rightarrow> nat \<Rightarrow> instant \<Rightarrow> peer_gains \<Rightarrow> ('d, 'r) pump_ctx \<Rightarrow>
     (nat \<times> ('d, 'r) pump_ctx) option" where
  "pump dec dev request queued now gains c =
    map_option (\<lambda>c. (pe_playing (pp_engine (pc_pump c)), c))
      (case dev of
         Some ops \<Rightarrow>
           pump_device dec ops request queued now gains (c\<lparr>pc_pump := (pc_pump c)\<lparr>pp_virtual_until := now\<rparr>\<rparr>)
       | None \<Rightarrow>
           (let max_lag = FRAME_DURATION * JITTER_BUF_MAX;
                c = (if max_lag < now - pp_virtual_until (pc_pump c)
                     then c\<lparr>pc_pump := (pc_pump c)\<lparr>pp_virtual_until := now\<rparr>\<rparr> else c)
            in pump_virtual dec now gains c))"


section \<open>Invariants\<close>

lemma snd_conceal_len: "conceal_into dec d frame = (d', frame') \<Longrightarrow> length frame' = length frame"
  using length_conceal [of dec d frame] by simp

lemma snd_decode_len: "decode_into dec p d frame = (d', frame') \<Longrightarrow> length frame' = length frame"
  using length_decode [of dec p d frame] by simp

lemma accelerate_len:
  "length (sc_frame (rc_scratch (snd (accelerate dec seq fresh ctx)))) = length (sc_frame (rc_scratch ctx))"
  by (auto simp: accelerate_def Let_def case_prod_beta length_crossfade)

lemma render_packet_len:
  "length (sc_frame (rc_scratch (snd (render_packet dec target seq ctx)))) = length (sc_frame (rc_scratch ctx))"
  by (auto simp: render_packet_def Let_def accelerate_len split: prod.split dest!: snd_decode_len)

lemma render_missing_len:
  "length (sc_frame (rc_scratch (snd (render_missing dec ctx)))) = length (sc_frame (rc_scratch ctx))"
  by (auto simp: render_missing_def Let_def split: prod.split option.split dest!: snd_conceal_len)

lemma render_empty_len:
  "length (sc_frame (rc_scratch (snd (render_empty dec ctx)))) = length (sc_frame (rc_scratch ctx))"
  by (auto simp: render_empty_def Let_def split: prod.split dest!: snd_conceal_len)

lemma render_len:
  assumes "render dec now pull ctx = (x, ctx')"
  shows "length (sc_frame (rc_scratch ctx')) = length (sc_frame (rc_scratch ctx))"
proof -
  let ?t = "ss_target (rc_stream ctx)"
  obtain go c1 where a: "activate now ?t pull ctx = (go, c1)" by (cases "activate now ?t pull ctx")
  have s: "rc_scratch c1 = rc_scratch ctx" using activate_frame(1) [of now ?t pull ctx] a by simp
  have "ctx' = snd (render dec now pull ctx)" using assms by simp
  then show ?thesis
    using a s by (auto simp: render_def Let_def case_prod_beta render_packet_len render_missing_len render_empty_len
      split: pop_result.split)
qed

definition streams_ok :: "(string \<times> 'd sender_stream) list \<Rightarrow> bool" where
  "streams_ok ss \<longleftrightarrow> keys_distinct ss \<and> list_all (\<lambda>(n, st). ss_ok st) ss"

definition pe_ok :: "'d playout_engine \<Rightarrow> bool" where
  "pe_ok e \<longleftrightarrow> streams_ok (pe_streams e) \<and> length (pe_streams e) \<le> MAX_SENDER_STREAMS \<and>
    length (sc_frame (pe_scratch e)) = FRAME_SIZE \<and> pe_packets_since_prune e < STATS_WINDOW_PACKETS"

lemma streams_okI:
  "\<lbrakk>keys_distinct ss; \<And>n st. hm_get ss n = Some st \<Longrightarrow> ss_ok st\<rbrakk> \<Longrightarrow> streams_ok ss"
  by (auto simp: streams_ok_def list_all_iff hm_in_set)

lemma streams_ok_get: "streams_ok ss \<Longrightarrow> hm_get ss n = Some st \<Longrightarrow> ss_ok st"
  by (auto simp: streams_ok_def list_all_iff dest!: map_of_SomeD)

lemma streams_ok_insert: "streams_ok ss \<Longrightarrow> ss_ok st \<Longrightarrow> streams_ok (hm_insert n st ss)"
  by (rule streams_okI) (auto simp: streams_ok_def dest: streams_ok_get [rotated] split: if_splits)

lemma prune_ok: "pe_ok e \<Longrightarrow> pe_ok (prune now e)"
  by (auto simp: pe_ok_def prune_def streams_ok_def list_all_iff hm_retain_def keys_distinct_retain [unfolded hm_retain_def]
      intro: le_trans [OF length_filter_le])

lemma prune_frame: "pe_packets_since_prune (prune now e) = pe_packets_since_prune e"
  by (simp add: prune_def)

lemma pe_new_ok: "pe_ok pe_new"
  by (simp add: pe_ok_def pe_new_def streams_ok_def config_defs Let_def)

lemma ensure_stream_ok:
  assumes "pe_ok e" and "ensure_stream mk name now e = (ok, e')"
  shows "pe_ok e' \<and> (ok \<longrightarrow> hm_contains (pe_streams e') name)"
proof (cases "hm_contains (pe_streams e) name")
  case True
  then show ?thesis using assms by (simp add: ensure_stream_def)
next
  case False
  let ?e = "if MAX_SENDER_STREAMS \<le> length (pe_streams e) then prune now e else e"
  have p: "pe_ok ?e" using assms(1) by (simp add: prune_ok)
  show ?thesis
  proof (cases "MAX_SENDER_STREAMS \<le> length (pe_streams ?e) \<or> mk = None")
    case True
    then have "ok = False" "e' = ?e" using assms(2) False by (auto simp: ensure_stream_def Let_def simp del: not_None_eq split: option.splits if_splits)
    then show ?thesis using p by simp
  next
    case full: False
    then obtain d where "mk = Some d" by blast
    then have e: "e' = ?e\<lparr>pe_streams := hm_insert name (ss_new d now) (pe_streams ?e)\<rparr>"
      using assms(2) False full by (simp add: ensure_stream_def Let_def)
    have "streams_ok (hm_insert name (ss_new d now) (pe_streams ?e))"
      using p streams_ok_insert ss_new_ok unfolding pe_ok_def by blast
    moreover have "length (hm_insert name (ss_new d now) (pe_streams ?e)) \<le> MAX_SENDER_STREAMS"
      using p full hm_length_insert [of "pe_streams ?e" name "ss_new d now"] by (simp add: pe_ok_def streams_ok_def)
    ultimately show ?thesis using p e by (simp add: pe_ok_def)
  qed
qed

lemma on_packet_ok:
  assumes "pe_ok e" and "pe_on_packet mk name seq d now e = (late, e')"
  shows "pe_ok e'"
proof -
  define e1 where "e1 = e\<lparr>pe_packets_since_prune := pe_packets_since_prune e + 1\<rparr>"
  define e2 where "e2 = (if STATS_WINDOW_PACKETS \<le> pe_packets_since_prune e1
    then prune now (e1\<lparr>pe_packets_since_prune := 0\<rparr>) else e1)"
  obtain ok e3 where e3: "ensure_stream mk name now e2 = (ok, e3)" by (cases "ensure_stream mk name now e2")
  have "pe_ok e2"
  proof (cases "STATS_WINDOW_PACKETS \<le> pe_packets_since_prune e1")
    case True
    have "pe_ok (e1\<lparr>pe_packets_since_prune := 0\<rparr>)" using assms(1) by (simp add: e1_def pe_ok_def config_defs)
    then show ?thesis using True by (simp add: e2_def prune_ok)
  next
    case False
    then show ?thesis using assms(1) by (simp add: e2_def e1_def pe_ok_def)
  qed
  note ok = ensure_stream_ok [OF this e3]
  have eq: "(late, e') = (if \<not> ok then (False, e3)
        else (case hm_get (pe_streams e3) name of
             None \<Rightarrow> (False, e3)
           | Some stream \<Rightarrow>
              (let (late, stream) = ss_arrive seq d now stream
               in (late, e3\<lparr>pe_streams := hm_insert name stream (pe_streams e3)\<rparr>))))"
    using assms(2) unfolding pe_on_packet_def Let_def e1_def [symmetric] e2_def [symmetric] e3 by simp
  show ?thesis
  proof (cases "ok \<and> hm_contains (pe_streams e3) name")
    case True
    then obtain st where st: "hm_get (pe_streams e3) name = Some st" by blast
    obtain l st' where a: "ss_arrive seq d now st = (l, st')" by (cases "ss_arrive seq d now st")
    have "ss_ok st" using ok st streams_ok_get unfolding pe_ok_def by blast
    then have "ss_ok st'" using ss_arrive_ok [OF _ a] by blast
    then have s: "streams_ok (hm_insert name st' (pe_streams e3))"
      using ok streams_ok_insert unfolding pe_ok_def by blast
    have l: "length (hm_insert name st' (pe_streams e3)) = length (pe_streams e3)"
      using hm_length_insert [of "pe_streams e3" name st'] ok st by (simp add: pe_ok_def streams_ok_def)
    have "e' = e3\<lparr>pe_streams := hm_insert name st' (pe_streams e3)\<rparr>" using eq True st a by simp
    then show ?thesis using s l ok by (simp add: pe_ok_def)
  next
    case False
    then have "e' = e3" using eq by (auto split: if_splits option.splits)
    then show ?thesis using ok by simp
  qed
qed


section \<open>Mixing against its specification\<close>

text \<open>The frames the senders produce in one pull, and what listening to them means: each scaled by its gain,
  summed sample by sample.\<close>

fun sender_frames ::
    "'d opus \<Rightarrow> instant \<Rightarrow> nat \<Rightarrow> nat \<Rightarrow> (string \<times> 'd sender_stream) list \<Rightarrow> scratch \<Rightarrow> audio_diagnostics \<Rightarrow> network_stats \<Rightarrow>
     (string \<times> rat list) list" where
  "sender_frames dec now pull n [] sc diag stats = []"
| "sender_frames dec now pull n ((name, st) # ss) sc diag stats =
    (let (x, ctx) = render dec now pull \<lparr>rc_stream = st, rc_scratch = sc, rc_diag = diag, rc_stats = stats\<rparr>
     in (if x = None then [] else [(name, take n (sc_frame (rc_scratch ctx)))]) @
        sender_frames dec now pull n ss (rc_scratch ctx) (rc_diag ctx) (rc_stats ctx))"

definition scaled :: "rat \<Rightarrow> rat list \<Rightarrow> rat list" where
  "scaled gain frame = (if \<bar>f32_sub gain 1\<bar> < f32_epsilon then frame else map (\<lambda>s. f32_mul s gain) frame)"

definition mixed :: "peer_gains \<Rightarrow> (string \<times> rat list) list \<Rightarrow> rat list option" where
  "mixed gains fs = (case map (\<lambda>(name, f). scaled (pg_get name gains) f) fs of
     [] \<Rightarrow> None
   | f # fs \<Rightarrow> Some (foldl (map2 f32_add) f fs))"

lemma length_scaled [simp]: "length (scaled g f) = length f"
  by (simp add: scaled_def)

lemma map2_map_right: "map2 (\<lambda>m s. f m (g s)) xs ys = map2 f xs (map g ys)"
  by (simp add: zip_map2 comp_def split_def)

lemma mix_frame_scaled:
  "mix_frame first gain frame out =
    (if first then scaled gain frame else map2 f32_add (take (length frame) out) (scaled gain frame)) @ drop (length frame) out"
  by (simp add: mix_frame_def scaled_def Let_def map2_map_right [where f = f32_add and g = "\<lambda>s. f32_mul s gain"])

definition mix_into :: "nat \<Rightarrow> nat \<times> rat list \<Rightarrow> rat list \<Rightarrow> nat \<times> rat list" where
  "mix_into n acc f = (case acc of (c, out) \<Rightarrow>
     (c + 1, (if c = 0 then f else map2 f32_add (take n out) f) @ drop n out))"

lemma ss_ok_rms [simp]: "ss_ok (st\<lparr>ss_frame_rms := r\<rparr>) = ss_ok st"
  by (simp add: ss_ok_def)

lemma render_streams_mix:
  assumes "render_streams dec now pull gains n ss mx = (ss', mx')" and "n \<le> length (sc_frame (mx_scratch mx))"
  shows "(mx_contributors mx', mx_out mx') =
    foldl (mix_into n) (mx_contributors mx, mx_out mx)
      (map (\<lambda>(name, f). scaled (pg_get name gains) f)
        (sender_frames dec now pull n ss (mx_scratch mx) (mx_diag mx) (mx_stats mx)))"
  using assms
proof (induction ss arbitrary: mx ss')
  case (Cons p ss)
  obtain name st where p: "p = (name, st)" by (cases p)
  let ?c = "\<lparr>rc_stream = st, rc_scratch = mx_scratch mx, rc_diag = mx_diag mx, rc_stats = mx_stats mx\<rparr>"
  obtain x c where r: "render dec now pull ?c = (x, c)" by (cases "render dec now pull ?c")
  have len: "length (sc_frame (rc_scratch c)) = length (sc_frame (mx_scratch mx))" using render_len [OF r] by simp
  define mx1 where "mx1 = mx\<lparr>mx_scratch := rc_scratch c, mx_diag := rc_diag c, mx_stats := rc_stats c\<rparr>"
  define mx2 where "mx2 = (case x of
      None \<Rightarrow> if ss_state st = Playing then mx1\<lparr>mx_levels_written := True\<rparr> else mx1
    | Some op \<Rightarrow> mx1\<lparr>mx_levels_written := True,
        mx_out := mix_frame (mx_contributors mx1 = 0) (pg_get name gains) (take n (sc_frame (mx_scratch mx1))) (mx_out mx1),
        mx_contributors := mx_contributors mx1 + 1\<rparr>)"
  obtain ss2 where rest: "render_streams dec now pull gains n ss mx2 = (ss2, mx')"
    using Cons.prems(1) unfolding p using r
    by (cases x) (auto simp: Let_def mx2_def mx1_def split: prod.splits if_splits)
  have f2: "mx_scratch mx2 = rc_scratch c" "mx_diag mx2 = rc_diag c" "mx_stats mx2 = rc_stats c"
    by (simp_all add: mx2_def mx1_def split: option.split)
  have "n \<le> length (sc_frame (mx_scratch mx2))" using Cons.prems(2) len f2 by simp
  note ih = Cons.IH [OF rest this, unfolded f2]
  show ?case
  proof (cases x)
    case None
    then have "mx_contributors mx2 = mx_contributors mx" "mx_out mx2 = mx_out mx" by (simp_all add: mx2_def mx1_def)
    then show ?thesis using ih r None p by simp
  next
    case (Some y)
    have "mx_out mx2 = mix_frame (mx_contributors mx = 0) (pg_get name gains) (take n (sc_frame (rc_scratch c))) (mx_out mx)"
      "mx_contributors mx2 = mx_contributors mx + 1"
      using Some by (simp_all add: mx2_def mx1_def)
    then show ?thesis using ih r Some p len Cons.prems(2) by (simp add: mix_frame_scaled mix_into_def min_absorb2)
  qed
qed simp

lemma mix_into_adds:
  assumes "list_all (\<lambda>f. length f = n) fs" and "length acc = n" and "0 < c"
  shows "foldl (mix_into n) (c, acc @ rest) fs = (c + length fs, foldl (map2 f32_add) acc fs @ rest)"
  using assms by (induction fs arbitrary: c acc) (simp_all add: mix_into_def)

lemma frames_length:
  assumes "n \<le> length (sc_frame sc)" and "(name, f) \<in> set (sender_frames dec now pull n ss sc diag stats)"
  shows "length f = n"
  using assms
proof (induction dec now pull n ss sc diag stats rule: sender_frames.induct)
  case (2 dec now pull n name' st ss sc diag stats)
  let ?c = "\<lparr>rc_stream = st, rc_scratch = sc, rc_diag = diag, rc_stats = stats\<rparr>"
  obtain x c where r: "render dec now pull ?c = (x, c)" by (cases "render dec now pull ?c")
  have "length (sc_frame (rc_scratch c)) = length (sc_frame sc)" using render_len [OF r] by simp
  then show ?case using 2 r by (auto split: if_splits)
qed simp


text \<open>C19 Mixing in place is mixing: the buffer after a rendered frame holds, whatever it held before and
  in whichever way the branches overwrite, add or skip the multiplication, the sum of the playing
  senders' frames each scaled by the listener's gain for it; the rest of the buffer is untouched, and no
  frame is reported, nor anything written, exactly when no sender produced one.\<close>

theorem render_frame_mixes:
  assumes "length (sc_frame (pe_scratch e)) = FRAME_SIZE"
    and "render_frame dec now pull gains out diag stats e = (k, out', diag', stats', e')"
  shows "let n = min FRAME_SIZE (length out); fs = sender_frames dec now pull n (pe_streams e) (pe_scratch e) diag stats
    in k = (if fs = [] then None else Some n) \<and> drop n out' = drop n out \<and>
       take n out' = (case mixed gains fs of None \<Rightarrow> take n out | Some mix \<Rightarrow> mix)"
proof -
  define n where "n = min FRAME_SIZE (length out)"
  define fs where "fs = sender_frames dec now pull n (pe_streams e) (pe_scratch e) diag stats"
  let ?g = "\<lambda>(name, f). scaled (pg_get name gains) f"
  let ?mx = "\<lparr>mx_scratch = pe_scratch e, mx_diag = diag, mx_stats = stats, mx_out = out, mx_contributors = 0,
             mx_levels_written = False\<rparr>"
  obtain ss mx where r: "render_streams dec now pull gains n (pe_streams e) ?mx = (ss, mx)"
    by (cases "render_streams dec now pull gains n (pe_streams e) ?mx")
  have "n \<le> length (sc_frame (mx_scratch ?mx))" using assms(1) by (simp add: n_def)
  from render_streams_mix [OF r this]
  have mix: "(mx_contributors mx, mx_out mx) = foldl (mix_into n) (0, out) (map ?g fs)" by (simp add: fs_def)
  have res: "k = (if mx_contributors mx = 0 then None else Some n)" "out' = mx_out mx"
    using assms(2) r by (auto simp: render_frame_def Let_def n_def)
  have len: "list_all (\<lambda>f. length f = n) (map ?g fs)"
    using frames_length [of n "pe_scratch e"] assms(1) by (auto simp: list_all_iff fs_def n_def)
  have "k = (if fs = [] then None else Some n) \<and> drop n out' = drop n out \<and>
       take n out' = (case mixed gains fs of None \<Rightarrow> take n out | Some mix \<Rightarrow> mix)"
  proof (cases fs)
    case Nil
    then show ?thesis using mix res by (simp add: mixed_def)
  next
    case (Cons p ps)
    have l: "length (?g p) = n" "list_all (\<lambda>f. length f = n) (map ?g ps)" using len Cons by simp_all
    have "foldl (mix_into n) (0, out) (map ?g fs) = (1 + length ps, foldl (map2 f32_add) (?g p) (map ?g ps) @ drop n out)"
      using mix_into_adds [OF l(2,1), of 1 "drop n out"] Cons by (simp add: mix_into_def)
    then have o: "mx_contributors mx \<noteq> 0" "out' = foldl (map2 f32_add) (?g p) (map ?g ps) @ drop n out"
      using mix res by simp_all
    have "length (foldl (map2 f32_add) f fs) = n" if "length f = n" "list_all (\<lambda>f. length f = n) fs" for f fs
      using that by (induction fs arbitrary: f) simp_all
    from this [OF l] have "length (foldl (map2 f32_add) (?g p) (map ?g ps)) = n" .
    then show ?thesis using o res Cons by (simp add: mixed_def n_def)
  qed
  from this [unfolded fs_def, unfolded n_def] show ?thesis unfolding Let_def .
qed


text \<open>Two senders that play, one of them turned down.\<close>

definition sample_engine :: "unit playout_engine" where
  "sample_engine = pe_new\<lparr>pe_streams :=
     [(''ann'', (ss_new (od_new ()) 0)\<lparr>ss_jitter := sample_buffer, ss_state := Playing\<rparr>),
      (''bob'', (ss_new (od_new ()) 0)\<lparr>ss_jitter := sample_buffer, ss_state := Playing\<rparr>)]\<rparr>"

lemma sample_engine_ok: "pe_ok sample_engine"
  by (simp add: sample_engine_def pe_ok_def pe_new_def streams_ok_def keys_distinct_def Let_def ss_ok_def ss_new_def
      sample_buffer_ok dw_new_ok config_defs)

theorem render_frame_mixes_witness:
  "\<exists>k out' fs. fs = sender_frames sample_dec 7 1 3 (pe_streams sample_engine) (pe_scratch sample_engine) diag_new stats_new \<and>
    fst (render_frame sample_dec 7 1 [(''bob'', 1 / 2)] [9, 9, 9] diag_new stats_new sample_engine) = k \<and>
    k = (if fs = [] then None else Some 3)"
proof -
  obtain k out' d s e' where r:
    "render_frame sample_dec 7 1 [(''bob'', 1 / 2)] [9, 9, 9] diag_new stats_new sample_engine = (k, out', d, s, e')"
    by (metis surj_pair)
  have "length (sc_frame (pe_scratch sample_engine)) = FRAME_SIZE" using sample_engine_ok by (simp add: pe_ok_def)
  from render_frame_mixes [OF this r] show ?thesis using r by (simp add: Let_def FRAME_SIZE_def numeral_3_eq_3)
qed


section \<open>Filling the output\<close>

lemma length_mix_frame: "length f \<le> length out \<Longrightarrow> length (mix_frame first g f out) = length out"
  by (simp add: mix_frame_scaled)

lemma render_streams_ok:
  assumes "render_streams dec now pull gains n ss mx = (ss', mx')" and "list_all (\<lambda>(name, st). ss_ok st) ss"
    and "n \<le> length (mx_out mx)"
  shows "map fst ss' = map fst ss \<and> list_all (\<lambda>(name, st). ss_ok st) ss' \<and>
    length (sc_frame (mx_scratch mx')) = length (sc_frame (mx_scratch mx)) \<and> length (mx_out mx') = length (mx_out mx) \<and>
    mx_contributors mx \<le> mx_contributors mx' \<and>
    (mx_contributors mx' = mx_contributors mx \<longrightarrow> list_all (\<lambda>(name, st). ss_state st = Idle) ss')"
  using assms
proof (induction ss arbitrary: mx ss')
  case (Cons p ss)
  obtain name st where p: "p = (name, st)" by (cases p)
  let ?c = "\<lparr>rc_stream = st, rc_scratch = mx_scratch mx, rc_diag = mx_diag mx, rc_stats = mx_stats mx\<rparr>"
  obtain x c where r: "render dec now pull ?c = (x, c)" by (cases "render dec now pull ?c")
  have ok: "ss_ok (rc_stream ?c)" using Cons.prems(2) p by simp
  note len = render_len [OF r] and ok' = render_ok [OF ok r] and idle = render_hold(2) [OF ok r]
  define mx1 where "mx1 = mx\<lparr>mx_scratch := rc_scratch c, mx_diag := rc_diag c, mx_stats := rc_stats c\<rparr>"
  define st2 mx2 where "st2 = (case x of
      None \<Rightarrow> if ss_state st = Playing then (rc_stream c)\<lparr>ss_frame_rms := 0\<rparr> else rc_stream c
    | Some op \<Rightarrow> (rc_stream c)\<lparr>ss_frame_rms := rms (take n (sc_frame (rc_scratch c)))\<rparr>)"
    and "mx2 = (case x of
      None \<Rightarrow> if ss_state st = Playing then mx1\<lparr>mx_levels_written := True\<rparr> else mx1
    | Some op \<Rightarrow> mx1\<lparr>mx_levels_written := True,
        mx_out := mix_frame (mx_contributors mx1 = 0) (pg_get name gains) (take n (sc_frame (mx_scratch mx1))) (mx_out mx1),
        mx_contributors := mx_contributors mx1 + 1\<rparr>)"
  obtain ss2 where rest: "render_streams dec now pull gains n ss mx2 = (ss2, mx')" "ss' = (name, st2) # ss2"
    using Cons.prems(1) unfolding p using r
    by (cases x) (auto simp: Let_def st2_def mx2_def mx1_def split: prod.splits if_splits)
  have st2: "ss_ok st2" "ss_state st2 = ss_state (rc_stream c)" using ok' by (simp_all add: st2_def split: option.split)
  have m: "length (mx_out mx2) = length (mx_out mx)" "mx_scratch mx2 = rc_scratch c"
    using Cons.prems(3) by (simp_all add: mx2_def mx1_def length_mix_frame split: option.split)
  have c2: "mx_contributors mx2 = (if x = None then mx_contributors mx else mx_contributors mx + 1)"
    by (simp add: mx2_def mx1_def split: option.split)
  have "list_all (\<lambda>(name, st). ss_ok st) ss" "n \<le> length (mx_out mx2)" using Cons.prems(2,3) m by simp_all
  from Cons.IH [OF rest(1) this] rest(2) st2 m c2 p len idle show ?case by (auto split: if_splits)
qed simp

lemma render_frame_ok:
  assumes "pe_ok e" and "render_frame dec now pull gains out diag stats e = (k, out', diag', stats', e')"
  shows "pe_ok e' \<and> length out' = length out \<and> (k = None \<and> pe_playing e' = 0 \<or> k = Some (min FRAME_SIZE (length out)))"
proof -
  let ?n = "min FRAME_SIZE (length out)"
  let ?mx = "\<lparr>mx_scratch = pe_scratch e, mx_diag = diag, mx_stats = stats, mx_out = out, mx_contributors = 0,
             mx_levels_written = False\<rparr>"
  obtain ss mx where r: "render_streams dec now pull gains ?n (pe_streams e) ?mx = (ss, mx)"
    by (cases "render_streams dec now pull gains ?n (pe_streams e) ?mx")
  have ok: "list_all (\<lambda>(name, st). ss_ok st) (pe_streams e)" using assms(1) by (simp add: pe_ok_def streams_ok_def)
  have res: "k = (if mx_contributors mx = 0 then None else Some ?n)" "out' = mx_out mx"
    "pe_streams e' = ss" "pe_scratch e' = mx_scratch mx" "pe_packets_since_prune e' = pe_packets_since_prune e"
    using assms(2) r by (auto simp: render_frame_def Let_def)
  have f: "map fst ss = map fst (pe_streams e)" "list_all (\<lambda>(name, st). ss_ok st) ss"
    "length (sc_frame (mx_scratch mx)) = length (sc_frame (pe_scratch e))" "length out' = length out"
    "mx_contributors mx = 0 \<longrightarrow> list_all (\<lambda>(name, st). ss_state st = Idle) ss"
    using render_streams_ok [OF r ok] res(2) by simp_all
  have "pe_ok e'" using assms(1) f(1,2,3) map_eq_imp_length_eq [OF f(1)] res(3,4,5)
    by (simp add: pe_ok_def streams_ok_def keys_distinct_def)
  moreover have "pe_playing e' = 0" if "mx_contributors mx = 0"
  proof -
    have "filter (\<lambda>(name, s). ss_state s = Playing) ss = []"
      using f(5) that by (auto simp: filter_empty_conv list_all_iff)
    then show ?thesis by (simp add: pe_playing_def res(3))
  qed
  ultimately show ?thesis using f(4) res(1) by auto
qed

lemma pump_render_ok:
  assumes "pe_ok (pp_engine (pc_pump c))" and "pump_render dec now pull gains c = (k, c')"
    and "length (pp_mix (pc_pump c)) = FRAME_SIZE"
  shows "pe_ok (pp_engine (pc_pump c')) \<and> length (pp_mix (pc_pump c')) = FRAME_SIZE \<and> pc_ring c' = pc_ring c \<and>
    pp_virtual_until (pc_pump c') = pp_virtual_until (pc_pump c) \<and>
    (k = None \<and> pe_playing (pp_engine (pc_pump c')) = 0 \<or> k = Some FRAME_SIZE)"
proof -
  obtain n mix diag stats e where r:
    "render_frame dec now pull gains (pp_mix (pc_pump c)) (pc_diag c) (pc_stats c) (pp_engine (pc_pump c)) = (n, mix, diag, stats, e)"
    by (metis surj_pair)
  have c': "k = n" "c' = c\<lparr>pc_pump := (pc_pump c)\<lparr>pp_engine := e, pp_mix := mix\<rparr>, pc_diag := diag, pc_stats := stats\<rparr>"
    using assms(2) r by (simp_all add: pump_render_def)
  from render_frame_ok [OF assms(1) r] show ?thesis using c' assms(3) by simp
qed


definition pump_ok :: "('d, 'r) pump_ctx \<Rightarrow> bool" where
  "pump_ok c \<longleftrightarrow> pe_ok (pp_engine (pc_pump c)) \<and> length (pp_mix (pc_pump c)) = FRAME_SIZE"

definition low_water :: "nat \<Rightarrow> nat" where
  "low_water request = max PLAYOUT_OUTPUT_LOW_WATER (request + FRAME_SIZE)"

lemma wants_frame_low: "wants_frame (output_new level request) \<longleftrightarrow> level < low_water request"
  by (simp add: wants_frame_def output_new_def low_water_def)

lemma ring_lawsD:
  assumes "ring_laws ops" and "push_counted ops xs r ov = (r', ov')"
  shows "occupied_len ops r' = occupied_len ops r + min (length xs) (vacant_len ops r)"
    "vacant_len ops r' = vacant_len ops r - min (length xs) (vacant_len ops r)"
proof -
  obtain k r2 where "push_slice ops xs r = (k, r2)" by (cases "push_slice ops xs r")
  moreover have "let (k, r') = push_slice ops xs r in
     k = min (length xs) (vacant_len ops r) \<and> occupied_len ops r' = occupied_len ops r + k \<and>
     vacant_len ops r' = vacant_len ops r - k"
    using assms(1) unfolding ring_laws_def by blast
  ultimately show "occupied_len ops r' = occupied_len ops r + min (length xs) (vacant_len ops r)"
    "vacant_len ops r' = vacant_len ops r - min (length xs) (vacant_len ops r)"
    using assms(2) by (simp_all add: push_counted_def)
qed

lemma device_fills:
  assumes "ring_laws ops" and "pump_ok c"
  shows "\<exists>c'. pump_device dec ops request queued now gains c = Some c' \<and> pump_ok c' \<and>
    (low_water request \<le> occupied_len ops (pc_ring c') + queued \<or> pe_playing (pp_engine (pc_pump c')) = 0 \<or>
      vacant_len ops (pc_ring c') = 0) \<and>
    occupied_len ops (pc_ring c') + queued < max (occupied_len ops (pc_ring c) + queued + 1) (low_water request + FRAME_SIZE)"
  using assms(2)
proof (induction "low_water request - (occupied_len ops (pc_ring c) + queued)" arbitrary: c rule: less_induct)
  case less
  let ?level = "occupied_len ops (pc_ring c) + queued"
  let ?pull = "output_pull (output_new ?level request)"
  show ?case
  proof (cases "?level < low_water request")
    case False
    then have "pump_device dec ops request queued now gains c = Some c"
      by (subst pump_device.simps) (simp add: wants_frame_low)
    then show ?thesis using False less.prems by simp
  next
    case True
    obtain k c1 where r: "pump_render dec now ?pull gains c = (k, c1)" by (cases "pump_render dec now ?pull gains c")
    have ok: "pe_ok (pp_engine (pc_pump c))" "length (pp_mix (pc_pump c)) = FRAME_SIZE"
      using less.prems by (simp_all add: pump_ok_def)
    note one = pump_render_ok [OF ok(1) r ok(2)]
    show ?thesis
    proof (cases k)
      case None
      then have "pump_device dec ops request queued now gains c = Some c1"
        using True r by (subst pump_device.simps) (simp add: wants_frame_low)
      then show ?thesis using one None by (simp add: pump_ok_def)
    next
      case (Some n)
      have n: "n = FRAME_SIZE" using one Some by simp
      let ?room = "vacant_len ops (pc_ring c1)"
      obtain r2 ov where push: "push_counted ops (take n (pp_mix (pc_pump c1))) (pc_ring c1) (playback_ring_overflow (pc_diag c1)) = (r2, ov)"
        by (cases "push_counted ops (take n (pp_mix (pc_pump c1))) (pc_ring c1) (playback_ring_overflow (pc_diag c1))")
      define c2 where "c2 = c1\<lparr>pc_ring := r2, pc_diag := (pc_diag c1)\<lparr>playback_ring_overflow := ov\<rparr>\<rparr>"
      have step: "pump_device dec ops request queued now gains c =
          (if ?room < n then Some c2 else pump_device dec ops request queued now gains c2)"
        using True r Some push by (subst pump_device.simps) (simp add: wants_frame_low c2_def Let_def)
      have ok2: "pump_ok c2" using one by (simp add: pump_ok_def c2_def)
      have ring: "occupied_len ops (pc_ring c2) = occupied_len ops (pc_ring c) + min FRAME_SIZE ?room"
        "vacant_len ops (pc_ring c2) = ?room - min FRAME_SIZE ?room"
        using ring_lawsD [OF assms(1) push] one n by (simp_all add: c2_def)
      show ?thesis
      proof (cases "?room < n")
        case True
        then show ?thesis using step ok2 ring \<open>?level < low_water request\<close> n by simp
      next
        case False
        have "0 < FRAME_SIZE" by (simp add: FRAME_SIZE_def)
        then have "low_water request - (occupied_len ops (pc_ring c2) + queued) < low_water request - ?level"
          using True False ring(1) n by simp
        from less.hyps [OF this ok2] obtain c' where c':
          "pump_device dec ops request queued now gains c2 = Some c'" "pump_ok c'"
          "low_water request \<le> occupied_len ops (pc_ring c') + queued \<or> pe_playing (pp_engine (pc_pump c')) = 0 \<or>
            vacant_len ops (pc_ring c') = 0"
          "occupied_len ops (pc_ring c') + queued < max (occupied_len ops (pc_ring c2) + queued + 1) (low_water request + FRAME_SIZE)"
          by blast
        moreover have "occupied_len ops (pc_ring c2) + queued + 1 \<le> low_water request + FRAME_SIZE"
          using True False ring(1) n by simp
        ultimately show ?thesis using step False by auto
      qed
    qed
  qed
qed

lemma virtual_level_step: "virtual_level (until + FRAME_DURATION) now \<le> virtual_level until now + FRAME_SIZE"
proof -
  have "until + FRAME_DURATION - now \<le> (until - now) + 20000 * 1000" by (simp add: FRAME_DURATION_def config_defs)
  then have "(until + FRAME_DURATION - now) div 1000 \<le> ((until - now) + 20000 * 1000) div 1000" by (rule div_le_mono)
  also have "\<dots> = (until - now) div 1000 + 20000" by simp
  finally have "(until + FRAME_DURATION - now) div 1000 * SAMPLE_RATE \<le> ((until - now) div 1000 + 20000) * SAMPLE_RATE"
    by (rule mult_le_mono1)
  also have "\<dots> = (until - now) div 1000 * SAMPLE_RATE + 960 * 1000000" by (simp add: config_defs algebra_simps)
  finally have "virtual_level (until + FRAME_DURATION) now \<le> ((until - now) div 1000 * SAMPLE_RATE + 960 * 1000000) div 1000000"
    unfolding virtual_level_def by (rule div_le_mono)
  moreover have "(x + 960 * 1000000) div 1000000 = x div 1000000 + 960" for x :: nat
    using div_mult_self1 [of 1000000 x 960] by (simp only: add.commute)
  ultimately show ?thesis unfolding virtual_level_def by (simp only: FRAME_SIZE_def)
qed

lemma virtual_level_high: "now + 1000000000 \<le> until \<Longrightarrow> 48000 \<le> virtual_level until now"
proof -
  assume "now + 1000000000 \<le> until"
  then have "1000000000 div 1000 \<le> (until - now) div 1000" by (intro div_le_mono) simp
  then have "1000000 * SAMPLE_RATE \<le> (until - now) div 1000 * SAMPLE_RATE" by simp
  then have "1000000 * SAMPLE_RATE div 1000000 \<le> (until - now) div 1000 * SAMPLE_RATE div 1000000" by (rule div_le_mono)
  then show ?thesis by (simp add: virtual_level_def SAMPLE_RATE_def)
qed


lemma virtual_fills:
  assumes "pump_ok c"
  shows "\<exists>c'. pump_virtual dec now gains c = Some c' \<and> pump_ok c' \<and>
    (low_water 0 \<le> virtual_level (pp_virtual_until (pc_pump c')) now \<or> pe_playing (pp_engine (pc_pump c')) = 0) \<and>
    virtual_level (pp_virtual_until (pc_pump c')) now <
      max (virtual_level (pp_virtual_until (pc_pump c)) now + 1) (low_water 0 + FRAME_SIZE)"
  using assms
proof (induction "now + 1000000000 - pp_virtual_until (pc_pump c)" arbitrary: c rule: less_induct)
  case less
  let ?until = "pp_virtual_until (pc_pump c)"
  let ?level = "virtual_level ?until now"
  let ?pull = "output_pull (output_new ?level 0)"
  show ?case
  proof (cases "?level < low_water 0")
    case False
    then have "pump_virtual dec now gains c = Some c"
      by (subst pump_virtual.simps) (simp add: wants_frame_low)
    then show ?thesis using False less.prems by simp
  next
    case True
    obtain k c1 where r: "pump_render dec now ?pull gains c = (k, c1)" by (cases "pump_render dec now ?pull gains c")
    have ok: "pe_ok (pp_engine (pc_pump c))" "length (pp_mix (pc_pump c)) = FRAME_SIZE"
      using less.prems by (simp_all add: pump_ok_def)
    note one = pump_render_ok [OF ok(1) r ok(2)]
    show ?thesis
    proof (cases k)
      case None
      let ?c = "c1\<lparr>pc_pump := (pc_pump c1)\<lparr>pp_virtual_until := now\<rparr>\<rparr>"
      have "pump_virtual dec now gains c = Some ?c"
        using True r None by (subst pump_virtual.simps) (simp add: wants_frame_low)
      moreover have "virtual_level now now = 0" by (simp add: virtual_level_def)
      ultimately show ?thesis using one None by (simp add: pump_ok_def low_water_def config_defs)
    next
      case (Some n)
      define c2 where "c2 = c1\<lparr>pc_pump := (pc_pump c1)\<lparr>pp_virtual_until := pp_virtual_until (pc_pump c1) + FRAME_DURATION\<rparr>\<rparr>"
      have step: "pump_virtual dec now gains c = pump_virtual dec now gains c2"
        using True r Some by (subst pump_virtual.simps) (simp add: wants_frame_low c2_def Let_def)
      have ok2: "pump_ok c2" using one by (simp add: pump_ok_def c2_def)
      have until: "pp_virtual_until (pc_pump c2) = ?until + FRAME_DURATION" using one by (simp add: c2_def)
      have "\<not> now + 1000000000 \<le> ?until"
        using virtual_level_high [of now ?until] True by (auto simp: low_water_def config_defs)
      then have "now + 1000000000 - pp_virtual_until (pc_pump c2) < now + 1000000000 - ?until"
        using until by (simp add: FRAME_DURATION_def config_defs)
      from less.hyps [OF this ok2] obtain c' where c':
        "pump_virtual dec now gains c2 = Some c'" "pump_ok c'"
        "low_water 0 \<le> virtual_level (pp_virtual_until (pc_pump c')) now \<or> pe_playing (pp_engine (pc_pump c')) = 0"
        "virtual_level (pp_virtual_until (pc_pump c')) now <
          max (virtual_level (pp_virtual_until (pc_pump c2)) now + 1) (low_water 0 + FRAME_SIZE)"
        by blast
      moreover have "virtual_level (pp_virtual_until (pc_pump c2)) now \<le> ?level + FRAME_SIZE"
        unfolding until by (rule virtual_level_step)
      ultimately show ?thesis using step True by auto
    qed
  qed
qed

text \<open>What the output holds: the ring and what the callback has queued, or the lead of the virtual output.\<close>

definition output_level :: "'r ring_ops option \<Rightarrow> nat \<Rightarrow> instant \<Rightarrow> ('d, 'r) pump_ctx \<Rightarrow> nat" where
  "output_level dev queued now c = (case dev of
      Some ops \<Rightarrow> occupied_len ops (pc_ring c) + queued
    | None \<Rightarrow> virtual_level (pp_virtual_until (pc_pump c)) now)"

definition output_full :: "'r ring_ops option \<Rightarrow> ('d, 'r) pump_ctx \<Rightarrow> bool" where
  "output_full dev c = (case dev of Some ops \<Rightarrow> vacant_len ops (pc_ring c) = 0 | None \<Rightarrow> False)"

text \<open>C18 The pump always returns, and when it does it has done its job: the output holds its
  low-water mark, or no sender is left playing, or the device's ring is full. It never overfills:
  the output ends less than one frame above the mark unless it started there, so the latency the pump
  adds is bounded. The count it publishes is the number of playing senders.\<close>

theorem pump_fills:
  assumes "pump_ok c" and "case dev of Some ops \<Rightarrow> ring_laws ops | None \<Rightarrow> True"
  shows "\<exists>playing c'. pump dec dev request queued now gains c = Some (playing, c') \<and> pump_ok c' \<and>
    playing = pe_playing (pp_engine (pc_pump c')) \<and>
    (low_water (if dev = None then 0 else request) \<le> output_level dev queued now c' \<or> playing = 0 \<or> output_full dev c') \<and>
    output_level dev queued now c' <
      max (output_level dev queued now c + 1) (low_water (if dev = None then 0 else request) + FRAME_SIZE)"
proof (cases dev)
  case (Some ops)
  let ?c = "c\<lparr>pc_pump := (pc_pump c)\<lparr>pp_virtual_until := now\<rparr>\<rparr>"
  have "pump_ok ?c" "ring_laws ops" using assms Some by (simp_all add: pump_ok_def)
  from device_fills [OF this(2,1), of dec request queued now gains] show ?thesis
    using Some by (auto simp: pump_def output_level_def output_full_def)
next
  case None
  let ?c = "if FRAME_DURATION * JITTER_BUF_MAX < now - pp_virtual_until (pc_pump c)
    then c\<lparr>pc_pump := (pc_pump c)\<lparr>pp_virtual_until := now\<rparr>\<rparr> else c"
  have ok: "pump_ok ?c" using assms(1) by (simp add: pump_ok_def)
  have "virtual_level (pp_virtual_until (pc_pump ?c)) now \<le> virtual_level (pp_virtual_until (pc_pump c)) now"
    by (simp add: virtual_level_def)
  with virtual_fills [OF ok, of dec now gains] show ?thesis
    using None unfolding pump_def Let_def by (fastforce simp: output_level_def output_full_def)
qed

text \<open>A ring of 4000 samples.\<close>

definition sample_ring :: "rat list ring_ops" where
  "sample_ring = \<lparr>occupied_len = length, vacant_len = \<lambda>r. 4000 - length r,
     push_slice = \<lambda>xs r. (let k = min (length xs) (4000 - length r) in (k, r @ take k xs))\<rparr>"

definition sample_pump :: "(unit, rat list) pump_ctx" where
  "sample_pump = \<lparr>pc_pump = (pp_new 5)\<lparr>pp_engine := sample_engine\<rparr>, pc_ring = [], pc_diag = diag_new, pc_stats = stats_new\<rparr>"

theorem pump_fills_witness:
  "\<exists>playing c'. pump sample_dec (Some sample_ring) 960 480 7 [] sample_pump = Some (playing, c') \<and>
    (1920 \<le> length (pc_ring c') + 480 \<or> playing = 0 \<or> 4000 \<le> length (pc_ring c')) \<and> length (pc_ring c') + 480 < 2880"
proof -
  have "pump_ok sample_pump" using sample_engine_ok by (simp add: pump_ok_def sample_pump_def pp_new_def)
  moreover have "case Some sample_ring of Some ops \<Rightarrow> ring_laws ops | None \<Rightarrow> True"
    by (simp add: ring_laws_def sample_ring_def Let_def)
  ultimately show ?thesis
    using pump_fills [of sample_pump "Some sample_ring" sample_dec 960 480 7 "[]"]
    by (auto simp: output_level_def output_full_def low_water_def config_defs sample_ring_def sample_pump_def)
qed


section \<open>The pump over time\<close>

text \<open>A packet arrives; the pump runs, with or without a device; the audio callback takes samples, leaving
  any ring state.\<close>

datatype ('d, 'r) pump_event =
    PumpPacket "'d opus_decoder option" string "32 word" "byte list" instant
  | PumpRun bool nat nat instant peer_gains
  | PumpDrained 'r

fun pump_run ::
    "'d opus \<Rightarrow> 'r ring_ops \<Rightarrow> ('d, 'r) pump_event list \<Rightarrow> ('d, 'r) pump_ctx \<Rightarrow> ('d, 'r) pump_ctx option" where
  "pump_run dec ops [] c = Some c"
| "pump_run dec ops (PumpPacket mk name seq d now # es) c =
    pump_run dec ops es (c\<lparr>pc_pump := snd (pp_on_packet mk name seq d now (pc_pump c))\<rparr>)"
| "pump_run dec ops (PumpRun device request queued now gains # es) c =
    (case pump dec (if device then Some ops else None) request queued now gains c of
       None \<Rightarrow> None
     | Some (playing, c) \<Rightarrow> pump_run dec ops es c)"
| "pump_run dec ops (PumpDrained r # es) c = pump_run dec ops es (c\<lparr>pc_ring := r\<rparr>)"

lemma pump_returns:
  assumes "pump_ok c" and "ring_laws ops"
  shows "\<exists>playing c'. pump dec (if device then Some ops else None) request queued now gains c = Some (playing, c') \<and> pump_ok c'"
proof (cases device)
  case True
  let ?c = "c\<lparr>pc_pump := (pc_pump c)\<lparr>pp_virtual_until := now\<rparr>\<rparr>"
  have "pump_ok ?c" using assms by (simp add: pump_ok_def)
  from device_fills [OF assms(2) this, of dec request queued now gains] True show ?thesis by (auto simp: pump_def)
next
  case False
  let ?c = "if FRAME_DURATION * JITTER_BUF_MAX < now - pp_virtual_until (pc_pump c)
    then c\<lparr>pc_pump := (pc_pump c)\<lparr>pp_virtual_until := now\<rparr>\<rparr> else c"
  have "pump_ok ?c" using assms by (simp add: pump_ok_def)
  from virtual_fills [OF this, of dec now gains] False show ?thesis unfolding pump_def Let_def by fastforce
qed

lemma pump_run_ok:
  assumes "ring_laws ops" and "pump_ok c"
  shows "\<exists>c'. pump_run dec ops es c = Some c' \<and> pump_ok c'"
  using assms
proof (induction dec ops es c rule: pump_run.induct)
  case (2 dec ops mk name seq d now es c)
  obtain late e where e: "pe_on_packet mk name seq d now (pp_engine (pc_pump c)) = (late, e)" by fastforce
  then have "pe_ok e" using "2.prems" on_packet_ok [OF _ e] by (simp add: pump_ok_def)
  then have "pump_ok (c\<lparr>pc_pump := snd (pp_on_packet mk name seq d now (pc_pump c))\<rparr>)"
    using "2.prems" e by (simp add: pump_ok_def pp_on_packet_def)
  from "2.IH" [OF "2.prems"(1) this] show ?case by simp
next
  case (3 dec ops device request queued now gains es c)
  obtain playing c' where c':
    "pump dec (if device then Some ops else None) request queued now gains c = Some (playing, c')" "pump_ok c'"
    using pump_returns [OF "3.prems"(2,1)] by blast
  from "3.IH" [OF c'(1) refl "3.prems"(1) c'(2)] show ?case using c'(1) by simp
qed (simp_all add: pump_ok_def)

lemma pp_new_ok: "pump_ok \<lparr>pc_pump = pp_new now, pc_ring = r, pc_diag = diag, pc_stats = stats\<rparr>"
  by (simp add: pump_ok_def pp_new_def pe_new_ok)

text \<open>The playout half of the receive task holds up under any traffic: whatever packets arrive under
  whatever names, whenever the pump runs, with a device or without, every pump returns, at most
  \<open>MAX_SENDER_STREAMS\<close> senders are kept, one stream per name, and every stream's jitter ring, depth
  history and underrun count satisfy their invariants.\<close>

theorem playout_invariant:
  assumes "ring_laws ops"
  shows "\<exists>c'. pump_run dec ops es \<lparr>pc_pump = pp_new now, pc_ring = r, pc_diag = diag, pc_stats = stats\<rparr> = Some c' \<and>
    length (pe_streams (pp_engine (pc_pump c'))) \<le> MAX_SENDER_STREAMS \<and>
    distinct (map fst (pe_streams (pp_engine (pc_pump c')))) \<and>
    list_all (\<lambda>(name, st). ss_ok st) (pe_streams (pp_engine (pc_pump c'))) \<and>
    pe_packets_since_prune (pp_engine (pc_pump c')) < STATS_WINDOW_PACKETS"
  using pump_run_ok [OF assms pp_new_ok, of dec es now r diag stats]
  by (auto simp: pump_ok_def pe_ok_def streams_ok_def keys_distinct_def)

theorem playout_invariant_witness:
  "\<exists>c'. pump_run sample_dec sample_ring
      [PumpPacket (Some (od_new ())) ''ann'' 1 [0] 5, PumpPacket None ''bob'' 1 [0] 5, PumpRun True 960 0 60000000 [],
       PumpDrained [], PumpRun False 0 0 90000000 []]
      \<lparr>pc_pump = pp_new 0, pc_ring = [], pc_diag = diag_new, pc_stats = stats_new\<rparr> = Some c' \<and>
    length (pe_streams (pp_engine (pc_pump c'))) \<le> 16"
proof -
  have "ring_laws sample_ring" by (simp add: ring_laws_def sample_ring_def Let_def)
  from playout_invariant [OF this] show ?thesis by (metis MAX_SENDER_STREAMS_def)
qed

end
