(* ===== verification/Voice_Packet.thy ===== *)
theory Voice_Packet
  imports Protocol Config
begin

text \<open>
  \<^verbatim>\<open>crates/client/src/voice.rs\<close>, the encrypted voice packet: \<open>build_packet\<close> on the sending side,
  \<open>decrypt_packet\<close> and \<open>parse_packet_name\<close> on the receiving side. The cipher (XChaCha20-Poly1305) is
  outside the repository: encryption in place yields a ciphertext and a tag, decryption takes both one
  after the other and returns the plaintext or fails.
\<close>

record cipher =
  encrypt_detached :: "byte list \<Rightarrow> byte list \<Rightarrow> (byte list \<times> byte list) option"
  decrypt_joined :: "byte list \<Rightarrow> byte list \<Rightarrow> byte list option"

text \<open>What the code relies on: lengths are those of the construction and decryption undoes encryption.\<close>

definition cipher_laws :: "cipher \<Rightarrow> bool" where
  "cipher_laws c \<longleftrightarrow> (\<forall>nonce plain ct tag. encrypt_detached c nonce plain = Some (ct, tag) \<longrightarrow>
    length ct = length plain \<and> length tag = POLY1305_TAG_SIZE \<and> decrypt_joined c nonce (ct @ tag) = Some plain)"

subsection \<open>Sending\<close>

text \<open>The first 255 bytes of the name, so that its length fits the one-byte prefix.\<close>

definition name_prefix :: "string \<Rightarrow> byte list" where
  "name_prefix sender_name = take 255 (string_bytes sender_name)"

text \<open>The packet, or \<open>None\<close> when encryption fails; \<open>nonce\<close> is the random draw.\<close>

definition build_packet ::
    "cipher \<Rightarrow> byte list \<Rightarrow> 32 word \<Rightarrow> channel_id \<Rightarrow> byte list \<Rightarrow> byte list \<Rightarrow> byte list option" where
  "build_packet c nonce seq ch name_bytes opus_data =
    (let header = u32_to_be seq @ [of_nat (length ch)] @ string_bytes ch @ nonce;
         plain = [of_nat (length name_bytes)] @ name_bytes @ opus_data
     in case encrypt_detached c nonce plain of
          Some (ct, tag) \<Rightarrow> Some (header @ ct @ tag)
        | None \<Rightarrow> None)"

subsection \<open>Receiving\<close>

text \<open>The plaintext; what the reused buffer holds after a failure is never read.\<close>

definition decrypt_packet :: "cipher \<Rightarrow> byte list \<Rightarrow> byte list option" where
  "decrypt_packet c encrypted =
    (if length encrypted < XCHACHA20_NONCE_SIZE + POLY1305_TAG_SIZE then None
     else decrypt_joined c (take XCHACHA20_NONCE_SIZE encrypted) (drop XCHACHA20_NONCE_SIZE encrypted))"

definition parse_packet_name :: "byte list \<Rightarrow> (string \<times> nat) option" where
  "parse_packet_name buf =
    (case buf of
       [] \<Rightarrow> None
     | b # _ \<Rightarrow>
        let name_len = unat b in
        if length buf < 1 + name_len then None
        else (case from_utf8 (take name_len (drop 1 buf)) of
            None \<Rightarrow> None
          | Some name \<Rightarrow> Some (name, 1 + name_len)))"

text \<open>What a receiver reads from a datagram: the number, the sender's name and the Opus data.\<close>

definition open_packet :: "cipher \<Rightarrow> byte list \<Rightarrow> (32 word \<times> string \<times> byte list) option" where
  "open_packet c datagram = (case parse_voice_data datagram of
      None \<Rightarrow> None
    | Some (seq, encrypted) \<Rightarrow> (case decrypt_packet c encrypted of
        None \<Rightarrow> None
      | Some plain \<Rightarrow> (case parse_packet_name plain of
          None \<Rightarrow> None
        | Some (name, offset) \<Rightarrow> Some (seq, name, drop offset plain))))"

lemma parse_packet_name_built:
  assumes "length name \<le> 255" and "is_utf8 name"
  shows "parse_packet_name ([of_nat (length name)] @ string_bytes name @ opus) = Some (name, 1 + length name)"
proof -
  have "unat (of_nat (length name) :: byte) = length name" using assms(1) by (simp add: unat_of_nat)
  then show ?thesis using assms(2) by (simp add: parse_packet_name_def Let_def from_utf8_string_bytes)
qed

lemma open_built:
  assumes laws: "cipher_laws c" and nonce: "length nonce = XCHACHA20_NONCE_SIZE" and seq: "seq \<noteq> 0"
    and ch: "length ch \<le> 255" and name: "length name \<le> 255" "is_utf8 name"
    and built: "build_packet c nonce seq ch (name_prefix name) opus = Some packet"
  shows "open_packet c packet = Some (seq, name, opus)"
proof -
  let ?plain = "[of_nat (length name)] @ string_bytes name @ opus"
  have p: "name_prefix name = string_bytes name" using name(1) by (simp add: name_prefix_def)
  obtain ct tag where e: "encrypt_detached c nonce ?plain = Some (ct, tag)"
    and packet: "packet = (u32_to_be seq @ [of_nat (length ch)] @ string_bytes ch @ nonce) @ ct @ tag"
    using built p by (auto simp: build_packet_def Let_def split: option.splits)
  have l: "length ct = length ?plain" "length tag = POLY1305_TAG_SIZE" "decrypt_joined c nonce (ct @ tag) = Some ?plain"
    using laws e unfolding cipher_laws_def by blast+
  have id: "unat (of_nat (length ch) :: byte) = length ch" using ch by (simp add: unat_of_nat)
  have t: "take 4 packet = u32_to_be seq" "packet ! 4 = of_nat (length ch)"
    "drop (5 + length ch) packet = nonce @ ct @ tag" "5 + length ch + 1 \<le> length packet"
    using nonce by (simp_all add: packet nth_append XCHACHA20_NONCE_SIZE_def)
  have "parse_voice_data packet = Some (seq, nonce @ ct @ tag)"
    using t seq id by (simp add: parse_voice_data_def Let_def)
  moreover have "decrypt_packet c (nonce @ ct @ tag) = Some ?plain"
    using l nonce by (simp add: decrypt_packet_def)
  ultimately show ?thesis
    using parse_packet_name_built [OF name, of opus] by (simp add: open_packet_def)
qed

lemma built_addressed:
  assumes "build_packet c nonce seq ch name_bytes opus = Some packet" and "length nonce = XCHACHA20_NONCE_SIZE"
    and "length ch \<le> 255" and "is_utf8 ch"
  shows "parse_channel_id packet = Some ch" "28 < length packet"
proof -
  obtain ct tag where packet: "packet = (u32_to_be seq @ [of_nat (length ch)] @ string_bytes ch @ nonce) @ ct @ tag"
    using assms(1) by (auto simp: build_packet_def Let_def split: option.splits)
  have id: "unat (of_nat (length ch) :: byte) = length ch" using assms(3) by (simp add: unat_of_nat)
  have "packet ! 4 = of_nat (length ch)" "take (length ch) (drop 5 packet) = string_bytes ch"
    and l: "29 + length ch \<le> length packet"
    using assms(2) by (simp_all add: packet nth_append XCHACHA20_NONCE_SIZE_def)
  then show "parse_channel_id packet = Some ch"
    using id assms(4) by (simp add: parse_channel_id_def Let_def from_utf8_string_bytes)
  show "28 < length packet" using l by simp
qed

end
