(* ===== verification/Voice_Send.thy ===== *)
theory Voice_Send
  imports Voice_Packet Codec Live_Levels Diagnostics
begin

text \<open>
  \<^verbatim>\<open>crates/client/src/voice.rs\<close>, the capture thread: voice activity gate with its pre-roll, input gain,
  encoder adaptation, and the loop that turns captured frames into encrypted packets. One iteration
  of the loop is \<open>capture_step\<close>; what it reads from the atomics and the device slot is the record
  \<open>capture_input\<close>, read once per iteration. The random nonces, the encoder, the noise
  suppressor and the cipher are parameters (\<open>capture_env\<close>).
\<close>

subsection \<open>Pre-roll and voice activity\<close>

record vad_preroll =
  pr_slots :: "rat list list"
  pr_start :: nat
  pr_len :: nat

definition pr_new :: vad_preroll where
  "pr_new = \<lparr>pr_slots = replicate VAD_PREROLL_FRAMES (replicate FRAME_SIZE 0), pr_start = 0, pr_len = 0\<rparr>"

definition pr_push :: "rat list \<Rightarrow> vad_preroll \<Rightarrow> vad_preroll" where
  "pr_push frame p =
    (let cap = length (pr_slots p); idx = (pr_start p + pr_len p) mod cap; n = min (length frame) FRAME_SIZE;
         p = p\<lparr>pr_slots := (pr_slots p)[idx := take n frame @ drop n (pr_slots p ! idx)]\<rparr>
     in if pr_len p = cap then p\<lparr>pr_start := (pr_start p + 1) mod cap\<rparr> else p\<lparr>pr_len := pr_len p + 1\<rparr>)"

text \<open>The frames \<open>drain\<close> visits, oldest first, and the buffer it leaves.\<close>

definition pr_frames :: "vad_preroll \<Rightarrow> rat list list" where
  "pr_frames p = map (\<lambda>i. pr_slots p ! ((pr_start p + i) mod length (pr_slots p))) [0..<pr_len p]"

definition pr_drained :: "vad_preroll \<Rightarrow> vad_preroll" where
  "pr_drained p = p\<lparr>pr_start := 0, pr_len := 0\<rparr>"

definition pass_vad :: "rat list \<Rightarrow> rat \<Rightarrow> nat \<Rightarrow> bool \<times> nat" where
  "pass_vad pcm threshold hangover_remaining =
    (if threshold \<le> 0 then (True, hangover_remaining)
     else
       (let r = f32_sqrt (f32_div (foldl f32_add 0 (map (\<lambda>s. f32_mul s s) pcm)) (f32 (of_nat (length pcm)))) in
        if threshold \<le> r then (True, VAD_HANGOVER_FRAMES)
        else if 0 < hangover_remaining then (True, hangover_remaining - 1)
        else (False, hangover_remaining)))"

definition own_level :: "(rat \<Rightarrow> rat) \<Rightarrow> rat \<Rightarrow> bool \<Rightarrow> rat" where
  "own_level log10f r sent = (if sent then loudness log10f r else 0)"

definition apply_input_gain :: "(rat \<Rightarrow> rat) \<Rightarrow> rat list \<Rightarrow> rat \<Rightarrow> bool \<Rightarrow> bool \<times> rat list" where
  "apply_input_gain tanhf frame gain limit =
    (if gain = 1 then (False, frame)
     else
       (let frame = map (\<lambda>s. f32_mul s gain) frame in
        if limit \<and> 1 < gain then limit_in_place tanhf frame else (False, frame)))"

definition maybe_adapt_encoder ::
    "'e encoder_lib \<Rightarrow> network_stats \<Rightarrow> quality_tier \<Rightarrow> 'e \<Rightarrow> quality_tier \<times> 'e" where
  "maybe_adapt_encoder lib stats tier e =
    (let new_tier = current_tier stats in
     if new_tier = tier then (tier, e)
     else (new_tier, snd (apply_quality_settings lib (fst (tier_apply new_tier (ns_loss_percent stats))) e)))"

subsection \<open>The capture thread\<close>

record ('e, 's, 'g) capture_env =
  ce_lib :: "'e encoder_lib"
  ce_cipher :: cipher
  ce_nonce :: "'g \<Rightarrow> byte list \<times> 'g"
  ce_denoise :: "rat list \<Rightarrow> rat list \<Rightarrow> 's \<Rightarrow> rat list \<times> 's"
  ce_tanh :: "rat \<Rightarrow> rat"
  ce_log10 :: "rat \<Rightarrow> rat"
  ce_channel :: channel_id
  ce_name_bytes :: "byte list"

text \<open>The thread's own variables, then what it shares: the meter, the levels, the failure flag, the counters
  and the channel to the UDP task.\<close>

record ('e, 's, 'g) capture =
  ct_encoder :: 'e
  ct_tier :: quality_tier
  ct_sequence :: "32 word"
  ct_frames_since_check :: nat
  ct_hangover :: nat
  ct_last_frame_at :: instant
  ct_starvation_reported :: bool
  ct_preroll :: vad_preroll
  ct_last_paranoid :: bool
  ct_denoiser :: "'s denoiser"
  ct_agc :: agc
  ct_nonces :: 'g
  ct_input_peak :: rat
  ct_live :: live_levels
  ct_stream_failed :: bool
  ct_diag :: audio_diagnostics
  ct_sent :: "byte list list"

text \<open>What the slot holds: no device, less than a frame, or a frame.\<close>

datatype capture_poll = NoDevice | Starving | Captured "rat list"

record capture_input =
  in_stop :: bool
  in_poll :: capture_poll
  in_open :: bool
  in_muted :: bool
  in_gain :: rat
  in_denoise :: bool
  in_agc :: bool
  in_paranoid :: bool
  in_vad_threshold :: rat
  in_stats :: network_stats
  in_now :: instant

text \<open>Encode, encrypt and send one frame; \<open>False\<close> when the channel to the UDP task is closed. The body of
  \<open>send_one\<close> is the one the pre-roll and the gated path repeat.\<close>

definition send_one ::
    "('e, 's, 'g) capture_env \<Rightarrow> bool \<Rightarrow> rat list \<Rightarrow> ('e, 's, 'g) capture \<Rightarrow> bool \<times> ('e, 's, 'g) capture" where
  "send_one env chan_open frame st =
    (case oe_encode (ce_lib env) frame (ct_encoder st) of
       (None, e) \<Rightarrow> (True, st\<lparr>ct_encoder := e\<rparr>)
     | (Some opus, e) \<Rightarrow>
        (let (nonce, g) = ce_nonce env (ct_nonces st); st = st\<lparr>ct_encoder := e, ct_nonces := g\<rparr> in
         case build_packet (ce_cipher env) nonce (ct_sequence st) (ce_channel env) (ce_name_bytes env) opus of
           None \<Rightarrow> (True, st)
         | Some packet \<Rightarrow>
             if chan_open then (True, st\<lparr>ct_sent := ct_sent st @ [packet], ct_sequence := ct_sequence st + 1\<rparr>)
             else (False, st)))"

fun send_all ::
    "('e, 's, 'g) capture_env \<Rightarrow> bool \<Rightarrow> rat list list \<Rightarrow> ('e, 's, 'g) capture \<Rightarrow> bool \<times> ('e, 's, 'g) capture" where
  "send_all env chan_open [] st = (True, st)"
| "send_all env chan_open (frame # frames) st =
    (let (ok, st) = send_one env chan_open frame st in if ok then send_all env chan_open frames st else (False, st))"

definition silence_pcm :: "rat list" where
  "silence_pcm = replicate FRAME_SIZE 0"

text \<open>Gain, noise suppression and automatic level.\<close>

definition shape_frame ::
    "('e, 's, 'g) capture_env \<Rightarrow> capture_input \<Rightarrow> rat list \<Rightarrow> ('e, 's, 'g) capture \<Rightarrow> rat list \<times> ('e, 's, 'g) capture" where
  "shape_frame env inp pcm st =
    (let (limited, pcm) = apply_input_gain (ce_tanh env) pcm (in_gain inp) (in_denoise inp \<or> \<not> in_agc inp);
         st = (if limited then st\<lparr>ct_diag := (ct_diag st)\<lparr>limiter_capture := limiter_capture (ct_diag st) + 1\<rparr>\<rparr> else st);
         (pcm, st) = (if in_denoise inp
           then (let (pcm, dn) = denoise_process (ce_denoise env) pcm (ct_denoiser st) in (pcm, st\<lparr>ct_denoiser := dn\<rparr>))
           else (pcm, st))
     in if in_agc inp then (let (gain, pcm, a) = agc_process (ce_tanh env) pcm (ct_agc st) in (pcm, st\<lparr>ct_agc := a\<rparr>))
        else (pcm, st))"

definition adapt :: "('e, 's, 'g) capture_env \<Rightarrow> network_stats \<Rightarrow> ('e, 's, 'g) capture \<Rightarrow> ('e, 's, 'g) capture" where
  "adapt env stats st =
    (let st = st\<lparr>ct_frames_since_check := ct_frames_since_check st + 1\<rparr> in
     if STATS_WINDOW_PACKETS \<le> ct_frames_since_check st then
       (let (tier, e) = maybe_adapt_encoder (ce_lib env) stats (ct_tier st) (ct_encoder st)
        in st\<lparr>ct_frames_since_check := 0, ct_tier := tier, ct_encoder := e\<rparr>)
     else st)"

definition publish_own :: "rat \<Rightarrow> ('e, 's, 'g) capture \<Rightarrow> ('e, 's, 'g) capture" where
  "publish_own level st = st\<lparr>ct_live := set_own level (ct_live st)\<rparr>"

text \<open>The encoder is reconfigured when the traffic-hiding mode flips.\<close>

definition reconfigure :: "('e, 's, 'g) capture_env \<Rightarrow> bool \<Rightarrow> ('e, 's, 'g) capture \<Rightarrow> ('e, 's, 'g) capture" where
  "reconfigure env paranoid st =
    (if paranoid \<noteq> ct_last_paranoid st
     then st\<lparr>ct_encoder := snd (set_constant_bitrate (ce_lib env) paranoid (ct_encoder st)), ct_last_paranoid := paranoid\<rparr>
     else st)"

text \<open>The gated path: a frame below the threshold goes to the pre-roll, one above it is sent after it.\<close>

definition gate_frame ::
    "('e, 's, 'g) capture_env \<Rightarrow> capture_input \<Rightarrow> rat list \<Rightarrow> ('e, 's, 'g) capture \<Rightarrow> bool \<times> ('e, 's, 'g) capture" where
  "gate_frame env inp pcm st =
    (let (sent, hangover) = pass_vad pcm (in_vad_threshold inp) (ct_hangover st);
         st = publish_own (own_level (ce_log10 env) (rms pcm) sent) (st\<lparr>ct_hangover := hangover\<rparr>)
     in if \<not> sent then (True, st\<lparr>ct_preroll := pr_push pcm (ct_preroll st)\<rparr>)
        else
          (let (ok, st) = send_all env (in_open inp) (pr_frames (ct_preroll st)) st;
               st = st\<lparr>ct_preroll := pr_drained (ct_preroll st)\<rparr>
           in if ok then send_one env (in_open inp) pcm st else (False, st)))"

definition capture_frame ::
    "('e, 's, 'g) capture_env \<Rightarrow> capture_input \<Rightarrow> rat list \<Rightarrow> ('e, 's, 'g) capture \<Rightarrow> bool \<times> ('e, 's, 'g) capture" where
  "capture_frame env inp pcm st =
    (let paranoid = in_paranoid inp;
         st = reconfigure env paranoid st
     in if in_muted inp then
          (let st = publish_own 0 (st\<lparr>ct_input_peak := 0\<rparr>)
           in if paranoid then send_one env (in_open inp) silence_pcm st else (True, st))
        else
          (let (pcm, st) = shape_frame env inp pcm st;
               r = rms pcm;
               st = adapt env (in_stats inp) (st\<lparr>ct_input_peak := r\<rparr>)
           in if paranoid then send_one env (in_open inp) pcm (publish_own (own_level (ce_log10 env) r True) st)
              else gate_frame env inp pcm st))"

definition capture_step ::
    "('e, 's, 'g) capture_env \<Rightarrow> capture_input \<Rightarrow> ('e, 's, 'g) capture \<Rightarrow> bool \<times> ('e, 's, 'g) capture" where
  "capture_step env inp st =
    (if in_stop inp then (False, st)
     else
       (case in_poll inp of
          NoDevice \<Rightarrow> (True, publish_own 0 (st\<lparr>ct_input_peak := 0, ct_last_frame_at := in_now inp,
            ct_starvation_reported := False\<rparr>))
        | Starving \<Rightarrow> (True,
            if \<not> ct_starvation_reported st \<and> secs AUDIO_STARVATION_SECS < in_now inp - ct_last_frame_at st
            then publish_own 0 (st\<lparr>ct_starvation_reported := True, ct_stream_failed := True\<rparr>) else st)
        | Captured pcm \<Rightarrow>
            capture_frame env inp pcm (st\<lparr>ct_last_frame_at := in_now inp, ct_starvation_reported := False\<rparr>)))"

text \<open>The loop; whatever ends it, the own level goes back to zero.\<close>

fun capture_run ::
    "('e, 's, 'g) capture_env \<Rightarrow> capture_input list \<Rightarrow> ('e, 's, 'g) capture \<Rightarrow> bool \<times> ('e, 's, 'g) capture" where
  "capture_run env [] st = (True, st)"
| "capture_run env (inp # inps) st =
    (let (go, st) = capture_step env inp st in if go then capture_run env inps st else (False, publish_own 0 st))"

text \<open>The state the thread starts with: a fresh encoder at the settings of the highest tier.\<close>

definition capture_new ::
    "'e encoder_lib \<Rightarrow> 'e option \<Rightarrow> network_stats \<Rightarrow> 's \<Rightarrow> 'g \<Rightarrow> instant \<Rightarrow> live_levels \<Rightarrow> audio_diagnostics \<Rightarrow>
     ('e, 's, 'g) capture option" where
  "capture_new lib made stats dn g now live diag =
    (case oe_new lib made of
       None \<Rightarrow> None
     | Some e \<Rightarrow> Some \<lparr>ct_encoder = snd (apply_quality_settings lib (fst (tier_apply High (ns_loss_percent stats))) e),
         ct_tier = High, ct_sequence = 1, ct_frames_since_check = 0, ct_hangover = 0, ct_last_frame_at = now,
         ct_starvation_reported = False, ct_preroll = pr_new, ct_last_paranoid = False,
         ct_denoiser = \<lparr>dn_state = dn, dn_in = replicate DENOISE_FRAME 0, dn_out = replicate DENOISE_FRAME 0\<rparr>,
         ct_agc = agc_new, ct_nonces = g, ct_input_peak = 0, ct_live = live, ct_stream_failed = False, ct_diag = diag,
         ct_sent = []\<rparr>)"


section \<open>What the steps leave alone\<close>

lemma publish_own_sel [simp]:
  "ct_sent (publish_own l st) = ct_sent st" "ct_sequence (publish_own l st) = ct_sequence st"
  "ct_encoder (publish_own l st) = ct_encoder st" "ct_preroll (publish_own l st) = ct_preroll st"
  "ct_hangover (publish_own l st) = ct_hangover st" "ct_nonces (publish_own l st) = ct_nonces st"
  "ct_tier (publish_own l st) = ct_tier st" "ct_last_paranoid (publish_own l st) = ct_last_paranoid st"
  by (simp_all add: publish_own_def)

lemma reconfigure_sel [simp]:
  "ct_sent (reconfigure env p st) = ct_sent st" "ct_sequence (reconfigure env p st) = ct_sequence st"
  "ct_preroll (reconfigure env p st) = ct_preroll st" "ct_hangover (reconfigure env p st) = ct_hangover st"
  "ct_nonces (reconfigure env p st) = ct_nonces st" "ct_tier (reconfigure env p st) = ct_tier st"
  by (simp_all add: reconfigure_def)

lemma adapt_sel [simp]:
  "ct_sent (adapt env stats st) = ct_sent st" "ct_sequence (adapt env stats st) = ct_sequence st"
  "ct_preroll (adapt env stats st) = ct_preroll st" "ct_hangover (adapt env stats st) = ct_hangover st"
  "ct_nonces (adapt env stats st) = ct_nonces st" "ct_last_paranoid (adapt env stats st) = ct_last_paranoid st"
  by (simp_all add: adapt_def Let_def case_prod_beta)

lemma shape_frame_sel:
  assumes "shape_frame env inp pcm st = (pcm', st')"
  shows "ct_sent st' = ct_sent st" "ct_sequence st' = ct_sequence st" "ct_preroll st' = ct_preroll st"
    "ct_hangover st' = ct_hangover st" "ct_nonces st' = ct_nonces st" "ct_encoder st' = ct_encoder st"
    "ct_tier st' = ct_tier st" "ct_last_paranoid st' = ct_last_paranoid st"
  using assms by (auto simp: shape_frame_def Let_def split: prod.splits if_splits)

section \<open>The muted microphone\<close>

definition same_but_frame :: "capture_input \<Rightarrow> capture_input \<Rightarrow> bool" where
  "same_but_frame i j \<longleftrightarrow> (case (in_poll i, in_poll j) of
     (Captured f, Captured g) \<Rightarrow> j = i\<lparr>in_poll := Captured g\<rparr>
   | _ \<Rightarrow> j = i)"

lemma capture_frame_muted:
  "in_muted inp \<Longrightarrow> capture_frame env (inp\<lparr>in_poll := q\<rparr>) g st = capture_frame env inp f st"
  by (simp add: capture_frame_def Let_def)

lemma muted_step:
  assumes "in_muted i" and "same_but_frame i j"
  shows "capture_step env j st = capture_step env i st"
  using assms capture_frame_muted [of i env] by (auto simp: same_but_frame_def capture_step_def split: capture_poll.splits)

lemma muted_silent:
  assumes "in_muted i" and "\<not> in_paranoid i"
  shows "ct_sent (snd (capture_step env i st)) = ct_sent st"
  using assms by (simp add: capture_step_def capture_frame_def Let_def split: capture_poll.split)

text \<open>C22 While the microphone is muted nothing it hears leaves the machine: two runs of the capture
  thread that differ only in the captured frames end in the same state, with the same packets sent,
  the same meter and the same encoder, whatever the other settings do; and unless the
  traffic-hiding mode keeps up its cadence of encoded silence, no packet is sent at all.\<close>

theorem muted_mic_stays_private:
  assumes "list_all in_muted inps" and "list_all2 same_but_frame inps inps'"
  shows "capture_run env inps' st = capture_run env inps st \<and>
    (list_all (\<lambda>i. \<not> in_paranoid i) inps \<longrightarrow> ct_sent (snd (capture_run env inps st)) = ct_sent st)"
  using assms(2,1)
proof (induction arbitrary: st rule: list_all2_induct)
  case (Cons i i_s j j_s)
  obtain go st' where s: "capture_step env i st = (go, st')" by (cases "capture_step env i st")
  have "capture_step env j st = (go, st')" using muted_step [OF _ Cons(1), of env st] Cons.prems s by simp
  moreover have "ct_sent st' = ct_sent st" if "\<not> in_paranoid i" using muted_silent [OF _ that, of env st] Cons.prems s by simp
  ultimately show ?case using s Cons.IH Cons.prems by simp
qed simp

section \<open>Sequence numbers\<close>

definition packet_seq :: "byte list \<Rightarrow> 32 word" where
  "packet_seq p = u32_from_be (take 4 p)"

fun numbered :: "32 word \<Rightarrow> byte list list \<Rightarrow> bool" where
  "numbered s [] = True"
| "numbered s (p # ps) = (packet_seq p = s \<and> numbered (s + 1) ps)"

lemma numbered_append: "numbered s (ps @ qs) \<longleftrightarrow> numbered s ps \<and> numbered (s + of_nat (length ps)) qs"
  by (induction ps arbitrary: s) (auto simp: algebra_simps)

lemma numbered_map: "numbered s ps \<longleftrightarrow> map packet_seq ps = map (\<lambda>i. s + of_nat i) [0..<length ps]"
proof (induction ps arbitrary: s)
  case (Cons p ps)
  have "map (\<lambda>i. s + of_nat i) [0..<length (p # ps)] = s # map (\<lambda>i. (s + 1) + of_nat i) [0..<length ps]"
    by (simp add: upt_conv_Cons map_Suc_upt [symmetric] algebra_simps del: upt_Suc)
  then show ?case using Cons by simp
qed simp

text \<open>What a step may do to the channel: append packets numbered on from the thread's counter.\<close>

definition sends :: "('e, 's, 'g) capture \<Rightarrow> ('e, 's, 'g) capture \<Rightarrow> bool" where
  "sends st st' \<longleftrightarrow> (\<exists>ps. ct_sent st' = ct_sent st @ ps \<and> numbered (ct_sequence st) ps \<and>
    ct_sequence st' = ct_sequence st + of_nat (length ps))"

lemma sends_same: "\<lbrakk>ct_sent st' = ct_sent st; ct_sequence st' = ct_sequence st\<rbrakk> \<Longrightarrow> sends st st'"
  by (simp add: sends_def)

lemma sends_trans: "\<lbrakk>sends st st'; sends st' st''\<rbrakk> \<Longrightarrow> sends st st''"
  by (auto simp: sends_def numbered_append)

lemma sends_from: "\<lbrakk>ct_sent st = ct_sent st0; ct_sequence st = ct_sequence st0; sends st st'\<rbrakk> \<Longrightarrow> sends st0 st'"
  by (simp add: sends_def)

lemma sends_to: "\<lbrakk>sends st st'; ct_sent st'' = ct_sent st'; ct_sequence st'' = ct_sequence st'\<rbrakk> \<Longrightarrow> sends st st''"
  by (simp add: sends_def)

lemma build_packet_seq: "build_packet c nonce seq ch name opus = Some p \<Longrightarrow> packet_seq p = seq"
  by (auto simp: build_packet_def Let_def packet_seq_def split: option.splits)

lemma send_one_sends: "send_one env op f st = (ok, st') \<Longrightarrow> sends st st'"
  by (auto simp: send_one_def sends_def Let_def build_packet_seq split: prod.splits option.splits if_splits)

lemma send_all_sends: "send_all env op fs st = (ok, st') \<Longrightarrow> sends st st'"
proof (induction env op fs st arbitrary: ok st' rule: send_all.induct)
  case (2 env op f fs st)
  obtain ok1 st1 where s: "send_one env op f st = (ok1, st1)" by (cases "send_one env op f st")
  show ?case
  proof (cases ok1)
    case True
    then show ?thesis using 2 s sends_trans [OF send_one_sends [OF s]] by auto
  next
    case False
    then show ?thesis using "2.prems" s send_one_sends [OF s] by simp
  qed
qed (simp add: sends_same)

lemma gate_frame_sends: "gate_frame env inp pcm st = (go, st') \<Longrightarrow> sends st st'"
proof -
  assume r: "gate_frame env inp pcm st = (go, st')"
  obtain sent hang where v: "pass_vad pcm (in_vad_threshold inp) (ct_hangover st) = (sent, hang)"
    by (cases "pass_vad pcm (in_vad_threshold inp) (ct_hangover st)")
  define st1 where "st1 = publish_own (own_level (ce_log10 env) (rms pcm) sent) (st\<lparr>ct_hangover := hang\<rparr>)"
  obtain ok st2 where all: "send_all env (in_open inp) (pr_frames (ct_preroll st1)) st1 = (ok, st2)"
    by (cases "send_all env (in_open inp) (pr_frames (ct_preroll st1)) st1")
  let ?s = "st2\<lparr>ct_preroll := pr_drained (ct_preroll st2)\<rparr>"
  have k: "ct_sent st1 = ct_sent st" "ct_sequence st1 = ct_sequence st" by (simp_all add: st1_def)
  have two: "sends st ?s" by (rule sends_to [OF sends_from [OF k send_all_sends [OF all]]]) simp_all
  have eq: "(go, st') = (if \<not> sent then (True, st1\<lparr>ct_preroll := pr_push pcm (ct_preroll st1)\<rparr>)
      else if ok then send_one env (in_open inp) pcm ?s else (False, ?s))"
    using r unfolding gate_frame_def Let_def v prod.case st1_def [symmetric] all by simp
  show ?thesis
  proof (cases "sent \<and> ok")
    case True
    then have "send_one env (in_open inp) pcm ?s = (go, st')" using eq by simp
    from sends_trans [OF two send_one_sends [OF this]] show ?thesis .
  next
    case False
    then show ?thesis using eq two k by (cases sent) (auto simp: sends_same)
  qed
qed

lemma capture_frame_sends:
  assumes "capture_frame env inp pcm st = (go, st')"
  shows "sends st st'"
proof -
  define st1 where "st1 = reconfigure env (in_paranoid inp) st"
  have k1: "ct_sent st1 = ct_sent st" "ct_sequence st1 = ct_sequence st" by (simp_all add: st1_def)
  show ?thesis
  proof (cases "in_muted inp")
    case True
    let ?s = "publish_own 0 (st1\<lparr>ct_input_peak := 0\<rparr>)"
    have eq: "(go, st') = (if in_paranoid inp then send_one env (in_open inp) silence_pcm ?s else (True, ?s))"
      using assms True by (auto simp: capture_frame_def st1_def Let_def split: if_splits)
    have "sends ?s st'"
      using eq send_one_sends [of env "in_open inp" silence_pcm ?s go st'] by (auto simp: sends_same split: if_splits)
    then show ?thesis using sends_from [of ?s st st'] k1 by simp
  next
    case False
    obtain pcm2 st2 where sh: "shape_frame env inp pcm st1 = (pcm2, st2)" by (cases "shape_frame env inp pcm st1")
    define st3 where "st3 = adapt env (in_stats inp) (st2\<lparr>ct_input_peak := rms pcm2\<rparr>)"
    have k3: "ct_sent st3 = ct_sent st" "ct_sequence st3 = ct_sequence st"
      using shape_frame_sel [OF sh] k1 by (simp_all add: st3_def)
    have eq: "(go, st') = (if in_paranoid inp
        then send_one env (in_open inp) pcm2 (publish_own (own_level (ce_log10 env) (rms pcm2) True) st3)
        else gate_frame env inp pcm2 st3)"
      using assms False unfolding capture_frame_def Let_def st1_def [symmetric] sh prod.case st3_def [symmetric] by simp
    show ?thesis
    proof (cases "in_paranoid inp")
      case True
      then have "send_one env (in_open inp) pcm2 (publish_own (own_level (ce_log10 env) (rms pcm2) True) st3) = (go, st')"
        using eq by simp
      from sends_from [OF _ _ send_one_sends [OF this]] k3 show ?thesis by simp
    next
      case normal: False
      then have "gate_frame env inp pcm2 st3 = (go, st')" using eq by simp
      from sends_from [OF _ _ gate_frame_sends [OF this]] k3 show ?thesis by simp
    qed
  qed
qed

lemma capture_step_sends: "capture_step env inp st = (go, st') \<Longrightarrow> sends st st'"
proof (cases "in_poll inp")
  case (Captured pcm)
  assume "capture_step env inp st = (go, st')"
  then show ?thesis
    using Captured capture_frame_sends [of env inp pcm "st\<lparr>ct_last_frame_at := in_now inp, ct_starvation_reported := False\<rparr>" go st']
    by (auto simp: capture_step_def sends_same sends_def split: if_splits)
qed (auto simp: capture_step_def sends_same split: if_splits)

lemma capture_run_sends: "capture_run env inps st = (go, st') \<Longrightarrow> sends st st'"
proof (induction inps arbitrary: st)
  case (Cons inp inps)
  obtain g st1 where s: "capture_step env inp st = (g, st1)" by (cases "capture_step env inp st")
  show ?case
  proof (cases g)
    case True
    then show ?thesis using Cons s sends_trans [OF capture_step_sends [OF s]] by simp
  next
    case False
    have "sends st (publish_own 0 st1)" by (rule sends_to [OF capture_step_sends [OF s]]) simp_all
    then show ?thesis using Cons.prems s False by simp
  qed
qed (simp add: sends_same)


text \<open>C25 The packets a call sends are numbered 1, 2, 3, and so on without a gap or a repetition, in the
  order they are handed to the network, whatever the gate, the mute button, failed encodings, failed
  encryptions and device losses do in between (the 32-bit counter wraps).\<close>

theorem sequence_numbers:
  assumes "capture_new lib made stats dn g now live diag = Some st" and "capture_run env inps st = (go, st')"
  shows "map packet_seq (ct_sent st') = map (\<lambda>i. of_nat (i + 1)) [0..<length (ct_sent st')] \<and>
    ct_sequence st' = of_nat (length (ct_sent st') + 1)"
proof -
  have "ct_sent st = []" "ct_sequence st = 1" using assms(1) by (auto simp: capture_new_def split: option.splits)
  then show ?thesis using capture_run_sends [OF assms(2)] by (auto simp: sends_def numbered_map algebra_simps)
qed

text \<open>An encoder that always returns three bytes and accepts every setting, a cipher that appends a tag of
  zeros, and silent noise suppression.\<close>

definition sample_lib :: "unit encoder_lib" where
  "sample_lib = \<lparr>lib_set_bitrate = \<lambda>_ e. (True, e), lib_set_complexity = \<lambda>_ e. (True, e), lib_set_inband_fec = \<lambda>_ e. (True, e),
     lib_set_packet_loss_perc = \<lambda>_ e. (True, e), lib_set_vbr = \<lambda>_ e. (True, e), lib_set_dtx = \<lambda>_ e. (True, e),
     lib_set_signal_voice = \<lambda>e. (True, e), lib_encode_float = \<lambda>pcm n e. (Some [1, 2, 3], e)\<rparr>"

definition sample_cipher :: cipher where
  "sample_cipher = \<lparr>encrypt_detached = \<lambda>nonce plain. Some (plain, replicate 16 0),
     decrypt_joined = \<lambda>nonce data. if drop (length data - 16) data = replicate 16 0 then Some (take (length data - 16) data) else None\<rparr>"

lemma sample_cipher_laws: "cipher_laws sample_cipher"
  by (simp add: cipher_laws_def sample_cipher_def POLY1305_TAG_SIZE_def)

definition sample_env :: "(unit, unit, unit) capture_env" where
  "sample_env = \<lparr>ce_lib = sample_lib, ce_cipher = sample_cipher, ce_nonce = \<lambda>g. (replicate 24 0, g),
     ce_denoise = \<lambda>out inp s. (inp, s), ce_tanh = \<lambda>x. x, ce_log10 = \<lambda>x. x, ce_channel = ''abcde'',
     ce_name_bytes = name_prefix ''ann''\<rparr>"

definition sample_input :: capture_input where
  "sample_input = \<lparr>in_stop = False, in_poll = Captured (replicate 960 (1 / 2)), in_open = True, in_muted = False, in_gain = 1,
     in_denoise = False, in_agc = False, in_paranoid = False, in_vad_threshold = 0, in_stats = stats_new, in_now = 7\<rparr>"

definition sample_capture :: "(unit, unit, unit) capture" where
  "sample_capture = \<lparr>ct_encoder = (), ct_tier = High, ct_sequence = 1, ct_frames_since_check = 0, ct_hangover = 0,
     ct_last_frame_at = 5, ct_starvation_reported = False, ct_preroll = pr_new, ct_last_paranoid = False,
     ct_denoiser = \<lparr>dn_state = (), dn_in = replicate DENOISE_FRAME 0, dn_out = replicate DENOISE_FRAME 0\<rparr>,
     ct_agc = agc_new, ct_nonces = (), ct_input_peak = 0, ct_live = ll_new, ct_stream_failed = False, ct_diag = diag_new,
     ct_sent = []\<rparr>"

lemma sample_capture_new:
  "capture_new sample_lib (Some ()) stats_new () () 5 ll_new diag_new = Some sample_capture"
  by (simp add: capture_new_def oe_new_def sample_lib_def and_then_def sample_capture_def)

theorem sequence_numbers_witness:
  "map packet_seq (ct_sent (snd (capture_run sample_env [sample_input, sample_input\<lparr>in_poll := NoDevice\<rparr>, sample_input] sample_capture)))
    = [1, 2]"
proof -
  obtain go st where r: "capture_run sample_env [sample_input, sample_input\<lparr>in_poll := NoDevice\<rparr>, sample_input] sample_capture = (go, st)"
    by fastforce
  have one: "\<exists>e. send_one sample_env True pcm st = (True, st\<lparr>ct_encoder := e, ct_nonces := (),
      ct_sent := ct_sent st @ [the (build_packet sample_cipher (replicate 24 0) (ct_sequence st) ''abcde'' (name_prefix ''ann'') [1, 2, 3])],
      ct_sequence := ct_sequence st + 1\<rparr>)" for pcm st
    by (simp add: send_one_def oe_encode_def sample_env_def sample_lib_def build_packet_def sample_cipher_def Let_def)
  have step: "\<exists>st'. capture_step sample_env sample_input st = (True, st') \<and> length (ct_sent st') = length (ct_sent st) + 1 \<and>
      pr_len (ct_preroll st') = 0" if "pr_len (ct_preroll st) = 0" for st :: "(unit, unit, unit) capture"
    using that one [of "replicate 960 (1 / 2)"]
    by (simp add: capture_step_def capture_frame_def gate_frame_def sample_input_def Let_def shape_frame_def apply_input_gain_def
        pass_vad_def pr_frames_def pr_drained_def)
  obtain st1 where s1: "capture_step sample_env sample_input sample_capture = (True, st1)" "length (ct_sent st1) = 1"
      "pr_len (ct_preroll st1) = 0"
    using step [of sample_capture] by (auto simp: sample_capture_def pr_new_def)
  define st2 where "st2 = snd (capture_step sample_env (sample_input\<lparr>in_poll := NoDevice\<rparr>) st1)"
  have s2: "capture_step sample_env (sample_input\<lparr>in_poll := NoDevice\<rparr>) st1 = (True, st2)" "length (ct_sent st2) = 1"
      "pr_len (ct_preroll st2) = 0"
    using s1 by (simp_all add: st2_def capture_step_def sample_input_def publish_own_def)
  have "length (ct_sent st) = 2" using step [OF s2(3)] s1(1) s2 r by auto
  moreover have "[0..<2] = [0, 1 :: nat]" by (simp add: upt_rec)
  ultimately show ?thesis using sequence_numbers [OF sample_capture_new r] r by simp
qed

theorem muted_mic_stays_private_witness:
  "capture_run sample_env [sample_input\<lparr>in_muted := True, in_poll := Captured [1]\<rparr>] sample_capture =
    capture_run sample_env [sample_input\<lparr>in_muted := True\<rparr>] sample_capture \<and>
    ct_sent (snd (capture_run sample_env [sample_input\<lparr>in_muted := True\<rparr>] sample_capture)) = []"
proof -
  let ?i = "sample_input\<lparr>in_muted := True\<rparr>" and ?j = "sample_input\<lparr>in_muted := True, in_poll := Captured [1]\<rparr>"
  have "list_all in_muted [?i]" "list_all2 same_but_frame [?i] [?j]"
    by (simp_all add: same_but_frame_def sample_input_def)
  from muted_mic_stays_private [OF this, of sample_env sample_capture] show ?thesis
    by (simp add: sample_input_def sample_capture_def del: capture_run.simps)
qed

section \<open>The traffic-hiding mode\<close>

definition is_frame :: "capture_input \<Rightarrow> bool" where
  "is_frame i = (case in_poll i of Captured f \<Rightarrow> True | _ \<Rightarrow> False)"

lemma send_one_always:
  assumes "\<And>pcm n e. fst (lib_encode_float (ce_lib env) pcm n e) \<noteq> None"
    and "\<And>nonce plain. encrypt_detached (ce_cipher env) nonce plain \<noteq> None"
  shows "fst (send_one env True f st) \<and> length (ct_sent (snd (send_one env True f st))) = length (ct_sent st) + 1"
proof -
  obtain opus e where "lib_encode_float (ce_lib env) f MAX_OPUS_PACKET (ct_encoder st) = (Some opus, e)"
    using assms(1) [of f MAX_OPUS_PACKET "ct_encoder st"] by (cases "lib_encode_float (ce_lib env) f MAX_OPUS_PACKET (ct_encoder st)") auto
  moreover obtain nonce g where "ce_nonce env (ct_nonces st) = (nonce, g)" by fastforce
  moreover obtain p where "build_packet (ce_cipher env) nonce (ct_sequence st) (ce_channel env) (ce_name_bytes env) opus = Some p"
    using assms(2) [of nonce "[of_nat (length (ce_name_bytes env))] @ ce_name_bytes env @ opus"]
    by (auto simp: build_packet_def Let_def)
  ultimately show ?thesis by (simp add: send_one_def oe_encode_def Let_def)
qed

lemma paranoid_step:
  assumes "\<And>pcm n e. fst (lib_encode_float (ce_lib env) pcm n e) \<noteq> None"
    and "\<And>nonce plain. encrypt_detached (ce_cipher env) nonce plain \<noteq> None"
    and "in_paranoid i" "in_open i" "\<not> in_stop i" and "capture_step env i st = (go, st')"
  shows "go \<and> length (ct_sent st') = length (ct_sent st) + (if is_frame i then 1 else 0)"
proof (cases "in_poll i")
  case (Captured pcm)
  note one = send_one_always [of env, OF assms(1,2)]
  have "ct_sent (snd (shape_frame env i pcm s)) = ct_sent s" for s
    using shape_frame_sel(1) [of env i pcm s] by (cases "shape_frame env i pcm s") simp
  then show ?thesis
    using assms(3-6) Captured one
    by (auto simp: capture_step_def capture_frame_def Let_def is_frame_def case_prod_beta prod_eq_iff split: if_splits)
qed (use assms(5,6) in \<open>auto simp: capture_step_def is_frame_def split: if_splits\<close>)

text \<open>In the traffic-hiding mode the cadence carries no information: every captured frame, silent or
  loud, muted or not, yields exactly one packet, so that with a working encoder and cipher the number of packets is
  the number of frames the device delivered.\<close>

theorem paranoid_cadence:
  assumes "\<And>pcm n e. fst (lib_encode_float (ce_lib env) pcm n e) \<noteq> None"
    and "\<And>nonce plain. encrypt_detached (ce_cipher env) nonce plain \<noteq> None"
    and "list_all (\<lambda>i. in_paranoid i \<and> in_open i \<and> \<not> in_stop i) inps"
    and "capture_run env inps st = (go, st')"
  shows "go \<and> length (ct_sent st') = length (ct_sent st) + length (filter is_frame inps)"
  using assms(3,4)
proof (induction inps arbitrary: st)
  case (Cons i inps)
  obtain g st1 where s: "capture_step env i st = (g, st1)" by (cases "capture_step env i st")
  have "g \<and> length (ct_sent st1) = length (ct_sent st) + (if is_frame i then 1 else 0)"
    by (rule paranoid_step [OF assms(1,2) _ _ _ s]) (use Cons.prems(1) in simp_all)
  then show ?case using Cons.IH [of st1] Cons.prems s by (auto split: if_splits)
qed simp

theorem paranoid_cadence_witness:
  "length (ct_sent (snd (capture_run sample_env (map (\<lambda>i. i\<lparr>in_paranoid := True\<rparr>)
     [sample_input, sample_input\<lparr>in_muted := True\<rparr>, sample_input\<lparr>in_poll := Starving\<rparr>]) sample_capture))) = 2"
proof -
  let ?is = "map (\<lambda>i. i\<lparr>in_paranoid := True\<rparr>) [sample_input, sample_input\<lparr>in_muted := True\<rparr>, sample_input\<lparr>in_poll := Starving\<rparr>]"
  obtain go st where r: "capture_run sample_env ?is sample_capture = (go, st)" by fastforce
  have "fst (lib_encode_float (ce_lib sample_env) pcm n e) \<noteq> None" "encrypt_detached (ce_cipher sample_env) nonce plain \<noteq> None"
    for pcm n e nonce plain by (simp_all add: sample_env_def sample_lib_def sample_cipher_def)
  moreover have "list_all (\<lambda>i. in_paranoid i \<and> in_open i \<and> \<not> in_stop i) ?is" by (simp add: sample_input_def)
  ultimately have "length (ct_sent st) = length (ct_sent sample_capture) + length (filter is_frame ?is)"
    using paranoid_cadence [OF _ _ _ r] by blast
  then show ?thesis using r by (simp add: sample_capture_def is_frame_def sample_input_def)
qed


section \<open>Speech onsets\<close>

subsection \<open>The pre-roll is a sliding window\<close>

definition pr_ok :: "vad_preroll \<Rightarrow> bool" where
  "pr_ok p \<longleftrightarrow> length (pr_slots p) = VAD_PREROLL_FRAMES \<and> list_all (\<lambda>s. length s = FRAME_SIZE) (pr_slots p) \<and>
    pr_start p < VAD_PREROLL_FRAMES \<and> pr_len p \<le> VAD_PREROLL_FRAMES"

lemma pr_new_ok: "pr_ok pr_new" "pr_frames pr_new = []"
  by (simp_all add: pr_ok_def pr_new_def pr_frames_def VAD_PREROLL_FRAMES_def list_all_length)

lemma five_slots: "length xs = 5 \<Longrightarrow> \<exists>a b c d e. xs = [a, b, c, d, e]"
  by (auto simp: length_Suc_conv numeral_eq_Suc)

lemma push_slot:
  assumes "pr_ok p" and "length f = FRAME_SIZE"
  shows "pr_push f p = (let p' = p\<lparr>pr_slots := (pr_slots p)[(pr_start p + pr_len p) mod 5 := f]\<rparr> in
    if pr_len p = 5 then p'\<lparr>pr_start := (pr_start p + 1) mod 5\<rparr> else p'\<lparr>pr_len := pr_len p + 1\<rparr>)"
proof -
  define i where "i = (pr_start p + pr_len p) mod 5"
  have five: "length (pr_slots p) = 5" using assms(1) by (simp add: pr_ok_def VAD_PREROLL_FRAMES_def)
  then have "i < length (pr_slots p)" by (simp add: i_def)
  then have "length (pr_slots p ! i) = FRAME_SIZE" using assms(1) by (simp add: pr_ok_def list_all_length)
  then have e: "take (min (length f) FRAME_SIZE) f @ drop (min (length f) FRAME_SIZE) (pr_slots p ! i) = f"
    using assms(2) by simp
  show ?thesis unfolding pr_push_def Let_def five i_def [symmetric] e by simp
qed

lemma list_all_update: "\<lbrakk>list_all P xs; P x\<rbrakk> \<Longrightarrow> list_all P (xs[i := x])"
  using set_update_subset_insert [of xs i x] by (auto simp: list_all_iff)

lemma pr_push_ok: "\<lbrakk>pr_ok p; length f = FRAME_SIZE\<rbrakk> \<Longrightarrow> pr_ok (pr_push f p)"
  unfolding push_slot by (auto simp: Let_def pr_ok_def VAD_PREROLL_FRAMES_def intro: list_all_update)

lemma pr_push_frames:
  assumes "pr_ok p" and "length f = FRAME_SIZE"
  shows "pr_frames (pr_push f p) = drop (pr_len p + 1 - 5) (pr_frames p @ [f])"
proof -
  obtain a b c d e where s: "pr_slots p = [a, b, c, d, e]"
    using five_slots [of "pr_slots p"] assms(1) by (auto simp: pr_ok_def VAD_PREROLL_FRAMES_def)
  have "pr_start p < 5" "pr_len p \<le> 5" using assms(1) by (simp_all add: pr_ok_def VAD_PREROLL_FRAMES_def)
  then have "pr_start p \<in> {0, 1, 2, 3, 4}" "pr_len p \<in> {0, 1, 2, 3, 4, 5}" by auto
  then show ?thesis
    unfolding push_slot [OF assms] pr_frames_def
    by (elim insertE emptyE) (simp_all add: s Let_def upt_rec)
qed


lemma pr_frames_length: "length (pr_frames p) = pr_len p"
  by (simp add: pr_frames_def)

lemma pr_push_all:
  assumes "list_all (\<lambda>f. length f = FRAME_SIZE) fs" and "pr_ok p"
  shows "pr_ok (fold pr_push fs p) \<and>
    pr_frames (fold pr_push fs p) = drop (length (pr_frames p) + length fs - 5) (pr_frames p @ fs)"
  using assms
proof (induction fs arbitrary: p)
  case Nil
  then show ?case by (simp add: pr_frames_length pr_ok_def VAD_PREROLL_FRAMES_def)
next
  case (Cons f fs)
  have ok: "pr_ok (pr_push f p)" and fr: "pr_frames (pr_push f p) = drop (pr_len p + 1 - 5) (pr_frames p @ [f])"
    using Cons.prems pr_push_ok pr_push_frames by auto
  have "pr_len p \<le> 5" using Cons.prems by (simp add: pr_ok_def VAD_PREROLL_FRAMES_def)
  then have "drop (length (pr_frames (pr_push f p)) + length fs - 5) (pr_frames (pr_push f p) @ fs) =
      drop (length (pr_frames p) + length (f # fs) - 5) (pr_frames p @ f # fs)"
    unfolding fr by (cases "pr_len p = 5") (simp_all add: pr_frames_length)
  then show ?case using Cons.IH [OF _ ok] Cons.prems(1) by simp
qed

subsection \<open>What is sent at an onset\<close>

text \<open>The part of the state sending depends on and changes.\<close>

definition core :: "('e, 's, 'g) capture \<Rightarrow> 'e \<times> 'g \<times> 32 word \<times> byte list list" where
  "core st = (ct_encoder st, ct_nonces st, ct_sequence st, ct_sent st)"

lemma send_one_core:
  assumes "core st = core st'" and "send_one env op f st = (ok, s1)" and "send_one env op f st' = (ok', s2)"
  shows "ok' = ok \<and> core s2 = core s1"
  using assms by (auto simp: core_def send_one_def Let_def split: prod.splits option.splits if_splits)

lemma send_all_core:
  assumes "core st = core st'" and "send_all env op fs st = (ok, s1)" and "send_all env op fs st' = (ok', s2)"
  shows "ok' = ok \<and> core s2 = core s1"
  using assms
proof (induction env op fs st arbitrary: st' rule: send_all.induct)
  case (2 env op f fs st)
  obtain g t1 where t1: "send_one env op f st = (g, t1)" by (cases "send_one env op f st")
  obtain g' t2 where t2: "send_one env op f st' = (g', t2)" by (cases "send_one env op f st'")
  have e: "g' = g \<and> core t2 = core t1" by (rule send_one_core [OF "2.prems"(1) t1 t2])
  show ?case
  proof (cases g)
    case True
    then show ?thesis using "2.IH" [OF t1 [symmetric] refl True, of t2] "2.prems" e t1 t2 by simp
  next
    case False
    then show ?thesis using "2.prems" e t1 t2 by auto
  qed
qed simp

lemma send_all_snoc:
  "send_all env op (fs @ [f]) st =
    (let (ok, st) = send_all env op fs st in if ok then send_one env op f st else (False, st))"
  by (induction env op fs st rule: send_all.induct) (auto simp: Let_def split: prod.split)


text \<open>The microphone is on, with no processing of the frame and no change of quality due.\<close>

definition plain_input :: "capture_input \<Rightarrow> ('e, 's, 'g) capture \<Rightarrow> bool" where
  "plain_input i st \<longleftrightarrow> \<not> in_stop i \<and> \<not> in_muted i \<and> \<not> in_paranoid i \<and> in_gain i = 1 \<and> \<not> in_denoise i \<and> \<not> in_agc i \<and>
    current_tier (in_stats i) = ct_tier st \<and> \<not> ct_last_paranoid st"

lemma adapt_idle:
  assumes "current_tier stats = ct_tier st"
  shows "ct_encoder (adapt env stats st) = ct_encoder st" "ct_tier (adapt env stats st) = ct_tier st"
  using assms by (simp_all add: adapt_def maybe_adapt_encoder_def Let_def)

lemma plain_step:
  assumes "plain_input i st"
  shows "\<exists>st1. capture_step env (i\<lparr>in_poll := Captured f\<rparr>) st = gate_frame env (i\<lparr>in_poll := Captured f\<rparr>) f st1 \<and>
    core st1 = core st \<and> ct_preroll st1 = ct_preroll st \<and> ct_hangover st1 = ct_hangover st \<and> plain_input i st1"
proof -
  let ?s = "st\<lparr>ct_last_frame_at := in_now i, ct_starvation_reported := False\<rparr>"
  let ?t = "adapt env (in_stats i) (?s\<lparr>ct_input_peak := rms f\<rparr>)"
  have r: "reconfigure env False ?s = ?s" using assms by (simp add: reconfigure_def plain_input_def)
  have sh: "shape_frame env (i\<lparr>in_poll := Captured f\<rparr>) f ?s = (f, ?s)"
    using assms by (simp add: shape_frame_def plain_input_def apply_input_gain_def)
  have "capture_step env (i\<lparr>in_poll := Captured f\<rparr>) st = gate_frame env (i\<lparr>in_poll := Captured f\<rparr>) f ?t"
    using assms r sh by (simp add: capture_step_def capture_frame_def plain_input_def Let_def)
  moreover have "core ?t = core st \<and> ct_preroll ?t = ct_preroll st \<and> ct_hangover ?t = ct_hangover st \<and> plain_input i ?t"
    using assms adapt_idle [of "in_stats i" "?s\<lparr>ct_input_peak := rms f\<rparr>" env] by (simp add: core_def plain_input_def)
  ultimately show ?thesis by blast
qed

lemma gated_step:
  assumes "plain_input i st" and "pass_vad f (in_vad_threshold i) (ct_hangover st) = (False, h)"
  shows "\<exists>st'. capture_step env (i\<lparr>in_poll := Captured f\<rparr>) st = (True, st') \<and> core st' = core st \<and>
    ct_preroll st' = pr_push f (ct_preroll st) \<and> ct_hangover st' = h \<and> plain_input i st'"
proof -
  obtain st1 where s: "capture_step env (i\<lparr>in_poll := Captured f\<rparr>) st = gate_frame env (i\<lparr>in_poll := Captured f\<rparr>) f st1"
    "core st1 = core st" "ct_preroll st1 = ct_preroll st" "ct_hangover st1 = ct_hangover st" "plain_input i st1"
    using plain_step [OF assms(1)] by blast
  then show ?thesis using assms(2) by (auto simp: gate_frame_def core_def plain_input_def)
qed

lemma gated_run:
  assumes "plain_input i st" and "ct_hangover st = 0"
    and "list_all (\<lambda>f. pass_vad f (in_vad_threshold i) 0 = (False, 0)) fs"
  shows "\<exists>st'. capture_run env (map (\<lambda>f. i\<lparr>in_poll := Captured f\<rparr>) fs @ rest) st = capture_run env rest st' \<and>
    core st' = core st \<and> ct_preroll st' = fold pr_push fs (ct_preroll st) \<and> ct_hangover st' = 0 \<and> plain_input i st'"
  using assms
proof (induction fs arbitrary: st)
  case (Cons f fs)
  have "pass_vad f (in_vad_threshold i) (ct_hangover st) = (False, 0)" using Cons.prems by simp
  from gated_step [OF Cons.prems(1) this, of env] obtain st1 where s:
    "capture_step env (i\<lparr>in_poll := Captured f\<rparr>) st = (True, st1)" "core st1 = core st"
    "ct_preroll st1 = pr_push f (ct_preroll st)" "ct_hangover st1 = 0" "plain_input i st1" by blast
  from Cons.IH [OF s(5,4)] Cons.prems(3) s show ?case by auto
qed auto

lemma voiced_step:
  assumes "plain_input i st" and "fst (pass_vad f (in_vad_threshold i) (ct_hangover st))"
  shows "ct_sent (snd (capture_step env (i\<lparr>in_poll := Captured f\<rparr>) st)) =
    ct_sent (snd (send_all env (in_open i) (pr_frames (ct_preroll st) @ [f]) st))"
proof -
  obtain st1 where s: "capture_step env (i\<lparr>in_poll := Captured f\<rparr>) st = gate_frame env (i\<lparr>in_poll := Captured f\<rparr>) f st1"
    "core st1 = core st" "ct_preroll st1 = ct_preroll st" "ct_hangover st1 = ct_hangover st" "plain_input i st1"
    using plain_step [OF assms(1)] by blast
  obtain h where v: "pass_vad f (in_vad_threshold i) (ct_hangover st1) = (True, h)"
    using assms(2) s(4) by (cases "pass_vad f (in_vad_threshold i) (ct_hangover st1)") simp
  define st2 where "st2 = publish_own (own_level (ce_log10 env) (rms f) True) (st1\<lparr>ct_hangover := h\<rparr>)"
  have c2: "core st2 = core st" "ct_preroll st2 = ct_preroll st" using s by (simp_all add: st2_def core_def)
  obtain ok st3 where all: "send_all env (in_open i) (pr_frames (ct_preroll st2)) st2 = (ok, st3)"
    by (cases "send_all env (in_open i) (pr_frames (ct_preroll st2)) st2")
  let ?s = "st3\<lparr>ct_preroll := pr_drained (ct_preroll st3)\<rparr>"
  have g: "gate_frame env (i\<lparr>in_poll := Captured f\<rparr>) f st1 = (if ok then send_one env (in_open i) f ?s else (False, ?s))"
    unfolding gate_frame_def Let_def using v all c2(2) s(3) by (simp flip: st2_def)
  obtain ok' t3 where all': "send_all env (in_open i) (pr_frames (ct_preroll st)) st = (ok', t3)"
    by (cases "send_all env (in_open i) (pr_frames (ct_preroll st)) st")
  have e3: "ok = ok' \<and> core st3 = core t3"
    using send_all_core [OF c2(1) [symmetric] all'] all c2(2) by simp
  show ?thesis
  proof (cases ok)
    case True
    obtain a u1 where u1: "send_one env (in_open i) f ?s = (a, u1)" by (cases "send_one env (in_open i) f ?s")
    obtain b u2 where u2: "send_one env (in_open i) f t3 = (b, u2)" by (cases "send_one env (in_open i) f t3")
    have "core ?s = core t3" using e3 by (simp add: core_def)
    from send_one_core [OF this u1 u2] have "ct_sent u2 = ct_sent u1" by (simp add: core_def)
    then show ?thesis using s(1) g True u1 u2 all' e3 by (simp add: send_all_snoc)
  next
    case False
    have "ct_sent ?s = ct_sent t3" using e3 by (simp add: core_def)
    then show ?thesis using s(1) g False all' e3 by (simp add: send_all_snoc)
  qed
qed

text \<open>Speech onsets are kept: when the gate opens after any number of quiet frames, what goes out is
  exactly the last (up to) five of them, in the order they were captured, followed by the frame that opened
  it; the frames before those are never sent.\<close>

theorem speech_onset_kept:
  assumes "plain_input i st" and "ct_hangover st = 0" and "ct_preroll st = pr_new"
    and "list_all (\<lambda>f. length f = FRAME_SIZE \<and> \<not> fst (pass_vad f (in_vad_threshold i) 0)) quiet"
    and "fst (pass_vad voiced (in_vad_threshold i) 0)"
  shows "ct_sent (snd (capture_run env (map (\<lambda>f. i\<lparr>in_poll := Captured f\<rparr>) (quiet @ [voiced])) st)) =
    ct_sent (snd (send_all env (in_open i) (drop (length quiet - VAD_PREROLL_FRAMES) quiet @ [voiced]) st))"
proof -
  have "pass_vad f thr 0 = (False, 0)" if "\<not> fst (pass_vad f thr 0)" for f thr
    using that by (simp add: pass_vad_def Let_def split: if_splits)
  then have q: "list_all (\<lambda>f. pass_vad f (in_vad_threshold i) 0 = (False, 0)) quiet"
    and len: "list_all (\<lambda>f. length f = FRAME_SIZE) quiet"
    using assms(4) by (simp_all add: list_all_iff)
  let ?v = "i\<lparr>in_poll := Captured voiced\<rparr>"
  obtain st1 where s: "capture_run env (map (\<lambda>f. i\<lparr>in_poll := Captured f\<rparr>) quiet @ [?v]) st = capture_run env [?v] st1"
    "core st1 = core st" "ct_preroll st1 = fold pr_push quiet pr_new" "ct_hangover st1 = 0" "plain_input i st1"
    using gated_run [OF assms(1,2) q, of env "[?v]"] assms(3) by auto
  let ?fs = "drop (length quiet - VAD_PREROLL_FRAMES) quiet @ [voiced]"
  have fr: "pr_frames (ct_preroll st1) = drop (length quiet - VAD_PREROLL_FRAMES) quiet"
    using pr_push_all [OF len pr_new_ok(1)] s(3) by (simp add: pr_new_ok(2) VAD_PREROLL_FRAMES_def)
  obtain go st2 where step: "capture_step env ?v st1 = (go, st2)" by (cases "capture_step env ?v st1")
  have "ct_sent st2 = ct_sent (snd (send_all env (in_open i) ?fs st1))"
    using voiced_step [OF s(5), of voiced env] assms(5) s(4) fr step by simp
  moreover obtain a u1 where u1: "send_all env (in_open i) ?fs st1 = (a, u1)" by (cases "send_all env (in_open i) ?fs st1")
  moreover obtain b u2 where u2: "send_all env (in_open i) ?fs st = (b, u2)" by (cases "send_all env (in_open i) ?fs st")
  moreover have "ct_sent u2 = ct_sent u1" using send_all_core [OF s(2) u1 u2] by (simp add: core_def)
  moreover have "ct_sent (snd (capture_run env [?v] st1)) = ct_sent st2" using step by simp
  ultimately show ?thesis using s(1) by simp
qed

lemma quiet_zero: "\<not> fst (pass_vad (replicate n 0) (1 / 64) 0)"
proof -
  have "foldl f32_add 0 (map (\<lambda>s. f32_mul s s) (replicate n 0)) = 0" by (induction n) (simp_all add: f32_add_def f32_mul_def)
  then show ?thesis by (simp add: pass_vad_def Let_def f32_div_def fl_sqrt_def)
qed

theorem speech_onset_kept_witness:
  "ct_sent (snd (capture_run sample_env (map (\<lambda>f. sample_input\<lparr>in_vad_threshold := 1 / 64, in_poll := Captured f\<rparr>)
      (replicate 7 (replicate FRAME_SIZE 0) @ [[1 / 2]])) sample_capture)) =
    ct_sent (snd (send_all sample_env True (drop 2 (replicate 7 (replicate FRAME_SIZE 0)) @ [[1 / 2]]) sample_capture))"
proof -
  let ?i = "sample_input\<lparr>in_vad_threshold := 1 / 64\<rparr>" and ?q = "replicate 7 (replicate FRAME_SIZE (0 :: rat))"
  have "plain_input ?i sample_capture"
    by (simp add: plain_input_def sample_input_def sample_capture_def current_tier_def stats_new_def tier_from_u8_def)
  moreover have "ct_hangover sample_capture = 0" "ct_preroll sample_capture = pr_new" by (simp_all add: sample_capture_def)
  moreover have "list_all (\<lambda>f. length f = FRAME_SIZE \<and> \<not> fst (pass_vad f (in_vad_threshold ?i) 0)) ?q"
    by (simp add: list_all_iff quiet_zero)
  moreover have "fst (pass_vad [1 / 2] (1 / 64) 0)" by code_simp
  ultimately have "ct_sent (snd (capture_run sample_env (map (\<lambda>f. ?i\<lparr>in_poll := Captured f\<rparr>) (?q @ [[1 / 2]])) sample_capture)) =
      ct_sent (snd (send_all sample_env (in_open ?i) (drop (length ?q - VAD_PREROLL_FRAMES) ?q @ [[1 / 2]]) sample_capture))"
    by (intro speech_onset_kept) simp_all
  moreover have "length ?q - VAD_PREROLL_FRAMES = 2" "in_open ?i" by (simp_all add: VAD_PREROLL_FRAMES_def sample_input_def)
  ultimately show ?thesis by (simp only: simp_thms)
qed

end
