(* ===== verification/Voice_Receive.thy ===== *)
theory Voice_Receive
  imports Voice_Packet Playout Live_Levels
begin

text \<open>
  \<^verbatim>\<open>crates/client/src/voice.rs\<close>, the receiving side: the UDP handshake and the re-hello task, what one
  datagram does (\<open>ingest\<close>), the levels handed to the UIs, the glitch log and the loop of the receive
  task. The sockets, the decoder, the ring and the cipher are parameters; what wakes the task is an
  event, with the moment it happens.
\<close>

subsection \<open>Handshake\<close>

text \<open>The outcome of waiting for an answer: some bytes, or nothing in time (or a socket error). \<open>None\<close> as the
  result is a failed \<open>send\<close>, which aborts.\<close>

fun hello_attempts :: "64 word \<Rightarrow> (bool \<times> byte list option) list \<Rightarrow> byte list list \<times> bool option" where
  "hello_attempts token [] = ([], Some False)"
| "hello_attempts token ((sent_ok, answer) # attempts) =
    (if \<not> sent_ok then ([encode_udp_hello token], None)
     else
       (let acked = (case answer of Some bytes \<Rightarrow> decode_udp_hello (take 16 bytes) = Some token | None \<Rightarrow> False) in
        if acked then ([encode_udp_hello token], Some True)
        else (let (sent, res) = hello_attempts token attempts in (encode_udp_hello token # sent, res))))"

definition udp_handshake :: "64 word \<Rightarrow> (nat \<Rightarrow> bool \<times> byte list option) \<Rightarrow> byte list list \<times> bool option" where
  "udp_handshake token net = hello_attempts token (map net [0..<UDP_HELLO_RETRIES])"

text \<open>The re-hello task: how long it slept before each hello it sent, given the state of the flags
  \<open>registered \<or> stop\<close> at each wakeup.\<close>

fun rehello :: "nat \<Rightarrow> bool list \<Rightarrow> nat list" where
  "rehello delay [] = []"
| "rehello delay (finished # rest) =
    (if finished then [] else delay # rehello (min (delay * 2) UDP_REHELLO_MAX_MS) rest)"

definition rehello_task :: "bool list \<Rightarrow> nat list" where
  "rehello_task flags = rehello UDP_REHELLO_BASE_MS flags"

subsection \<open>One datagram\<close>

record speaker_stat =
  sk_last_seen :: instant
  sk_level :: rat

definition record_speaker :: "string \<Rightarrow> instant \<Rightarrow> (string \<times> speaker_stat) list \<Rightarrow> (string \<times> speaker_stat) list" where
  "record_speaker name now sp =
    (if name = [] then sp
     else (case hm_get sp name of
         Some entry \<Rightarrow> hm_insert name (entry\<lparr>sk_last_seen := now\<rparr>) sp
       | None \<Rightarrow> hm_insert name \<lparr>sk_last_seen = now, sk_level = 0\<rparr> sp))"

record 'd recv_cfg =
  rf_cipher :: cipher
  rf_decoder :: "'d opus_decoder option"
  rf_opus :: "'d opus"
  rf_log10 :: "rat \<Rightarrow> rat"
  rf_udp_token :: "64 word"
  rf_own_name :: string
  rf_gains :: peer_gains
  rf_echo_test :: bool

record ('d, 'r) receiver =
  rv_ctx :: "('d, 'r) pump_ctx"
  rv_bytes_rx :: "64 word"
  rv_speaking :: "(string \<times> speaker_stat) list"
  rv_live :: live_levels
  rv_registered :: bool
  rv_levels_epoch :: "64 word"
  rv_diag_logged :: diagnostics_snapshot
  rv_diag_logged_at :: instant
  rv_warnings :: "(nat \<times> diagnostics_snapshot) list"

definition buffer_packet ::
    "'d recv_cfg \<Rightarrow> string \<Rightarrow> 32 word \<Rightarrow> byte list \<Rightarrow> instant \<Rightarrow> ('d, 'r) pump_ctx \<Rightarrow> ('d, 'r) pump_ctx" where
  "buffer_packet cfg name seq opus now c =
    (let (late, p) = pp_on_packet (rf_decoder cfg) name seq opus now (pc_pump c); c = c\<lparr>pc_pump := p\<rparr>
     in if late then c\<lparr>pc_diag := (pc_diag c)\<lparr>late_packets := late_packets (pc_diag c) + 1\<rparr>\<rparr> else c)"

definition ingest :: "'d recv_cfg \<Rightarrow> instant \<Rightarrow> byte list \<Rightarrow> ('d, 'r) receiver \<Rightarrow> ('d, 'r) receiver" where
  "ingest cfg now datagram rv =
    (if \<not> rv_registered rv \<and> decode_udp_hello datagram = Some (rf_udp_token cfg) then rv\<lparr>rv_registered := True\<rparr>
     else
       (case parse_voice_data datagram of
          None \<Rightarrow> rv
        | Some (sequence, encrypted) \<Rightarrow>
           (let rv = (if \<not> rv_registered rv then rv\<lparr>rv_registered := True\<rparr> else rv) in
            case decrypt_packet (rf_cipher cfg) encrypted of
              None \<Rightarrow> rv
            | Some plain \<Rightarrow>
               (case parse_packet_name plain of
                  None \<Rightarrow> rv
                | Some (name, opus_offset) \<Rightarrow>
                   if \<not> rf_echo_test cfg \<and> name = rf_own_name cfg then rv
                   else rv\<lparr>rv_speaking := record_speaker name now (rv_speaking rv),
                     rv_ctx := buffer_packet cfg name sequence (drop opus_offset plain) now (rv_ctx rv)\<rparr>))))"

subsection \<open>Levels and the glitch log\<close>

definition publish_levels ::
    "(rat \<Rightarrow> rat) \<Rightarrow> 'd playout_pump \<Rightarrow> string option \<Rightarrow> (string \<times> speaker_stat) list \<Rightarrow> live_levels \<Rightarrow>
     (string \<times> speaker_stat) list \<times> live_levels" where
  "publish_levels log10f p exclude speaking live =
    (map (\<lambda>(name, stat). (name, stat\<lparr>sk_level := loudness log10f (pp_frame_rms name p)\<rparr>)) speaking,
     publish_peers (map (\<lambda>(name, r). (name, loudness log10f r))
       (filter (\<lambda>(name, r). Some name \<noteq> exclude) (pp_frame_levels p))) live)"

definition log_glitches :: "instant \<Rightarrow> ('d, 'r) receiver \<Rightarrow> ('d, 'r) receiver" where
  "log_glitches now rv =
    (let window_secs = (now - rv_diag_logged_at rv) div 1000000000;
         snap = diag_snapshot (pc_diag (rv_ctx rv));
         d = diag_delta snap (rv_diag_logged rv);
         rv = rv\<lparr>rv_diag_logged_at := now, rv_diag_logged := snap\<rparr>
     in if has_glitches d then rv\<lparr>rv_warnings := rv_warnings rv @ [(window_secs, d)]\<rparr> else rv)"

subsection \<open>The loop\<close>

datatype wake = Datagram "byte list" | RecvError | PlayoutTick | DiagLog

text \<open>What the task finds when it wakes: the event, the moment, whether a playback ring is installed, and what
  the callback last reported.\<close>

record wakeup =
  wk_wake :: wake
  wk_now :: instant
  wk_device :: bool
  wk_request :: nat
  wk_queued :: nat

text \<open>The tick is armed only while something is buffered or playing.\<close>

definition wake_enabled :: "wakeup \<Rightarrow> ('d, 'r) receiver \<Rightarrow> bool" where
  "wake_enabled w rv \<longleftrightarrow> (wk_wake w = PlayoutTick \<longrightarrow> needs_tick (pc_pump (rv_ctx rv)))"

definition pump_and_publish ::
    "'d recv_cfg \<Rightarrow> 'r ring_ops \<Rightarrow> wakeup \<Rightarrow> ('d, 'r) receiver \<Rightarrow> ('d, 'r) receiver option" where
  "pump_and_publish cfg ops w rv =
    (case pump (rf_opus cfg) (if wk_device w then Some ops else None) (wk_request w) (wk_queued w) (wk_now w)
        (rf_gains cfg) (rv_ctx rv) of
       None \<Rightarrow> None
     | Some (playing, c) \<Rightarrow>
        (let rv = rv\<lparr>rv_ctx := c\<rparr>; epoch = pp_levels_epoch (pc_pump c) in
         if epoch \<noteq> rv_levels_epoch rv then
           (let (sp, live) = publish_levels (rf_log10 cfg) (pc_pump c)
                  (if rf_echo_test cfg then Some (rf_own_name cfg) else None) (rv_speaking rv) (rv_live rv)
            in Some (rv\<lparr>rv_levels_epoch := epoch, rv_speaking := sp, rv_live := live\<rparr>))
         else Some rv))"

text \<open>The receive buffer cuts longer datagrams.\<close>

definition RECV_BUF :: nat where "RECV_BUF = MAX_UDP_PACKET + 64"

definition recv_step :: "'d recv_cfg \<Rightarrow> 'r ring_ops \<Rightarrow> wakeup \<Rightarrow> ('d, 'r) receiver \<Rightarrow> ('d, 'r) receiver option" where
  "recv_step cfg ops w rv =
    (case wk_wake w of
       Datagram sent \<Rightarrow>
         (let bytes = take RECV_BUF sent in
          pump_and_publish cfg ops w
            (ingest cfg (wk_now w) bytes (rv\<lparr>rv_bytes_rx := rv_bytes_rx rv + of_nat (length bytes)\<rparr>)))
     | RecvError \<Rightarrow> pump_and_publish cfg ops w rv
     | PlayoutTick \<Rightarrow> pump_and_publish cfg ops w rv
     | DiagLog \<Rightarrow> Some (log_glitches (wk_now w) rv))"

text \<open>Between two wakeups the audio callback may drain the ring (second constructor).\<close>

datatype 'r recv_event = Wakeup wakeup | Callback 'r

fun recv_run :: "'d recv_cfg \<Rightarrow> 'r ring_ops \<Rightarrow> 'r recv_event list \<Rightarrow> ('d, 'r) receiver \<Rightarrow> ('d, 'r) receiver option" where
  "recv_run cfg ops [] rv = Some rv"
| "recv_run cfg ops (Callback r # es) rv = recv_run cfg ops es (rv\<lparr>rv_ctx := (rv_ctx rv)\<lparr>pc_ring := r\<rparr>\<rparr>)"
| "recv_run cfg ops (Wakeup w # es) rv =
    (if wake_enabled w rv then
       (case recv_step cfg ops w rv of None \<Rightarrow> None | Some rv \<Rightarrow> recv_run cfg ops es rv)
     else recv_run cfg ops es rv)"

definition receiver_new ::
    "instant \<Rightarrow> bool \<Rightarrow> 'r \<Rightarrow> audio_diagnostics \<Rightarrow> network_stats \<Rightarrow> live_levels \<Rightarrow> ('d, 'r) receiver" where
  "receiver_new now acked ring diag stats live =
    \<lparr>rv_ctx = \<lparr>pc_pump = pp_new now, pc_ring = ring, pc_diag = diag, pc_stats = stats\<rparr>, rv_bytes_rx = 0, rv_speaking = [],
      rv_live = live, rv_registered = acked, rv_levels_epoch = pp_levels_epoch (pp_new now :: 'd playout_pump),
      rv_diag_logged = diag_snapshot diag, rv_diag_logged_at = now, rv_warnings = []\<rparr>"

subsection \<open>What the handle answers\<close>

definition active_within :: "instant \<Rightarrow> (string \<times> speaker_stat) list \<Rightarrow> (string \<times> speaker_stat) list" where
  "active_within now sp = hm_retain (\<lambda>name s. now - sk_last_seen s < millis 300) sp"

definition active_speakers :: "instant \<Rightarrow> (string \<times> speaker_stat) list \<Rightarrow> string list \<times> (string \<times> speaker_stat) list" where
  "active_speakers now sp = (let sp = active_within now sp in (map fst sp, sp))"

definition speaker_levels ::
    "instant \<Rightarrow> (string \<times> speaker_stat) list \<Rightarrow> (string \<times> rat) list \<times> (string \<times> speaker_stat) list" where
  "speaker_levels now sp = (let sp = active_within now sp in (map (\<lambda>(n, s). (n, sk_level s)) sp, sp))"

record traffic_snapshot =
  ts_instant :: instant
  ts_bytes_tx :: "64 word"
  ts_bytes_rx :: "64 word"
  ts_tx_rate :: rat
  ts_rx_rate :: rat

definition traffic_info ::
    "instant \<Rightarrow> 64 word \<Rightarrow> 64 word \<Rightarrow> traffic_snapshot \<Rightarrow> (rat \<times> rat \<times> 64 word) \<times> traffic_snapshot" where
  "traffic_info now cur_tx cur_rx snap =
    (let elapsed = as_secs_f64 (now - ts_instant snap);
         snap = (if f64 (1 / 5) \<le> elapsed
           then \<lparr>ts_instant = now, ts_bytes_tx = cur_tx, ts_bytes_rx = cur_rx,
             ts_tx_rate = f64_div (f64 (of_nat (unat (saturating_sub cur_tx (ts_bytes_tx snap))))) elapsed,
             ts_rx_rate = f64_div (f64 (of_nat (unat (saturating_sub cur_rx (ts_bytes_rx snap))))) elapsed\<rparr>
           else snap)
     in ((f64_div (ts_tx_rate snap) 1024, f64_div (ts_rx_rate snap) 1024, cur_tx + cur_rx), snap))"


section \<open>The receive task\<close>

definition receiver_ok :: "('d, 'r) receiver \<Rightarrow> bool" where
  "receiver_ok rv \<longleftrightarrow> pump_ok (rv_ctx rv) \<and> keys_distinct (rv_speaking rv) \<and> distinct (map p_name (ll_peers (rv_live rv)))"

lemma record_speaker_ok: "keys_distinct sp \<Longrightarrow> keys_distinct (record_speaker name now sp)"
  by (simp add: record_speaker_def split: option.split)

lemma on_packet_pump_ok: "pump_ok c \<Longrightarrow> pump_ok (c\<lparr>pc_pump := snd (pp_on_packet mk name seq d now (pc_pump c))\<rparr>)"
proof -
  assume "pump_ok c"
  moreover obtain late e where e: "pe_on_packet mk name seq d now (pp_engine (pc_pump c)) = (late, e)" by fastforce
  ultimately show ?thesis using on_packet_ok [OF _ e] by (simp add: pump_ok_def pp_on_packet_def)
qed

lemma pump_ok_diag [simp]: "pump_ok (c\<lparr>pc_diag := d\<rparr>) = pump_ok c" "pump_ok (c\<lparr>pc_ring := r\<rparr>) = pump_ok c"
  by (simp_all add: pump_ok_def)

lemma buffer_packet_ok: "pump_ok c \<Longrightarrow> pump_ok (buffer_packet cfg name seq d now c)"
  using on_packet_pump_ok [of c "rf_decoder cfg" name seq d now]
  by (simp add: buffer_packet_def Let_def case_prod_beta)

lemma ingest_ok: "receiver_ok rv \<Longrightarrow> receiver_ok (ingest cfg now d rv)"
  by (auto simp: ingest_def receiver_ok_def Let_def record_speaker_ok buffer_packet_ok split: option.split)

lemma map_fst_levels: "map (fst \<circ> (\<lambda>(name, r). (name, f r))) xs = map fst xs"
  by (induction xs) auto

lemma pump_and_publish_ok:
  assumes "ring_laws ops" and "receiver_ok rv"
  shows "\<exists>rv'. pump_and_publish cfg ops w rv = Some rv' \<and> receiver_ok rv'"
proof -
  have "pump_ok (rv_ctx rv)" using assms(2) by (simp add: receiver_ok_def)
  from pump_returns [OF this assms(1), of "rf_opus cfg" "wk_device w" "wk_request w" "wk_queued w" "wk_now w" "rf_gains cfg"]
  obtain playing c where c: "pump (rf_opus cfg) (if wk_device w then Some ops else None) (wk_request w) (wk_queued w)
      (wk_now w) (rf_gains cfg) (rv_ctx rv) = Some (playing, c)" "pump_ok c" by blast
  obtain sp live where pub: "publish_levels (rf_log10 cfg) (pc_pump c)
      (if rf_echo_test cfg then Some (rf_own_name cfg) else None) (rv_speaking rv) (rv_live rv) = (sp, live)" by fastforce
  have d: "distinct (map fst (pp_frame_levels (pc_pump c)))"
    using c(2) by (simp add: pump_ok_def pe_ok_def streams_ok_def keys_distinct_def pp_frame_levels_def frame_levels_def
        case_prod_beta comp_def)
  have "keys_distinct sp"
    using pub assms(2) by (auto simp: publish_levels_def receiver_ok_def keys_distinct_def case_prod_beta comp_def)
  moreover have "distinct (map p_name (ll_peers live))"
    using pub assms(2) d by (auto simp: publish_levels_def receiver_ok_def map_fst_levels distinct_map_filter intro!: publish_distinct)
  ultimately show ?thesis
    using c assms(2) pub by (simp add: pump_and_publish_def Let_def receiver_ok_def)
qed

lemma recv_step_ok:
  assumes "ring_laws ops" and "receiver_ok rv"
  shows "\<exists>rv'. recv_step cfg ops w rv = Some rv' \<and> receiver_ok rv'"
proof (cases "wk_wake w")
  case (Datagram sent)
  have "receiver_ok (ingest cfg (wk_now w) (take RECV_BUF sent) (rv\<lparr>rv_bytes_rx := b\<rparr>))" for b
    using assms(2) by (intro ingest_ok) (simp add: receiver_ok_def)
  from pump_and_publish_ok [OF assms(1) this] show ?thesis using Datagram by (simp add: recv_step_def Let_def)
next
  case DiagLog
  then show ?thesis using assms(2) by (simp add: recv_step_def log_glitches_def Let_def receiver_ok_def)
qed (use pump_and_publish_ok [OF assms] in \<open>simp_all add: recv_step_def\<close>)

lemma recv_run_ok:
  assumes "ring_laws ops" and "receiver_ok rv"
  shows "\<exists>rv'. recv_run cfg ops es rv = Some rv' \<and> receiver_ok rv'"
  using assms
proof (induction cfg ops es rv rule: recv_run.induct)
  case (2 cfg ops r es rv)
  then show ?case by (simp add: receiver_ok_def)
next
  case (3 cfg ops w es rv)
  obtain rv' where rv': "recv_step cfg ops w rv = Some rv'" "receiver_ok rv'" using recv_step_ok [OF "3.prems"] by blast
  show ?case
  proof (cases "wake_enabled w rv")
    case True
    with "3.IH"(1) [OF True rv'(1) "3.prems"(1) rv'(2)] rv' show ?thesis by simp
  next
    case False
    with "3.IH"(2) [OF False "3.prems"] show ?thesis by simp
  qed
qed simp

lemma receiver_new_ok: "distinct (map p_name (ll_peers live)) \<Longrightarrow> receiver_ok (receiver_new now acked r diag stats live)"
  by (simp add: receiver_ok_def receiver_new_def pp_new_ok)


text \<open>C23 The receive task survives whatever the network, the device and the clock do: any sequence of datagrams
  (of any bytes), socket errors, timer ticks, device changes and audio callbacks is handled, every pump
  returns, at most \<open>MAX_SENDER_STREAMS\<close> senders have a stream, each name once, and every stream
  keeps its invariants; the speaker table and the published levels never hold a name twice.\<close>

theorem receive_task_survives:
  assumes "ring_laws ops"
  shows "\<exists>rv'. recv_run cfg ops es (receiver_new now acked r diag stats ll_new) = Some rv' \<and>
    length (pe_streams (pp_engine (pc_pump (rv_ctx rv')))) \<le> MAX_SENDER_STREAMS \<and>
    distinct (map fst (pe_streams (pp_engine (pc_pump (rv_ctx rv'))))) \<and>
    list_all (\<lambda>(name, st). ss_ok st) (pe_streams (pp_engine (pc_pump (rv_ctx rv')))) \<and>
    distinct (map fst (rv_speaking rv')) \<and> distinct (map p_name (ll_peers (rv_live rv')))"
proof -
  have "receiver_ok (receiver_new now acked r diag stats ll_new)" by (rule receiver_new_ok) (simp add: ll_new_def)
  from recv_run_ok [OF assms this, of cfg es] show ?thesis
    by (auto simp: receiver_ok_def pump_ok_def pe_ok_def streams_ok_def keys_distinct_def)
qed

definition sample_cfg :: "unit recv_cfg" where
  "sample_cfg = \<lparr>rf_cipher = \<lparr>encrypt_detached = \<lambda>nonce plain. Some (plain, replicate 16 0),
       decrypt_joined = \<lambda>nonce data. if drop (length data - 16) data = replicate 16 0 then Some (take (length data - 16) data) else None\<rparr>,
     rf_decoder = Some (od_new ()), rf_opus = sample_dec, rf_log10 = \<lambda>x. x, rf_udp_token = 9, rf_own_name = ''bob'',
     rf_gains = [], rf_echo_test = False\<rparr>"

definition wake_at :: "wake \<Rightarrow> instant \<Rightarrow> wakeup" where
  "wake_at w now = \<lparr>wk_wake = w, wk_now = now, wk_device = True, wk_request = 960, wk_queued = 0\<rparr>"

lemma sample_ring_laws: "ring_laws sample_ring"
  by (simp add: ring_laws_def sample_ring_def Let_def)

theorem receive_task_survives_witness:
  "\<exists>rv'. recv_run sample_cfg sample_ring
      [Wakeup (wake_at (Datagram [1, 2, 3]) 5), Callback [], Wakeup (wake_at RecvError 6), Wakeup (wake_at DiagLog 7)]
      (receiver_new 0 False [] diag_new stats_new ll_new) = Some rv' \<and>
    length (pe_streams (pp_engine (pc_pump (rv_ctx rv')))) \<le> 16"
  using receive_task_survives [OF sample_ring_laws] by (metis MAX_SENDER_STREAMS_def)

section \<open>Only voice that opens under the channel's key is heard\<close>

text \<open>A datagram that can be played: it opens, and it is not our own packet coming back.\<close>

definition playable :: "'d recv_cfg \<Rightarrow> byte list \<Rightarrow> bool" where
  "playable cfg bytes = (case open_packet (rf_cipher cfg) bytes of
      Some (seq, name, opus) \<Rightarrow> rf_echo_test cfg \<or> name \<noteq> rf_own_name cfg
    | None \<Rightarrow> False)"

lemma ingest_unplayable:
  assumes "\<not> playable cfg bytes"
  shows "ingest cfg now bytes rv \<in> {rv, rv\<lparr>rv_registered := True\<rparr>}"
proof (cases "\<not> rv_registered rv \<and> decode_udp_hello bytes = Some (rf_udp_token cfg)")
  case False
  show ?thesis
  proof (cases "parse_voice_data bytes")
    case (Some p)
    obtain seq enc where p: "p = (seq, enc)" by fastforce
    note parsed = Some p
    show ?thesis
    proof (cases "decrypt_packet (rf_cipher cfg) enc")
      case (Some plain)
      then show ?thesis
        using assms False parsed
        by (cases "parse_packet_name plain") (auto simp: ingest_def playable_def open_packet_def)
    qed (use False parsed in \<open>simp add: ingest_def\<close>)
  qed (use False in \<open>simp add: ingest_def\<close>)
qed (simp add: ingest_def)

definition unheard :: "('d, 'r) receiver \<Rightarrow> bool" where
  "unheard rv \<longleftrightarrow> pe_streams (pp_engine (pc_pump (rv_ctx rv))) = [] \<and> rv_speaking rv = [] \<and> ll_peers (rv_live rv) = [] \<and>
    rv_levels_epoch rv = pe_levels_epoch (pp_engine (pc_pump (rv_ctx rv)))"

lemma pump_render_idle:
  assumes "pe_streams (pp_engine (pc_pump c)) = []"
  shows "pump_render dec now pull gains c = (None, c)"
  using assms by (simp add: pump_render_def render_frame_def)

lemma pump_idle:
  assumes "pe_streams (pp_engine (pc_pump c)) = []" and "pump dec dev request queued now gains c = Some (k, c')"
  shows "pp_engine (pc_pump c') = pp_engine (pc_pump c)"
proof (cases dev)
  case (Some ops)
  let ?c = "c\<lparr>pc_pump := (pc_pump c)\<lparr>pp_virtual_until := now\<rparr>\<rparr>"
  have "pump_device dec ops request queued now gains ?c = Some ?c"
    using assms(1) by (subst pump_device.simps) (simp add: pump_render_idle Let_def)
  then show ?thesis using assms(2) Some by (auto simp: pump_def)
next
  case None
  have "\<exists>u. pump_virtual dec now gains c = Some (c\<lparr>pc_pump := (pc_pump c)\<lparr>pp_virtual_until := u\<rparr>\<rparr>)"
    if "pe_streams (pp_engine (pc_pump c)) = []" for c :: "('a, 'b) pump_ctx"
  proof (cases "wants_frame (output_new (virtual_level (pp_virtual_until (pc_pump c)) now) 0)")
    case True
    then show ?thesis
      using that by (subst pump_virtual.simps) (auto simp: pump_render_idle Let_def)
  next
    case False
    then have "pump_virtual dec now gains c = Some c" by (subst pump_virtual.simps) simp
    then show ?thesis by (intro exI [of _ "pp_virtual_until (pc_pump c)"]) simp
  qed
  then have v: "pump_virtual dec now gains c = Some c' \<Longrightarrow> pp_engine (pc_pump c') = pp_engine (pc_pump c)"
    if "pe_streams (pp_engine (pc_pump c)) = []" for c c' :: "('a, 'b) pump_ctx"
    using that by fastforce
  show ?thesis
    using assms None v [of c c'] v [of "c\<lparr>pc_pump := (pc_pump c)\<lparr>pp_virtual_until := now\<rparr>\<rparr>" c']
    by (auto simp: pump_def Let_def split: if_splits)
qed

lemma pump_and_publish_unheard:
  assumes "unheard rv" and "pump_and_publish cfg ops w rv = Some rv'"
  shows "unheard rv'"
proof -
  obtain k c where c: "pump (rf_opus cfg) (if wk_device w then Some ops else None) (wk_request w) (wk_queued w) (wk_now w)
      (rf_gains cfg) (rv_ctx rv) = Some (k, c)" using assms(2) by (auto simp: pump_and_publish_def split: option.splits)
  have "pp_engine (pc_pump c) = pp_engine (pc_pump (rv_ctx rv))"
    using pump_idle [OF _ c] assms(1) by (simp add: unheard_def)
  then show ?thesis
    using assms c by (auto simp: pump_and_publish_def unheard_def pp_levels_epoch_def Let_def)
qed

lemma recv_step_unheard:
  assumes "unheard rv" and "recv_step cfg ops w rv = Some rv'"
    and "\<And>sent. wk_wake w = Datagram sent \<Longrightarrow> \<not> playable cfg (take RECV_BUF sent)"
  shows "unheard rv'"
proof (cases "wk_wake w")
  case (Datagram sent)
  have "unheard (ingest cfg (wk_now w) (take RECV_BUF sent) (rv\<lparr>rv_bytes_rx := b\<rparr>))" for b
    using ingest_unplayable [OF assms(3) [OF Datagram], of "wk_now w" "rv\<lparr>rv_bytes_rx := b\<rparr>"] assms(1)
    by (auto simp: unheard_def)
  then show ?thesis using assms(2) Datagram
    by (simp add: recv_step_def Let_def) (rule pump_and_publish_unheard)
next
  case DiagLog
  then show ?thesis using assms(1,2) by (auto simp: recv_step_def log_glitches_def Let_def unheard_def)
qed (use assms(1,2) pump_and_publish_unheard in \<open>auto simp: recv_step_def\<close>)

text \<open>C24 Nobody without the channel's key is heard: as long as no datagram opens under the key with
  somebody else's name (ours counts only in a sound check), whatever bytes arrive and whenever, no stream is
  created, nothing is rendered, nobody is shown as speaking and no level is published.\<close>

theorem only_authentic_voice_plays:
  assumes "recv_run cfg ops es (receiver_new now acked r diag stats ll_new) = Some rv'"
    and "list_all (\<lambda>e. case e of Wakeup w \<Rightarrow> (case wk_wake w of Datagram sent \<Rightarrow> \<not> playable cfg (take RECV_BUF sent) | _ \<Rightarrow> True)
      | Callback ring \<Rightarrow> True) es"
  shows "pe_streams (pp_engine (pc_pump (rv_ctx rv'))) = [] \<and> rv_speaking rv' = [] \<and> ll_peers (rv_live rv') = []"
proof -
  have "unheard rv'" if "recv_run cfg ops es rv = Some rv'" "unheard rv"
    "list_all (\<lambda>e. case e of Wakeup w \<Rightarrow> (case wk_wake w of Datagram sent \<Rightarrow> \<not> playable cfg (take RECV_BUF sent) | _ \<Rightarrow> True)
      | Callback ring \<Rightarrow> True) es" for rv
    using that
  proof (induction cfg ops es rv rule: recv_run.induct)
    case (2 cfg ops r es rv)
    then show ?case by (simp add: unheard_def)
  next
    case (3 cfg ops w es rv)
    show ?case
    proof (cases "wake_enabled w rv")
      case True
      obtain rv1 where s: "recv_step cfg ops w rv = Some rv1"
        using "3.prems"(1) True by (auto split: option.splits)
      have "unheard rv1" by (rule recv_step_unheard [OF "3.prems"(2) s]) (use "3.prems"(3) in simp)
      with "3.IH"(1) [OF True s] "3.prems"(1,3) True s show ?thesis by simp
    next
      case False
      with "3.IH"(2) [OF False] "3.prems" show ?thesis by simp
    qed
  qed simp
  from this [OF assms(1) _ assms(2)] show ?thesis
    by (simp add: unheard_def receiver_new_def pp_new_def pe_new_def ll_new_def pp_levels_epoch_def Let_def)
qed

theorem only_authentic_voice_plays_witness:
  "\<exists>rv'. recv_run sample_cfg sample_ring [Wakeup (wake_at (Datagram (replicate 80 7)) 5), Wakeup (wake_at RecvError 6)]
      (receiver_new 0 False [] diag_new stats_new ll_new) = Some rv' \<and> pe_streams (pp_engine (pc_pump (rv_ctx rv'))) = []"
proof -
  let ?es = "[Wakeup (wake_at (Datagram (replicate 80 7)) 5), Wakeup (wake_at RecvError 6)]"
  obtain rv' where r: "recv_run sample_cfg sample_ring ?es (receiver_new 0 False [] diag_new stats_new ll_new) = Some rv'"
    using recv_run_ok [OF sample_ring_laws receiver_new_ok [of ll_new 0 False "[]" diag_new stats_new], of sample_cfg ?es]
    by (auto simp: ll_new_def)
  have "decrypt_packet (rf_cipher sample_cfg) d = None" if "set d \<subseteq> {7}" for d
  proof -
    have "drop k (drop n d) \<noteq> replicate 16 0" for k n
    proof
      assume e: "drop k (drop n d) = replicate 16 0"
      have "set (drop k (drop n d)) \<subseteq> set d" by (meson set_drop_subset order_trans)
      then have "(0 :: byte) \<in> {7}" using that unfolding e by auto
      then show False by simp
    qed
    then show ?thesis by (simp add: decrypt_packet_def sample_cfg_def)
  qed
  then have "open_packet (rf_cipher sample_cfg) (replicate 80 7) = None"
    by (auto simp: open_packet_def parse_voice_data_def Let_def split: option.split)
  then have "\<not> playable sample_cfg (take RECV_BUF (replicate 80 7))"
    by (simp add: playable_def RECV_BUF_def config_defs)
  then have "pe_streams (pp_engine (pc_pump (rv_ctx rv'))) = []"
    using only_authentic_voice_plays [OF r] by (simp add: wake_at_def)
  with r show ?thesis by blast
qed

section \<open>Hellos\<close>

lemma rehello_delays: "d \<le> 5000 \<Longrightarrow> rehello d flags = map (\<lambda>i. min (d * 2 ^ i) 5000) [0..<length (takeWhile Not flags)]"
proof (induction flags arbitrary: d)
  case (Cons f flags)
  show ?case
  proof (cases f)
    case False
    have "min (min (d * 2) 5000 * 2 ^ i) 5000 = min (d * 2 ^ Suc i) (5000 :: nat)" for i
    proof (cases "d * 2 \<le> 5000")
      case False
      have one: "1 \<le> (2 :: nat) ^ i" by simp
      have "5000 * 1 \<le> d * 2 * 2 ^ i" using False by (intro mult_le_mono one) simp
      moreover have "5000 * 1 \<le> 5000 * (2 :: nat) ^ i" by (intro mult_le_mono one) simp
      ultimately show ?thesis using False by (simp add: min_absorb2 mult.assoc)
    qed (simp add: min_absorb1 mult.assoc)
    then show ?thesis using Cons.IH [of "min (d * 2) 5000"] Cons.prems False
      by (simp add: UDP_REHELLO_MAX_MS_def upt_conv_Cons map_Suc_upt [symmetric] del: upt_Suc)
  qed simp
qed simp


lemma handshake_cases:
  "hello_attempts token attempts = (sent, res) \<Longrightarrow>
    length sent \<le> length attempts \<and> set sent \<subseteq> {encode_udp_hello token} \<and>
    (res = Some True \<longrightarrow> (\<exists>(sent_ok, answer) \<in> set attempts. \<exists>bytes. answer = Some bytes \<and> decode_udp_hello (take 16 bytes) = Some token)) \<and>
    (res = Some False \<longrightarrow> length sent = length attempts)"
proof (induction attempts arbitrary: sent res)
  case (Cons a attempts)
  obtain sent_ok answer where a: "a = (sent_ok, answer)" by (cases a)
  obtain s r where s: "hello_attempts token attempts = (s, r)" by (cases "hello_attempts token attempts")
  from Cons.IH [OF s] Cons.prems a s show ?case
    by (auto simp: Let_def split: if_splits option.splits)
qed simp

text \<open>Registering by UDP: the handshake sends at most three hellos, all alike, and reports success only if one of
  the answers was exactly our token's hello; without an answer it has sent all three and reports that. The re-hello task
  then keeps trying until it is told to stop, after 1, 2, 4 and from then on every 5 seconds.\<close>

theorem hello_schedule:
  assumes "udp_handshake token net = (sent, res)"
  shows "length sent \<le> UDP_HELLO_RETRIES \<and> set sent \<subseteq> {encode_udp_hello token} \<and>
    (res = Some True \<longrightarrow> (\<exists>i < UDP_HELLO_RETRIES. \<exists>bytes. snd (net i) = Some bytes \<and> decode_udp_hello (take 16 bytes) = Some token)) \<and>
    (res = Some False \<longrightarrow> length sent = UDP_HELLO_RETRIES) \<and>
    rehello_task flags = map (\<lambda>i. min (UDP_REHELLO_BASE_MS * 2 ^ i) UDP_REHELLO_MAX_MS) [0..<length (takeWhile Not flags)]"
  using handshake_cases [OF assms [unfolded udp_handshake_def]] rehello_delays [of UDP_REHELLO_BASE_MS flags]
  by (force simp: rehello_task_def UDP_REHELLO_BASE_MS_def UDP_REHELLO_MAX_MS_def)

theorem hello_schedule_witness:
  "rehello_task [False, False, False, False, False, True] = [1000, 2000, 4000, 5000, 5000] \<and>
    length (fst (udp_handshake 9 (\<lambda>i. (True, None)))) = 3"
proof -
  obtain sent res where h: "udp_handshake 9 (\<lambda>i. (True, None)) = (sent, res)" by fastforce
  moreover have "res = Some False" using h by (auto simp: udp_handshake_def UDP_HELLO_RETRIES_def numeral_3_eq_3 Let_def)
  ultimately show ?thesis
    using hello_schedule [OF h, of "[False, False, False, False, False, True]"]
    by (simp add: config_defs upt_rec)
qed

end
