(* ===== verification/Voice_Path.thy ===== *)
theory Voice_Path
  imports Voice_Send Voice_Receive Server_Udp
begin

text \<open>
  The way of one voice frame through the whole program: the capture thread of one client
  (\<open>Voice_Send\<close>), the relay (\<open>Server_Udp\<close>) and the receive task of another (\<open>Voice_Receive\<close>).
\<close>

lemma relay_forwards:
  assumes "server_ok s" and "decode_udp_hello data = None" and "parse_channel_id data = Some ch"
  shows "\<exists>targets s'. relay_datagram now data src s = (FanOut targets data, s') \<and> distinct targets \<and>
    set targets = set (participants s ch) - {if starts_with ECHO_CHANNEL_PREFIX ch then ECHO_NO_EXCLUDE else src}"
proof -
  let ?x = "if starts_with ECHO_CHANNEL_PREFIX ch then ECHO_NO_EXCLUDE else src"
  have t: "relay_targets_of ch src s = fill_channel_peers ch ?x s" by (simp add: relay_targets_of_def)
  from relay_targets_facts [OF assms(1), of ch ?x]
  have "distinct (relay_targets_of ch src s)" "set (relay_targets_of ch src s) = set (participants s ch) - {?x}"
    unfolding t by blast+
  then show ?thesis using assms(2,3) by (auto simp: relay_datagram_def Let_def)
qed

lemma send_one_packet:
  assumes "send_one env True frame st = (ok, st')" and "ct_sent st' = ct_sent st @ [packet]"
  shows "\<exists>opus e nonce g. oe_encode (ce_lib env) frame (ct_encoder st) = (Some opus, e) \<and> ce_nonce env (ct_nonces st) = (nonce, g) \<and>
    build_packet (ce_cipher env) nonce (ct_sequence st) (ce_channel env) (ce_name_bytes env) opus = Some packet"
  using assms by (auto simp: send_one_def Let_def split: prod.splits option.splits)

lemma ingest_opened:
  assumes "open_packet (rf_cipher cfg) packet = Some (seq, name, opus)" and "decode_udp_hello packet = None"
    and "rf_echo_test cfg \<or> name \<noteq> rf_own_name cfg"
  shows "ingest cfg now packet rv = rv\<lparr>rv_registered := True, rv_speaking := record_speaker name now (rv_speaking rv),
    rv_ctx := buffer_packet cfg name seq opus now (rv_ctx rv)\<rparr>"
  using assms by (auto simp: ingest_def open_packet_def Let_def split: option.splits)

text \<open>C21 A spoken frame reaches the others' playout, end to end: what the capture thread of a client hands to the network
  for a frame, the relay of any reachable server passes on unchanged to exactly the registered members of the channel
  other than its source, and every receiver that holds the channel's key and is not the speaker buffers the
  very bytes the encoder produced, under the speaker's name and the number they were sent with, and shows the speaker as
  active. (In an echo channel the speaker is a receiver too.)\<close>

theorem voice_end_to_end:
  assumes "reachable L (s, r)" and "cipher_laws (ce_cipher env)" and "length (fst (ce_nonce env (ct_nonces st))) = XCHACHA20_NONCE_SIZE"
    and "length (ce_channel env) \<le> 255" and "is_utf8 (ce_channel env)"
    and "ce_name_bytes env = name_prefix name" and "length name \<le> 255" and "is_utf8 name" and "ct_sequence st \<noteq> 0"
    and "send_one env True frame st = (True, st')" and "ct_sent st' = ct_sent st @ [packet]"
    and "rf_cipher cfg = ce_cipher env" and "rf_echo_test cfg \<or> name \<noteq> rf_own_name cfg"
  shows "\<exists>opus targets s'. fst (oe_encode (ce_lib env) frame (ct_encoder st)) = Some opus \<and>
    relay_datagram now packet src s = (FanOut targets packet, s') \<and> distinct targets \<and>
    set targets = set (participants s (ce_channel env)) -
      {if starts_with ECHO_CHANNEL_PREFIX (ce_channel env) then ECHO_NO_EXCLUDE else src} \<and>
    ingest cfg later packet rv = rv\<lparr>rv_registered := True, rv_speaking := record_speaker name later (rv_speaking rv),
      rv_ctx := buffer_packet cfg name (ct_sequence st) opus later (rv_ctx rv)\<rparr>"
proof -
  obtain opus e nonce g where b: "oe_encode (ce_lib env) frame (ct_encoder st) = (Some opus, e)"
    "ce_nonce env (ct_nonces st) = (nonce, g)"
    "build_packet (ce_cipher env) nonce (ct_sequence st) (ce_channel env) (name_prefix name) opus = Some packet"
    using send_one_packet [OF assms(10,11)] assms(6) by auto
  have n: "length nonce = XCHACHA20_NONCE_SIZE" using assms(3) b(2) by simp
  note addr = built_addressed [OF b(3) n assms(4,5)]
  have h: "decode_udp_hello packet = None" using addr(2) by (simp add: decode_udp_hello_def UDP_HELLO_SIZE_def)
  from relay_forwards [OF reachableD [OF assms(1)] h addr(1), of now src] obtain targets s' where
    "relay_datagram now packet src s = (FanOut targets packet, s')" "distinct targets"
    "set targets = set (participants s (ce_channel env)) -
      {if starts_with ECHO_CHANNEL_PREFIX (ce_channel env) then ECHO_NO_EXCLUDE else src}" by blast
  moreover have "open_packet (rf_cipher cfg) packet = Some (ct_sequence st, name, opus)"
    unfolding assms(12) by (rule open_built [OF assms(2) n assms(9,4,7,8) b(3)])
  ultimately show ?thesis using ingest_opened [OF _ h assms(13)] b(1) by fastforce
qed

theorem voice_end_to_end_witness:
  "\<exists>packet s' rv'. relay_datagram 9 packet bob sample_voice = (FanOut [alice_udp] packet, s') \<and>
    ingest sample_cfg 11 packet (receiver_new 0 True [] diag_new stats_new ll_new :: (unit, rat list) receiver) = rv' \<and>
    map fst (rv_speaking rv') = [''ann'']"
proof -
  define env where "env = sample_env\<lparr>ce_channel := lobby\<rparr>"
  define packet where "packet = the (build_packet sample_cipher (replicate 24 0) 1 lobby (name_prefix ''ann'') [1, 2, 3])"
  let ?rv = "receiver_new 0 True [] diag_new stats_new ll_new :: (unit, rat list) receiver"
  obtain st' where s: "send_one env True [1 / 2] sample_capture = (True, st')" "ct_sent st' = ct_sent sample_capture @ [packet]"
    by (simp add: send_one_def env_def sample_env_def sample_lib_def oe_encode_def sample_capture_def build_packet_def
        sample_cipher_def packet_def Let_def)
  have "is_utf8 ''ann''" by (rule is_utf8_ascii) (simp add: ascii_def)
  moreover have "cipher_laws (ce_cipher env)" using sample_cipher_laws by (simp add: env_def sample_env_def)
  moreover have "rf_cipher sample_cfg = ce_cipher env" by (simp add: sample_cfg_def env_def sample_env_def sample_cipher_def)
  ultimately obtain opus targets s' where e: "relay_datagram 9 packet bob sample_voice = (FanOut targets packet, s')"
    "distinct targets" "set targets = set (participants sample_voice lobby) -
      {if starts_with ECHO_CHANNEL_PREFIX lobby then ECHO_NO_EXCLUDE else bob}"
    "ingest sample_cfg 11 packet ?rv = ?rv\<lparr>rv_registered := True, rv_speaking := record_speaker ''ann'' 11 (rv_speaking ?rv),
      rv_ctx := buffer_packet sample_cfg ''ann'' 1 opus 11 (rv_ctx ?rv)\<rparr>"
    using voice_end_to_end [OF sample_voice_reachable _ _ _ _ _ _ _ _ s, of "''ann''" sample_cfg 9 bob 11 ?rv] is_utf8_lobby
    by (auto simp: env_def sample_env_def sample_capture_def sample_cfg_def XCHACHA20_NONCE_SIZE_def lobby_def)
  have "\<not> starts_with ECHO_CHANNEL_PREFIX lobby" by (simp add: starts_with_def config_defs lobby_def)
  moreover have "participants sample_voice lobby = [alice_udp]" by (simp add: participants_def sample_voice_eq)
  moreover have "{alice_udp} - {bob} = {alice_udp}" by (simp add: alice_udp_def bob_def)
  ultimately have "set targets = {alice_udp}" using e(3) by simp
  then have "targets = [alice_udp]" using e(2)
    by (metis distinct_card card_1_singleton_iff length_0_conv length_Suc_conv list.set_intros(1) singletonD One_nat_def)
  moreover have "map fst (rv_speaking (ingest sample_cfg 11 packet ?rv)) = [''ann'']"
    unfolding e(4) by (simp add: receiver_new_def record_speaker_def)
  ultimately show ?thesis using e(1) by (intro exI [of _ packet] exI [of _ s'] exI conjI refl) simp_all
qed

end
