(* ===== verification/Audio_Playback.thy ===== *)
theory Audio_Playback
  imports Playout
begin

text \<open>
  \<^verbatim>\<open>crates/client/src/audio.rs\<close>, the output side: the linear resampler, the wrapper of the sinc resampler, the
  playback queue with its ramps, and the body of the output callback. The sinc resampler (\<^verbatim>\<open>rubato\<close>) and the ring are outside
  the repository: one is a parameter \<open>sinc\<close>, of the other the consumer's \<open>pop_slice\<close> joins the operations of \<open>ring_ops\<close>.
\<close>

subsection \<open>Resampling\<close>

definition resample_at :: "rat list \<Rightarrow> rat \<Rightarrow> nat \<Rightarrow> rat" where
  "resample_at input ratio i =
    (let src = f64_mul (f64 (of_nat i)) ratio; idx = nat \<lfloor>src\<rfloor>; frac = f64_sub src (f64 (of_nat idx)) in
     f32 (if idx + 1 < length input
          then f64_add (f64_mul (input ! idx) (f64_sub 1 frac)) (f64_mul (input ! (idx + 1)) frac)
          else if idx < length input then input ! idx else 0))"

definition resample_into :: "rat list \<Rightarrow> nat \<Rightarrow> nat \<Rightarrow> rat list" where
  "resample_into input from_rate to_rate =
    (if from_rate = to_rate \<or> input = [] then input
     else
       (let ratio = f64_div (f64 (of_nat from_rate)) (f64 (of_nat to_rate));
            out_len = nat \<lceil>f64_div (f64 (of_nat (length input))) ratio\<rceil>
        in map (resample_at input ratio) [0..<out_len]))"

text \<open>The sinc resampler takes chunks of the size its input buffer was made for.\<close>

type_synonym 'z sinc = "rat list \<Rightarrow> 'z \<Rightarrow> rat list option \<times> 'z"

record 'z sinc_resampler =
  sr_inner :: 'z
  sr_input :: "rat list"

definition sr_try_process :: "'z sinc \<Rightarrow> rat list \<Rightarrow> 'z sinc_resampler \<Rightarrow> rat list option \<times> 'z sinc_resampler" where
  "sr_try_process sinc input sr =
    (let n = min (length input) (length (sr_input sr));
         buf = take n input @ drop n (sr_input sr);
         (out, z) = sinc buf (sr_inner sr)
     in (out, sr\<lparr>sr_inner := z, sr_input := buf\<rparr>))"

definition sr_process :: "'z sinc \<Rightarrow> rat list \<Rightarrow> 'z sinc_resampler \<Rightarrow> rat list \<times> 'z sinc_resampler" where
  "sr_process sinc input sr = (case sr_try_process sinc input sr of
      (Some out, sr) \<Rightarrow> (out, sr) | (None, sr) \<Rightarrow> ([], sr))"

subsection \<open>The queue\<close>

record playback_queue =
  pq_buf :: "rat list"
  pq_fade :: nat
  pq_silent :: bool

definition pq_new :: "nat \<Rightarrow> playback_queue" where
  "pq_new device_rate = \<lparr>pq_buf = [], pq_fade = max (device_rate * PLAYBACK_FADE_MS div 1000) 1, pq_silent = True\<rparr>"

definition pq_extend :: "rat list \<Rightarrow> playback_queue \<Rightarrow> playback_queue" where
  "pq_extend samples q = q\<lparr>pq_buf := pq_buf q @ samples\<rparr>"

text \<open>The weight of the \<open>i\<close>-th sample of a ramp of length \<open>n\<close>.\<close>

definition ramp :: "nat \<Rightarrow> nat \<Rightarrow> rat" where
  "ramp i n = f32_div (f32 (of_nat (i + 1))) (f32 (of_nat (n + 1)))"

definition splice :: "nat \<Rightarrow> nat \<Rightarrow> nat \<Rightarrow> rat list \<Rightarrow> rat list" where
  "splice excess f i buf =
    buf[excess + i := f32_add (f32_mul (buf ! i) (f32_sub 1 (ramp i f))) (f32_mul (buf ! (excess + i)) (ramp i f))]"

definition pq_trim_to :: "nat \<Rightarrow> playback_queue \<Rightarrow> nat \<times> playback_queue" where
  "pq_trim_to cap q =
    (if length (pq_buf q) \<le> cap then (0, q)
     else
       (let excess = length (pq_buf q) - cap; f = min (min (pq_fade q) excess) cap;
            buf = fold (splice excess f) [0..<f] (pq_buf q)
        in (excess, q\<lparr>pq_buf := drop excess buf\<rparr>)))"

text \<open>One sample of a read of \<open>available\<close> samples, faded where the read borders on silence.\<close>

definition faded :: "nat \<Rightarrow> bool \<Rightarrow> bool \<Rightarrow> nat \<Rightarrow> nat \<Rightarrow> rat \<Rightarrow> rat" where
  "faded fade fade_in fade_out available i sample =
    (let s = (if fade_in \<and> i < fade then f32_mul sample (ramp i fade) else sample);
         remaining = available - 1 - i
     in if fade_out \<and> remaining < fade then f32_mul s (ramp remaining fade) else s)"

definition pq_read :: "nat \<Rightarrow> nat \<Rightarrow> playback_queue \<Rightarrow> rat list" where
  "pq_read available needed q =
    (let fade_in = (pq_silent q \<and> 0 < available); fade_out = (available < needed \<and> 0 < available) in
     map (\<lambda>(i, sample). faded (pq_fade q) fade_in fade_out available i sample) (enumerate 0 (take available (pq_buf q))))"

definition upmix :: "nat \<Rightarrow> rat list \<Rightarrow> rat list" where
  "upmix channels samples = (if 1 < channels then concat (map (replicate channels) samples) else samples)"

definition pq_fill :: "rat list \<Rightarrow> nat \<Rightarrow> playback_queue \<Rightarrow> bool \<times> rat list \<times> playback_queue" where
  "pq_fill data channels q =
    (let needed = length data div max channels 1;
         available = min (length (pq_buf q)) needed;
         data = take (available * channels) (upmix channels (pq_read available needed q)) @
           replicate (length data - available * channels) 0;
         dry = (available < needed \<and> (0 < available \<or> \<not> pq_silent q))
     in (dry, data, q\<lparr>pq_buf := drop available (pq_buf q), pq_silent := (available < needed)\<rparr>))"

subsection \<open>The callback\<close>

record playout_signals =
  sg_queued :: nat
  sg_request :: nat
  sg_playing :: nat

record 'z playback_renderer =
  pb_queue :: playback_queue
  pb_sinc :: "'z sinc_resampler option"
  pb_need_resample :: bool
  pb_device_rate :: nat
  pb_channels :: nat

text \<open>\<open>mk\<close> is what building the sinc resampler yields.\<close>

definition pb_new :: "'z sinc_resampler option \<Rightarrow> nat \<Rightarrow> nat \<Rightarrow> 'z playback_renderer" where
  "pb_new mk device_rate channels =
    (let need_resample = (device_rate \<noteq> SAMPLE_RATE) in
     \<lparr>pb_queue = pq_new device_rate, pb_sinc = (if need_resample then mk else None), pb_need_resample = need_resample,
      pb_device_rate = device_rate, pb_channels = channels\<rparr>)"

definition to_device :: "nat \<Rightarrow> 'z playback_renderer \<Rightarrow> nat" where
  "to_device samples48 pb = (if pb_need_resample pb then samples48 * pb_device_rate pb div SAMPLE_RATE else samples48)"

definition to_48k :: "nat \<Rightarrow> 'z playback_renderer \<Rightarrow> nat" where
  "to_48k device_samples pb =
    (if pb_need_resample pb then device_samples * SAMPLE_RATE div pb_device_rate pb else device_samples)"

definition pb_enqueue :: "'z sinc \<Rightarrow> rat \<Rightarrow> rat list \<Rightarrow> 'z playback_renderer \<Rightarrow> 'z playback_renderer" where
  "pb_enqueue sinc vol frame pb =
    (let frame = (if vol \<noteq> 1 then map (\<lambda>s. f32_mul s vol) frame else frame);
         (out, pb) = (case pb_sinc pb of
             None \<Rightarrow> (None, pb)
           | Some sr \<Rightarrow> (let (out, sr) = sr_try_process sinc frame sr in (out, pb\<lparr>pb_sinc := Some sr\<rparr>)));
         samples = (case out of
             Some out \<Rightarrow> out
           | None \<Rightarrow> if pb_need_resample pb then resample_into frame SAMPLE_RATE (pb_device_rate pb) else frame)
     in pb\<lparr>pb_queue := pq_extend samples (pb_queue pb)\<rparr>)"

text \<open>Drain the ring in whole frames; \<open>None\<close> is a loop that does not end.\<close>

partial_function (option) pb_drain ::
    "'z sinc \<Rightarrow> 'r ring_ops \<Rightarrow> (nat \<Rightarrow> 'r \<Rightarrow> rat list \<times> 'r) \<Rightarrow> rat \<Rightarrow> 'r \<Rightarrow> 'z playback_renderer \<Rightarrow>
     ('r \<times> 'z playback_renderer) option" where
  "pb_drain sinc ops pop vol r pb =
    (if FRAME_SIZE \<le> occupied_len ops r
     then (let (frame, r) = pop FRAME_SIZE r in pb_drain sinc ops pop vol r (pb_enqueue sinc vol frame pb))
     else Some (r, pb))"

definition pb_output ::
    "(rat \<Rightarrow> rat) \<Rightarrow> rat list \<Rightarrow> audio_diagnostics \<Rightarrow> playout_signals \<Rightarrow> 'z playback_renderer \<Rightarrow>
     rat list \<times> audio_diagnostics \<times> playout_signals \<times> 'z playback_renderer" where
  "pb_output tanhf data diag sg pb =
    (let (trimmed, q) = pq_trim_to (to_device PLAYBACK_SAFETY_CAP pb) (pb_queue pb);
         diag = (if 0 < trimmed then diag\<lparr>playback_trimmed_samples := playback_trimmed_samples diag + of_nat trimmed\<rparr> else diag);
         request = length data div max (pb_channels pb) 1;
         (dry, data, q) = pq_fill data (pb_channels pb) q;
         diag = (if dry then
             (let diag = diag\<lparr>playback_dry := playback_dry diag + 1\<rparr> in
              if 0 < sg_playing sg then diag\<lparr>output_starved := output_starved diag + 1\<rparr> else diag)
           else diag);
         pb = pb\<lparr>pb_queue := q\<rparr>;
         sg = sg\<lparr>sg_queued := to_48k (length (pq_buf q)) pb mod 2 ^ 32,
                 sg_request := max (sg_request sg) (to_48k request pb mod 2 ^ 32)\<rparr>;
         (limited, data) = limit_in_place tanhf data;
         diag = (if limited then diag\<lparr>limiter_playback := limiter_playback diag + 1\<rparr> else diag)
     in (data, diag, sg, pb))"

definition pb_render ::
    "(rat \<Rightarrow> rat) \<Rightarrow> 'z sinc \<Rightarrow> 'r ring_ops \<Rightarrow> (nat \<Rightarrow> 'r \<Rightarrow> rat list \<times> 'r) \<Rightarrow> rat \<Rightarrow> rat list \<Rightarrow> 'r \<Rightarrow>
     audio_diagnostics \<Rightarrow> playout_signals \<Rightarrow> 'z playback_renderer \<Rightarrow>
     ('r \<times> rat list \<times> audio_diagnostics \<times> playout_signals \<times> 'z playback_renderer) option" where
  "pb_render tanhf sinc ops pop vol data r diag sg pb =
    (case pb_drain sinc ops pop vol r pb of
       None \<Rightarrow> None
     | Some (r, pb) \<Rightarrow> Some (r, pb_output tanhf data diag sg pb))"


section \<open>The queue's edits\<close>

lemma splice_length [simp]: "length (splice excess f i buf) = length buf"
  by (simp add: splice_def)

lemma fold_splice_length [simp]: "length (fold (splice excess f) is buf) = length buf"
  by (induction "is" arbitrary: buf) simp_all

lemma splice_other: "j \<noteq> excess + i \<Longrightarrow> splice excess f i buf ! j = buf ! j"
  by (simp add: splice_def)

lemma fold_splice_other: "\<forall>i\<in>set is. j \<noteq> excess + i \<Longrightarrow> fold (splice excess f) is buf ! j = buf ! j"
  by (induction "is" arbitrary: buf) (simp_all add: splice_other)

text \<open>Trimming returns what it drops, keeps the newest \<open>cap\<close> samples, and beyond the ramp keeps them as they are.\<close>

lemma trim_effect:
  assumes "pq_trim_to cap q = (excess, q')"
  shows "excess = length (pq_buf q) - cap" and "length (pq_buf q') = min (length (pq_buf q)) cap"
    and "drop (pq_fade q) (pq_buf q') = drop (excess + pq_fade q) (pq_buf q)"
    and "pq_fade q' = pq_fade q" and "pq_silent q' = pq_silent q"
    and "length (pq_buf q) \<le> cap \<Longrightarrow> q' = q"
proof -
  have newest: "drop (pq_fade q) (drop e (fold (splice e f) [0..<f] (pq_buf q))) = drop (e + pq_fade q) (pq_buf q)"
    if "f \<le> pq_fade q" for e f
  proof (rule nth_equalityI)
    fix j
    assume "j < length (drop (pq_fade q) (drop e (fold (splice e f) [0..<f] (pq_buf q))))"
    then have "e + (pq_fade q + j) < length (pq_buf q)" by simp
    moreover have "\<forall>i\<in>set [0..<f]. e + (pq_fade q + j) \<noteq> e + i" using that by simp
    ultimately show "drop (pq_fade q) (drop e (fold (splice e f) [0..<f] (pq_buf q))) ! j = drop (e + pq_fade q) (pq_buf q) ! j"
      by (simp add: fold_splice_other add.assoc add.left_commute)
  qed simp
  have "excess = length (pq_buf q) - cap \<and> length (pq_buf q') = cap \<and>
      drop (pq_fade q) (pq_buf q') = drop (excess + pq_fade q) (pq_buf q) \<and> pq_fade q' = pq_fade q \<and> pq_silent q' = pq_silent q"
    if long: "\<not> length (pq_buf q) \<le> cap"
  proof -
    define e f where "e = length (pq_buf q) - cap" and "f = min (min (pq_fade q) e) cap"
    have "excess = e" "q' = q\<lparr>pq_buf := drop e (fold (splice e f) [0..<f] (pq_buf q))\<rparr>"
      using assms long by (auto simp: pq_trim_to_def Let_def e_def f_def)
    moreover have "length (pq_buf q) - e = cap" using long by (simp add: e_def)
    ultimately show ?thesis using newest [of f e] by (simp add: f_def flip: e_def)
  qed
  moreover have "length (pq_buf q) \<le> cap \<Longrightarrow> excess = 0 \<and> q' = q" using assms by (simp add: pq_trim_to_def)
  ultimately show "excess = length (pq_buf q) - cap" "length (pq_buf q') = min (length (pq_buf q)) cap"
    "drop (pq_fade q) (pq_buf q') = drop (excess + pq_fade q) (pq_buf q)"
    "pq_fade q' = pq_fade q" "pq_silent q' = pq_silent q" "length (pq_buf q) \<le> cap \<Longrightarrow> q' = q"
    using assms by (cases "length (pq_buf q) \<le> cap"; simp)+
qed

lemma upmix_length: "channels \<noteq> 0 \<Longrightarrow> length (upmix channels xs) = length xs * channels"
  by (cases "channels = 1"; induction xs) (auto simp: upmix_def)

lemma upmix_replicate: "channels \<noteq> 0 \<Longrightarrow> upmix channels xs = concat (map (replicate channels) xs)"
  by (cases "channels = 1"; induction xs) (simp_all add: upmix_def)

lemma pq_read_length: "length (pq_read available needed q) = min (length (pq_buf q)) available"
  by (simp add: pq_read_def Let_def)

lemma pq_read_plain:
  assumes "\<not> pq_silent q"
  shows "pq_read n n q = take n (pq_buf q)"
proof -
  have "faded (pq_fade q) False False n i s = s" for i s by (simp add: faded_def)
  then show ?thesis
    using assms by (simp add: pq_read_def case_prod_beta' flip: map_map [unfolded comp_def])
qed

text \<open>A read: the length of the buffer is kept, the queue loses what was read, and a read is dry when it
  falls short, unless it only continues a silence.\<close>

lemma fill_effect:
  assumes "pq_fill data channels q = (dry, out, q')"
  defines "n \<equiv> length data div max channels 1"
  shows "length out = length data" and "pq_buf q' = drop (min (length (pq_buf q)) n) (pq_buf q)"
    and "pq_fade q' = pq_fade q" and "pq_silent q' = (length (pq_buf q) < n)"
    and "dry = (length (pq_buf q) < n \<and> (pq_buf q \<noteq> [] \<or> \<not> pq_silent q))"
proof -
  let ?a = "min (length (pq_buf q)) n"
  have eqs: "out = take (?a * channels) (upmix channels (pq_read ?a n q)) @ replicate (length data - ?a * channels) 0"
    "pq_buf q' = drop ?a (pq_buf q)" "pq_fade q' = pq_fade q" "pq_silent q' = (?a < n)"
    "dry = (?a < n \<and> (0 < ?a \<or> \<not> pq_silent q))"
    using assms(1) unfolding pq_fill_def Let_def n_def by auto
  show "length out = length data"
  proof (cases "channels = 0")
    case False
    then have "n * channels \<le> length data" by (simp add: n_def max_def)
    then have "?a * channels \<le> length data" by (meson le_trans min.cobounded2 mult_le_mono1)
    then show ?thesis using False by (simp add: eqs(1) upmix_length pq_read_length)
  qed (simp add: eqs(1))
  show "pq_buf q' = drop (min (length (pq_buf q)) n) (pq_buf q)" "pq_fade q' = pq_fade q" "pq_silent q' = (length (pq_buf q) < n)"
    "dry = (length (pq_buf q) < n \<and> (pq_buf q \<noteq> [] \<or> \<not> pq_silent q))"
    using eqs by auto
qed

text \<open>A read that is served in full and follows no silence is the plain samples, once per channel.\<close>

lemma fill_plain:
  assumes "pq_fill data channels q = (dry, out, q')" and "0 < channels" and "length data = n * channels"
    and "n \<le> length (pq_buf q)" and "\<not> pq_silent q"
  shows "out = concat (map (replicate channels) (take n (pq_buf q)))" and "\<not> dry"
proof -
  have n: "length data div max channels 1 = n" using assms(2,3) by (simp add: max_def)
  have a: "min (length (pq_buf q)) n = n" using assms(4) by simp
  have "out = take (n * channels) (upmix channels (pq_read n n q))" "\<not> dry"
    using assms(1,3) unfolding pq_fill_def Let_def n a by auto
  moreover have "length (upmix channels (take n (pq_buf q))) = n * channels"
    using assms(2,4) by (simp add: upmix_length)
  ultimately show "out = concat (map (replicate channels) (take n (pq_buf q)))" "\<not> dry"
    using assms(2,5) by (simp_all add: pq_read_plain upmix_replicate)
qed

section \<open>The callback\<close>

text \<open>What the callback uses of the ring: it holds a list of samples, of which \<open>pop_slice\<close> takes the oldest.\<close>

definition pop_laws :: "'r ring_ops \<Rightarrow> (nat \<Rightarrow> 'r \<Rightarrow> rat list \<times> 'r) \<Rightarrow> ('r \<Rightarrow> rat list) \<Rightarrow> bool" where
  "pop_laws ops pop cont \<longleftrightarrow> (\<forall>r. occupied_len ops r = length (cont r) \<and>
     (\<forall>n. fst (pop n r) = take n (cont r) \<and> cont (snd (pop n r)) = drop n (cont r)))"

definition volume :: "rat \<Rightarrow> rat \<Rightarrow> rat" where
  "volume vol s = (if vol \<noteq> 1 then f32_mul s vol else s)"

lemma enqueue_keeps [simp]:
  "pb_need_resample (pb_enqueue sinc vol frame pb) = pb_need_resample pb"
  "pb_device_rate (pb_enqueue sinc vol frame pb) = pb_device_rate pb"
  "pb_channels (pb_enqueue sinc vol frame pb) = pb_channels pb"
  "pq_fade (pb_queue (pb_enqueue sinc vol frame pb)) = pq_fade (pb_queue pb)"
  "pq_silent (pb_queue (pb_enqueue sinc vol frame pb)) = pq_silent (pb_queue pb)"
  by (simp_all add: pb_enqueue_def Let_def pq_extend_def case_prod_beta split: option.split)

lemma drain_returns:
  assumes "pop_laws ops pop cont"
  shows "\<exists>r' pb'. pb_drain sinc ops pop vol r pb = Some (r', pb') \<and>
    cont r' = drop (FRAME_SIZE * (length (cont r) div FRAME_SIZE)) (cont r) \<and>
    pb_need_resample pb' = pb_need_resample pb \<and> pb_device_rate pb' = pb_device_rate pb \<and> pb_channels pb' = pb_channels pb \<and>
    pq_fade (pb_queue pb') = pq_fade (pb_queue pb) \<and> pq_silent (pb_queue pb') = pq_silent (pb_queue pb)"
proof (induction "length (cont r)" arbitrary: r pb rule: less_induct)
  case less
  have ring: "occupied_len ops r = length (cont r)" "cont (snd (pop FRAME_SIZE r)) = drop FRAME_SIZE (cont r)"
    using assms by (simp_all add: pop_laws_def)
  show ?case
  proof (cases "FRAME_SIZE \<le> length (cont r)")
    case True
    then have "length (cont (snd (pop FRAME_SIZE r))) < length (cont r)"
      unfolding ring by (simp add: FRAME_SIZE_def)
    moreover have "FRAME_SIZE * (length (cont r) div FRAME_SIZE) =
        FRAME_SIZE * ((length (cont r) - FRAME_SIZE) div FRAME_SIZE) + FRAME_SIZE"
      using True by (simp add: le_div_geq FRAME_SIZE_def)
    ultimately show ?thesis
      using less [of "snd (pop FRAME_SIZE r)" "pb_enqueue sinc vol (fst (pop FRAME_SIZE r)) pb"] True ring
      by (simp add: pb_drain.simps [of _ _ _ _ r] case_prod_beta add.commute)
  qed (simp add: pb_drain.simps [of _ _ _ _ r] ring)
qed

text \<open>At 48 kHz the queue takes the samples as they come, scaled by the volume.\<close>

definition pb_plain :: "'z playback_renderer \<Rightarrow> bool" where
  "pb_plain pb \<longleftrightarrow> \<not> pb_need_resample pb \<and> pb_sinc pb = None"

lemma enqueue_plain:
  "pb_plain pb \<Longrightarrow> pb_enqueue sinc vol frame pb = pb\<lparr>pb_queue := pq_extend (map (volume vol) frame) (pb_queue pb)\<rparr>"
  by (simp add: pb_plain_def pb_enqueue_def volume_def [abs_def] Let_def)

lemma drain_plain:
  assumes "pop_laws ops pop cont" and "pb_plain pb"
  shows "\<exists>r'. pb_drain sinc ops pop vol r pb = Some (r', pb\<lparr>pb_queue :=
        pq_extend (map (volume vol) (take (FRAME_SIZE * (length (cont r) div FRAME_SIZE)) (cont r))) (pb_queue pb)\<rparr>) \<and>
    cont r' = drop (FRAME_SIZE * (length (cont r) div FRAME_SIZE)) (cont r)"
  using assms(2)
proof (induction "length (cont r)" arbitrary: r pb rule: less_induct)
  case less
  let ?n = "length (cont r)" and ?r = "snd (pop FRAME_SIZE r)"
  have ring: "occupied_len ops r = ?n" "fst (pop FRAME_SIZE r) = take FRAME_SIZE (cont r)" "cont ?r = drop FRAME_SIZE (cont r)"
    using assms(1) by (simp_all add: pop_laws_def)
  show ?case
  proof (cases "FRAME_SIZE \<le> ?n")
    case True
    let ?pb = "pb_enqueue sinc vol (take FRAME_SIZE (cont r)) pb" and ?m = "FRAME_SIZE * ((?n - FRAME_SIZE) div FRAME_SIZE)"
    have pb: "?pb = pb\<lparr>pb_queue := pq_extend (map (volume vol) (take FRAME_SIZE (cont r))) (pb_queue pb)\<rparr>"
      using less.prems by (rule enqueue_plain)
    have plain: "pb_plain ?pb" using less.prems by (simp add: pb pb_plain_def)
    have "length (cont ?r) < ?n" using True unfolding ring by (simp add: FRAME_SIZE_def)
    from less.hyps [OF this plain] obtain r' where r': "pb_drain sinc ops pop vol ?r ?pb =
        Some (r', ?pb\<lparr>pb_queue := pq_extend (map (volume vol) (take ?m (cont ?r))) (pb_queue ?pb)\<rparr>)"
        "cont r' = drop ?m (cont ?r)"
      by (auto simp: ring)
    have whole: "FRAME_SIZE * (?n div FRAME_SIZE) = FRAME_SIZE + ?m"
      using True by (simp add: le_div_geq FRAME_SIZE_def)
    show ?thesis
      using r' True by (simp add: pb_drain.simps [of _ _ _ _ r] ring case_prod_beta pb whole pq_extend_def take_add add.commute)
  qed (simp add: pb_drain.simps [of _ _ _ _ r] ring pq_extend_def)
qed

text \<open>The callback's second half, from the trimmed queue \<open>q\<close>.\<close>

lemma output_effect:
  assumes "pb_output tanhf data diag sg pb = (out, diag', sg', pb')"
    and "pq_trim_to (to_device PLAYBACK_SAFETY_CAP pb) (pb_queue pb) = (trimmed, q)"
    and "pq_fill data (pb_channels pb) q = (dry, filled, q')"
  shows "out = map (soft_clip tanhf) filled" and "pb' = pb\<lparr>pb_queue := q'\<rparr>"
    and "sg_queued sg' = to_48k (length (pq_buf q')) pb mod 2 ^ 32"
    and "sg_request sg' = max (sg_request sg) (to_48k (length data div max (pb_channels pb) 1) pb mod 2 ^ 32)"
    and "sg_playing sg' = sg_playing sg"
    and "playback_dry diag' = playback_dry diag + (if dry then 1 else 0)"
    and "output_starved diag' = output_starved diag + (if dry \<and> 0 < sg_playing sg then 1 else 0)"
    and "playback_trimmed_samples diag' = playback_trimmed_samples diag + of_nat trimmed"
proof -
  note assms(1) [unfolded pb_output_def Let_def assms(2) prod.case assms(3) limit_in_place_eq prod.inject]
  note eqs = this
  note out = eqs [THEN conjunct1] and diag = eqs [THEN conjunct2, THEN conjunct1]
    and sg = eqs [THEN conjunct2, THEN conjunct2, THEN conjunct1] and pb = eqs [THEN conjunct2, THEN conjunct2, THEN conjunct2]
  show "out = map (soft_clip tanhf) filled" using out by (rule sym)
  show "pb' = pb\<lparr>pb_queue := q'\<rparr>" using pb by (rule sym)
  show "sg_queued sg' = to_48k (length (pq_buf q')) pb mod 2 ^ 32"
    "sg_request sg' = max (sg_request sg) (to_48k (length data div max (pb_channels pb) 1) pb mod 2 ^ 32)"
    "sg_playing sg' = sg_playing sg"
    by (simp_all add: to_48k_def flip: sg)
  show "playback_dry diag' = playback_dry diag + (if dry then 1 else 0)"
    "output_starved diag' = output_starved diag + (if dry \<and> 0 < sg_playing sg then 1 else 0)"
    "playback_trimmed_samples diag' = playback_trimmed_samples diag + of_nat trimmed"
    by (simp_all flip: diag)
qed

text \<open>C26 The output callback always returns, whatever the device's rate and channel count, whatever the
  resampler produces and whatever the ring and the queue hold. It leaves less than a frame in the ring
  and at most the safety cap in the queue; the device buffer is filled to its own length, and no sample
  of it reaches full scale, however far the volume or the resampler overshoots. What it publishes is
  what it left queued, and the largest request seen.\<close>

theorem playback_bounded:
  assumes "pop_laws ops pop cont" and "tanh_laws tanhf"
  shows "\<exists>r' out diag' sg' pb'. pb_render tanhf sinc ops pop vol data r diag sg pb = Some (r', out, diag', sg', pb') \<and>
    length (cont r') < FRAME_SIZE \<and> length (pq_buf (pb_queue pb')) \<le> to_device PLAYBACK_SAFETY_CAP pb \<and>
    length out = length data \<and> list_all (\<lambda>s. \<bar>s\<bar> < 1) out \<and>
    sg_queued sg' = to_48k (length (pq_buf (pb_queue pb'))) pb' mod 2 ^ 32 \<and>
    sg_request sg \<le> sg_request sg'"
proof -
  obtain r' pb1 where d: "pb_drain sinc ops pop vol r pb = Some (r', pb1)"
      "cont r' = drop (FRAME_SIZE * (length (cont r) div FRAME_SIZE)) (cont r)"
      "pb_need_resample pb1 = pb_need_resample pb" "pb_device_rate pb1 = pb_device_rate pb"
    using drain_returns [OF assms(1)] by blast
  obtain out diag' sg' pb' where o: "pb_output tanhf data diag sg pb1 = (out, diag', sg', pb')" by (metis prod_cases4)
  obtain trimmed q where t: "pq_trim_to (to_device PLAYBACK_SAFETY_CAP pb1) (pb_queue pb1) = (trimmed, q)" by fastforce
  obtain dry filled q' where f: "pq_fill data (pb_channels pb1) q = (dry, filled, q')" by (metis prod_cases3)
  note out = output_effect [OF o t f]
  have "length (cont r') < FRAME_SIZE" by (simp add: d(2) FRAME_SIZE_def minus_mult_div_eq_mod)
  moreover have "length (pq_buf (pb_queue pb')) \<le> to_device PLAYBACK_SAFETY_CAP pb"
  proof -
    have "length (pq_buf q') \<le> length (pq_buf q)" using fill_effect(2) [OF f] by simp
    also have "\<dots> \<le> to_device PLAYBACK_SAFETY_CAP pb" using trim_effect(2) [OF t] d(3,4) by (simp add: to_device_def)
    finally show ?thesis by (simp add: out(2))
  qed
  moreover have "length out = length data" "list_all (\<lambda>s. \<bar>s\<bar> < 1) out"
    using fill_effect(1) [OF f] soft_clip_inside [OF assms(2)] by (simp_all add: out(1) list_all_iff)
  moreover have "sg_queued sg' = to_48k (length (pq_buf (pb_queue pb'))) pb' mod 2 ^ 32" "sg_request sg \<le> sg_request sg'"
    by (simp_all add: out(2-4) to_48k_def)
  ultimately show ?thesis using d(1) o by (simp add: pb_render_def)
qed

text \<open>A 44.1 kHz stereo device, a resampler that overshoots, volume 4.\<close>

definition sample_sinc :: "unit sinc" where
  "sample_sinc = (\<lambda>frame z. (Some (map (\<lambda>s. 3 * s) (take 882 frame)), z))"

definition sample_pop :: "nat \<Rightarrow> rat list \<Rightarrow> rat list \<times> rat list" where
  "sample_pop n r = (take n r, drop n r)"

lemma sample_pop_laws: "pop_laws sample_ring sample_pop (\<lambda>r. r)"
  by (simp add: pop_laws_def sample_ring_def sample_pop_def)

definition sample_signals :: playout_signals where
  "sample_signals = \<lparr>sg_queued = 480, sg_request = 960, sg_playing = 1\<rparr>"

theorem playback_bounded_witness:
  "\<exists>r' out diag' sg' pb'. pb_render sample_tanh sample_sinc sample_ring sample_pop 4 (replicate 1024 0)
      (replicate 2000 1) diag_new sample_signals (pb_new (Some \<lparr>sr_inner = (), sr_input = replicate 960 0\<rparr>) 44100 2) =
      Some (r', out, diag', sg', pb') \<and>
    length r' < 960 \<and> length (pq_buf (pb_queue pb')) \<le> 13230 \<and> length out = 1024 \<and> list_all (\<lambda>s. \<bar>s\<bar> < 1) out \<and>
    960 \<le> sg_request sg'"
  using playback_bounded [OF sample_pop_laws sample_tanh_laws, of sample_sinc 4 "replicate 1024 0" "replicate 2000 1" diag_new
      sample_signals "pb_new (Some \<lparr>sr_inner = (), sr_input = replicate 960 0\<rparr>) 44100 2"]
  by (fastforce simp: sample_signals_def pb_new_def Let_def to_device_def config_defs)

section \<open>The pump and the callback\<close>

text \<open>The samples on their way to a device that runs at 48 kHz, oldest first.\<close>

definition in_flight :: "('r \<Rightarrow> rat list) \<Rightarrow> rat \<Rightarrow> 'r \<Rightarrow> 'z playback_renderer \<Rightarrow> rat list" where
  "in_flight cont vol r pb = pq_buf (pb_queue pb) @ map (volume vol) (cont r)"

lemma render_plain:
  assumes "pop_laws ops pop cont" and "pb_plain pb" and "0 < pb_channels pb" and "length data = n * pb_channels pb"
    and "n + FRAME_SIZE \<le> length (in_flight cont vol r pb) + 1"
  shows "\<exists>r' out diag' sg' pb'. pb_render tanhf sinc ops pop vol data r diag sg pb = Some (r', out, diag', sg', pb') \<and>
    pb_plain pb' \<and> pb_channels pb' = pb_channels pb \<and>
    (n \<le> PLAYBACK_SAFETY_CAP \<longrightarrow> playback_dry diag' = playback_dry diag \<and> output_starved diag' = output_starved diag \<and>
      \<not> pq_silent (pb_queue pb')) \<and>
    (n \<le> PLAYBACK_SAFETY_CAP \<and> length (in_flight cont vol r pb) \<le> PLAYBACK_SAFETY_CAP \<and> \<not> pq_silent (pb_queue pb) \<longrightarrow>
      out = map (soft_clip tanhf) (concat (map (replicate (pb_channels pb)) (take n (in_flight cont vol r pb)))) \<and>
      in_flight cont vol r' pb' = drop n (in_flight cont vol r pb)) \<and>
    sg_queued sg' = length (pq_buf (pb_queue pb')) \<and> sg_request sg' = max (sg_request sg) (n mod 2 ^ 32)"
proof -
  define whole where "whole = FRAME_SIZE * (length (cont r) div FRAME_SIZE)"
  define pb1 where "pb1 = pb\<lparr>pb_queue := pq_extend (map (volume vol) (take whole (cont r))) (pb_queue pb)\<rparr>"
  obtain r' where d: "pb_drain sinc ops pop vol r pb = Some (r', pb1)" and r': "cont r' = drop whole (cont r)"
    using drain_plain [OF assms(1,2), of sinc vol r] unfolding whole_def pb1_def by blast
  obtain out diag' sg' pb' where o: "pb_output tanhf data diag sg pb1 = (out, diag', sg', pb')" by (metis prod_cases4)
  have cap: "to_device PLAYBACK_SAFETY_CAP pb1 = PLAYBACK_SAFETY_CAP" and id48: "to_48k k pb1 = k" for k
    using assms(2) by (simp_all add: pb1_def to_device_def to_48k_def pb_plain_def)
  obtain trimmed q where t: "pq_trim_to (to_device PLAYBACK_SAFETY_CAP pb1) (pb_queue pb1) = (trimmed, q)" by fastforce
  obtain dry filled q' where f: "pq_fill data (pb_channels pb1) q = (dry, filled, q')" by (metis prod_cases3)
  note out = output_effect [OF o t f] and trim = trim_effect [OF t, unfolded cap]
  have n: "length data div max (pb_channels pb1) 1 = n" using assms(3,4) by (simp add: pb1_def max_def)
  note fill = fill_effect [OF f, unfolded n]
  have "length (cont r) < whole + FRAME_SIZE"
    unfolding whole_def by (simp add: FRAME_SIZE_def)
  then have enough: "n \<le> length (pq_buf (pb_queue pb1))" and le: "whole \<le> length (cont r)"
    using assms(5) by (auto simp: pb1_def pq_extend_def in_flight_def whole_def)
  have "\<not> length (pq_buf q) < n" if "n \<le> PLAYBACK_SAFETY_CAP" using trim(2) that enough by simp
  then have not_dry: "\<not> dry \<and> \<not> pq_silent q'" if "n \<le> PLAYBACK_SAFETY_CAP" using that by (simp add: fill)
  have "out = map (soft_clip tanhf) (concat (map (replicate (pb_channels pb)) (take n (in_flight cont vol r pb)))) \<and>
      in_flight cont vol r' pb' = drop n (in_flight cont vol r pb)"
    if room: "length (in_flight cont vol r pb) \<le> PLAYBACK_SAFETY_CAP" and loud: "\<not> pq_silent (pb_queue pb)"
  proof -
    have "length (pq_buf (pb_queue pb1)) \<le> PLAYBACK_SAFETY_CAP"
      using room le by (simp add: pb1_def pq_extend_def in_flight_def)
    then have q: "q = pb_queue pb1" by (rule trim(6))
    have pass: "in_flight cont vol r pb = pq_buf q @ map (volume vol) (cont r')"
      by (simp add: q pb1_def pq_extend_def in_flight_def r' flip: map_append)
    have "filled = concat (map (replicate (pb_channels pb)) (take n (pq_buf q)))"
      using fill_plain(1) [OF f] assms(3,4) enough loud by (simp add: q pb1_def pq_extend_def)
    moreover have "in_flight cont vol r' pb' = pq_buf q' @ map (volume vol) (cont r')"
      by (simp add: in_flight_def out(2))
    ultimately show ?thesis
      unfolding pass using enough fill(2) by (simp add: out(1) q)
  qed
  moreover have "length (pq_buf q') < 2 ^ 32"
    using trim(2) by (simp add: fill(2) config_defs)
  then have "sg_queued sg' = length (pq_buf (pb_queue pb'))" by (simp add: out(2,3) id48)
  moreover have "sg_request sg' = max (sg_request sg) (n mod 2 ^ 32)" unfolding out(4) n id48 by (rule refl)
  ultimately show ?thesis
    using d o not_dry assms(2) by (simp add: pb_render_def out(2,6,7) pb1_def pb_plain_def)
qed

text \<open>C27 The pump and the callback together keep the output fed. If somebody is still playing when a pump
  returns and the ring has room left, the next callback, for no more samples than the largest request it
  has published, is served in full: it counts neither a dry read nor a starved one, although up to a
  frame stays behind in the ring. After a callback that did not run short, within the safety cap, it plays the next samples of
  what the pump pushed, in order, scaled by the volume, once per channel and limited, and leaves exactly
  the rest. What it publishes makes the premises true again for the next round.\<close>

theorem playing_output_never_starves:
  assumes "pump_ok c" and "ring_laws ops" and "pop_laws ops pop cont"
    and "pb_plain pb" and "0 < pb_channels pb" and "length data = n * pb_channels pb"
    and "n \<le> sg_request sg" and "n \<le> PLAYBACK_SAFETY_CAP" and "sg_queued sg = length (pq_buf (pb_queue pb))"
    and "pump dec (Some ops) (sg_request sg) (sg_queued sg) now gains c = Some (playing, c')"
    and "0 < playing" and "\<not> output_full (Some ops) c'"
  shows "\<exists>r' out diag' sg' pb'.
    pb_render tanhf sinc ops pop vol data (pc_ring c') diag sg pb = Some (r', out, diag', sg', pb') \<and>
    playback_dry diag' = playback_dry diag \<and> output_starved diag' = output_starved diag \<and>
    (length (in_flight cont vol (pc_ring c') pb) \<le> PLAYBACK_SAFETY_CAP \<and> \<not> pq_silent (pb_queue pb) \<longrightarrow>
      out = map (soft_clip tanhf) (concat (map (replicate (pb_channels pb)) (take n (in_flight cont vol (pc_ring c') pb)))) \<and>
      in_flight cont vol r' pb' = drop n (in_flight cont vol (pc_ring c') pb)) \<and>
    pb_plain pb' \<and> pb_channels pb' = pb_channels pb \<and> \<not> pq_silent (pb_queue pb') \<and>
    sg_queued sg' = length (pq_buf (pb_queue pb')) \<and> n \<le> sg_request sg'"
proof -
  let ?c = "c\<lparr>pc_pump := (pc_pump c)\<lparr>pp_virtual_until := now\<rparr>\<rparr>"
  have "pump_ok ?c" using assms(1) by (simp add: pump_ok_def)
  from device_fills [OF assms(2) this, of dec "sg_request sg" "sg_queued sg" now gains]
  have "low_water (sg_request sg) \<le> output_level (Some ops) (sg_queued sg) now c'"
    using assms(10,11,12) by (auto simp: pump_def output_level_def output_full_def)
  then have "sg_request sg + FRAME_SIZE \<le> length (in_flight cont vol (pc_ring c') pb)"
    using assms(3) by (simp add: low_water_def output_level_def in_flight_def pop_laws_def assms(9))
  then have "n + FRAME_SIZE \<le> length (in_flight cont vol (pc_ring c') pb) + 1" using assms(7) by simp
  from render_plain [OF assms(3-6) this, of tanhf sinc diag sg] show ?thesis
    using assms(7,8) by fastforce
qed

text \<open>A mono device that has asked for 960 samples: the ring holds 1500, the queue 480, somebody plays.\<close>

definition sample_device :: "unit playback_renderer" where
  "sample_device = (pb_new None 48000 1)\<lparr>pb_queue := (pq_new 48000)\<lparr>pq_buf := replicate 480 (1 / 4), pq_silent := False\<rparr>\<rparr>"

theorem playing_output_never_starves_witness:
  "\<exists>c' r' out diag' sg' pb'.
    pump sample_dec (Some sample_ring) 960 480 7 [] (sample_pump\<lparr>pc_ring := replicate 1500 (1 / 8)\<rparr>) = Some (2, c') \<and>
    pb_render sample_tanh sample_sinc sample_ring sample_pop 1 (replicate 960 0) (pc_ring c') diag_new sample_signals
      sample_device = Some (r', out, diag', sg', pb') \<and>
    playback_dry diag' = 0 \<and> out = map (soft_clip sample_tanh) (replicate 480 (1 / 4) @ replicate 480 (1 / 8)) \<and>
    in_flight (\<lambda>r. r) 1 r' pb' = replicate 1020 (1 / 8)"
proof -
  let ?c = "sample_pump\<lparr>pc_ring := replicate 1500 (1 / 8)\<rparr>"
  have ok: "pump_ok ?c" using sample_engine_ok by (simp add: pump_ok_def sample_pump_def pp_new_def)
  have "pe_playing sample_engine = 2" by (simp add: sample_engine_def pe_playing_def)
  then obtain c' where c': "pump sample_dec (Some sample_ring) 960 480 7 [] ?c = Some (2, c')" "pc_ring c' = replicate 1500 (1 / 8)"
    by (simp add: pump_def pump_device.simps wants_frame_low low_water_def config_defs sample_ring_def sample_pump_def pp_new_def)
  have "ring_laws sample_ring" by (simp add: ring_laws_def sample_ring_def Let_def)
  moreover have "pb_plain sample_device" "0 < pb_channels sample_device" "length (replicate 960 (0 :: rat)) = 960 * pb_channels sample_device"
    "sg_queued sample_signals = length (pq_buf (pb_queue sample_device))" "\<not> output_full (Some sample_ring) c'"
    using c'(2) by (simp_all add: sample_device_def pb_new_def pb_plain_def Let_def config_defs sample_signals_def output_full_def sample_ring_def)
  ultimately have "\<exists>r' out diag' sg' pb'.
    pb_render sample_tanh sample_sinc sample_ring sample_pop 1 (replicate 960 0) (pc_ring c') diag_new sample_signals
      sample_device = Some (r', out, diag', sg', pb') \<and> playback_dry diag' = playback_dry diag_new \<and>
    (length (in_flight (\<lambda>r. r) 1 (pc_ring c') sample_device) \<le> PLAYBACK_SAFETY_CAP \<and> \<not> pq_silent (pb_queue sample_device) \<longrightarrow>
      out = map (soft_clip sample_tanh) (concat (map (replicate (pb_channels sample_device))
        (take 960 (in_flight (\<lambda>r. r) 1 (pc_ring c') sample_device)))) \<and>
      in_flight (\<lambda>r. r) 1 r' pb' = drop 960 (in_flight (\<lambda>r. r) 1 (pc_ring c') sample_device))"
    using playing_output_never_starves [OF ok _ sample_pop_laws, of sample_device "replicate 960 0" 960 sample_signals sample_dec 7 "[]" 2 c'
        sample_tanh sample_sinc 1 diag_new] c'(1)
    by (fastforce simp: sample_signals_def config_defs)
  moreover have "in_flight (\<lambda>r. r) 1 (pc_ring c') sample_device = replicate 480 (1 / 4) @ replicate 1500 (1 / 8)"
    unfolding c'(2) by (simp add: in_flight_def sample_device_def volume_def pb_new_def Let_def)
  moreover have "pb_channels sample_device = 1" "\<not> pq_silent (pb_queue sample_device)" "playback_dry diag_new = 0"
    by (simp_all add: sample_device_def pb_new_def Let_def diag_new_def)
  moreover have "concat (map (replicate 1) xs) = xs" for xs :: "rat list" by (induction xs) simp_all
  ultimately show ?thesis using c'(1) by (fastforce simp: config_defs)
qed

end
