(* ===== verification/Audio_Capture.thy ===== *)
theory Audio_Capture
  imports Audio_Playback
begin

text \<open>
  \<^verbatim>\<open>crates/client/src/audio.rs\<close>, the input side: the downmix that counts only the channels carrying a signal,
  and the body of the input callback, which cuts the device's samples into chunks of 20 ms, converts them to 48 kHz and
  pushes them into the ring the capture thread reads.
\<close>

subsection \<open>Downmix\<close>

record downmix =
  dm_energy :: "rat list"
  dm_sums :: "rat list"
  dm_carries :: "bool list"
  dm_active :: nat
  dm_measured :: bool

definition dm_new :: "nat \<Rightarrow> downmix" where
  "dm_new channels = \<lparr>dm_energy = replicate channels 0, dm_sums = replicate channels 0,
     dm_carries = replicate channels True, dm_active = max channels 1, dm_measured = False\<rparr>"

text \<open>\<open>chunks_exact\<close>: the whole frames of an interleaved buffer; what is left over at its end is skipped.\<close>

function chunks_exact :: "nat \<Rightarrow> 'a list \<Rightarrow> 'a list list" where
  "chunks_exact n xs = (if n = 0 \<or> length xs < n then [] else take n xs # chunks_exact n (drop n xs))"
  by auto
termination by (relation "measure (\<lambda>(n, xs). length xs)") auto

declare chunks_exact.simps [simp del]

definition dm_frame :: "bool list \<Rightarrow> rat list \<Rightarrow> rat" where
  "dm_frame carries chunk = foldl (\<lambda>sum (c, s). if c then f32_add sum s else sum) 0 (zip carries chunk)"

definition dm_add :: "rat list \<Rightarrow> rat list \<Rightarrow> rat list" where
  "dm_add acc chunk = map2 (\<lambda>a s. f32_add a \<bar>s\<bar>) acc chunk"

definition dm_smooth :: "rat \<Rightarrow> rat \<Rightarrow> rat \<Rightarrow> rat" where
  "dm_smooth n e s = f32_add e (f32_mul (f32_sub (f32_div s n) e) DOWNMIX_SMOOTHING)"

text \<open>What the envelope says about the wiring; \<open>None\<close> in silence.\<close>

definition dm_decide :: "downmix \<Rightarrow> nat option \<times> downmix" where
  "dm_decide dm =
    (let loudest = fold max (dm_energy dm) 0 in
     if loudest < DOWNMIX_SILENCE_FLOOR then (None, dm)
     else
       (let floor = f32_mul loudest DOWNMIX_ACTIVE_RATIO;
            carries = map (\<lambda>e. floor \<le> e) (dm_energy dm);
            active = max (length (filter (\<lambda>c. c) carries)) 1;
            changed = (active \<noteq> dm_active dm);
            dm = dm\<lparr>dm_carries := carries, dm_active := active\<rparr>;
            dm = (if \<not> dm_measured dm \<or> changed then dm\<lparr>dm_measured := True\<rparr> else dm)
        in (if changed then Some active else None, dm)))"

definition dm_push :: "rat list \<Rightarrow> rat list \<Rightarrow> downmix \<Rightarrow> nat option \<times> rat list \<times> downmix" where
  "dm_push data out dm =
    (let ch = length (dm_energy dm) in
     if ch \<le> 1 then (None, out @ data, dm)
     else
       (let inv = f32_div 1 (f32 (of_nat (dm_active dm)));
            frames = chunks_exact ch data;
            out = out @ map (\<lambda>chunk. f32_mul (dm_frame (dm_carries dm) chunk) inv) frames;
            dm = dm\<lparr>dm_sums := foldl dm_add (replicate ch 0) frames\<rparr>
        in if frames = [] then (None, out, dm)
           else
             (let n = f32 (of_nat (length frames));
                  (found, dm) = dm_decide (dm\<lparr>dm_energy := map2 (dm_smooth n) (dm_energy dm) (dm_sums dm)\<rparr>)
              in (found, out, dm))))"

subsection \<open>The callback\<close>

definition RING_BUF_FRAMES :: nat where "RING_BUF_FRAMES = 8"

text \<open>\<open>f64::round\<close>: ties away from zero, for a value that is not negative.\<close>

definition device_frame_size :: "nat \<Rightarrow> nat" where
  "device_frame_size device_rate =
    nat \<lfloor>f64_div (f64_mul (f64 (of_nat device_rate)) (f64 (of_nat FRAME_SIZE))) (f64 (of_nat SAMPLE_RATE)) + 1 / 2\<rfloor>"

record 'z capture_renderer =
  cb_accumulator :: "rat list"
  cb_downmix :: downmix
  cb_sinc :: "'z sinc_resampler option"
  cb_device_rate :: nat

text \<open>One chunk at the device's rate: converted and pushed, refused samples counted.\<close>

definition cb_chunk ::
    "'z sinc \<Rightarrow> 'r ring_ops \<Rightarrow> rat list \<Rightarrow> 'r \<Rightarrow> audio_diagnostics \<Rightarrow> 'z capture_renderer \<Rightarrow>
     'r \<times> audio_diagnostics \<times> 'z capture_renderer" where
  "cb_chunk sinc ops chunk r diag cb =
    (let (samples, cb) = (case cb_sinc cb of
         Some sr \<Rightarrow> (let (out, sr) = sr_process sinc chunk sr in (out, cb\<lparr>cb_sinc := Some sr\<rparr>))
       | None \<Rightarrow> (if cb_device_rate cb \<noteq> SAMPLE_RATE then resample_into chunk (cb_device_rate cb) SAMPLE_RATE else chunk, cb));
         (r, overflow) = push_counted ops samples r (capture_ring_overflow diag)
     in (r, diag\<lparr>capture_ring_overflow := overflow\<rparr>, cb))"

partial_function (option) cb_drain ::
    "'z sinc \<Rightarrow> 'r ring_ops \<Rightarrow> nat \<Rightarrow> 'r \<Rightarrow> audio_diagnostics \<Rightarrow> 'z capture_renderer \<Rightarrow>
     ('r \<times> audio_diagnostics \<times> 'z capture_renderer) option" where
  "cb_drain sinc ops n r diag cb =
    (if n \<le> length (cb_accumulator cb)
     then (let (r, diag, cb') = cb_chunk sinc ops (take n (cb_accumulator cb)) r diag cb in
           cb_drain sinc ops n r diag (cb'\<lparr>cb_accumulator := drop n (cb_accumulator cb)\<rparr>))
     else Some (r, diag, cb))"

definition cb_render ::
    "'z sinc \<Rightarrow> 'r ring_ops \<Rightarrow> rat list \<Rightarrow> 'r \<Rightarrow> audio_diagnostics \<Rightarrow> 'z capture_renderer \<Rightarrow>
     ('r \<times> audio_diagnostics \<times> 'z capture_renderer) option" where
  "cb_render sinc ops data r diag cb =
    (let (found, acc, dm) = dm_push data (cb_accumulator cb) (cb_downmix cb) in
     cb_drain sinc ops (device_frame_size (cb_device_rate cb)) r diag (cb\<lparr>cb_accumulator := acc, cb_downmix := dm\<rparr>))"

text \<open>What \<open>start_capture\<close> sets up for a device; \<open>mk\<close> is what building the resampler yields.\<close>

definition cb_new :: "'z sinc_resampler option \<Rightarrow> nat \<Rightarrow> nat \<Rightarrow> 'z capture_renderer" where
  "cb_new mk device_rate channels =
    \<lparr>cb_accumulator = [], cb_downmix = dm_new channels, cb_sinc = (if device_rate \<noteq> SAMPLE_RATE then mk else None),
     cb_device_rate = device_rate\<rparr>"

section \<open>The downmix\<close>

lemma chunks_exact_concat:
  "0 < n \<Longrightarrow> list_all (\<lambda>xs. length xs = n) xss \<Longrightarrow> chunks_exact n (concat xss) = xss"
  by (induction xss) (simp_all add: chunks_exact.simps [of n])

lemma chunks_exact_length: "xs \<in> set (chunks_exact n ys) \<Longrightarrow> length xs = n"
  by (induction n ys rule: chunks_exact.induct) (subst (asm) (2) chunks_exact.simps, auto split: if_splits)

lemma fold_max_ge: "(m :: rat) \<le> fold max xs m"
  by (induction xs arbitrary: m) (auto intro: order_trans [OF max.cobounded2])

lemma fold_max_mem: "fold max xs (m :: rat) = m \<or> fold max xs m \<in> set xs"
proof (induction xs arbitrary: m)
  case (Cons x xs)
  from Cons [of "max x m"] show ?case by (auto simp: max_def split: if_splits)
qed simp

text \<open>A part of a float that is at most one never rounds above it.\<close>

lemma f32_mul_le: "f32 x = x \<Longrightarrow> 0 \<le> x \<Longrightarrow> r \<le> 1 \<Longrightarrow> f32_mul x r \<le> x"
  using fl_mono [of "x * r" x 24] by (simp add: f32_mul_def mult_left_le)

lemma ratio_le_1: "DOWNMIX_ACTIVE_RATIO \<le> 1"
  by code_simp

text \<open>The invariant: one entry per channel, floats in the envelope, and the divisor is the number of
  channels counted.\<close>

definition dm_ok :: "nat \<Rightarrow> downmix \<Rightarrow> bool" where
  "dm_ok ch dm \<longleftrightarrow> length (dm_energy dm) = ch \<and> length (dm_sums dm) = ch \<and> length (dm_carries dm) = ch \<and>
     list_all (\<lambda>e. f32 e = e) (dm_energy dm) \<and> dm_active dm = max (length (filter (\<lambda>c. c) (dm_carries dm))) 1 \<and>
     (0 < ch \<longrightarrow> True \<in> set (dm_carries dm))"

lemma dm_new_ok: "dm_ok ch (dm_new ch)"
  by (simp add: dm_ok_def dm_new_def list_all_iff)

lemma dm_decide_ok:
  assumes "dm_ok ch dm"
  shows "dm_ok ch (snd (dm_decide dm))"
proof (cases "fold max (dm_energy dm) 0 < DOWNMIX_SILENCE_FLOOR")
  case False
  let ?l = "fold max (dm_energy dm) 0"
  define c where "c = (\<lambda>e. f32_mul ?l DOWNMIX_ACTIVE_RATIO \<le> e)"
  have "0 < DOWNMIX_SILENCE_FLOOR" by code_simp
  with False have "?l \<noteq> 0" "0 \<le> ?l" by linarith+
  then have mem: "?l \<in> set (dm_energy dm)" using fold_max_mem [of "dm_energy dm" 0] by auto
  then have "f32 ?l = ?l" using assms(1) by (simp add: dm_ok_def list_all_iff)
  then have "c ?l" using \<open>0 \<le> ?l\<close> ratio_le_1 by (simp add: f32_mul_le c_def)
  then have "True = c ?l" by simp
  with mem have "True \<in> set (map c (dm_energy dm))" unfolding list.set_map by (rule image_eqI [rotated])
  with assms False show ?thesis
    unfolding dm_decide_def Let_def c_def [symmetric] by (simp add: dm_ok_def)
qed (use assms in \<open>simp add: dm_decide_def\<close>)

lemma length_foldl_dm_add: "length acc = ch \<Longrightarrow> list_all (\<lambda>c. length c = ch) frames \<Longrightarrow> length (foldl dm_add acc frames) = ch"
  by (induction frames arbitrary: acc) (simp_all add: dm_add_def)

text \<open>One callback of a device with several channels.\<close>

lemma dm_push_several:
  assumes "dm_push data out dm = (found, out', dm')" and "dm_ok ch dm" and "1 < ch"
  shows "dm_ok ch dm'"
    and "out' = out @ map (\<lambda>chunk. f32_mul (dm_frame (dm_carries dm) chunk) (f32_div 1 (f32 (of_nat (dm_active dm)))))
      (chunks_exact ch data)"
proof -
  let ?frames = "chunks_exact ch data" and ?n = "f32 (of_nat (length (chunks_exact ch data)))"
  have ch: "length (dm_energy dm) = ch" "\<not> ch \<le> 1" using assms(2,3) by (simp_all add: dm_ok_def)
  define dm1 where "dm1 = dm\<lparr>dm_sums := foldl dm_add (replicate ch 0) ?frames\<rparr>"
  define dm2 where "dm2 = dm1\<lparr>dm_energy := map2 (dm_smooth ?n) (dm_energy dm1) (dm_sums dm1)\<rparr>"
  have "length (foldl dm_add (replicate ch 0) ?frames) = ch"
    by (rule length_foldl_dm_add) (simp_all add: list_all_iff chunks_exact_length)
  then have ok: "dm_ok ch dm1" "dm_ok ch dm2"
    using assms(2) by (auto simp: dm_ok_def dm1_def dm2_def list_all_iff set_zip dm_smooth_def f32_add_def fl_idem)
  have push: "dm_push data out dm =
      (let out = out @ map (\<lambda>chunk. f32_mul (dm_frame (dm_carries dm) chunk) (f32_div 1 (f32 (of_nat (dm_active dm))))) ?frames
       in if ?frames = [] then (None, out, dm1) else (let (found, dm) = dm_decide dm2 in (found, out, dm)))"
    unfolding dm_push_def Let_def ch(1) dm1_def [symmetric] dm2_def [symmetric] using ch(2) by simp
  show "dm_ok ch dm'" "out' = out @ map (\<lambda>chunk. f32_mul (dm_frame (dm_carries dm) chunk)
      (f32_div 1 (f32 (of_nat (dm_active dm))))) ?frames"
    using assms(1) push ok(1) dm_decide_ok [OF ok(2)] by (auto simp: Let_def case_prod_beta split: if_splits)
qed

subsection \<open>A mono microphone behind a stereo format\<close>

text \<open>The samples each callback appends.\<close>

fun dm_run :: "rat list list \<Rightarrow> downmix \<Rightarrow> rat list list \<times> downmix" where
  "dm_run [] dm = ([], dm)"
| "dm_run (data # bs) dm =
    (let (found, out, dm) = dm_push data [] dm; (outs, dm) = dm_run bs dm in (out # outs, dm))"

text \<open>The envelope of the first channel after one more callback, and the number of callbacks after which
  it has once stood at the silence floor.\<close>

definition envelope :: "rat \<Rightarrow> rat list \<Rightarrow> rat" where
  "envelope e xs = (if xs = [] then e
     else dm_smooth (f32 (of_nat (length xs))) e (foldl (\<lambda>a x. f32_add a \<bar>x\<bar>) 0 xs))"

fun until_measured :: "rat \<Rightarrow> rat list list \<Rightarrow> nat" where
  "until_measured e [] = 0"
| "until_measured e (xs # bs) =
    (if xs \<noteq> [] \<and> DOWNMIX_SILENCE_FLOOR \<le> envelope e xs then 1 else Suc (until_measured (envelope e xs) bs))"

definition left_only :: "rat list \<Rightarrow> rat list" where
  "left_only xs = concat (map (\<lambda>x. [x, 0]) xs)"

definition left_state :: "rat \<Rightarrow> bool \<Rightarrow> downmix \<Rightarrow> bool" where
  "left_state e right dm \<longleftrightarrow> dm_energy dm = [e, 0] \<and> length (dm_sums dm) = 2 \<and> dm_carries dm = [True, right] \<and>
     dm_active dm = (if right then 2 else 1) \<and> f32 e = e"

lemma left_chunks: "chunks_exact 2 (left_only xs) = map (\<lambda>x. [x, 0]) xs"
  unfolding left_only_def by (rule chunks_exact_concat) (simp_all add: list_all_iff)

lemma left_sums: "foldl dm_add [a, 0] (map (\<lambda>x. [x, 0]) xs) = [foldl (\<lambda>a x. f32_add a \<bar>x\<bar>) a xs, 0]"
  by (induction xs arbitrary: a) (simp_all add: dm_add_def f32_add_def)

lemma left_frame: "f32 x = x \<Longrightarrow> dm_frame [True, right] [x, 0] = x"
  by (simp add: dm_frame_def f32_add_def)

lemma ratio_pos: "DOWNMIX_SILENCE_FLOOR \<le> l \<Longrightarrow> 0 < f32_mul l DOWNMIX_ACTIVE_RATIO"
proof -
  assume "DOWNMIX_SILENCE_FLOOR \<le> l"
  moreover have "0 \<le> DOWNMIX_ACTIVE_RATIO" by code_simp
  ultimately have "f32_mul DOWNMIX_SILENCE_FLOOR DOWNMIX_ACTIVE_RATIO \<le> f32_mul l DOWNMIX_ACTIVE_RATIO"
    unfolding f32_mul_def by (intro fl_mono mult_right_mono) simp_all
  moreover have "0 < f32_mul DOWNMIX_SILENCE_FLOOR DOWNMIX_ACTIVE_RATIO" by code_simp
  ultimately show ?thesis by linarith
qed

lemma left_decide:
  assumes "left_state e right dm"
  shows "left_state e (right \<and> e < DOWNMIX_SILENCE_FLOOR) (snd (dm_decide dm))"
proof -
  have "0 < DOWNMIX_SILENCE_FLOOR" by code_simp
  show ?thesis
  proof (cases "e < DOWNMIX_SILENCE_FLOOR")
    case True
    with assms \<open>0 < _\<close> show ?thesis by (simp add: dm_decide_def left_state_def Let_def)
  next
    case False
    with \<open>0 < _\<close> have e: "0 \<le> e" "DOWNMIX_SILENCE_FLOOR \<le> e" by linarith+
    define l where "l = f32_mul e DOWNMIX_ACTIVE_RATIO"
    have l: "0 < l" "l \<le> e"
      using ratio_pos [OF e(2)] f32_mul_le [OF _ e(1) ratio_le_1] assms by (simp_all add: l_def left_state_def)
    have "fold max [e, 0] 0 = e" using e(1) by simp
    then have "snd (dm_decide dm) = (let dm = dm\<lparr>dm_carries := [True, False], dm_active := 1\<rparr> in
        if \<not> dm_measured dm \<or> right then dm\<lparr>dm_measured := True\<rparr> else dm)"
      using assms False l by (simp add: dm_decide_def left_state_def Let_def flip: l_def)
    with assms False show ?thesis by (simp add: left_state_def Let_def)
  qed
qed

lemma left_push:
  assumes "left_state e right dm" and "list_all (\<lambda>x. f32 x = x) xs"
  shows "\<exists>found dm'. dm_push (left_only xs) [] dm = (found, if right then map (\<lambda>x. f32_mul x (1 / 2)) xs else xs, dm') \<and>
    left_state (envelope e xs) (right \<and> (xs = [] \<or> envelope e xs < DOWNMIX_SILENCE_FLOOR)) dm'"
proof -
  define e' where "e' = envelope e xs"
  define dm1 where "dm1 = dm\<lparr>dm_sums := [foldl (\<lambda>a x. f32_add a \<bar>x\<bar>) 0 xs, 0]\<rparr>"
  have s: "left_state e right dm1" using assms(1) by (simp add: left_state_def dm1_def)
  have inv: "f32_div 1 (f32 (of_nat (dm_active dm))) = (if right then 1 / 2 else 1)"
  proof -
    have "f32_div 1 (f32 (of_nat 2)) = 1 / 2" "f32_div 1 (f32 (of_nat 1)) = 1" by code_simp+
    then show ?thesis using assms(1) by (simp add: left_state_def)
  qed
  have carries: "dm_carries dm = [True, right]" "length (dm_energy dm) = 2" using assms(1) by (simp_all add: left_state_def)
  have out: "map ((\<lambda>chunk. f32_mul (dm_frame (dm_carries dm) chunk) (f32_div 1 (f32 (of_nat (dm_active dm))))))
      (map (\<lambda>x. [x, 0]) xs) = (if right then map (\<lambda>x. f32_mul x (1 / 2)) xs else xs)"
    using assms(2) unfolding inv carries by (simp add: list_all_iff left_frame f32_mul_def cong: map_cong)
  have sums: "foldl dm_add (replicate 2 0) (map (\<lambda>x. [x, 0]) xs) = [foldl (\<lambda>a x. f32_add a \<bar>x\<bar>) 0 xs, 0]"
    using left_sums [of 0 xs] by (simp add: numeral_2_eq_2)
  show ?thesis
  proof (cases "xs = []")
    case True
    then show ?thesis
      using assms(1) out unfolding dm_push_def Let_def carries left_chunks by (simp add: envelope_def left_state_def)
  next
    case False
    define dm2 where "dm2 = dm1\<lparr>dm_energy := [e', 0]\<rparr>"
    have zero: "dm_smooth n 0 0 = 0" for n by (simp add: dm_smooth_def f32_add_def f32_sub_def f32_mul_def f32_div_def)
    have "map2 (dm_smooth (f32 (of_nat (length xs)))) (dm_energy dm1) (dm_sums dm1) = [e', 0]"
      using s False by (simp add: left_state_def dm1_def e'_def envelope_def zero)
    moreover have "left_state e' right dm2"
      using s False by (simp add: left_state_def dm2_def e'_def envelope_def dm_smooth_def f32_add_def fl_idem)
    from left_decide [OF this] have "left_state e' (right \<and> e' < DOWNMIX_SILENCE_FLOOR) (snd (dm_decide dm2))" .
    ultimately show ?thesis
      using False out unfolding dm_push_def Let_def carries left_chunks sums dm1_def [symmetric]
      by (simp add: case_prod_beta flip: dm2_def e'_def)
  qed
qed

text \<open>A mono microphone behind a stereo format is heard at its full level. Whatever the first channel
  carries while the second stays silent, the callbacks average until the envelope of the first channel
  has once stood at the silence floor, and from the very next callback on they pass the first channel
  through unchanged: pauses never switch the averaging back on.\<close>

theorem mono_microphone:
  assumes "list_all (list_all (\<lambda>x. f32 x = x)) blocks"
  shows "fst (dm_run (map left_only blocks) (dm_new 2)) =
    map (map (\<lambda>x. f32_mul x (1 / 2))) (take (until_measured 0 blocks) blocks) @ drop (until_measured 0 blocks) blocks"
proof -
  have decided: "fst (dm_run (map left_only bs) dm) = bs"
    if "left_state e False dm" "list_all (list_all (\<lambda>x. f32 x = x)) bs" for e dm bs
    using that
  proof (induction bs arbitrary: e dm)
    case (Cons xs bs)
    then show ?case using left_push [of e False dm xs] by (fastforce simp: case_prod_beta)
  qed simp
  have "fst (dm_run (map left_only bs) dm) =
      map (map (\<lambda>x. f32_mul x (1 / 2))) (take (until_measured e bs) bs) @ drop (until_measured e bs) bs"
    if "left_state e True dm" "list_all (list_all (\<lambda>x. f32 x = x)) bs" for e dm bs
    using that
  proof (induction bs arbitrary: e dm)
    case (Cons xs bs)
    from Cons.prems obtain found dm' where d: "dm_push (left_only xs) [] dm = (found, map (\<lambda>x. f32_mul x (1 / 2)) xs, dm')"
        "left_state (envelope e xs) (xs = [] \<or> envelope e xs < DOWNMIX_SILENCE_FLOOR) dm'"
      using left_push [of e True dm xs] by auto
    show ?case
    proof (cases "xs = [] \<or> envelope e xs < DOWNMIX_SILENCE_FLOOR")
      case True
      with Cons.IH [of "envelope e xs" dm'] d Cons.prems show ?thesis by (auto simp: case_prod_beta)
    next
      case False
      with decided [of "envelope e xs" dm' bs] d Cons.prems show ?thesis by (simp add: case_prod_beta not_less)
    qed
  qed simp
  moreover have "left_state 0 True (dm_new 2)" by (simp add: left_state_def dm_new_def numeral_2_eq_2)
  ultimately show ?thesis using assms by blast
qed

theorem mono_microphone_witness:
  "fst (dm_run (map left_only [[0, 0], [1 / 2, - 1 / 4], [1 / 4], [0], [1 / 2]]) (dm_new 2)) =
    [[0, 0], [1 / 4, - 1 / 8], [1 / 4], [0], [1 / 2]]"
proof -
  define bs :: "rat list list" where "bs = [[0, 0], [1 / 2, - 1 / 4], [1 / 4], [0], [1 / 2]]"
  have floats: "list_all (list_all (\<lambda>x. f32 x = x)) bs" unfolding bs_def by code_simp
  have "until_measured 0 bs = 2" unfolding bs_def by code_simp
  moreover have "map (map (\<lambda>x. f32_mul x (1 / 2))) (take 2 bs) @ drop 2 bs = [[0, 0], [1 / 4, - 1 / 8], [1 / 4], [0], [1 / 2]]"
    unfolding bs_def by code_simp
  ultimately show ?thesis using mono_microphone [OF floats] unfolding bs_def [symmetric] by simp
qed

section \<open>The input callback\<close>

text \<open>What the callback uses of the ring: \<open>push_slice\<close> appends what fits.\<close>

definition push_laws :: "'r ring_ops \<Rightarrow> ('r \<Rightarrow> rat list) \<Rightarrow> bool" where
  "push_laws ops cont \<longleftrightarrow> (\<forall>xs r. let (k, r') = push_slice ops xs r in
     k = min (length xs) (vacant_len ops r) \<and> cont r' = cont r @ take k xs \<and> vacant_len ops r' = vacant_len ops r - k)"

lemma push_counted_appends:
  assumes "push_laws ops cont" and "push_counted ops xs r ov = (r', ov')"
  shows "cont r' = cont r @ take (vacant_len ops r) xs" and "vacant_len ops r' = vacant_len ops r - length xs"
    and "ov' = ov + of_nat (length xs - vacant_len ops r)"
proof -
  obtain k r1 where p: "push_slice ops xs r = (k, r1)" by fastforce
  have "let (k, r') = push_slice ops xs r in
     k = min (length xs) (vacant_len ops r) \<and> cont r' = cont r @ take k xs \<and> vacant_len ops r' = vacant_len ops r - k"
    using assms(1) unfolding push_laws_def by blast
  with p have k: "k = min (length xs) (vacant_len ops r)" "cont r1 = cont r @ take k xs" "vacant_len ops r1 = vacant_len ops r - k"
    by simp_all
  have r: "r' = r1" and ov: "ov' = (if k < length xs then ov + of_nat (length xs - k) else ov)"
    using assms(2) p by (simp_all add: push_counted_def Let_def)
  show "cont r' = cont r @ take (vacant_len ops r) xs" "vacant_len ops r' = vacant_len ops r - length xs"
    "ov' = ov + of_nat (length xs - vacant_len ops r)"
    using k unfolding r ov by (auto simp: min_def)
qed

lemma chunk_keeps: "cb_chunk sinc ops chunk r diag cb = (r', diag', cb') \<Longrightarrow>
    cb_accumulator cb' = cb_accumulator cb \<and> cb_downmix cb' = cb_downmix cb \<and> cb_device_rate cb' = cb_device_rate cb"
  by (auto simp: cb_chunk_def Let_def case_prod_beta split: option.splits)

lemma cb_drain_returns:
  assumes "0 < n"
  shows "\<exists>r' diag' cb'. cb_drain sinc ops n r diag cb = Some (r', diag', cb') \<and>
    cb_accumulator cb' = drop (n * (length (cb_accumulator cb) div n)) (cb_accumulator cb) \<and>
    cb_downmix cb' = cb_downmix cb \<and> cb_device_rate cb' = cb_device_rate cb"
proof (induction "length (cb_accumulator cb)" arbitrary: r diag cb rule: less_induct)
  case less
  show ?case
  proof (cases "n \<le> length (cb_accumulator cb)")
    case True
    obtain r1 diag1 cb1 where c: "cb_chunk sinc ops (take n (cb_accumulator cb)) r diag cb = (r1, diag1, cb1)" by (metis prod_cases3)
    let ?cb = "cb1\<lparr>cb_accumulator := drop n (cb_accumulator cb)\<rparr>"
    have "length (cb_accumulator ?cb) < length (cb_accumulator cb)" using assms True by simp
    from less [OF this, of r1 diag1] show ?thesis
      using True chunk_keeps [OF c] assms
      by (simp add: cb_drain.simps [of _ _ _ r] c le_div_geq add.commute)
  qed (simp add: cb_drain.simps [of _ _ _ r])
qed

lemma cb_drain_diverges: "cb_drain sinc ops 0 r diag cb = None"
proof -
  have "cb_drain sinc ops n r diag cb = Some y \<Longrightarrow> n \<noteq> 0" for n y
    by (erule cb_drain.raw_induct [rotated]) (auto split: prod.splits if_splits)
  from this [of 0] show ?thesis by (cases "cb_drain sinc ops 0 r diag cb") simp_all
qed

lemma device_frame_size_pos: "0 < device_frame_size rate \<longleftrightarrow> 25 \<le> rate"
proof -
  define g where "g n = f64_div (f64_mul (f64 (of_nat n)) (f64 (of_nat FRAME_SIZE))) (f64 (of_nat SAMPLE_RATE))" for n
  have mono: "g m \<le> g n" if "m \<le> n" for m n
    unfolding g_def f64_div_def f64_mul_def using that
    by (intro fl_mono divide_right_mono mult_right_mono) (simp_all add: fl_nonneg)
  have "g 24 < 1 / 2" "1 / 2 \<le> g 25" unfolding g_def FRAME_SIZE_def SAMPLE_RATE_def of_nat_numeral by code_simp+
  then have "1 / 2 \<le> g rate \<longleftrightarrow> 25 \<le> rate"
    using mono [of rate 24] mono [of 25 rate] by linarith
  then show ?thesis by (simp add: device_frame_size_def le_floor_iff flip: g_def) linarith
qed

text \<open>The input callback returns for every device whose 20 ms hold at least one sample, that is for
  every rate from 25 Hz on, and then leaves less than one chunk behind; for a rate below it would never return.\<close>

theorem capture_returns:
  "if 25 \<le> cb_device_rate cb
   then \<exists>r' diag' cb'. cb_render sinc ops data r diag cb = Some (r', diag', cb') \<and>
     length (cb_accumulator cb') < device_frame_size (cb_device_rate cb) \<and> cb_device_rate cb' = cb_device_rate cb
   else cb_render sinc ops data r diag cb = None"
proof -
  obtain found acc dm where d: "dm_push data (cb_accumulator cb) (cb_downmix cb) = (found, acc, dm)" by (metis prod_cases3)
  let ?cb = "cb\<lparr>cb_accumulator := acc, cb_downmix := dm\<rparr>"
  show ?thesis
    using cb_drain_returns [of "device_frame_size (cb_device_rate cb)" sinc ops r diag ?cb] cb_drain_diverges [of sinc ops r diag ?cb]
    by (auto simp: cb_render_def d minus_mult_div_eq_mod simp flip: device_frame_size_pos)
qed

text \<open>At 48 kHz the chunks go into the ring as they are.\<close>

lemma cb_drain_plain:
  assumes "push_laws ops cont" and "cb_sinc cb = None" and "cb_device_rate cb = SAMPLE_RATE"
  defines "whole \<equiv> FRAME_SIZE * (length (cb_accumulator cb) div FRAME_SIZE)"
  assumes "cb_drain sinc ops FRAME_SIZE r diag cb = Some (r', diag', cb')"
  shows "cont r' = cont r @ take (min whole (vacant_len ops r)) (cb_accumulator cb) \<and>
    capture_ring_overflow diag' = capture_ring_overflow diag + of_nat (whole - vacant_len ops r)"
  using assms(2,3,5) unfolding whole_def
proof (induction "length (cb_accumulator cb)" arbitrary: r diag cb rule: less_induct)
  case less
  let ?acc = "cb_accumulator cb" and ?v = "vacant_len ops r"
  show ?case
  proof (cases "FRAME_SIZE \<le> length ?acc")
    case True
    obtain r1 ov where p: "push_counted ops (take FRAME_SIZE ?acc) r (capture_ring_overflow diag) = (r1, ov)" by fastforce
    note push = push_counted_appends [OF assms(1) p]
    let ?cb = "cb\<lparr>cb_accumulator := drop FRAME_SIZE ?acc\<rparr>" and ?diag = "diag\<lparr>capture_ring_overflow := ov\<rparr>"
    let ?m = "FRAME_SIZE * ((length ?acc - FRAME_SIZE) div FRAME_SIZE)"
    have "cb_drain sinc ops FRAME_SIZE r1 ?diag ?cb = Some (r', diag', cb')"
      using less.prems True p by (simp add: cb_drain.simps [of _ _ _ r] cb_chunk_def)
    moreover have "length (cb_accumulator ?cb) < length ?acc" using True by (simp add: FRAME_SIZE_def)
    ultimately have ih: "cont r' = cont r1 @ take (min ?m (vacant_len ops r1)) (drop FRAME_SIZE ?acc)"
      "capture_ring_overflow diag' = ov + of_nat (?m - vacant_len ops r1)"
      using less.hyps [of ?cb r1 ?diag] less.prems by simp_all
    have len: "length (take FRAME_SIZE ?acc) = FRAME_SIZE" using True by simp
    have whole: "FRAME_SIZE * (length ?acc div FRAME_SIZE) = FRAME_SIZE + ?m"
      using True by (simp add: le_div_geq FRAME_SIZE_def)
    have "take ?v (take FRAME_SIZE ?acc) @ take (min ?m (?v - FRAME_SIZE)) (drop FRAME_SIZE ?acc) = take (min (FRAME_SIZE + ?m) ?v) ?acc"
    proof (cases "?v \<le> FRAME_SIZE")
      case False
      then have "min (FRAME_SIZE + ?m) ?v = FRAME_SIZE + min ?m (?v - FRAME_SIZE)" by simp
      with False show ?thesis by (simp only: take_add) (simp add: min_def)
    next
      case True
      then have "min (FRAME_SIZE + ?m) ?v = ?v" "min ?v FRAME_SIZE = ?v" "?v - FRAME_SIZE = 0" by simp_all
      then show ?thesis by (simp only: take_take) simp
    qed
    moreover have "FRAME_SIZE - ?v + (?m - (?v - FRAME_SIZE)) = FRAME_SIZE + ?m - ?v" by simp
    then have "of_nat (FRAME_SIZE - ?v) + of_nat (?m - (?v - FRAME_SIZE)) = (of_nat (FRAME_SIZE + ?m - ?v) :: 64 word)"
      by (simp only: flip: of_nat_add)
    ultimately show ?thesis
      using ih push unfolding whole len by (simp only: append_assoc add.assoc)
  next
    case False
    then have "r' = r" "diag' = diag" using less.prems by (simp_all add: cb_drain.simps [of _ _ _ r])
    with False show ?thesis by simp
  qed
qed

text \<open>C28 On a mono device at 48 kHz the capture path neither invents, loses nor reorders a sample: one
  callback moves every whole 20 ms frame of the samples waiting, followed by those that arrived, into
  the ring, as far as the ring has room; what the ring refuses is counted exactly, and the rest waits for
  the next callback.\<close>

theorem capture_exact:
  assumes "push_laws ops cont" and "cb_sinc cb = None" and "cb_device_rate cb = SAMPLE_RATE"
    and "length (dm_energy (cb_downmix cb)) \<le> 1"
  shows "\<exists>r' diag' cb'. cb_render sinc ops data r diag cb = Some (r', diag', cb') \<and>
    (let stream = cb_accumulator cb @ data; whole = FRAME_SIZE * (length stream div FRAME_SIZE) in
     cont r' = cont r @ take (min whole (vacant_len ops r)) stream \<and>
     capture_ring_overflow diag' = capture_ring_overflow diag + of_nat (whole - vacant_len ops r) \<and>
     cb_accumulator cb' = drop whole stream)"
proof -
  let ?cb = "cb\<lparr>cb_accumulator := cb_accumulator cb @ data\<rparr>"
  have frame: "device_frame_size SAMPLE_RATE = FRAME_SIZE"
    unfolding device_frame_size_def FRAME_SIZE_def SAMPLE_RATE_def of_nat_numeral by code_simp
  have render: "cb_render sinc ops data r diag cb = cb_drain sinc ops FRAME_SIZE r diag ?cb"
    using assms(3,4) by (simp add: cb_render_def dm_push_def frame)
  have pos: "0 < FRAME_SIZE" by (simp add: FRAME_SIZE_def)
  obtain r' diag' cb' where d: "cb_drain sinc ops FRAME_SIZE r diag ?cb = Some (r', diag', cb')"
      "cb_accumulator cb' = drop (FRAME_SIZE * (length (cb_accumulator ?cb) div FRAME_SIZE)) (cb_accumulator ?cb)"
    using cb_drain_returns [OF pos, of sinc ops r diag ?cb] by blast
  have "cb_sinc ?cb = None" "cb_device_rate ?cb = SAMPLE_RATE" using assms(2,3) by simp_all
  from cb_drain_plain [OF assms(1) this d(1)] d show ?thesis by (simp add: render Let_def)
qed

theorem capture_exact_witness:
  "\<exists>r' diag' cb'. cb_render sample_sinc sample_ring (replicate 500 1) (replicate 3500 0) diag_new
      ((cb_new None 48000 1)\<lparr>cb_accumulator := replicate 700 2\<rparr>) = Some (r', diag', cb') \<and>
    r' = replicate 3500 0 @ replicate 500 (2 :: rat) \<and> capture_ring_overflow diag' = 460 \<and>
    cb_accumulator cb' = replicate 240 1"
proof -
  let ?cb = "(cb_new None 48000 1 :: unit capture_renderer)\<lparr>cb_accumulator := replicate 700 2\<rparr>"
  have "push_laws sample_ring (\<lambda>r. r)" by (simp add: push_laws_def sample_ring_def Let_def)
  moreover have "cb_sinc ?cb = None" "cb_device_rate ?cb = SAMPLE_RATE" "length (dm_energy (cb_downmix ?cb)) \<le> 1"
    by (simp_all add: cb_new_def dm_new_def config_defs)
  ultimately show ?thesis
    using capture_exact [of sample_ring "\<lambda>r. r" ?cb sample_sinc "replicate 500 1" "replicate 3500 0" diag_new]
    by (fastforce simp: Let_def config_defs sample_ring_def diag_new_def)
qed

end
