(* ===== verification/Audio_Device.thy ===== *)
theory Audio_Device
  imports Audio_Capture
begin

text \<open>
  \<^verbatim>\<open>crates/client/src/audio.rs\<close>, the choice of devices: listing, the fallback from a saved name to the system's default,
  the stream parameters and the start of each direction. What the operating system offers at the moment is a record \<open>host\<close>;
  the identity of a device is a type parameter.
\<close>

record 'dev host =
  input_devices :: "'dev list option"
  output_devices :: "'dev list option"
  default_input_device :: "'dev option"
  default_output_device :: "'dev option"
  device_name :: "'dev \<Rightarrow> string option"
  default_config :: "'dev \<Rightarrow> bool \<Rightarrow> (nat \<times> nat) option"

record device_info =
  di_index :: nat
  di_name :: string
  di_is_default :: bool

text \<open>The devices whose name can be read, each with its place in the enumeration.\<close>

definition named_devices :: "('dev \<Rightarrow> string option) \<Rightarrow> string \<Rightarrow> 'dev list \<Rightarrow> device_info list" where
  "named_devices nm default_name ds = List.map_filter
     (\<lambda>(i, d). map_option (\<lambda>name. \<lparr>di_index = i, di_name = name, di_is_default = (name = default_name)\<rparr>) (nm d)) (enumerate 0 ds)"

definition name_or_empty :: "('dev \<Rightarrow> string option) \<Rightarrow> 'dev option \<Rightarrow> string" where
  "name_or_empty nm d = (case d of None \<Rightarrow> [] | Some d \<Rightarrow> (case nm d of None \<Rightarrow> [] | Some name \<Rightarrow> name))"

definition list_input_devices :: "'dev host \<Rightarrow> device_info list option" where
  "list_input_devices h =
    map_option (named_devices (device_name h) (name_or_empty (device_name h) (default_input_device h))) (input_devices h)"

definition list_output_devices :: "'dev host \<Rightarrow> device_info list option" where
  "list_output_devices h =
    map_option (named_devices (device_name h) (name_or_empty (device_name h) (default_output_device h))) (output_devices h)"

definition default_device :: "'dev host \<Rightarrow> bool \<Rightarrow> 'dev option" where
  "default_device h is_input = (if is_input then default_input_device h else default_output_device h)"

definition resolve_device :: "'dev host \<Rightarrow> string option \<Rightarrow> bool \<Rightarrow> string + 'dev" where
  "resolve_device h wanted is_input =
    (let fallback = (case default_device h is_input of
         Some d \<Rightarrow> Inr d
       | None \<Rightarrow> Inl (if is_input then ''no input device available'' else ''no output device available''))
     in case wanted of
          None \<Rightarrow> fallback
        | Some name \<Rightarrow>
           (case (if is_input then input_devices h else output_devices h) of
              None \<Rightarrow> Inl (if is_input then ''failed to enumerate input devices'' else ''failed to enumerate output devices'')
            | Some ds \<Rightarrow> (case find (\<lambda>d. device_name h d = Some name) ds of Some d \<Rightarrow> Inr d | None \<Rightarrow> fallback)))"

definition default_input_name :: "'dev host \<Rightarrow> string option" where
  "default_input_name h = Option.bind (default_input_device h) (device_name h)"

definition default_output_name :: "'dev host \<Rightarrow> string option" where
  "default_output_name h = Option.bind (default_output_device h) (device_name h)"

text \<open>Channels and rate of the stream: on Windows the device's own format, elsewhere the fixed one.\<close>

definition resolve_stream_params :: "bool \<Rightarrow> 'dev host \<Rightarrow> 'dev \<Rightarrow> bool \<Rightarrow> string + (nat \<times> nat)" where
  "resolve_stream_params windows h d is_input =
    (if windows
     then (case default_config h d is_input of
         None \<Rightarrow> Inl ''failed to get default stream config''
       | Some cr \<Rightarrow> Inr cr)
     else Inr (AUDIO_CHANNELS, SAMPLE_RATE))"

text \<open>Starting a direction: \<open>mk\<close> builds the resampler from the two rates and the chunk size, \<open>play\<close> opens the
  stream on the device and starts it, with an error or none, \<open>ring\<close> makes an empty ring of a capacity.\<close>

record ('dev, 'z, 'r) audio_system =
  sys_windows :: bool
  sys_host :: "'dev host"
  sys_resampler :: "nat \<Rightarrow> nat \<Rightarrow> nat \<Rightarrow> 'z sinc_resampler option"
  sys_play :: "'dev \<Rightarrow> bool \<Rightarrow> nat \<times> nat \<Rightarrow> string option"
  sys_ring :: "nat \<Rightarrow> 'r"

definition start_capture :: "('dev, 'z, 'r) audio_system \<Rightarrow> string option \<Rightarrow> string + 'z capture_renderer \<times> 'r \<times> string" where
  "start_capture sys wanted =
    (case resolve_device (sys_host sys) wanted True of
       Inl e \<Rightarrow> Inl e
     | Inr d \<Rightarrow>
        (case resolve_stream_params (sys_windows sys) (sys_host sys) d True of
           Inl e \<Rightarrow> Inl e
         | Inr (channels, rate) \<Rightarrow>
            (case sys_play sys d True (channels, rate) of
               Some e \<Rightarrow> Inl e
             | None \<Rightarrow> Inr (cb_new (sys_resampler sys rate SAMPLE_RATE (device_frame_size rate)) rate channels,
                 sys_ring sys (FRAME_SIZE * RING_BUF_FRAMES), name_or_empty (device_name (sys_host sys)) (Some d)))))"

definition start_playback ::
    "('dev, 'z, 'r) audio_system \<Rightarrow> string option \<Rightarrow> playout_signals \<Rightarrow>
     (string + 'z playback_renderer \<times> 'r \<times> string) \<times> playout_signals" where
  "start_playback sys wanted sg =
    (let sg = sg\<lparr>sg_queued := 0, sg_request := 0\<rparr> in
     (case resolve_device (sys_host sys) wanted False of
        Inl e \<Rightarrow> Inl e
      | Inr d \<Rightarrow>
         (case resolve_stream_params (sys_windows sys) (sys_host sys) d False of
            Inl e \<Rightarrow> Inl e
          | Inr (channels, rate) \<Rightarrow>
             (case sys_play sys d False (channels, rate) of
                Some e \<Rightarrow> Inl e
              | None \<Rightarrow> Inr (pb_new (sys_resampler sys SAMPLE_RATE rate FRAME_SIZE) rate channels,
                  sys_ring sys (FRAME_SIZE * RING_BUF_FRAMES), name_or_empty (device_name (sys_host sys)) (Some d)))), sg))"


section \<open>Falling back\<close>

text \<open>A saved name opens a device that has it, if there is one, and otherwise what no name at all would open: the
  default. A device that is unplugged never fails the start of a direction as long as there is a default.\<close>

theorem device_fallback:
  assumes "(if is_input then input_devices h else output_devices h) = Some xs"
  shows "if \<exists>d\<in>set xs. device_name h d = Some name
      then \<exists>d\<in>set xs. resolve_device h (Some name) is_input = Inr d \<and> device_name h d = Some name
      else resolve_device h (Some name) is_input = resolve_device h None is_input"
    and "resolve_device h None is_input = Inr d \<longleftrightarrow> default_device h is_input = Some d"
proof -
  show "if \<exists>d\<in>set xs. device_name h d = Some name
      then \<exists>d\<in>set xs. resolve_device h (Some name) is_input = Inr d \<and> device_name h d = Some name
      else resolve_device h (Some name) is_input = resolve_device h None is_input"
  proof (cases "find (\<lambda>d. device_name h d = Some name) xs")
    case None
    then have "\<not> (\<exists>d\<in>set xs. device_name h d = Some name)" by (auto simp: find_None_iff)
    then show ?thesis using None assms by (simp add: resolve_device_def)
  next
    case (Some d)
    then have "d \<in> set xs" "device_name h d = Some name" by (auto simp: find_Some_iff)
    moreover have "resolve_device h (Some name) is_input = Inr d" using Some assms by (simp add: resolve_device_def)
    ultimately show ?thesis by auto
  qed
  show "resolve_device h None is_input = Inr d \<longleftrightarrow> default_device h is_input = Some d"
    by (simp add: resolve_device_def Let_def split: option.split)
qed

text \<open>What a started playback guarantees off Windows: a mono stream at 48 kHz whose renderer needs no resampler,
  with the signals of the previous device forgotten, as the first round of pump and callback expects it.\<close>

lemma started_playback_plain:
  assumes "start_playback sys wanted sg = (Inr (pb, ring, opened), sg')" and "\<not> sys_windows sys"
  shows "pb_plain pb \<and> pb_channels pb = 1 \<and> sg_queued sg' = length (pq_buf (pb_queue pb)) \<and> sg_request sg' = 0"
  using assms
  by (auto simp: start_playback_def resolve_stream_params_def pb_plain_def pb_new_def pq_new_def config_defs Let_def
      split: sum.splits option.splits)

lemma started_capture_plain:
  assumes "start_capture sys wanted = Inr (cb, ring, opened)" and "\<not> sys_windows sys"
  shows "cb_sinc cb = None \<and> cb_device_rate cb = SAMPLE_RATE \<and> length (dm_energy (cb_downmix cb)) = 1 \<and> cb_accumulator cb = []"
  using assms
  by (auto simp: start_capture_def resolve_stream_params_def cb_new_def dm_new_def config_defs
      split: sum.splits option.splits)

lemma start_playback_signals: "snd (start_playback sys wanted sg) = sg\<lparr>sg_queued := 0, sg_request := 0\<rparr>"
  by (simp add: start_playback_def Let_def)

end
