(* ===== verification/Voice_Handle.thy ===== *)
theory Voice_Handle
  imports Voice_Receive Audio_Device Client_Stats Net_Addr
begin

text \<open>
  \<^verbatim>\<open>crates/client/src/voice.rs\<close>, the handle: the two audio halves and their rebuilding, the start of the pipeline
  with the tasks it spawns, the UDP send task, and what dropping the handle does. What the machine offers when a half is
  built is an \<open>audio_system\<close>; the network's part of the handshake is a parameter.
\<close>

subsection \<open>The handle\<close>

text \<open>One direction of audio: the stream, whose callback owns a renderer, and the name of the device opened.\<close>

record 'k audio_half =
  ah_stream :: 'k
  ah_opened_device :: string

datatype half_state = HalfOk | HalfFailed | HalfAbsent

record ('z, 'r) voice_handle =
  vh_capture :: "'z capture_renderer audio_half option"
  vh_playback :: "'z playback_renderer audio_half option"
  vh_capture_slot :: "'r option"
  vh_playback_slot :: "'r option"
  vh_capture_failed :: bool
  vh_playback_failed :: bool
  vh_playout :: playout_signals
  vh_diag :: audio_diagnostics
  vh_receiving :: bool
  vh_stats :: network_stats
  vh_stop :: bool
  vh_registered :: bool
  vh_bytes_tx :: "64 word"
  vh_bytes_rx :: "64 word"
  vh_speaking :: "(string \<times> speaker_stat) list"
  vh_traffic :: traffic_snapshot
  vh_input_peak :: rat
  vh_live :: live_levels

definition quality_info :: "('z, 'r) voice_handle \<Rightarrow> 8 word \<times> string" where
  "quality_info h = (ns_loss_percent (vh_stats h), tier_as_str (current_tier (vh_stats h)))"

definition capture_state :: "('z, 'r) voice_handle \<Rightarrow> half_state" where
  "capture_state h = (if vh_capture h = None then HalfAbsent else if vh_capture_failed h then HalfFailed else HalfOk)"

definition playback_state :: "('z, 'r) voice_handle \<Rightarrow> half_state" where
  "playback_state h = (if vh_playback h = None then HalfAbsent else if vh_playback_failed h then HalfFailed else HalfOk)"

definition opened_input :: "('z, 'r) voice_handle \<Rightarrow> string option" where
  "opened_input h = map_option ah_opened_device (vh_capture h)"

definition opened_output :: "('z, 'r) voice_handle \<Rightarrow> string option" where
  "opened_output h = map_option ah_opened_device (vh_playback h)"

definition rebuild_capture ::
    "('dev, 'z, 'r) audio_system \<Rightarrow> string option \<Rightarrow> ('z, 'r) voice_handle \<Rightarrow> string option \<times> ('z, 'r) voice_handle" where
  "rebuild_capture sys device h =
    (let h = h\<lparr>vh_capture := None, vh_capture_slot := None, vh_capture_failed := False\<rparr> in
     case start_capture sys device of
       Inr (stream, cons, opened) \<Rightarrow>
         (None, h\<lparr>vh_capture_slot := Some cons, vh_capture := Some \<lparr>ah_stream = stream, ah_opened_device = opened\<rparr>\<rparr>)
     | Inl e \<Rightarrow> (Some e, h))"

definition rebuild_playback ::
    "('dev, 'z, 'r) audio_system \<Rightarrow> string option \<Rightarrow> ('z, 'r) voice_handle \<Rightarrow> string option \<times> ('z, 'r) voice_handle" where
  "rebuild_playback sys device h =
    (let h = h\<lparr>vh_playback := None, vh_playback_slot := None, vh_playback_failed := False\<rparr>;
         (res, signals) = start_playback sys device (vh_playout h);
         h = h\<lparr>vh_playout := signals\<rparr>
     in case res of
          Inr (stream, prd, opened) \<Rightarrow>
            (None, h\<lparr>vh_playback_slot := Some prd, vh_playback := Some \<lparr>ah_stream = stream, ah_opened_device = opened\<rparr>\<rparr>)
        | Inl e \<Rightarrow> (Some e, h))"

text \<open>The stream's error callback.\<close>

definition stream_error :: "bool \<Rightarrow> ('z, 'r) voice_handle \<Rightarrow> ('z, 'r) voice_handle" where
  "stream_error is_input h = (if is_input then h\<lparr>vh_capture_failed := True\<rparr> else h\<lparr>vh_playback_failed := True\<rparr>)"

definition drop_handle :: "('z, 'r) voice_handle \<Rightarrow> ('z, 'r) voice_handle" where
  "drop_handle h = h\<lparr>vh_stop := True, vh_live := ll_clear (vh_live h), vh_receiving := False\<rparr>"

subsection \<open>Connecting\<close>

text \<open>The addresses: the canonical IP of the live TCP connection, and the wildcard of the same family.\<close>

definition udp_addr_of :: "ip_addr \<Rightarrow> socket_addr" where
  "udp_addr_of server_ip = (case to_canonical server_ip of
      V4 a \<Rightarrow> SockV4 a (of_nat UDP_PORT) | V6 a \<Rightarrow> SockV6 a (of_nat UDP_PORT) 0 0)"

definition bind_addr_of :: "ip_addr \<Rightarrow> socket_addr" where
  "bind_addr_of server_ip = (case to_canonical server_ip of V4 a \<Rightarrow> SockV4 0 0 | V6 a \<Rightarrow> SockV6 0 0 0 0)"

record network =
  nw_open :: "socket_addr \<Rightarrow> socket_addr \<Rightarrow> bool"
  nw_answer :: "nat \<Rightarrow> bool \<times> byte list option"

definition udp_connect_and_handshake :: "network \<Rightarrow> ip_addr \<Rightarrow> 64 word \<Rightarrow> bool option" where
  "udp_connect_and_handshake nw server_ip token =
    (if nw_open nw (bind_addr_of server_ip) (udp_addr_of server_ip) then snd (udp_handshake token (nw_answer nw)) else None)"

subsection \<open>Starting\<close>

datatype voice_task =
    RehelloTask "64 word"
  | CaptureThread channel_id string
  | UdpSendTask "64 word" nat
  | RecvTask "64 word" string bool

record voice_params =
  vp_server_ip :: ip_addr
  vp_channel_id :: channel_id
  vp_udp_token :: "64 word"
  vp_voice_key :: "byte list"
  vp_input_device :: "string option"
  vp_output_device :: "string option"
  vp_sender_name :: string
  vp_echo_test :: bool

definition handle_new :: "instant \<Rightarrow> bool \<Rightarrow> ('z, 'r) voice_handle" where
  "handle_new now acked =
    \<lparr>vh_capture = None, vh_playback = None, vh_capture_slot = None, vh_playback_slot = None,
     vh_capture_failed = False, vh_playback_failed = False,
     vh_playout = \<lparr>sg_queued = 0, sg_request = 0, sg_playing = 0\<rparr>, vh_diag = diag_new, vh_receiving = False,
     vh_stats = stats_new, vh_stop = False, vh_registered = acked, vh_bytes_tx = 0, vh_bytes_rx = 0, vh_speaking = [],
     vh_traffic = \<lparr>ts_instant = now, ts_bytes_tx = 0, ts_bytes_rx = 0, ts_tx_rate = 0, ts_rx_rate = 0\<rparr>,
     vh_input_peak = 0, vh_live = ll_new\<rparr>"

text \<open>The result and the tasks left running.\<close>

definition start_voice ::
    "('dev, 'z, 'r) audio_system \<Rightarrow> network \<Rightarrow> instant \<Rightarrow> voice_params \<Rightarrow>
     (string + ('z, 'r) voice_handle) \<times> voice_task list" where
  "start_voice sys nw now p =
    (case udp_connect_and_handshake nw (vp_server_ip p) (vp_udp_token p) of
       None \<Rightarrow> (Inl ''udp'', [])
     | Some acked \<Rightarrow>
        (let tasks = (if \<not> acked then [RehelloTask (vp_udp_token p)] else []) in
         if length (vp_voice_key p) \<noteq> 32 then (Inl ''invalid voice key'', tasks)
         else
           (let h = handle_new now acked;
                (e, h) = rebuild_capture sys (vp_input_device p) h;
                (e, h) = rebuild_playback sys (vp_output_device p) h;
                tasks = tasks @ [CaptureThread (vp_channel_id p) (vp_sender_name p),
                  UdpSendTask (vp_udp_token p) UDP_KEEPALIVE_INTERVAL_SECS,
                  RecvTask (vp_udp_token p) (vp_sender_name p) (vp_echo_test p)];
                h = h\<lparr>vh_receiving := True\<rparr>
            in (Inr h, tasks))))"

subsection \<open>The send task\<close>

text \<open>What one turn of the loop sees: a packet from the capture thread and whether the socket took it, nothing for
  the keepalive interval, or the end of the pipeline.\<close>

datatype send_event = Encoded "byte list" bool | Silence bool | PipelineStopped

fun udp_send_task :: "64 word \<Rightarrow> send_event list \<Rightarrow> 64 word \<Rightarrow> byte list list \<times> 64 word" where
  "udp_send_task token [] tx = ([], tx)"
| "udp_send_task token (Encoded bytes ok # es) tx =
    (let (sent, tx) = udp_send_task token es (if ok then tx + of_nat (length bytes) else tx)
     in (if ok then (bytes # sent, tx) else (sent, tx)))"
| "udp_send_task token (Silence ok # es) tx =
    (let (sent, tx) = udp_send_task token es tx in (if ok then (encode_udp_hello token # sent, tx) else (sent, tx)))"
| "udp_send_task token (PipelineStopped # es) tx = ([], tx)"


section \<open>The halves\<close>

text \<open>The ring is installed exactly while the half has a stream.\<close>

definition halves_ok :: "('z, 'r) voice_handle \<Rightarrow> bool" where
  "halves_ok h \<longleftrightarrow> (vh_capture h = None \<longleftrightarrow> vh_capture_slot h = None) \<and> (vh_playback h = None \<longleftrightarrow> vh_playback_slot h = None)"

lemma handle_new_ok: "halves_ok (handle_new now acked)"
  by (simp add: halves_ok_def handle_new_def)

lemma stream_error_ok: "halves_ok h \<Longrightarrow> halves_ok (stream_error is_input h)"
  by (simp add: halves_ok_def stream_error_def)

lemma rebuild_capture_keeps:
  assumes "rebuild_capture sys device h = (err, h')"
  shows "vh_playback h' = vh_playback h" "vh_playback_slot h' = vh_playback_slot h" "vh_playback_failed h' = vh_playback_failed h"
    "vh_stop h' = vh_stop h" "vh_registered h' = vh_registered h" "vh_receiving h' = vh_receiving h" "vh_playout h' = vh_playout h"
  using assms by (auto simp: rebuild_capture_def Let_def split: sum.splits)

lemma rebuild_playback_keeps:
  assumes "rebuild_playback sys device h = (err, h')"
  shows "vh_capture h' = vh_capture h" "vh_capture_slot h' = vh_capture_slot h" "vh_capture_failed h' = vh_capture_failed h"
    "vh_stop h' = vh_stop h" "vh_registered h' = vh_registered h" "vh_receiving h' = vh_receiving h"
    "vh_playout h' = (vh_playout h)\<lparr>sg_queued := 0, sg_request := 0\<rparr>"
  using assms start_playback_signals [of sys device "vh_playout h"]
  by (auto simp: rebuild_playback_def Let_def split: sum.splits prod.splits)

lemma rebuild_capture_effect:
  assumes "rebuild_capture sys device h = (err, h')"
  shows "capture_state h' = (if err = None then HalfOk else HalfAbsent)"
    and "err = None \<longleftrightarrow> (\<exists>x. start_capture sys device = Inr x)"
    and "opened_input h' = (case start_capture sys device of Inr (stream, cons, opened) \<Rightarrow> Some opened | Inl e \<Rightarrow> None)"
    and "halves_ok h \<Longrightarrow> halves_ok h'"
  using assms
  by (auto simp: rebuild_capture_def capture_state_def halves_ok_def opened_input_def Let_def split: sum.splits)

lemma rebuild_playback_effect:
  assumes "rebuild_playback sys device h = (err, h')"
  shows "playback_state h' = (if err = None then HalfOk else HalfAbsent)"
    and "err = None \<longleftrightarrow> (\<exists>x. fst (start_playback sys device (vh_playout h)) = Inr x)"
    and "opened_output h' = (case fst (start_playback sys device (vh_playout h)) of
      Inr (stream, prd, opened) \<Rightarrow> Some opened | Inl e \<Rightarrow> None)"
    and "halves_ok h \<Longrightarrow> halves_ok h'"
  using assms
  by (auto simp: rebuild_playback_def playback_state_def halves_ok_def opened_output_def Let_def split: sum.splits prod.splits)

section \<open>Starting\<close>

abbreviation signals_new :: playout_signals where
  "signals_new \<equiv> \<lparr>sg_queued = 0, sg_request = 0, sg_playing = 0\<rparr>"

text \<open>C29 Audio never fails a start: with a socket and a key the pipeline runs, whatever the devices. Each half is there exactly
  if its device could be opened, under the name of the device opened; a re-hello task is spawned exactly if no attempt of
  the handshake was answered, and the three tasks of the pipeline always. The only other outcomes are the network's error,
  after which nothing runs, and a key of another length, after which a re-hello task may be left running with no
  handle that could ever stop it.\<close>

theorem start_voice_exact:
  assumes "start_voice sys nw now p = (res, tasks)"
  shows "case udp_connect_and_handshake nw (vp_server_ip p) (vp_udp_token p) of
      None \<Rightarrow> (\<exists>e. res = Inl e) \<and> tasks = []
    | Some acked \<Rightarrow>
        if length (vp_voice_key p) \<noteq> 32
        then (\<exists>e. res = Inl e) \<and> tasks = (if acked then [] else [RehelloTask (vp_udp_token p)])
        else \<exists>h. res = Inr h \<and> halves_ok h \<and> vh_receiving h \<and> \<not> vh_stop h \<and> vh_registered h = acked \<and>
          capture_state h = (case start_capture sys (vp_input_device p) of Inr x \<Rightarrow> HalfOk | Inl e \<Rightarrow> HalfAbsent) \<and>
          opened_input h = (case start_capture sys (vp_input_device p) of Inr (stream, cons, opened) \<Rightarrow> Some opened | Inl e \<Rightarrow> None) \<and>
          playback_state h = (case fst (start_playback sys (vp_output_device p) signals_new) of Inr x \<Rightarrow> HalfOk | Inl e \<Rightarrow> HalfAbsent) \<and>
          opened_output h = (case fst (start_playback sys (vp_output_device p) signals_new) of
            Inr (stream, prd, opened) \<Rightarrow> Some opened | Inl e \<Rightarrow> None) \<and>
          (RehelloTask (vp_udp_token p) \<in> set tasks \<longleftrightarrow> \<not> acked) \<and>
          set tasks - {RehelloTask (vp_udp_token p)} = {CaptureThread (vp_channel_id p) (vp_sender_name p),
            UdpSendTask (vp_udp_token p) UDP_KEEPALIVE_INTERVAL_SECS, RecvTask (vp_udp_token p) (vp_sender_name p) (vp_echo_test p)}"
proof (cases "udp_connect_and_handshake nw (vp_server_ip p) (vp_udp_token p)")
  case (Some acked)
  show ?thesis
  proof (cases "length (vp_voice_key p) = 32")
    case True
    obtain e1 h1 where c: "rebuild_capture sys (vp_input_device p) (handle_new now acked) = (e1, h1)" by fastforce
    obtain e2 h2 where b: "rebuild_playback sys (vp_output_device p) h1 = (e2, h2)" by fastforce
    note cap = rebuild_capture_effect [OF c] and play = rebuild_playback_effect [OF b]
    have res: "res = Inr (h2\<lparr>vh_receiving := True\<rparr>)"
      and tasks: "tasks = (if \<not> acked then [RehelloTask (vp_udp_token p)] else []) @
        [CaptureThread (vp_channel_id p) (vp_sender_name p), UdpSendTask (vp_udp_token p) UDP_KEEPALIVE_INTERVAL_SECS,
          RecvTask (vp_udp_token p) (vp_sender_name p) (vp_echo_test p)]"
      using assms Some True c b by (auto simp: start_voice_def Let_def)
    have ok: "halves_ok h2" using play(4) cap(4) handle_new_ok by blast
    have kept: "vh_capture h2 = vh_capture h1" "vh_capture_failed h2 = vh_capture_failed h1" "vh_stop h2 = vh_stop h1"
      "vh_registered h2 = vh_registered h1"
      using rebuild_playback_keeps [OF b] by simp_all
    have new: "vh_stop h1 = False" "vh_registered h1 = acked"
      using rebuild_capture_keeps [OF c] by (simp_all add: handle_new_def)
    have cap_state: "capture_state (h2\<lparr>vh_receiving := True\<rparr>) =
        (case start_capture sys (vp_input_device p) of Inr x \<Rightarrow> HalfOk | Inl e \<Rightarrow> HalfAbsent)"
    proof -
      have "capture_state (h2\<lparr>vh_receiving := True\<rparr>) = capture_state h1" by (simp add: capture_state_def kept)
      with cap(1,2) show ?thesis by (auto split: sum.split)
    qed
    have cap_name: "opened_input (h2\<lparr>vh_receiving := True\<rparr>) =
        (case start_capture sys (vp_input_device p) of Inr (stream, cons, opened) \<Rightarrow> Some opened | Inl e \<Rightarrow> None)"
      using cap(3) by (simp add: opened_input_def kept)
    have signals: "vh_playout h1 = signals_new" using rebuild_capture_keeps(7) [OF c] by (simp add: handle_new_def)
    have play_state: "playback_state (h2\<lparr>vh_receiving := True\<rparr>) =
        (case fst (start_playback sys (vp_output_device p) signals_new) of Inr x \<Rightarrow> HalfOk | Inl e \<Rightarrow> HalfAbsent)"
    proof -
      have "playback_state (h2\<lparr>vh_receiving := True\<rparr>) = playback_state h2" by (simp add: playback_state_def)
      with play(1,2) show ?thesis by (auto simp: signals split: sum.split)
    qed
    have play_name: "opened_output (h2\<lparr>vh_receiving := True\<rparr>) =
        (case fst (start_playback sys (vp_output_device p) signals_new) of Inr (stream, prd, opened) \<Rightarrow> Some opened | Inl e \<Rightarrow> None)"
      using play(3) by (simp add: opened_output_def signals)
    have "halves_ok (h2\<lparr>vh_receiving := True\<rparr>)" using ok by (simp add: halves_ok_def)
    moreover have "RehelloTask (vp_udp_token p) \<in> set tasks \<longleftrightarrow> \<not> acked"
      "set tasks - {RehelloTask (vp_udp_token p)} = {CaptureThread (vp_channel_id p) (vp_sender_name p),
        UdpSendTask (vp_udp_token p) UDP_KEEPALIVE_INTERVAL_SECS, RecvTask (vp_udp_token p) (vp_sender_name p) (vp_echo_test p)}"
      by (auto simp: tasks)
    ultimately show ?thesis
      using cap_state cap_name play_state play_name True unfolding res by (simp add: Some kept new)
  qed (use assms Some in \<open>auto simp: start_voice_def Let_def\<close>)
qed (use assms in \<open>auto simp: start_voice_def\<close>)

text \<open>A machine with a loudspeaker and no microphone.\<close>

definition sample_system :: "(string, unit, rat list) audio_system" where
  "sample_system = \<lparr>sys_windows = False,
     sys_host = \<lparr>input_devices = Some [], output_devices = Some [''spk''], default_input_device = None,
       default_output_device = Some ''spk'', device_name = Some, default_config = \<lambda>d i. None\<rparr>,
     sys_resampler = \<lambda>a b c. None, sys_play = \<lambda>d i p. None, sys_ring = \<lambda>n. []\<rparr>"

definition sample_params :: voice_params where
  "sample_params = \<lparr>vp_server_ip = V4 1, vp_channel_id = ''abc'', vp_udp_token = 7, vp_voice_key = replicate 32 0,
     vp_input_device = Some ''headset'', vp_output_device = Some ''headset'', vp_sender_name = ''ann'', vp_echo_test = False\<rparr>"

definition deaf_network :: network where
  "deaf_network = \<lparr>nw_open = \<lambda>a b. True, nw_answer = \<lambda>i. (True, None)\<rparr>"

lemma deaf_handshake: "udp_connect_and_handshake deaf_network ip token = Some False"
  by (simp add: udp_connect_and_handshake_def deaf_network_def udp_handshake_def UDP_HELLO_RETRIES_def numeral_3_eq_3 Let_def)

theorem start_voice_exact_witness:
  "(\<exists>h. fst (start_voice sample_system deaf_network 5 sample_params) = Inr h \<and> capture_state h = HalfAbsent \<and>
      playback_state h = HalfOk \<and> opened_output h = Some ''spk'' \<and> vh_receiving h) \<and>
    RehelloTask 7 \<in> set (snd (start_voice sample_system deaf_network 5 sample_params)) \<and>
    snd (start_voice sample_system deaf_network 5 (sample_params\<lparr>vp_voice_key := [1]\<rparr>)) = [RehelloTask 7]"
proof -
  have mic: "start_capture sample_system (Some ''headset'') = Inl ''no input device available''"
    by (simp add: start_capture_def resolve_device_def default_device_def sample_system_def)
  obtain pb ring where spk: "fst (start_playback sample_system (Some ''headset'') signals_new) = Inr (pb, ring, ''spk'')"
    by (simp add: start_playback_def resolve_device_def default_device_def resolve_stream_params_def sample_system_def
        name_or_empty_def Let_def)
  obtain res tasks where s: "start_voice sample_system deaf_network 5 sample_params = (res, tasks)" by fastforce
  obtain res' tasks' where s': "start_voice sample_system deaf_network 5 (sample_params\<lparr>vp_voice_key := [1]\<rparr>) = (res', tasks')"
    by fastforce
  have key: "length (vp_voice_key sample_params) = 32" "vp_input_device sample_params = Some ''headset''" "vp_output_device sample_params = Some ''headset''"
    "vp_udp_token sample_params = 7"
    by (simp_all add: sample_params_def)
  from start_voice_exact [OF s, unfolded deaf_handshake option.case key mic spk]
  have "(\<exists>h. res = Inr h \<and> capture_state h = HalfAbsent \<and> playback_state h = HalfOk \<and> opened_output h = Some ''spk'' \<and>
      vh_receiving h) \<and> RehelloTask 7 \<in> set tasks" by auto
  moreover from start_voice_exact [OF s', unfolded deaf_handshake option.case]
  have "tasks' = [RehelloTask 7]" by (simp add: key)
  ultimately show ?thesis by (simp add: s s')
qed

section \<open>Sending\<close>

text \<open>The packets of the capture thread in order, the hello while it is silent, and nothing else; only packets are counted.\<close>

lemma udp_send_task_sent:
  "udp_send_task token es tx = (sent, tx') \<Longrightarrow>
    sent = List.map_filter (\<lambda>e. case e of Encoded bytes ok \<Rightarrow> if ok then Some bytes else None
        | Silence ok \<Rightarrow> if ok then Some (encode_udp_hello token) else None | PipelineStopped \<Rightarrow> None)
      (takeWhile (\<lambda>e. e \<noteq> PipelineStopped) es)"
  by (induction token es tx arbitrary: sent tx' rule: udp_send_task.induct)
    (auto simp: map_filter_simps Let_def split: prod.splits if_splits)

lemma silence_says_hello:
  "udp_send_task token es tx = (sent, tx') \<Longrightarrow> Silence True \<in> set (takeWhile (\<lambda>e. e \<noteq> PipelineStopped) es) \<Longrightarrow>
    encode_udp_hello token \<in> set sent"
  by (drule udp_send_task_sent) (force simp: map_filter_def image_iff)

end
