(* ===== verification/Voice_Actor.thy ===== *)
theory Voice_Actor
  imports Voice_Handle
begin

text \<open>
  \<^verbatim>\<open>apps/desktop/src-tauri/src/voice_actor.rs\<close>: the thread that owns the voice pipeline of the desktop client, the
  supervisor of its audio devices and the commands the rest of the application sends. A command is one step; the
  machine, the network and the time it meets are its \<open>actor_env\<close>, with every reading of the clock within one command
  the same.
\<close>

record new_device =
  nd_kind :: string
  nd_name :: string

record echo_result =
  er_mic_ok :: bool
  er_output_ok :: bool
  er_registered :: bool
  er_roundtrip_ok :: bool
  er_bytes_received :: "64 word"

definition echo_default :: echo_result where
  "echo_default = \<lparr>er_mic_ok = False, er_output_ok = False, er_registered = False, er_roundtrip_ok = False, er_bytes_received = 0\<rparr>"

record voice_snapshot =
  vs_active :: bool
  vs_loss_percent :: "8 word"
  vs_tier :: string
  vs_speaker_levels :: "(string \<times> rat) list"
  vs_tx_rate :: rat
  vs_rx_rate :: rat
  vs_input_peak :: rat
  vs_registered :: bool
  vs_device_restarts :: "32 word"
  vs_capture_ok :: bool
  vs_playback_ok :: bool
  vs_new_devices :: "new_device list"
  vs_devices_changed :: bool
  vs_live_levels :: "live_levels option"

definition snapshot_idle :: voice_snapshot where
  "snapshot_idle = \<lparr>vs_active = False, vs_loss_percent = 0, vs_tier = [CHR 0xE2, CHR 0x80, CHR 0x94], vs_speaker_levels = [],
     vs_tx_rate = 0, vs_rx_rate = 0, vs_input_peak = 0, vs_registered = True, vs_device_restarts = 0, vs_capture_ok = True,
     vs_playback_ok = True, vs_new_devices = [], vs_devices_changed = False, vs_live_levels = None\<rparr>"

datatype command =
    StartVoice voice_params
  | StopVoice
  | TakeSnapshot
  | SetInputDevice "string option"
  | SetOutputDevice "string option"
  | EchoStart voice_params
  | EchoStop

datatype reply = StartReply "string + unit" | SnapshotReply voice_snapshot | EchoReply echo_result | NoReply

record ('dev, 'z, 'r) actor_env =
  en_system :: "('dev, 'z, 'r) audio_system"
  en_network :: network
  en_now :: instant

subsection \<open>The supervisor\<close>

record supervisor =
  su_desired_input :: "string option"
  su_desired_output :: "string option"
  su_last_capture_attempt :: "instant option"
  su_last_playback_attempt :: "instant option"
  su_last_device_poll :: "instant option"
  su_known_inputs :: "string list option"
  su_known_outputs :: "string list option"
  su_rebuilds :: "32 word"
  su_pending_new_devices :: "new_device list"
  su_devices_changed :: bool

definition sup_new :: "string option \<Rightarrow> string option \<Rightarrow> supervisor" where
  "sup_new input output = \<lparr>su_desired_input = input, su_desired_output = output, su_last_capture_attempt = None,
     su_last_playback_attempt = None, su_last_device_poll = None, su_known_inputs = None, su_known_outputs = None,
     su_rebuilds = 0, su_pending_new_devices = [], su_devices_changed = False\<rparr>"

text \<open>\<open>is_none_or(elapsed >= interval)\<close>\<close>

definition due :: "nat \<Rightarrow> instant \<Rightarrow> instant option \<Rightarrow> bool" where
  "due interval_ms now prior = (case prior of None \<Rightarrow> True | Some t \<Rightarrow> millis interval_ms \<le> now - t)"

definition count_rebuild :: "string option \<Rightarrow> supervisor \<Rightarrow> supervisor" where
  "count_rebuild err su = (if err = None then su\<lparr>su_rebuilds := su_rebuilds su + 1\<rparr> else su)"

definition retry_capture ::
    "('dev, 'z, 'r) actor_env \<Rightarrow> ('z, 'r) voice_handle \<times> supervisor \<Rightarrow> ('z, 'r) voice_handle \<times> supervisor" where
  "retry_capture env = (\<lambda>(h, su).
    if capture_state h \<noteq> HalfOk \<and> due VOICE_RESTART_MIN_INTERVAL_MS (en_now env) (su_last_capture_attempt su)
    then (let su = su\<lparr>su_last_capture_attempt := Some (en_now env)\<rparr>;
              (err, h) = rebuild_capture (en_system env) (su_desired_input su) h
          in (h, count_rebuild err su))
    else (h, su))"

definition retry_playback ::
    "('dev, 'z, 'r) actor_env \<Rightarrow> ('z, 'r) voice_handle \<times> supervisor \<Rightarrow> ('z, 'r) voice_handle \<times> supervisor" where
  "retry_playback env = (\<lambda>(h, su).
    if playback_state h \<noteq> HalfOk \<and> due VOICE_RESTART_MIN_INTERVAL_MS (en_now env) (su_last_playback_attempt su)
    then (let su = su\<lparr>su_last_playback_attempt := Some (en_now env)\<rparr>;
              (err, h) = rebuild_playback (en_system env) (su_desired_output su) h
          in (h, count_rebuild err su))
    else (h, su))"

definition follow_input ::
    "('dev, 'z, 'r) actor_env \<Rightarrow> ('z, 'r) voice_handle \<times> supervisor \<Rightarrow> ('z, 'r) voice_handle \<times> supervisor" where
  "follow_input env = (\<lambda>(h, su).
    case (su_desired_input su, default_input_name (sys_host (en_system env)), opened_input h) of
      (None, Some def, Some cur) \<Rightarrow>
        if cur \<noteq> def then (let (err, h) = rebuild_capture (en_system env) None h in (h, count_rebuild err su)) else (h, su)
    | _ \<Rightarrow> (h, su))"

definition follow_output ::
    "('dev, 'z, 'r) actor_env \<Rightarrow> ('z, 'r) voice_handle \<times> supervisor \<Rightarrow> ('z, 'r) voice_handle \<times> supervisor" where
  "follow_output env = (\<lambda>(h, su).
    case (su_desired_output su, default_output_name (sys_host (en_system env)), opened_output h) of
      (None, Some def, Some cur) \<Rightarrow>
        if cur \<noteq> def then (let (err, h) = rebuild_playback (en_system env) None h in (h, count_rebuild err su)) else (h, su)
    | _ \<Rightarrow> (h, su))"

definition on_new_device ::
    "('dev, 'z, 'r) actor_env \<Rightarrow> string \<Rightarrow> string \<Rightarrow> ('z, 'r) voice_handle option \<times> supervisor \<Rightarrow>
     ('z, 'r) voice_handle option \<times> supervisor" where
  "on_new_device env kind name = (\<lambda>(handle, su).
    if (if kind = ''input'' then su_desired_input su else su_desired_output su) = Some name
    then (case handle of
        None \<Rightarrow> (None, su)
      | Some h \<Rightarrow>
         (let (err, h) = (if kind = ''input'' then rebuild_capture (en_system env) (Some name) h
                else rebuild_playback (en_system env) (Some name) h)
          in (Some h, count_rebuild err su)))
    else (handle, su\<lparr>su_pending_new_devices := su_pending_new_devices su @ [\<lparr>nd_kind = kind, nd_name = name\<rparr>]\<rparr>))"

text \<open>The names of the devices as a set; a failed listing counts as no devices.\<close>

definition device_names :: "device_info list option \<Rightarrow> string list" where
  "device_names ds = (case ds of None \<Rightarrow> [] | Some ds \<Rightarrow> remdups (map di_name ds))"

definition hotplug ::
    "('dev, 'z, 'r) actor_env \<Rightarrow> ('z, 'r) voice_handle option \<times> supervisor \<Rightarrow> ('z, 'r) voice_handle option \<times> supervisor" where
  "hotplug env = (\<lambda>(handle, su).
    let inputs = device_names (list_input_devices (sys_host (en_system env)));
        outputs = device_names (list_output_devices (sys_host (en_system env)));
        (handle, su) = (case (su_known_inputs su, su_known_outputs su) of
            (Some known_in, Some known_out) \<Rightarrow>
              (let (handle, su) = fold (on_new_device env ''input'') (filter (\<lambda>n. n \<notin> set known_in) inputs) (handle, su);
                   (handle, su) = fold (on_new_device env ''output'') (filter (\<lambda>n. n \<notin> set known_out) outputs) (handle, su)
               in (handle, if set inputs \<noteq> set known_in \<or> set outputs \<noteq> set known_out
                   then su\<lparr>su_devices_changed := True\<rparr> else su))
          | _ \<Rightarrow> (handle, su))
    in (handle, su\<lparr>su_known_inputs := Some inputs, su_known_outputs := Some outputs\<rparr>))"

definition tick_retry ::
    "('dev, 'z, 'r) actor_env \<Rightarrow> ('z, 'r) voice_handle option \<times> supervisor \<Rightarrow> ('z, 'r) voice_handle option \<times> supervisor" where
  "tick_retry env = (\<lambda>(handle, su). case handle of
      None \<Rightarrow> (None, su)
    | Some h \<Rightarrow> (let (h, su) = retry_playback env (retry_capture env (h, su)) in (Some h, su)))"

definition tick_follow ::
    "('dev, 'z, 'r) actor_env \<Rightarrow> ('z, 'r) voice_handle option \<times> supervisor \<Rightarrow> ('z, 'r) voice_handle option \<times> supervisor" where
  "tick_follow env = (\<lambda>(handle, su). case handle of
      None \<Rightarrow> (None, su)
    | Some h \<Rightarrow> (let (h, su) = follow_output env (follow_input env (h, su)) in (Some h, su)))"

definition sup_tick ::
    "('dev, 'z, 'r) actor_env \<Rightarrow> ('z, 'r) voice_handle option \<Rightarrow> supervisor \<Rightarrow> ('z, 'r) voice_handle option \<times> supervisor" where
  "sup_tick env handle su =
    (let (handle, su) = tick_retry env (handle, su) in
     if \<not> due DEVICE_POLL_INTERVAL_MS (en_now env) (su_last_device_poll su) then (handle, su)
     else hotplug env (tick_follow env (handle, su\<lparr>su_last_device_poll := Some (en_now env)\<rparr>)))"

subsection \<open>The actor\<close>

record ('z, 'r) actor =
  ac_handle :: "('z, 'r) voice_handle option"
  ac_echo_handle :: "('z, 'r) voice_handle option"
  ac_last_params :: "voice_params option"
  ac_last_restart :: "instant option"
  ac_sup :: supervisor

definition actor_new :: "('z, 'r) actor" where
  "actor_new = \<lparr>ac_handle = None, ac_echo_handle = None, ac_last_params = None, ac_last_restart = None, ac_sup = sup_new None None\<rparr>"

definition start_from :: "('dev, 'z, 'r) actor_env \<Rightarrow> voice_params \<Rightarrow> string + ('z, 'r) voice_handle" where
  "start_from env p = fst (start_voice (en_system env) (en_network env) (en_now env) p)"

definition echo_result_of :: "('z, 'r) voice_handle \<Rightarrow> echo_result" where
  "echo_result_of h = \<lparr>er_mic_ok = (capture_state h = HalfOk), er_output_ok = (playback_state h = HalfOk),
     er_registered = vh_registered h, er_roundtrip_ok = (0 < vh_bytes_rx h), er_bytes_received = vh_bytes_rx h\<rparr>"

text \<open>What a snapshot reports of a handle, which it also updates: old speakers are forgotten, the traffic window moves on.\<close>

definition report :: "instant \<Rightarrow> supervisor \<Rightarrow> ('z, 'r) voice_handle \<Rightarrow> voice_snapshot \<times> ('z, 'r) voice_handle" where
  "report now su h =
    (let (loss, tier) = quality_info h;
         ((tx, rx, bytes_total), traffic) = traffic_info now (vh_bytes_tx h) (vh_bytes_rx h) (vh_traffic h);
         (levels, speaking) = speaker_levels now (vh_speaking h);
         h = h\<lparr>vh_traffic := traffic, vh_speaking := speaking\<rparr>
     in (\<lparr>vs_active = True, vs_loss_percent = loss, vs_tier = tier, vs_speaker_levels = levels, vs_tx_rate = tx, vs_rx_rate = rx,
          vs_input_peak = vh_input_peak h, vs_registered = vh_registered h, vs_device_restarts = su_rebuilds su,
          vs_capture_ok = (capture_state h = HalfOk), vs_playback_ok = (playback_state h = HalfOk),
          vs_new_devices = su_pending_new_devices su, vs_devices_changed = su_devices_changed su,
          vs_live_levels = Some (vh_live h)\<rparr>, h))"

text \<open>A pipeline whose start failed is started again, throttled.\<close>

definition restart_failed :: "('dev, 'z, 'r) actor_env \<Rightarrow> ('z, 'r) actor \<Rightarrow> ('z, 'r) actor" where
  "restart_failed env ac =
    (case (ac_handle ac, ac_echo_handle ac, ac_last_params ac) of
       (None, None, Some p) \<Rightarrow>
         if due VOICE_RESTART_MIN_INTERVAL_MS (en_now env) (ac_last_restart ac)
         then (let ac = ac\<lparr>ac_last_restart := Some (en_now env)\<rparr> in
               case start_from env p of Inr h \<Rightarrow> ac\<lparr>ac_handle := Some h\<rparr> | Inl e \<Rightarrow> ac)
         else ac
     | _ \<Rightarrow> ac)"

definition take_snapshot :: "('dev, 'z, 'r) actor_env \<Rightarrow> ('z, 'r) actor \<Rightarrow> voice_snapshot \<times> ('z, 'r) actor" where
  "take_snapshot env ac =
    (let ac = restart_failed env ac;
         (handle, su) = sup_tick env (ac_handle ac) (ac_sup ac);
         drained = su\<lparr>su_pending_new_devices := [], su_devices_changed := False\<rparr>;
         ac = ac\<lparr>ac_handle := handle, ac_sup := drained\<rparr>
     in case (handle, ac_echo_handle ac) of
          (Some h, _) \<Rightarrow> (let (snap, h) = report (en_now env) su h in (snap, ac\<lparr>ac_handle := Some h\<rparr>))
        | (None, Some h) \<Rightarrow> (let (snap, h) = report (en_now env) su h in (snap, ac\<lparr>ac_echo_handle := Some h\<rparr>))
        | (None, None) \<Rightarrow> (snapshot_idle\<lparr>vs_new_devices := su_pending_new_devices su,
            vs_devices_changed := su_devices_changed su\<rparr>, ac))"

text \<open>One command. A handle that is replaced or let go is dropped, which stops its tasks.\<close>

fun actor_step :: "('dev, 'z, 'r) actor_env \<Rightarrow> command \<Rightarrow> ('z, 'r) actor \<Rightarrow> reply \<times> ('z, 'r) actor" where
  "actor_step env (StartVoice p) ac =
    (let ac = ac\<lparr>ac_handle := None, ac_last_restart := None, ac_sup := sup_new (vp_input_device p) (vp_output_device p)\<rparr>;
         res = start_from env p;
         ac = ac\<lparr>ac_last_params := Some p\<rparr>
     in case res of
          Inr h \<Rightarrow> (StartReply (Inr ()), ac\<lparr>ac_handle := Some h\<rparr>)
        | Inl e \<Rightarrow> (StartReply (Inl e), ac))"
| "actor_step env StopVoice ac = (NoReply, ac\<lparr>ac_handle := None, ac_last_params := None\<rparr>)"
| "actor_step env (EchoStart p) ac =
    (let ac = ac\<lparr>ac_echo_handle := None\<rparr> in
     case start_from env p of
       Inr h \<Rightarrow> (StartReply (Inr ()), ac\<lparr>ac_echo_handle := Some h\<rparr>)
     | Inl e \<Rightarrow> (StartReply (Inl e), ac))"
| "actor_step env EchoStop ac =
    (EchoReply (case ac_echo_handle ac of None \<Rightarrow> echo_default | Some h \<Rightarrow> echo_result_of h), ac\<lparr>ac_echo_handle := None\<rparr>)"
| "actor_step env (SetInputDevice name) ac =
    (let ac = ac\<lparr>ac_sup := (ac_sup ac)\<lparr>su_desired_input := name\<rparr>\<rparr> in
     (NoReply, ac\<lparr>ac_handle := map_option (\<lambda>h. snd (rebuild_capture (en_system env) name h)) (ac_handle ac)\<rparr>))"
| "actor_step env (SetOutputDevice name) ac =
    (let ac = ac\<lparr>ac_sup := (ac_sup ac)\<lparr>su_desired_output := name\<rparr>\<rparr> in
     (NoReply, ac\<lparr>ac_handle := map_option (\<lambda>h. snd (rebuild_playback (en_system env) name h)) (ac_handle ac)\<rparr>))"
| "actor_step env TakeSnapshot ac = (let (snap, ac) = take_snapshot env ac in (SnapshotReply snap, ac))"

text \<open>Between two commands the world changes a live handle: devices fail, packets arrive, levels move. What only
  the actor changes, the halves, stays.\<close>

definition same_halves :: "('z, 'r) voice_handle \<Rightarrow> ('z, 'r) voice_handle \<Rightarrow> bool" where
  "same_halves h h' \<longleftrightarrow> opened_input h' = opened_input h \<and> opened_output h' = opened_output h \<and>
     (vh_capture_slot h' = None \<longleftrightarrow> vh_capture_slot h = None) \<and> (vh_playback_slot h' = None \<longleftrightarrow> vh_playback_slot h = None) \<and>
     vh_stop h' = vh_stop h \<and> vh_receiving h' = vh_receiving h"

datatype ('dev, 'z, 'r) actor_event =
    Command "('dev, 'z, 'r) actor_env" command
  | CallChanged "('z, 'r) voice_handle"
  | EchoChanged "('z, 'r) voice_handle"

fun actor_next :: "('dev, 'z, 'r) actor_event \<Rightarrow> ('z, 'r) actor \<Rightarrow> ('z, 'r) actor" where
  "actor_next (Command env cmd) ac = snd (actor_step env cmd ac)"
| "actor_next (CallChanged h') ac = (case ac_handle ac of
      Some h \<Rightarrow> if same_halves h h' then ac\<lparr>ac_handle := Some h'\<rparr> else ac
    | None \<Rightarrow> ac)"
| "actor_next (EchoChanged h') ac = (case ac_echo_handle ac of
      Some h \<Rightarrow> if same_halves h h' then ac\<lparr>ac_echo_handle := Some h'\<rparr> else ac
    | None \<Rightarrow> ac)"

definition actor_run :: "('dev, 'z, 'r) actor_event list \<Rightarrow> ('z, 'r) actor \<Rightarrow> ('z, 'r) actor" where
  "actor_run es ac = fold actor_next es ac"


section \<open>The supervisor's passes\<close>

text \<open>What every pass keeps of a live handle.\<close>

definition live :: "('z, 'r) voice_handle \<Rightarrow> bool" where
  "live h \<longleftrightarrow> halves_ok h \<and> vh_receiving h \<and> \<not> vh_stop h"

lemma live_rebuilt [simp]:
  "live h \<Longrightarrow> live (snd (rebuild_capture sys d h))" "live h \<Longrightarrow> live (snd (rebuild_playback sys d h))"
  using rebuild_capture_keeps [of sys d h, OF surjective_pairing] rebuild_capture_effect(4) [of sys d h, OF surjective_pairing]
    rebuild_playback_keeps [of sys d h, OF surjective_pairing] rebuild_playback_effect(4) [of sys d h, OF surjective_pairing]
  by (simp_all add: live_def)

lemma receiving_halves: "halves_ok (h\<lparr>vh_receiving := b\<rparr>) = halves_ok h"
  by (simp add: halves_ok_def)

lemma receiving_states:
  "capture_state (h\<lparr>vh_receiving := b\<rparr>) = capture_state h" "playback_state (h\<lparr>vh_receiving := b\<rparr>) = playback_state h"
  "opened_input (h\<lparr>vh_receiving := b\<rparr>) = opened_input h"
  by (simp_all add: capture_state_def playback_state_def opened_input_def)

lemma idle_rebuilt:
  "halves_ok h \<Longrightarrow> halves_ok (snd (rebuild_capture sys d h))" "halves_ok h \<Longrightarrow> halves_ok (snd (rebuild_playback sys d h))"
  "vh_stop (snd (rebuild_capture sys d h)) = vh_stop h" "vh_stop (snd (rebuild_playback sys d h)) = vh_stop h"
  using rebuild_capture_keeps(4) [of sys d h, OF surjective_pairing] rebuild_capture_effect(4) [of sys d h, OF surjective_pairing]
    rebuild_playback_keeps(4) [of sys d h, OF surjective_pairing] rebuild_playback_effect(4) [of sys d h, OF surjective_pairing]
  by simp_all

lemma count_rebuild_keeps [simp]:
  "su_desired_input (count_rebuild e su) = su_desired_input su" "su_desired_output (count_rebuild e su) = su_desired_output su"
  "su_known_inputs (count_rebuild e su) = su_known_inputs su" "su_known_outputs (count_rebuild e su) = su_known_outputs su"
  "su_pending_new_devices (count_rebuild e su) = su_pending_new_devices su"
  "su_devices_changed (count_rebuild e su) = su_devices_changed su"
  "su_last_device_poll (count_rebuild e su) = su_last_device_poll su"
  by (simp_all add: count_rebuild_def)

text \<open>A device of a kind can be opened at the moment.\<close>

definition can_capture :: "('dev, 'z, 'r) actor_env \<Rightarrow> string option \<Rightarrow> bool" where
  "can_capture env d \<longleftrightarrow> (\<exists>x. start_capture (en_system env) d = Inr x)"

definition can_play :: "('dev, 'z, 'r) actor_env \<Rightarrow> string option \<Rightarrow> bool" where
  "can_play env d \<longleftrightarrow> (\<exists>x. fst (start_playback (en_system env) d \<lparr>sg_queued = 0, sg_request = 0, sg_playing = 0\<rparr>) = Inr x)"

lemma start_playback_fst: "fst (start_playback sys d sg) = fst (start_playback sys d sg')"
  by (simp add: start_playback_def Let_def)

lemma capture_rebuilt:
  "capture_state (snd (rebuild_capture (en_system env) d h)) = (if can_capture env d then HalfOk else HalfAbsent)"
  "playback_state (snd (rebuild_capture (en_system env) d h)) = playback_state h"
  "opened_output (snd (rebuild_capture (en_system env) d h)) = opened_output h"
  using rebuild_capture_effect(1,2) [of "en_system env" d h, OF surjective_pairing]
    rebuild_capture_keeps [of "en_system env" d h, OF surjective_pairing]
  by (simp_all add: can_capture_def playback_state_def opened_output_def)

lemma playback_rebuilt:
  "playback_state (snd (rebuild_playback (en_system env) d h)) = (if can_play env d then HalfOk else HalfAbsent)"
  "capture_state (snd (rebuild_playback (en_system env) d h)) = capture_state h"
  "opened_input (snd (rebuild_playback (en_system env) d h)) = opened_input h"
  using rebuild_playback_effect(1,2) [of "en_system env" d h, OF surjective_pairing]
    rebuild_playback_keeps [of "en_system env" d h, OF surjective_pairing]
  unfolding start_playback_fst [of "en_system env" d "vh_playout h" "\<lparr>sg_queued = 0, sg_request = 0, sg_playing = 0\<rparr>"]
  by (simp_all add: can_play_def capture_state_def opened_input_def)

text \<open>Each pass as a function of its results.\<close>

lemma retry_capture_eq:
  "retry_capture env (h, su) =
    (if capture_state h \<noteq> HalfOk \<and> due VOICE_RESTART_MIN_INTERVAL_MS (en_now env) (su_last_capture_attempt su)
     then (snd (rebuild_capture (en_system env) (su_desired_input su) h),
       count_rebuild (fst (rebuild_capture (en_system env) (su_desired_input su) h)) (su\<lparr>su_last_capture_attempt := Some (en_now env)\<rparr>))
     else (h, su))"
  by (simp add: retry_capture_def case_prod_beta Let_def)

lemma retry_playback_eq:
  "retry_playback env (h, su) =
    (if playback_state h \<noteq> HalfOk \<and> due VOICE_RESTART_MIN_INTERVAL_MS (en_now env) (su_last_playback_attempt su)
     then (snd (rebuild_playback (en_system env) (su_desired_output su) h),
       count_rebuild (fst (rebuild_playback (en_system env) (su_desired_output su) h)) (su\<lparr>su_last_playback_attempt := Some (en_now env)\<rparr>))
     else (h, su))"
  by (simp add: retry_playback_def case_prod_beta Let_def)

definition moves_input :: "('dev, 'z, 'r) actor_env \<Rightarrow> supervisor \<Rightarrow> ('z, 'r) voice_handle \<Rightarrow> bool" where
  "moves_input env su h \<longleftrightarrow> su_desired_input su = None \<and> (\<exists>def cur. default_input_name (sys_host (en_system env)) = Some def \<and>
     opened_input h = Some cur \<and> cur \<noteq> def)"

definition moves_output :: "('dev, 'z, 'r) actor_env \<Rightarrow> supervisor \<Rightarrow> ('z, 'r) voice_handle \<Rightarrow> bool" where
  "moves_output env su h \<longleftrightarrow> su_desired_output su = None \<and> (\<exists>def cur. default_output_name (sys_host (en_system env)) = Some def \<and>
     opened_output h = Some cur \<and> cur \<noteq> def)"

lemma follow_input_eq:
  "follow_input env (h, su) =
    (if moves_input env su h
     then (snd (rebuild_capture (en_system env) None h), count_rebuild (fst (rebuild_capture (en_system env) None h)) su)
     else (h, su))"
  by (auto simp: follow_input_def moves_input_def case_prod_beta Let_def split: option.split)

lemma follow_output_eq:
  "follow_output env (h, su) =
    (if moves_output env su h
     then (snd (rebuild_playback (en_system env) None h), count_rebuild (fst (rebuild_playback (en_system env) None h)) su)
     else (h, su))"
  by (auto simp: follow_output_def moves_output_def case_prod_beta Let_def split: option.split)

subsection \<open>Hot plugging\<close>

definition desired_of :: "string \<Rightarrow> supervisor \<Rightarrow> string option" where
  "desired_of kind su = (if kind = ''input'' then su_desired_input su else su_desired_output su)"

definition rebuilt :: "('dev, 'z, 'r) actor_env \<Rightarrow> string \<Rightarrow> string \<Rightarrow> ('z, 'r) voice_handle \<Rightarrow> string option \<times> ('z, 'r) voice_handle" where
  "rebuilt env kind name h = (if kind = ''input'' then rebuild_capture (en_system env) (Some name) h
     else rebuild_playback (en_system env) (Some name) h)"

lemma on_new_device_eq:
  "on_new_device env kind name (handle, su) =
    (if desired_of kind su = Some name
     then (map_option (\<lambda>h. snd (rebuilt env kind name h)) handle,
       case handle of None \<Rightarrow> su | Some h \<Rightarrow> count_rebuild (fst (rebuilt env kind name h)) su)
     else (handle, su\<lparr>su_pending_new_devices := su_pending_new_devices su @ [\<lparr>nd_kind = kind, nd_name = name\<rparr>]\<rparr>))"
  by (simp add: on_new_device_def desired_of_def rebuilt_def case_prod_beta split: option.split)

lemma on_new_device_keeps:
  assumes "on_new_device env kind name (handle, su) = (handle', su')"
  shows "su_desired_input su' = su_desired_input su \<and> su_desired_output su' = su_desired_output su \<and>
    su_known_inputs su' = su_known_inputs su \<and> su_known_outputs su' = su_known_outputs su \<and>
    su_devices_changed su' = su_devices_changed su"
  using assms by (auto simp: on_new_device_eq split: if_splits option.splits)

lemma on_new_device_pending:
  assumes "on_new_device env kind name (handle, su) = (handle', su')"
  shows "su_pending_new_devices su' = su_pending_new_devices su @
    (if desired_of kind su = Some name then [] else [\<lparr>nd_kind = kind, nd_name = name\<rparr>])"
  using assms by (auto simp: on_new_device_eq split: if_splits option.splits)

text \<open>A batch of arrivals: the configured one rebuilds its half, the others are queued for a prompt.\<close>

lemma arrivals_supervisor:
  assumes "fold (on_new_device env kind) names (handle, su) = (handle', su')"
  shows "su_pending_new_devices su' = su_pending_new_devices su @
      map (\<lambda>n. \<lparr>nd_kind = kind, nd_name = n\<rparr>) (filter (\<lambda>n. desired_of kind su \<noteq> Some n) names) \<and>
    su_desired_input su' = su_desired_input su \<and> su_desired_output su' = su_desired_output su \<and>
    su_known_inputs su' = su_known_inputs su \<and> su_known_outputs su' = su_known_outputs su \<and>
    su_devices_changed su' = su_devices_changed su"
  using assms
proof (induction names arbitrary: handle su)
  case (Cons n names)
  obtain handle1 su1 where one: "on_new_device env kind n (handle, su) = (handle1, su1)" by fastforce
  then have "fold (on_new_device env kind) names (handle1, su1) = (handle', su')" using Cons.prems by simp
  from Cons.IH [OF this] on_new_device_keeps [OF one] on_new_device_pending [OF one]
  show ?case by (simp add: desired_of_def)
qed simp

lemma arrivals_handle:
  assumes "fold (on_new_device env kind) names (handle, su) = (handle', su')" and "pred_option P handle"
    and "\<And>h n. P h \<Longrightarrow> desired_of kind su = Some n \<Longrightarrow> n \<in> set names \<Longrightarrow> P (snd (rebuilt env kind n h))"
  shows "pred_option P handle' \<and> (handle = None \<longleftrightarrow> handle' = None)"
  using assms
proof (induction names arbitrary: handle su)
  case (Cons n names)
  obtain handle1 su1 where one: "on_new_device env kind n (handle, su) = (handle1, su1)" by fastforce
  then have rest: "fold (on_new_device env kind) names (handle1, su1) = (handle', su')" using Cons.prems by simp
  have same: "desired_of kind su1 = desired_of kind su" using on_new_device_keeps [OF one] by (simp add: desired_of_def)
  have "pred_option P handle1 \<and> (handle = None \<longleftrightarrow> handle1 = None)"
    using one Cons.prems(2,3) by (cases handle) (auto simp: on_new_device_eq split: if_splits)
  then show ?case using Cons.IH [OF rest] Cons.prems(3) unfolding same by (metis list.set_intros(2))
qed simp

text \<open>Rebuilding the half of one direction with the configured device leaves it open if the device can be opened.\<close>

lemma rebuilt_effect:
  assumes "desired_of kind su = Some n"
  shows "capture_state (snd (rebuilt env kind n h)) =
      (if kind = ''input'' then if can_capture env (su_desired_input su) then HalfOk else HalfAbsent else capture_state h)"
    and "playback_state (snd (rebuilt env kind n h)) =
      (if kind = ''input'' then playback_state h else if can_play env (su_desired_output su) then HalfOk else HalfAbsent)"
    and "live h \<Longrightarrow> live (snd (rebuilt env kind n h))"
  using assms by (cases "kind = ''input''"; simp add: rebuilt_def desired_of_def capture_rebuilt playback_rebuilt)+

text \<open>The hot-plug part of a pass, with its two batches.\<close>

definition new_inputs :: "('dev, 'z, 'r) actor_env \<Rightarrow> supervisor \<Rightarrow> string list" where
  "new_inputs env su = (case (su_known_inputs su, su_known_outputs su) of
      (Some ki, Some ko) \<Rightarrow> filter (\<lambda>n. n \<notin> set ki) (device_names (list_input_devices (sys_host (en_system env)))) | _ \<Rightarrow> [])"

definition new_outputs :: "('dev, 'z, 'r) actor_env \<Rightarrow> supervisor \<Rightarrow> string list" where
  "new_outputs env su = (case (su_known_inputs su, su_known_outputs su) of
      (Some ki, Some ko) \<Rightarrow> filter (\<lambda>n. n \<notin> set ko) (device_names (list_output_devices (sys_host (en_system env)))) | _ \<Rightarrow> [])"

lemma hotplug_batches:
  assumes "hotplug env (handle, su) = (handle', su')"
  shows "\<exists>h1 su1 su2. fold (on_new_device env ''input'') (new_inputs env su) (handle, su) = (h1, su1) \<and>
    fold (on_new_device env ''output'') (new_outputs env su) (h1, su1) = (handle', su2) \<and>
    su_desired_input su' = su_desired_input su2 \<and> su_desired_output su' = su_desired_output su2 \<and>
    su_pending_new_devices su' = su_pending_new_devices su2 \<and> su_last_capture_attempt su' = su_last_capture_attempt su2 \<and>
    su_known_inputs su' = Some (device_names (list_input_devices (sys_host (en_system env)))) \<and>
    su_known_outputs su' = Some (device_names (list_output_devices (sys_host (en_system env)))) \<and>
    su_devices_changed su' = (su_devices_changed su2 \<or> (case (su_known_inputs su, su_known_outputs su) of
      (Some ki, Some ko) \<Rightarrow> set (device_names (list_input_devices (sys_host (en_system env)))) \<noteq> set ki \<or>
        set (device_names (list_output_devices (sys_host (en_system env)))) \<noteq> set ko | _ \<Rightarrow> False))"
proof -
  obtain h1 su1 where one: "fold (on_new_device env ''input'') (new_inputs env su) (handle, su) = (h1, su1)" by fastforce
  obtain h2 su2 where two: "fold (on_new_device env ''output'') (new_outputs env su) (h1, su1) = (h2, su2)" by fastforce
  show ?thesis
    using assms one two unfolding hotplug_def Let_def new_inputs_def new_outputs_def
    by (auto simp: case_prod_beta split: option.splits if_splits)
qed

lemma hotplug_desired:
  assumes "hotplug env (handle, su) = (handle', su')"
  shows "su_desired_input su' = su_desired_input su"
proof -
  from hotplug_batches [OF assms] obtain h1 su1 su2 where
    one: "fold (on_new_device env ''input'') (new_inputs env su) (handle, su) = (h1, su1)" and
    two: "fold (on_new_device env ''output'') (new_outputs env su) (h1, su1) = (handle', su2)" and
    "su_desired_input su' = su_desired_input su2" by blast
  then show ?thesis using arrivals_supervisor [OF one] arrivals_supervisor [OF two] by simp
qed

subsection \<open>A whole pass\<close>

text \<open>The names the machine has: what is opened by no name is the default.\<close>

lemma opened_default:
  assumes "rebuild_capture (en_system env) None h = (err, h')" and "opened_input h' = Some cur"
    and "default_input_name (sys_host (en_system env)) = Some def"
  shows "cur = def"
  using rebuild_capture_effect(3) [OF assms(1)] assms(2,3)
  by (auto simp: start_capture_def resolve_device_def default_device_def default_input_name_def name_or_empty_def Let_def
      split: sum.splits option.splits)

lemma rebuilt_stays: "\<not> moves_input env su (snd (rebuild_capture (en_system env) (su_desired_input su) h))"
proof
  assume m: "moves_input env su (snd (rebuild_capture (en_system env) (su_desired_input su) h))"
  obtain err h' where r: "rebuild_capture (en_system env) None h = (err, h')" by fastforce
  from m show False using opened_default [OF r] by (auto simp: moves_input_def r)
qed

lemma hotplug_handle:
  assumes "pred_option P handle"
    and "\<And>kind h n. P h \<Longrightarrow> desired_of kind su = Some n \<Longrightarrow> (kind = ''input'' \<longrightarrow> n \<in> set (new_inputs env su)) \<Longrightarrow>
      P (snd (rebuilt env kind n h))"
  shows "pred_option P (fst (hotplug env (handle, su))) \<and> (fst (hotplug env (handle, su)) = None \<longleftrightarrow> handle = None)"
proof -
  obtain handle' su' where hp: "hotplug env (handle, su) = (handle', su')" by fastforce
  from hotplug_batches [OF hp] obtain h1 su1 su2 where
    one: "fold (on_new_device env ''input'') (new_inputs env su) (handle, su) = (h1, su1)" and
    two: "fold (on_new_device env ''output'') (new_outputs env su) (h1, su1) = (handle', su2)" by blast
  have same: "desired_of kind su1 = desired_of kind su" for kind
    using arrivals_supervisor [OF one] by (simp add: desired_of_def)
  have h1: "pred_option P h1 \<and> (handle = None \<longleftrightarrow> h1 = None)"
    by (rule arrivals_handle [OF one assms(1)]) (rule assms(2), simp_all)
  have "pred_option P handle' \<and> (h1 = None \<longleftrightarrow> handle' = None)"
    by (rule arrivals_handle [OF two conjunct1 [OF h1]]) (rule assms(2), simp_all add: same)
  with h1 hp show ?thesis by auto
qed

lemma tick_handle:
  "fst (sup_tick env handle su) =
    (let (h1, su1) = tick_retry env (handle, su) in
     if due DEVICE_POLL_INTERVAL_MS (en_now env) (su_last_device_poll su1)
     then fst (hotplug env (tick_follow env (h1, su1\<lparr>su_last_device_poll := Some (en_now env)\<rparr>))) else h1)"
  by (simp add: sup_tick_def case_prod_beta Let_def)

text \<open>What survives every rebuilding survives a pass, and a pass neither makes nor ends a call.\<close>

lemma tick_keeps:
  assumes "pred_option P handle"
    and "\<And>h d. P h \<Longrightarrow> P (snd (rebuild_capture (en_system env) d h))" and "\<And>h d. P h \<Longrightarrow> P (snd (rebuild_playback (en_system env) d h))"
  shows "pred_option P (fst (sup_tick env handle su)) \<and> (fst (sup_tick env handle su) = None \<longleftrightarrow> handle = None)"
proof -
  obtain h1 su1 where one: "tick_retry env (handle, su) = (h1, su1)" by fastforce
  obtain h2 su2 where two: "tick_follow env (h1, su1\<lparr>su_last_device_poll := Some (en_now env)\<rparr>) = (h2, su2)" by fastforce
  have h1: "pred_option P h1 \<and> (h1 = None \<longleftrightarrow> handle = None)"
    using assms one by (cases handle)
      (auto simp: tick_retry_def retry_capture_eq retry_playback_eq Let_def case_prod_beta split: if_splits)
  then have h2: "pred_option P h2 \<and> (h2 = None \<longleftrightarrow> handle = None)"
    using two assms(2,3) by (cases h1)
      (auto simp: tick_follow_def follow_input_eq follow_output_eq Let_def case_prod_beta split: if_splits)
  then have "pred_option P (fst (hotplug env (h2, su2))) \<and> (fst (hotplug env (h2, su2)) = None \<longleftrightarrow> h2 = None)"
    using assms(2,3) by (intro hotplug_handle) (simp_all add: rebuilt_def)
  then show ?thesis using h1 h2 by (simp add: tick_handle one two)
qed

lemmas tick_live = tick_keeps [of live, OF _ live_rebuilt]

lemma tick_present: "fst (sup_tick env handle su) = None \<longleftrightarrow> handle = None"
  using tick_keeps [of "\<lambda>h. True" handle env su] by (cases handle) simp_all

lemma desired_kept:
  "su_desired_input (snd (tick_retry env (handle, su))) = su_desired_input su"
  "su_desired_output (snd (tick_retry env (handle, su))) = su_desired_output su"
  "su_desired_input (snd (tick_follow env (handle, su))) = su_desired_input su"
  "su_desired_output (snd (tick_follow env (handle, su))) = su_desired_output su"
  by (cases handle; simp add: tick_retry_def tick_follow_def retry_capture_eq retry_playback_eq follow_input_eq
      follow_output_eq case_prod_beta Let_def)+

lemma tick_recovers_capture:
  assumes "capture_state h = HalfOk \<or> due VOICE_RESTART_MIN_INTERVAL_MS (en_now env) (su_last_capture_attempt su)"
    and "can_capture env (su_desired_input su)"
  shows "pred_option (\<lambda>h. capture_state h = HalfOk) (fst (sup_tick env (Some h) su))"
proof -
  let ?ok = "\<lambda>h. capture_state h = HalfOk"
  obtain h1 su1 where one: "tick_retry env (Some h, su) = (h1, su1)" by fastforce
  obtain h2 su2 where two: "tick_follow env (h1, su1\<lparr>su_last_device_poll := Some (en_now env)\<rparr>) = (h2, su2)" by fastforce
  have d: "su_desired_input su1 = su_desired_input su" "su_desired_input su2 = su_desired_input su"
    using desired_kept(1) [of env "Some h" su] desired_kept(3) [of env h1 "su1\<lparr>su_last_device_poll := Some (en_now env)\<rparr>"] one two
    by simp_all
  have h1: "pred_option ?ok h1"
    using assms one by (auto simp: tick_retry_def retry_capture_eq retry_playback_eq Let_def capture_rebuilt playback_rebuilt
        split: if_splits)
  then have "pred_option ?ok h2"
    using two assms(2) d by (cases h1)
      (auto simp: tick_follow_def follow_input_eq follow_output_eq Let_def capture_rebuilt playback_rebuilt moves_input_def
        split: if_splits)
  then have "pred_option ?ok (fst (hotplug env (h2, su2)))"
    using hotplug_handle [of ?ok h2 su2 env] assms(2) d by (simp add: rebuilt_effect)
  then show ?thesis using h1 by (simp add: tick_handle one two)
qed

lemma tick_recovers_playback:
  assumes "playback_state h = HalfOk \<or> due VOICE_RESTART_MIN_INTERVAL_MS (en_now env) (su_last_playback_attempt su)"
    and "can_play env (su_desired_output su)"
  shows "pred_option (\<lambda>h. playback_state h = HalfOk) (fst (sup_tick env (Some h) su))"
proof -
  let ?ok = "\<lambda>h. playback_state h = HalfOk"
  obtain h1 su1 where one: "tick_retry env (Some h, su) = (h1, su1)" by fastforce
  obtain h2 su2 where two: "tick_follow env (h1, su1\<lparr>su_last_device_poll := Some (en_now env)\<rparr>) = (h2, su2)" by fastforce
  have d: "su_desired_output su1 = su_desired_output su" "su_desired_output su2 = su_desired_output su"
    using desired_kept(2) [of env "Some h" su] desired_kept(4) [of env h1 "su1\<lparr>su_last_device_poll := Some (en_now env)\<rparr>"] one two
    by simp_all
  have kept: "su_desired_output (snd (retry_capture env (h, su))) = su_desired_output su"
    "su_last_playback_attempt (snd (retry_capture env (h, su))) = su_last_playback_attempt su"
    "playback_state (fst (retry_capture env (h, su))) = playback_state h"
    by (simp_all add: retry_capture_eq capture_rebuilt count_rebuild_def)
  have "h1 = Some (fst (retry_playback env (retry_capture env (h, su))))"
    using one by (auto simp: tick_retry_def case_prod_beta Let_def)
  moreover have "?ok (fst (retry_playback env (retry_capture env (h, su))))"
    using assms kept by (cases "retry_capture env (h, su)") (auto simp: retry_playback_eq playback_rebuilt)
  ultimately have h1: "pred_option ?ok h1" by simp
  then have "pred_option ?ok h2"
    using two assms(2) d by (cases h1)
      (auto simp: tick_follow_def follow_input_eq follow_output_eq Let_def capture_rebuilt playback_rebuilt moves_output_def
        split: if_splits)
  then have "pred_option ?ok (fst (hotplug env (h2, su2)))"
    using hotplug_handle [of ?ok h2 su2 env] assms(2) d by (simp add: rebuilt_effect)
  then show ?thesis using h1 by (simp add: tick_handle one two)
qed

text \<open>A microphone that is well and was asked for by name is left alone, but for the arrival of the named one.\<close>

lemma tick_keeps_capture:
  assumes "capture_state h = HalfOk" and "su_desired_input su = Some wanted" and "wanted \<notin> set (new_inputs env su)"
    and "sup_tick env (Some h) su = (handle, su')"
  shows "\<exists>h'. handle = Some h' \<and> capture_state h' = HalfOk \<and> opened_input h' = opened_input h \<and> su_desired_input su' = Some wanted"
proof -
  let ?P = "\<lambda>h'. capture_state h' = HalfOk \<and> opened_input h' = opened_input h"
  obtain h1 su1 where one: "tick_retry env (Some h, su) = (h1, su1)" by fastforce
  obtain h2 su2 where two: "tick_follow env (h1, su1\<lparr>su_last_device_poll := Some (en_now env)\<rparr>) = (h2, su2)" by fastforce
  obtain h3 su3 where three: "hotplug env (h2, su2) = (h3, su3)" by fastforce
  have d: "su_desired_input su1 = Some wanted" "su_desired_input su2 = Some wanted" "su_desired_input su3 = Some wanted"
    using desired_kept(1) [of env "Some h" su] desired_kept(3) [of env h1 "su1\<lparr>su_last_device_poll := Some (en_now env)\<rparr>"]
      hotplug_desired [OF three] one two assms(2) by simp_all
  have k1: "su_known_inputs su1 = su_known_inputs su" "su_known_outputs su1 = su_known_outputs su"
    using one assms(1) by (auto simp: tick_retry_def retry_capture_eq retry_playback_eq Let_def split: if_splits)
  have k2: "su_known_inputs su2 = su_known_inputs su1" "su_known_outputs su2 = su_known_outputs su1"
    using two by (cases h1; auto simp: tick_follow_def follow_input_eq follow_output_eq Let_def split: if_splits)+
  have h1: "pred_option ?P h1 \<and> h1 \<noteq> None"
    using one assms(1) by (auto simp: tick_retry_def retry_capture_eq retry_playback_eq Let_def playback_rebuilt split: if_splits)
  then have h2: "pred_option ?P h2 \<and> h2 \<noteq> None"
    using two d(1) by (cases h1)
      (auto simp: tick_follow_def follow_input_eq follow_output_eq Let_def playback_rebuilt moves_input_def split: if_splits)
  have "wanted \<notin> set (new_inputs env su2)" using assms(3) by (simp add: new_inputs_def k1 k2)
  then have keep: "?P (snd (rebuilt env kind n x))"
    if "?P x" "desired_of kind su2 = Some n" "kind = ''input'' \<longrightarrow> n \<in> set (new_inputs env su2)" for kind x n
    using that d(2) by (cases "kind = ''input''") (simp_all add: rebuilt_def desired_of_def playback_rebuilt)
  have "pred_option ?P (fst (hotplug env (h2, su2))) \<and> (fst (hotplug env (h2, su2)) = None \<longleftrightarrow> h2 = None)"
    by (rule hotplug_handle [OF conjunct1 [OF h2]]) (rule keep)
  then have "pred_option ?P h3 \<and> (h3 = None \<longleftrightarrow> h2 = None)" by (simp add: three)
  with h1 h2 one two three d assms(4) show ?thesis
    by (cases h1; cases h3) (auto simp: sup_tick_def split: if_splits)
qed

section \<open>The actor\<close>

lemma report_keeps:
  assumes "report now su h = (snap, h')"
  shows "same_halves h h' \<and> capture_state h' = capture_state h \<and> playback_state h' = playback_state h \<and>
    vs_active snap \<and> vs_capture_ok snap = (capture_state h = HalfOk) \<and> vs_playback_ok snap = (playback_state h = HalfOk) \<and>
    vs_new_devices snap = su_pending_new_devices su \<and> vs_devices_changed snap = su_devices_changed su"
proof -
  have "snap = fst (report now su h)" "h' = snd (report now su h)" using assms by simp_all
  then show ?thesis
    by (simp add: report_def Let_def case_prod_beta same_halves_def capture_state_def playback_state_def opened_input_def opened_output_def)
qed

lemma same_halves_live: "same_halves h h' \<Longrightarrow> live h \<Longrightarrow> live h'"
  by (auto simp: same_halves_def live_def halves_ok_def opened_input_def opened_output_def)

text \<open>C31 A lost microphone or loudspeaker comes back by itself. Whenever a snapshot finds a call, each half on its own that is
  well, or whose last attempt is at least two seconds old, is open after it if the wanted device can be opened at
  that moment, whatever becomes of the other half, whatever failed before, whatever default or set of devices has changed;
  and the snapshot says how each half is.\<close>

theorem lost_audio_recovers:
  assumes "ac_handle ac = Some h"
  shows "\<exists>snap ac' h'. actor_step env TakeSnapshot ac = (SnapshotReply snap, ac') \<and> ac_handle ac' = Some h' \<and> vs_active snap \<and>
    vs_capture_ok snap = (capture_state h' = HalfOk) \<and> vs_playback_ok snap = (playback_state h' = HalfOk) \<and>
    ((capture_state h = HalfOk \<or> due VOICE_RESTART_MIN_INTERVAL_MS (en_now env) (su_last_capture_attempt (ac_sup ac))) \<and>
      can_capture env (su_desired_input (ac_sup ac)) \<longrightarrow> capture_state h' = HalfOk) \<and>
    ((playback_state h = HalfOk \<or> due VOICE_RESTART_MIN_INTERVAL_MS (en_now env) (su_last_playback_attempt (ac_sup ac))) \<and>
      can_play env (su_desired_output (ac_sup ac)) \<longrightarrow> playback_state h' = HalfOk)"
proof -
  obtain handle su where tick: "sup_tick env (Some h) (ac_sup ac) = (handle, su)" by fastforce
  obtain h1 where h1: "handle = Some h1" using tick_present [of env "Some h" "ac_sup ac"] tick by (cases handle) simp_all
  obtain snap h2 where r: "report (en_now env) su h1 = (snap, h2)" by fastforce
  have "actor_step env TakeSnapshot ac = (SnapshotReply snap, ac\<lparr>ac_handle := Some h2,
      ac_sup := su\<lparr>su_pending_new_devices := [], su_devices_changed := False\<rparr>\<rparr>)"
    using tick r h1 by (simp add: take_snapshot_def restart_failed_def assms)
  then show ?thesis
    using report_keeps [OF r] tick_recovers_capture [of h env "ac_sup ac"] tick_recovers_playback [of h env "ac_sup ac"]
    by (simp add: tick h1)
qed

subsection \<open>The invariant, and hanging up\<close>

definition actor_ok :: "('z, 'r) actor \<Rightarrow> bool" where
  "actor_ok ac \<longleftrightarrow> pred_option live (ac_handle ac) \<and> pred_option live (ac_echo_handle ac) \<and>
     (ac_last_params ac = None \<longrightarrow> ac_handle ac = None)"

lemma started_shape:
  assumes "start_from env p = Inr h"
  shows "\<exists>acked. h = (snd (rebuild_playback (en_system env) (vp_output_device p)
      (snd (rebuild_capture (en_system env) (vp_input_device p) (handle_new (en_now env) acked)))))\<lparr>vh_receiving := True\<rparr>"
  using assms by (auto simp: start_from_def start_voice_def Let_def case_prod_beta split: option.splits if_splits)

lemma started_live:
  assumes "start_from env p = Inr h"
  shows "live h"
proof -
  obtain acked where h: "h = (snd (rebuild_playback (en_system env) (vp_output_device p)
      (snd (rebuild_capture (en_system env) (vp_input_device p) (handle_new (en_now env) acked)))))\<lparr>vh_receiving := True\<rparr>"
    using started_shape [OF assms] by blast
  show ?thesis by (simp add: h live_def idle_rebuilt handle_new_ok receiving_halves) (simp add: handle_new_def)
qed

lemma started_device:
  assumes "start_from env p = Inr h" and "capture_state h = HalfOk"
  shows "\<exists>stream ring. start_capture (en_system env) (vp_input_device p) = Inr (stream, ring, the (opened_input h))"
proof -
  obtain acked where h: "h = (snd (rebuild_playback (en_system env) (vp_output_device p)
      (snd (rebuild_capture (en_system env) (vp_input_device p) (handle_new (en_now env) acked)))))\<lparr>vh_receiving := True\<rparr>"
    using started_shape [OF assms(1)] by blast
  let ?c = "rebuild_capture (en_system env) (vp_input_device p) (handle_new (en_now env) acked)"
  have "opened_input h = opened_input (snd ?c)" "capture_state h = capture_state (snd ?c)"
    using playback_rebuilt(2,3) [of env "vp_output_device p" "snd ?c"] by (simp_all add: h receiving_states)
  moreover have "capture_state (snd ?c) = HalfOk" using assms(2) calculation(2) by simp
  then obtain x where "start_capture (en_system env) (vp_input_device p) = Inr x"
    using rebuild_capture_effect(1,2) [of "en_system env" "vp_input_device p" "handle_new (en_now env) acked", OF surjective_pairing]
    by (auto split: if_splits)
  ultimately show ?thesis
    using rebuild_capture_effect(3) [of "en_system env" "vp_input_device p" "handle_new (en_now env) acked", OF surjective_pairing]
    by (cases x) simp
qed

lemma started_states:
  assumes "can_capture env (vp_input_device p)" and "can_play env (vp_output_device p)"
    and "udp_connect_and_handshake (en_network env) (vp_server_ip p) (vp_udp_token p) = Some acked"
    and "length (vp_voice_key p) = 32"
  shows "\<exists>h. start_from env p = Inr h \<and> capture_state h = HalfOk \<and> playback_state h = HalfOk"
proof -
  obtain h where s: "start_from env p = Inr h"
    using assms(3,4) by (auto simp: start_from_def start_voice_def Let_def case_prod_beta)
  obtain acked where h: "h = (snd (rebuild_playback (en_system env) (vp_output_device p)
      (snd (rebuild_capture (en_system env) (vp_input_device p) (handle_new (en_now env) acked)))))\<lparr>vh_receiving := True\<rparr>"
    using started_shape [OF s] by blast
  show ?thesis using s assms(1,2) by (simp add: h receiving_states capture_rebuilt playback_rebuilt)
qed

lemma report_live: "live h \<Longrightarrow> live (snd (report now su h))"
  using report_keeps [of now su h, OF surjective_pairing] same_halves_live by blast

lemma restart_failed_ok: "actor_ok ac \<Longrightarrow> actor_ok (restart_failed env ac) \<and> ac_last_params (restart_failed env ac) = ac_last_params ac"
  by (auto simp: restart_failed_def actor_ok_def started_live Let_def split: option.split sum.split)

lemma take_snapshot_ok:
  assumes "actor_ok ac" and "take_snapshot env ac = (snap, ac')"
  shows "actor_ok ac' \<and> ac_last_params ac' = ac_last_params ac"
proof -
  let ?a = "restart_failed env ac"
  have ok: "actor_ok ?a" "ac_last_params ?a = ac_last_params ac" using restart_failed_ok [OF assms(1)] by auto
  obtain handle su where tick: "sup_tick env (ac_handle ?a) (ac_sup ?a) = (handle, su)" by fastforce
  have h: "pred_option live handle" "handle = None \<longleftrightarrow> ac_handle ?a = None"
    using tick_live [of "ac_handle ?a" env "ac_sup ?a"] ok(1) tick by (simp_all add: actor_ok_def)
  let ?b = "?a\<lparr>ac_handle := handle, ac_sup := su\<lparr>su_pending_new_devices := [], su_devices_changed := False\<rparr>\<rparr>"
  have b: "actor_ok ?b" "ac_last_params ?b = ac_last_params ac" using ok h by (auto simp: actor_ok_def)
  have "ac' = (case (handle, ac_echo_handle ?a) of
      (Some h, _) \<Rightarrow> ?b\<lparr>ac_handle := Some (snd (report (en_now env) su h))\<rparr>
    | (None, Some h) \<Rightarrow> ?b\<lparr>ac_echo_handle := Some (snd (report (en_now env) su h))\<rparr>
    | (None, None) \<Rightarrow> ?b)"
    using assms(2) unfolding take_snapshot_def Let_def tick prod.case by (auto simp: case_prod_beta split: option.splits)
  with b show ?thesis by (cases handle; cases "ac_echo_handle ?a") (simp_all add: actor_ok_def report_live)
qed

lemma actor_step_ok: "actor_ok ac \<Longrightarrow> actor_ok (snd (actor_step env cmd ac))"
proof (cases cmd)
  case TakeSnapshot
  then show "actor_ok ac \<Longrightarrow> ?thesis" using take_snapshot_ok [of ac env] by (cases "take_snapshot env ac") auto
next
  case (SetInputDevice name)
  then show "actor_ok ac \<Longrightarrow> ?thesis" by (cases "ac_handle ac") (auto simp: actor_ok_def Let_def)
next
  case (SetOutputDevice name)
  then show "actor_ok ac \<Longrightarrow> ?thesis" by (cases "ac_handle ac") (auto simp: actor_ok_def Let_def)
qed (auto simp: actor_ok_def Let_def started_live split: sum.split)

lemma actor_next_ok: "actor_ok ac \<Longrightarrow> actor_ok (actor_next e ac)"
  using actor_step_ok same_halves_live by (cases e) (auto simp: actor_ok_def split: option.split)

lemma actor_run_ok: "actor_ok ac \<Longrightarrow> actor_ok (actor_run es ac)"
  by (induction es arbitrary: ac) (simp_all add: actor_run_def actor_next_ok)

lemma actor_new_ok: "actor_ok actor_new"
  by (simp add: actor_ok_def actor_new_def)

text \<open>Without the parameters of a call, only a start makes one.\<close>

lemma idle_step:
  assumes "actor_ok ac" and "ac_last_params ac = None" and "\<forall>env p. e \<noteq> Command env (StartVoice p)"
  shows "ac_last_params (actor_next e ac) = None"
proof (cases e)
  case (Command env cmd)
  then show ?thesis
    using assms take_snapshot_ok [of ac env] by (cases cmd) (auto simp: Let_def case_prod_beta prod_eq_iff split: sum.split)
qed (use assms(2) in \<open>auto split: option.split\<close>)

text \<open>C30 Hanging up is final. Whatever commands, device changes, failures and packets came before and come after, once the
  application has stopped the call the actor holds no call, and so no microphone and no playback of it, until the
  application starts one: neither the retry of failed starts nor the device supervisor nor a sound check revives it. In every
  state the actor can reach, a handle it holds is live: its tasks run, its ring is installed exactly while its half is open.\<close>

theorem hang_up_is_final:
  assumes "\<forall>env p. Command env (StartVoice p) \<notin> set later"
  shows "ac_handle (actor_run (earlier @ Command env StopVoice # later) actor_new) = None \<and>
    actor_ok (actor_run earlier actor_new)"
proof -
  have ok: "actor_ok (actor_run earlier actor_new)" by (rule actor_run_ok [OF actor_new_ok])
  let ?ac = "actor_next (Command env StopVoice) (actor_run earlier actor_new)"
  have "actor_ok ac \<Longrightarrow> ac_last_params ac = None \<Longrightarrow> ac_last_params (actor_run later ac) = None \<and> actor_ok (actor_run later ac)" for ac
    using assms
  proof (induction later arbitrary: ac)
    case (Cons e es)
    have "ac_last_params (actor_next e ac) = None" using Cons.prems by (intro idle_step) auto
    with Cons.IH [of "actor_next e ac"] Cons.prems actor_next_ok [of ac e] show ?case by (simp add: actor_run_def)
  qed (simp add: actor_run_def)
  from this [of ?ac] actor_next_ok [OF ok, of "Command env StopVoice"]
  have "ac_last_params (actor_run later ?ac) = None \<and> actor_ok (actor_run later ?ac)" by simp
  with ok show ?thesis by (simp add: actor_ok_def actor_run_def)
qed

definition sample_env :: "instant \<Rightarrow> (string, unit, rat list) actor_env" where
  "sample_env now = \<lparr>en_system = sample_system, en_network = deaf_network, en_now = now\<rparr>"

theorem hang_up_is_final_witness:
  "ac_handle (actor_run [Command (sample_env 5) (StartVoice sample_params), Command (sample_env 6) StopVoice,
      Command (sample_env 7) TakeSnapshot, Command (sample_env 8) (SetInputDevice None)] actor_new) = None"
  using hang_up_is_final [of "[Command (sample_env 7) TakeSnapshot, Command (sample_env 8) (SetInputDevice None)]"
      "[Command (sample_env 5) (StartVoice sample_params)]" "sample_env 6"]
  by simp

text \<open>A call whose loudspeaker has failed, on a machine that has one and a microphone.\<close>

definition full_system :: "(string, unit, rat list) audio_system" where
  "full_system = sample_system\<lparr>sys_host := (sys_host sample_system)\<lparr>input_devices := Some [''mic''], default_input_device := Some ''mic''\<rparr>\<rparr>"

lemma full_system_opens:
  "can_capture \<lparr>en_system = full_system, en_network = nw, en_now = now\<rparr> d"
  "can_play \<lparr>en_system = full_system, en_network = nw, en_now = now\<rparr> d"
  by (cases d; simp add: can_capture_def can_play_def start_capture_def start_playback_def resolve_device_def default_device_def
      resolve_stream_params_def full_system_def sample_system_def Let_def split: option.split)+

text \<open>A machine that has a microphone and no loudspeaker at all: the microphone comes back.\<close>

definition mute_machine :: "(string, unit, rat list) audio_system" where
  "mute_machine = full_system\<lparr>sys_host := (sys_host full_system)\<lparr>output_devices := Some [], default_output_device := None\<rparr>\<rparr>"

theorem lost_audio_recovers_witness:
  "(\<exists>snap ac' h'. actor_step \<lparr>en_system = full_system, en_network = deaf_network, en_now = 9\<rparr> TakeSnapshot
      (actor_new\<lparr>ac_handle := Some (stream_error False (handle_new 5 True)), ac_last_params := Some sample_params\<rparr>) =
      (SnapshotReply snap, ac') \<and> ac_handle ac' = Some h' \<and> capture_state h' = HalfOk \<and> playback_state h' = HalfOk) \<and>
   (\<exists>snap ac' h'. actor_step \<lparr>en_system = mute_machine, en_network = deaf_network, en_now = 9\<rparr> TakeSnapshot
      (actor_new\<lparr>ac_handle := Some (stream_error True (handle_new 5 True)), ac_last_params := Some sample_params\<rparr>) =
      (SnapshotReply snap, ac') \<and> ac_handle ac' = Some h' \<and> capture_state h' = HalfOk \<and> vs_capture_ok snap)"
proof -
  let ?ac = "\<lambda>h. actor_new\<lparr>ac_handle := Some h, ac_last_params := Some sample_params\<rparr>"
  have h: "ac_handle (?ac h) = Some h" for h :: "(unit, rat list) voice_handle" by simp
  have d: "due VOICE_RESTART_MIN_INTERVAL_MS 9 (su_last_capture_attempt (ac_sup (?ac h)))"
    "due VOICE_RESTART_MIN_INTERVAL_MS 9 (su_last_playback_attempt (ac_sup (?ac h)))" for h :: "(unit, rat list) voice_handle"
    by (simp_all add: actor_new_def sup_new_def due_def)
  have "can_capture \<lparr>en_system = mute_machine, en_network = deaf_network, en_now = 9\<rparr> (su_desired_input (ac_sup (?ac h)))"
    for h :: "(unit, rat list) voice_handle"
    by (simp add: can_capture_def start_capture_def resolve_device_def default_device_def resolve_stream_params_def mute_machine_def
        full_system_def sample_system_def actor_new_def sup_new_def Let_def)
  then show ?thesis
    using lost_audio_recovers [OF h [of "stream_error False (handle_new 5 True)"],
        of "\<lparr>en_system = full_system, en_network = deaf_network, en_now = 9\<rparr>"] d full_system_opens
      lost_audio_recovers [OF h [of "stream_error True (handle_new 5 True)"],
        of "\<lparr>en_system = mute_machine, en_network = deaf_network, en_now = 9\<rparr>"]
    by (simp only: actor_env.select_convs) metis
qed

subsection \<open>Two more behaviours\<close>

text \<open>A prompt for every device that arrives, and for no other. When a poll is due outside a call, the snapshot reports, after
  what was still pending, exactly the names that were not there at the previous poll and are not the configured ones,
  inputs first, and says that the devices changed exactly if a set differs (or had changed before); the first poll
  reports nothing, and the names seen become the ones the next poll compares with.\<close>

theorem hotplug_prompts:
  assumes "ac_handle ac = None" and "ac_last_params ac = None" and "ac_echo_handle ac = None"
    and "due DEVICE_POLL_INTERVAL_MS (en_now env) (su_last_device_poll (ac_sup ac))"
    and "actor_step env TakeSnapshot ac = (SnapshotReply snap, ac')"
  shows "let su = ac_sup ac; inputs = device_names (list_input_devices (sys_host (en_system env)));
        outputs = device_names (list_output_devices (sys_host (en_system env)))
    in vs_new_devices snap = su_pending_new_devices su @
        (case (su_known_inputs su, su_known_outputs su) of
           (Some ki, Some ko) \<Rightarrow>
             map (\<lambda>n. \<lparr>nd_kind = ''input'', nd_name = n\<rparr>) (filter (\<lambda>n. n \<notin> set ki \<and> su_desired_input su \<noteq> Some n) inputs) @
             map (\<lambda>n. \<lparr>nd_kind = ''output'', nd_name = n\<rparr>) (filter (\<lambda>n. n \<notin> set ko \<and> su_desired_output su \<noteq> Some n) outputs)
         | _ \<Rightarrow> []) \<and>
      vs_devices_changed snap = (su_devices_changed su \<or> (case (su_known_inputs su, su_known_outputs su) of
         (Some ki, Some ko) \<Rightarrow> set inputs \<noteq> set ki \<or> set outputs \<noteq> set ko | _ \<Rightarrow> False)) \<and>
      su_known_inputs (ac_sup ac') = Some inputs \<and> su_known_outputs (ac_sup ac') = Some outputs \<and>
      su_pending_new_devices (ac_sup ac') = [] \<and> \<not> su_devices_changed (ac_sup ac')"
proof -
  let ?su = "(ac_sup ac)\<lparr>su_last_device_poll := Some (en_now env)\<rparr>"
  have r: "restart_failed env ac = ac" using assms(1-3) by (simp add: restart_failed_def)
  obtain handle su' where hp: "hotplug env (None, ?su) = (handle, su')" by fastforce
  have tick: "sup_tick env None (ac_sup ac) = (handle, su')"
    using assms(4) hp by (simp add: sup_tick_def tick_retry_def tick_follow_def)
  have none: "handle = None" using tick_present [of env None "ac_sup ac"] tick by simp
  from hotplug_batches [OF hp] obtain h1 su1 su2 where
    one: "fold (on_new_device env ''input'') (new_inputs env ?su) (None, ?su) = (h1, su1)" and
    two: "fold (on_new_device env ''output'') (new_outputs env ?su) (h1, su1) = (handle, su2)" and
    rest: "su_pending_new_devices su' = su_pending_new_devices su2"
      "su_known_inputs su' = Some (device_names (list_input_devices (sys_host (en_system env))))"
      "su_known_outputs su' = Some (device_names (list_output_devices (sys_host (en_system env))))"
      "su_devices_changed su' = (su_devices_changed su2 \<or> (case (su_known_inputs ?su, su_known_outputs ?su) of
        (Some ki, Some ko) \<Rightarrow> set (device_names (list_input_devices (sys_host (en_system env)))) \<noteq> set ki \<or>
          set (device_names (list_output_devices (sys_host (en_system env)))) \<noteq> set ko | _ \<Rightarrow> False))"
    by blast
  note a1 = arrivals_supervisor [OF one] and a2 = arrivals_supervisor [OF two]
  have snap: "snap = snapshot_idle\<lparr>vs_new_devices := su_pending_new_devices su', vs_devices_changed := su_devices_changed su'\<rparr>"
    "ac_sup ac' = su'\<lparr>su_pending_new_devices := [], su_devices_changed := False\<rparr>"
    using assms(1,3,5) tick none by (auto simp: take_snapshot_def r Let_def)
  have pending: "su_pending_new_devices su2 = su_pending_new_devices (ac_sup ac) @
      map (\<lambda>n. \<lparr>nd_kind = ''input'', nd_name = n\<rparr>) (filter (\<lambda>n. su_desired_input (ac_sup ac) \<noteq> Some n) (new_inputs env ?su)) @
      map (\<lambda>n. \<lparr>nd_kind = ''output'', nd_name = n\<rparr>) (filter (\<lambda>n. su_desired_output (ac_sup ac) \<noteq> Some n) (new_outputs env ?su))"
    using a1 a2 by (simp add: desired_of_def)
  have changed: "su_devices_changed su2 = su_devices_changed (ac_sup ac)" using a1 a2 by simp
  show ?thesis
    unfolding Let_def snap rest pending changed
    by (simp add: new_inputs_def new_outputs_def conj_commute rest(2,3) split: option.split)
qed

text \<open>A machine that had one microphone at the last poll and now has two more, one of them the configured one.\<close>

definition idle_actor :: "(unit, rat list) actor" where
  "idle_actor = actor_new\<lparr>ac_sup := (sup_new (Some ''desk'') None)\<lparr>su_known_inputs := Some [''mic''], su_known_outputs := Some [''spk'']\<rparr>\<rparr>"

definition plugged_system :: "(string, unit, rat list) audio_system" where
  "plugged_system = full_system\<lparr>sys_host := (sys_host full_system)\<lparr>input_devices := Some [''mic'', ''desk'', ''headset'']\<rparr>\<rparr>"

theorem hotplug_prompts_witness:
  "\<exists>snap ac'. actor_step \<lparr>en_system = plugged_system, en_network = deaf_network, en_now = 9\<rparr> TakeSnapshot idle_actor =
      (SnapshotReply snap, ac') \<and>
    vs_new_devices snap = [\<lparr>nd_kind = ''input'', nd_name = ''headset''\<rparr>] \<and> vs_devices_changed snap"
proof -
  let ?env = "\<lparr>en_system = plugged_system, en_network = deaf_network, en_now = 9\<rparr>"
  obtain snap ac' where s: "actor_step ?env TakeSnapshot idle_actor = (SnapshotReply snap, ac')"
    by (cases "take_snapshot ?env idle_actor") simp
  have "ac_handle idle_actor = None" "ac_last_params idle_actor = None" "ac_echo_handle idle_actor = None"
    "due DEVICE_POLL_INTERVAL_MS (en_now ?env) (su_last_device_poll (ac_sup idle_actor))"
    by (simp_all add: idle_actor_def actor_new_def sup_new_def due_def)
  note facts = hotplug_prompts [OF this s]
  have "device_names (list_input_devices (sys_host (en_system ?env))) = [''mic'', ''desk'', ''headset'']"
    "device_names (list_output_devices (sys_host (en_system ?env))) = [''spk'']"
    unfolding plugged_system_def full_system_def sample_system_def by code_simp+
  with facts s show ?thesis
    by (auto simp: Let_def idle_actor_def sup_new_def)
qed

text \<open>C32 The retry of a failed start opens the wrong microphone: it starts from the parameters of the failed start, while a device
  the user has chosen since is known to the supervisor only. Whenever the retry comes and its microphone opens, the call runs
  on the one of the failed start and is reported well, while the wish for the other is on record, whatever else the same
  snapshot does to the loudspeaker; only the wanted device being plugged in between the last poll and this one would
  correct it.\<close>

theorem retry_opens_old_device:
  assumes "ac_handle ac = None" and "ac_echo_handle ac = None" and "ac_last_params ac = Some p"
    and "due VOICE_RESTART_MIN_INTERVAL_MS (en_now env) (ac_last_restart ac)"
    and "start_from env p = Inr h" and "capture_state h = HalfOk"
    and "su_desired_input (ac_sup ac) = Some wanted" and "wanted \<notin> set (new_inputs env (ac_sup ac))"
    and "actor_step env TakeSnapshot ac = (SnapshotReply snap, ac')"
  shows "\<exists>h' stream ring. ac_handle ac' = Some h' \<and> vs_capture_ok snap \<and>
    start_capture (en_system env) (vp_input_device p) = Inr (stream, ring, the (opened_input h')) \<and>
    su_desired_input (ac_sup ac') = Some wanted"
proof -
  have r: "restart_failed env ac = ac\<lparr>ac_last_restart := Some (en_now env), ac_handle := Some h\<rparr>"
    using assms(1-5) by (simp add: restart_failed_def Let_def)
  obtain handle su where tick: "sup_tick env (Some h) (ac_sup ac) = (handle, su)" by fastforce
  obtain h1 where h1: "handle = Some h1" "capture_state h1 = HalfOk" "opened_input h1 = opened_input h" "su_desired_input su = Some wanted"
    using tick_keeps_capture [OF assms(6-8) tick] by blast
  obtain s h' where rep: "report (en_now env) su h1 = (s, h')" by fastforce
  obtain stream ring where "start_capture (en_system env) (vp_input_device p) = Inr (stream, ring, the (opened_input h))"
    using started_device [OF assms(5,6)] by blast
  with report_keeps [OF rep] show ?thesis
    using assms(9) tick rep h1 by (auto simp: take_snapshot_def r Let_def same_halves_def)
qed

text \<open>The microphone was \<open>mic\<close> when the network failed; a first retry failed as well, and its poll saw the devices; then
  \<open>desk\<close>, which is there, was chosen, and the network came back.\<close>

definition down_env :: "instant \<Rightarrow> (string, unit, rat list) actor_env" where
  "down_env now = \<lparr>en_system = plugged_system, en_network = deaf_network\<lparr>nw_open := \<lambda>a b. False\<rparr>, en_now = now\<rparr>"

definition up_env :: "instant \<Rightarrow> (string, unit, rat list) actor_env" where
  "up_env now = \<lparr>en_system = plugged_system, en_network = deaf_network, en_now = now\<rparr>"

definition mic_params :: voice_params where
  "mic_params = sample_params\<lparr>vp_input_device := Some ''mic''\<rparr>"

definition choice_made :: "(unit, rat list) actor" where
  "choice_made = actor_run [Command (down_env 5) (StartVoice mic_params), Command (down_env 6) TakeSnapshot,
     Command (down_env 8) (SetInputDevice (Some ''desk''))] actor_new"

lemma down_start: "start_from (down_env now) p = Inl ''udp''"
  by (simp add: start_from_def start_voice_def udp_connect_and_handshake_def down_env_def)

lemma down_env_sel: "en_system (down_env now) = plugged_system" "en_now (down_env now) = now"
  by (simp_all add: down_env_def)

lemma choice_made_eq:
  "ac_handle choice_made = None" "ac_echo_handle choice_made = None" "ac_last_params choice_made = Some mic_params"
  "ac_last_restart choice_made = Some 6" "su_desired_input (ac_sup choice_made) = Some ''desk''"
  "su_known_inputs (ac_sup choice_made) = Some (device_names (list_input_devices (sys_host plugged_system)))"
  by (simp_all add: choice_made_def actor_run_def down_start actor_new_def take_snapshot_def restart_failed_def sup_tick_def
      tick_retry_def tick_follow_def sup_new_def due_def hotplug_def Let_def down_env_sel mic_params_def sample_params_def)

theorem retry_opens_old_device_witness:
  "\<exists>snap ac' h'. actor_step (up_env (secs 3)) TakeSnapshot choice_made = (SnapshotReply snap, ac') \<and>
    ac_handle ac' = Some h' \<and> the (opened_input h') = ''mic'' \<and> su_desired_input (ac_sup ac') = Some ''desk'' \<and> vs_capture_ok snap"
proof -
  let ?env = "up_env (secs 3)"
  have mic: "start_capture plugged_system (Some ''mic'') = Inr (cb_new None 48000 1, [], ''mic'')"
    by (simp add: start_capture_def resolve_device_def resolve_stream_params_def plugged_system_def full_system_def sample_system_def
        name_or_empty_def config_defs)
  obtain h where h: "start_from ?env mic_params = Inr h" "capture_state h = HalfOk"
  proof -
    have "can_play ?env d" for d
      by (cases d; simp add: can_play_def start_playback_def resolve_device_def default_device_def resolve_stream_params_def
          up_env_def plugged_system_def full_system_def sample_system_def Let_def split: option.split)
    moreover have "can_capture ?env (vp_input_device mic_params)" using mic by (simp add: can_capture_def up_env_def mic_params_def)
    moreover have "length (vp_voice_key mic_params) = 32" by (simp add: mic_params_def sample_params_def)
    ultimately show ?thesis using started_states [of ?env mic_params False] that by (auto simp: deaf_handshake up_env_def)
  qed
  obtain snap ac' where s: "actor_step ?env TakeSnapshot choice_made = (SnapshotReply snap, ac')"
    by (cases "take_snapshot ?env choice_made") simp
  have "due VOICE_RESTART_MIN_INTERVAL_MS (en_now ?env) (ac_last_restart choice_made)"
    by (simp add: choice_made_eq due_def up_env_def secs_def millis_def config_defs)
  moreover have "''desk'' \<notin> set (new_inputs ?env (ac_sup choice_made))"
    by (simp add: new_inputs_def choice_made_eq up_env_def split: option.split)
  ultimately obtain h' stream ring where "ac_handle ac' = Some h'" "su_desired_input (ac_sup ac') = Some ''desk''" "vs_capture_ok snap"
      "start_capture (en_system ?env) (vp_input_device mic_params) = Inr (stream, ring, the (opened_input h'))"
    using retry_opens_old_device [OF choice_made_eq(1-3) _ h choice_made_eq(5) _ s] by blast
  with mic s show ?thesis by (simp add: up_env_def mic_params_def)
qed

end
