(* ===== verification/Client_Network.thy ===== *)
theory Client_Network
  imports Framing Tofu Invite Net_Addr
begin

text \<open>
  \<^verbatim>\<open>crates/client/src/network.rs\<close>: the client's end of a control connection. Three tasks share
  it: the reader turns bytes into messages for the application, the writer turns the application's commands into
  frames, the heartbeat puts a ping among the commands. The tasks and the application are coupled only by two
  bounded queues and by who still holds an end of them: that is the state \<open>client_link\<close>. The socket, TLS and
  \<open>bincode\<close> are parameters: the bytes a read returned, whether a write succeeded, the (de)serializer.
\<close>

section \<open>A bounded queue\<close>

text \<open>tokio's \<open>mpsc\<close> channel: \<open>mq_open\<close> is whether its receiver is still there.\<close>

record 'm mpsc =
  mq_items :: "'m list"
  mq_capacity :: nat
  mq_open :: bool

definition mpsc_new :: "nat \<Rightarrow> 'm mpsc" where
  "mpsc_new capacity = \<lparr>mq_items = [], mq_capacity = capacity, mq_open = True\<rparr>"

definition mpsc_try_send :: "'m \<Rightarrow> 'm mpsc \<Rightarrow> 'm mpsc option" where
  "mpsc_try_send m q =
    (if mq_open q \<and> length (mq_items q) < mq_capacity q then Some (q\<lparr>mq_items := mq_items q @ [m]\<rparr>) else None)"

section \<open>The connection\<close>

definition CMD_QUEUE_CAPACITY :: nat where "CMD_QUEUE_CAPACITY = 64"
definition MSG_QUEUE_CAPACITY :: nat where "MSG_QUEUE_CAPACITY = 256"

text \<open>\<open>lk_handle\<close>: the application still holds its \<open>ServerConnection\<close>, a sender of the commands;
  \<open>lk_beating\<close>: the heartbeat task, which holds another one, still runs.\<close>

record client_link =
  lk_peer_addr :: socket_addr
  lk_commands :: "client_message mpsc"
  lk_messages :: "server_message option mpsc"
  lk_pending :: "byte list"
  lk_handle :: bool
  lk_beating :: bool
  lk_writing :: bool
  lk_reading :: bool

definition conn_send :: "client_message \<Rightarrow> client_link \<Rightarrow> (string + unit) \<times> client_link" where
  "conn_send msg lk =
    (case mpsc_try_send msg (lk_commands lk) of
       None \<Rightarrow> (Inl ''connection closed'', lk)
     | Some q \<Rightarrow> (Inr (), lk\<lparr>lk_commands := q\<rparr>))"

subsection \<open>The tasks\<close>

fun deliver_frames ::
    "(byte list \<Rightarrow> server_message option) \<Rightarrow> byte list list \<Rightarrow> server_message option mpsc \<Rightarrow> bool \<times> server_message option mpsc" where
  "deliver_frames de [] q = (True, q)"
| "deliver_frames de (f # fs) q =
    (case de f of
       None \<Rightarrow> deliver_frames de fs q
     | Some msg \<Rightarrow> (case mpsc_try_send (Some msg) q of
          None \<Rightarrow> (False, q)
        | Some q \<Rightarrow> deliver_frames de fs q))"

text \<open>The reader gives up: it says so with \<open>None\<close>, if there is room, and its sender is dropped.\<close>

definition reader_stop :: "client_link \<Rightarrow> client_link" where
  "reader_stop lk =
    lk\<lparr>lk_messages := (case mpsc_try_send None (lk_messages lk) of None \<Rightarrow> lk_messages lk | Some q \<Rightarrow> q), lk_reading := False\<rparr>"

definition reader_task :: "(byte list \<Rightarrow> server_message option) \<Rightarrow> byte list option \<Rightarrow> client_link \<Rightarrow> client_link" where
  "reader_task de read lk =
    (if \<not> lk_reading lk then lk
     else case read of
       None \<Rightarrow> reader_stop lk
     | Some chunk \<Rightarrow>
        if chunk = [] then reader_stop lk
        else (case receive_chunk (lk_pending lk) chunk of
            Inl e \<Rightarrow> reader_stop lk
          | Inr (frames, rest) \<Rightarrow>
             (let (ok, q) = deliver_frames de frames (lk_messages lk)
              in lk\<lparr>lk_pending := rest, lk_messages := q, lk_reading := ok\<rparr>)))"

text \<open>One turn of the writer: with nothing queued it waits, or ends when nobody can queue anything any more.\<close>

definition writer_stop :: "client_link \<Rightarrow> client_link" where
  "writer_stop lk = lk\<lparr>lk_commands := (lk_commands lk)\<lparr>mq_items := [], mq_open := False\<rparr>, lk_writing := False\<rparr>"

definition writer_task ::
    "(client_message \<Rightarrow> byte list option) \<Rightarrow> bool \<Rightarrow> client_link \<Rightarrow> byte list \<times> client_link" where
  "writer_task ser written lk =
    (if \<not> lk_writing lk then ([], lk)
     else case mq_items (lk_commands lk) of
       [] \<Rightarrow> ([], if lk_handle lk \<or> lk_beating lk then lk else writer_stop lk)
     | msg # msgs \<Rightarrow>
        (case write_tcp_frame ser (\<lambda>frame w. if written then Some (w @ frame) else None) Some [] msg of
           None \<Rightarrow> ([], writer_stop lk)
         | Some bytes \<Rightarrow> (bytes, lk\<lparr>lk_commands := (lk_commands lk)\<lparr>mq_items := msgs\<rparr>\<rparr>)))"

definition heartbeat_tick :: "client_link \<Rightarrow> client_link" where
  "heartbeat_tick lk =
    (if \<not> lk_beating lk then lk
     else case mpsc_try_send Ping (lk_commands lk) of
       None \<Rightarrow> lk\<lparr>lk_beating := False\<rparr>
     | Some q \<Rightarrow> lk\<lparr>lk_commands := q\<rparr>)"

subsection \<open>Connecting\<close>

text \<open>What is outside: resolving and dialling (\<open>TcpStream::connect\<close>, with the peer's address), the
  certificate the peer presents, the names rustls takes, the rest of the handshake.\<close>

record dialler =
  dl_dial :: "string \<Rightarrow> socket_addr option"
  dl_certificate :: "socket_addr \<Rightarrow> byte list"
  dl_server_name :: "string \<Rightarrow> bool"
  dl_handshake :: "socket_addr \<Rightarrow> string \<Rightarrow> bool"

definition dial_address :: "string \<Rightarrow> string" where
  "dial_address server_addr =
    (if CHR '':'' \<in> set server_addr then server_addr else server_addr @ '':'' @ decimal TCP_PORT)"

definition tls_name :: "dialler \<Rightarrow> string \<Rightarrow> string" where
  "tls_name dl addr = (let host = takeWhile (\<lambda>c. c \<noteq> CHR '':'') addr in if dl_server_name dl host then host else ''localhost'')"

definition link_new :: "string \<Rightarrow> byte list option \<Rightarrow> socket_addr \<Rightarrow> client_link" where
  "link_new version pubkey peer =
    \<lparr>lk_peer_addr = peer,
     lk_commands = (let q = mpsc_new CMD_QUEUE_CAPACITY in
        case mpsc_try_send (Hello version (of_nat PROTOCOL_VERSION) pubkey) q of None \<Rightarrow> q | Some q \<Rightarrow> q),
     lk_messages = mpsc_new MSG_QUEUE_CAPACITY, lk_pending = [],
     lk_handle = True, lk_beating = True, lk_writing = True, lk_reading = True\<rparr>"

definition network_connect ::
    "(byte list \<Rightarrow> byte list) \<Rightarrow> dialler \<Rightarrow> string \<Rightarrow> string \<Rightarrow> byte list option \<Rightarrow> tofu_state \<Rightarrow>
     (string + client_link) \<times> tofu_state" where
  "network_connect sha256 dl version server_addr pubkey tofu =
    (let addr = dial_address server_addr in
     case dl_dial dl addr of
       None \<Rightarrow> (Inl (''failed to connect to '' @ addr), tofu)
     | Some peer \<Rightarrow>
        (let (accepted, tofu) = tofu_connect sha256 addr (dl_certificate dl peer) tofu in
         if accepted \<and> dl_handshake dl peer (tls_name dl addr) then (Inr (link_new version pubkey peer), tofu)
         else (Inl (''TLS handshake failed with '' @ addr), tofu)))"

section \<open>A connection's life\<close>

text \<open>What can happen on a connection, in any order: a read returns (\<open>None\<close>: it failed), the writer has a turn
  (the write succeeds or not), the heartbeat is due, the application sends, takes the next message, lets go of its
  \<open>ServerConnection\<close>, or drops its receiver. A step yields the message the application took, if any, and
  the bytes written.\<close>

datatype link_event =
    ReadReturned "byte list option"
  | WriterTurn bool
  | HeartbeatDue
  | AppSends client_message
  | AppReceives
  | AppDropsConnection
  | AppDropsReceiver

fun link_next ::
    "(client_message \<Rightarrow> byte list option) \<Rightarrow> (byte list \<Rightarrow> server_message option) \<Rightarrow> link_event \<Rightarrow> client_link \<Rightarrow>
     server_message option list \<times> byte list \<times> client_link" where
  "link_next ser de (ReadReturned read) lk = ([], [], reader_task de read lk)"
| "link_next ser de (WriterTurn ok) lk = ([], writer_task ser ok lk)"
| "link_next ser de HeartbeatDue lk = ([], [], heartbeat_tick lk)"
| "link_next ser de (AppSends msg) lk = ([], [], if lk_handle lk then snd (conn_send msg lk) else lk)"
| "link_next ser de AppReceives lk =
    (case mq_items (lk_messages lk) of
       [] \<Rightarrow> ([], [], lk)
     | m # ms \<Rightarrow> ([m], [], lk\<lparr>lk_messages := (lk_messages lk)\<lparr>mq_items := ms\<rparr>\<rparr>))"
| "link_next ser de AppDropsConnection lk = ([], [], lk\<lparr>lk_handle := False\<rparr>)"
| "link_next ser de AppDropsReceiver lk =
    ([], [], lk\<lparr>lk_messages := (lk_messages lk)\<lparr>mq_items := [], mq_open := False\<rparr>\<rparr>)"

fun link_run ::
    "(client_message \<Rightarrow> byte list option) \<Rightarrow> (byte list \<Rightarrow> server_message option) \<Rightarrow> link_event list \<Rightarrow> client_link \<Rightarrow>
     server_message option list \<times> byte list \<times> client_link" where
  "link_run ser de [] lk = ([], [], lk)"
| "link_run ser de (e # es) lk =
    (let (got, out, lk) = link_next ser de e lk; (gots, outs, lk) = link_run ser de es lk
     in (got @ gots, out @ outs, lk))"

section \<open>What arrives\<close>

definition read_bytes :: "link_event list \<Rightarrow> byte list" where
  "read_bytes es = concat (map (\<lambda>e. case e of ReadReturned (Some chunk) \<Rightarrow> chunk | _ \<Rightarrow> []) es)"

definition chunks_fit :: "link_event list \<Rightarrow> bool" where
  "chunks_fit es \<longleftrightarrow> (\<forall>chunk. ReadReturned (Some chunk) \<in> set es \<longrightarrow> length chunk \<le> TCP_READ_BUF)"

lemma deliver_frames_prefix:
  assumes "deliver_frames de fs q = (ok, q')" and "mq_open q" and "length (mq_items q) \<le> mq_capacity q"
  shows "\<exists>j. mq_items q' = mq_items q @ map Some (List.map_filter de (take j fs)) \<and> mq_open q' \<and>
    mq_capacity q' = mq_capacity q \<and> length (mq_items q') \<le> mq_capacity q \<and>
    (if ok then take j fs = fs else length (mq_items q') = mq_capacity q)"
  using assms
proof (induction fs arbitrary: q)
  case Nil
  then show ?case by (intro exI [of _ 0]) (simp add: List.map_filter_def)
next
  case (Cons f fs)
  show ?case
  proof (cases "de f")
    case None
    with Cons.prems obtain j where "mq_items q' = mq_items q @ map Some (List.map_filter de (take j fs)) \<and> mq_open q' \<and>
        mq_capacity q' = mq_capacity q \<and> length (mq_items q') \<le> mq_capacity q \<and>
        (if ok then take j fs = fs else length (mq_items q') = mq_capacity q)"
      using Cons.IH [of q] by auto
    with None show ?thesis by (intro exI [of _ "Suc j"]) (auto simp: List.map_filter_def)
  next
    case (Some m)
    show ?thesis
    proof (cases "length (mq_items q) < mq_capacity q")
      case False
      with Cons.prems Some show ?thesis
        by (intro exI [of _ 0]) (auto simp: mpsc_try_send_def List.map_filter_def)
    next
      case True
      define r where "r = q\<lparr>mq_items := mq_items q @ [Some m]\<rparr>"
      have r: "mq_items r = mq_items q @ [Some m]" "mq_open r" "mq_capacity r = mq_capacity q"
        "length (mq_items r) \<le> mq_capacity r" using Cons.prems(2) True by (simp_all add: r_def)
      have "deliver_frames de fs r = (ok, q')"
        using Cons.prems(1,2) Some True by (simp add: mpsc_try_send_def r_def)
      then obtain j where "mq_items q' = mq_items r @ map Some (List.map_filter de (take j fs)) \<and> mq_open q' \<and>
        mq_capacity q' = mq_capacity r \<and> length (mq_items q') \<le> mq_capacity r \<and>
        (if ok then take j fs = fs else length (mq_items q') = mq_capacity r)"
        using Cons.IH [of r] r by metis
      with Some r show ?thesis by (intro exI [of _ "Suc j"]) (auto simp: List.map_filter_def)
    qed
  qed
qed

text \<open>What the reader has done with the first frames of the stream when \<open>rest\<close> is still to come.\<close>

definition messages_ok :: "server_message option mpsc \<Rightarrow> bool" where
  "messages_ok q \<longleftrightarrow> mq_open q \<and> mq_capacity q = MSG_QUEUE_CAPACITY \<and> length (mq_items q) \<le> MSG_QUEUE_CAPACITY"

definition arrived ::
    "(byte list \<Rightarrow> server_message option) \<Rightarrow> byte list list \<Rightarrow> byte list \<Rightarrow> server_message option list \<Rightarrow> client_link \<Rightarrow> bool" where
  "arrived de ps rest got lk \<longleftrightarrow> messages_ok (lk_messages lk) \<and>
    (\<exists>k tail. got @ mq_items (lk_messages lk) = map Some (List.map_filter de (take k ps)) @ tail \<and> tail \<in> {[], [None]} \<and>
      (lk_reading lk \<longrightarrow> tail = [] \<and> lk_pending lk @ rest = concat (map frame_bytes (drop k ps)) \<and>
        try_decode_frame (lk_pending lk) = Inr None))"

lemma deliver_frames_ok:
  assumes "deliver_frames de fs q = (ok, q')" and "messages_ok q"
  shows "\<exists>j. mq_items q' = mq_items q @ map Some (List.map_filter de (take j fs)) \<and> messages_ok q' \<and>
    (if ok then take j fs = fs else length (mq_items q') = MSG_QUEUE_CAPACITY)"
  using deliver_frames_prefix [OF assms(1)] assms(2) unfolding messages_ok_def by metis

lemma arrived_stop:
  assumes "arrived de ps rest got lk" and "lk_reading lk" shows "arrived de ps rest' got (reader_stop lk)"
proof -
  obtain k where k: "got @ mq_items (lk_messages lk) = map Some (List.map_filter de (take k ps))"
    using assms unfolding arrived_def by auto
  have q: "messages_ok (lk_messages lk)" using assms(1) by (simp add: arrived_def)
  have "\<exists>tail \<in> {[], [None]}. mq_items (lk_messages (reader_stop lk)) = mq_items (lk_messages lk) @ tail"
    by (simp add: reader_stop_def mpsc_try_send_def)
  then obtain tail where t: "tail \<in> {[], [None]}" "mq_items (lk_messages (reader_stop lk)) = mq_items (lk_messages lk) @ tail" ..
  have "messages_ok (lk_messages (reader_stop lk))" "\<not> lk_reading (reader_stop lk)"
    using q by (auto simp: messages_ok_def reader_stop_def mpsc_try_send_def)
  moreover have "got @ mq_items (lk_messages (reader_stop lk)) = map Some (List.map_filter de (take k ps)) @ tail"
    using k t(2) by (simp flip: append_assoc)
  ultimately show ?thesis using t(1) unfolding arrived_def by blast
qed

lemma receive_chunk_complete: "receive_chunk pending chunk = Inr (fs, r) \<Longrightarrow> try_decode_frame r = Inr None"
  using tcp.ext_rest_incomplete [of "[]" "pending @ chunk" fs r]
  by (auto simp: receive_chunk_def extract_frames_def Let_def split: if_splits sum.splits prod.splits)

lemma incomplete_bound: "try_decode_frame r = Inr None \<Longrightarrow> length r < 4 + MAX_FRAME_SIZE"
  by (auto simp: try_decode_frame_def Let_def config_defs split: if_splits)

lemma arrived_read:
  assumes "arrived de ps (chunk @ rest) got lk" and "lk_reading lk" and "length chunk \<le> TCP_READ_BUF"
    and "\<forall>p \<in> set ps. length p \<le> MAX_FRAME_SIZE" and "chunk \<noteq> []"
  shows "arrived de ps rest got (reader_task de (Some chunk) lk)"
    and "lk_reading (reader_task de (Some chunk) lk) \<or>
      length (mq_items (lk_messages (reader_task de (Some chunk) lk))) = MSG_QUEUE_CAPACITY"
proof -
  obtain k where k: "got @ mq_items (lk_messages lk) = map Some (List.map_filter de (take k ps))"
      "lk_pending lk @ chunk @ rest = concat (map frame_bytes (drop k ps))" "try_decode_frame (lk_pending lk) = Inr None"
    using assms(1,2) unfolding arrived_def by auto
  have q: "messages_ok (lk_messages lk)" using assms(1) by (simp add: arrived_def)
  have "\<forall>p \<in> set (drop k ps). length p \<le> MAX_FRAME_SIZE" using assms(4) set_drop_subset [of k ps] by blast
  then obtain j r where jr: "receive_chunk (lk_pending lk) chunk = Inr (take j (drop k ps), r)"
      "r @ rest = concat (map frame_bytes (drop j (drop k ps)))"
    using receive_chunk_frames [OF _ k(2) incomplete_bound [OF k(3)] assms(3)] by metis
  obtain ok q' where d: "deliver_frames de (take j (drop k ps)) (lk_messages lk) = (ok, q')" by (rule prod.exhaust)
  obtain i where i: "mq_items q' = mq_items (lk_messages lk) @ map Some (List.map_filter de (take i (take j (drop k ps))))"
      "messages_ok q'" "if ok then take i (take j (drop k ps)) = take j (drop k ps) else length (mq_items q') = MSG_QUEUE_CAPACITY"
    using deliver_frames_ok [OF d q] by blast
  have t: "reader_task de (Some chunk) lk = lk\<lparr>lk_pending := r, lk_messages := q', lk_reading := ok\<rparr>"
    using assms(2,5) jr(1) d by (simp add: reader_task_def)
  define n where "n = (if ok then j else min i j)"
  have n: "take i (take j (drop k ps)) = take n (drop k ps)" using i(3) by (cases ok) (simp_all add: n_def)
  have items: "mq_items q' = mq_items (lk_messages lk) @ map Some (List.map_filter de (take n (drop k ps)))"
    using i(1) unfolding n .
  have "got @ mq_items q' = (got @ mq_items (lk_messages lk)) @ map Some (List.map_filter de (take n (drop k ps)))"
    by (simp only: items append_assoc)
  also have "\<dots> = map Some (List.map_filter de (take (k + n) ps))"
    unfolding k(1) by (simp add: take_add List.map_filter_def)
  finally have "got @ mq_items q' = map Some (List.map_filter de (take (k + n) ps))" .
  moreover have "drop j (drop k ps) = drop (k + n) ps" if ok using that by (simp add: n_def add.commute)
  ultimately show "arrived de ps rest got (reader_task de (Some chunk) lk)"
    unfolding arrived_def t using i(2) jr(2) receive_chunk_complete [OF jr(1)]
    by (intro conjI exI [of _ "k + n"] exI [of _ "[]"]) simp_all
  show "lk_reading (reader_task de (Some chunk) lk) \<or>
      length (mq_items (lk_messages (reader_task de (Some chunk) lk))) = MSG_QUEUE_CAPACITY"
    using i(3) by (simp add: t split: if_splits)
qed

lemma arrived_same:
  "lk_messages lk' = lk_messages lk \<Longrightarrow> lk_pending lk' = lk_pending lk \<Longrightarrow> lk_reading lk' = lk_reading lk \<Longrightarrow>
   arrived de ps rest got lk' = arrived de ps rest got lk"
  by (simp add: arrived_def)

text \<open>Only the reader and the application touch the messages.\<close>

lemma other_tasks [simp]:
  "lk_messages (snd (writer_task ser ok lk)) = lk_messages lk" "lk_pending (snd (writer_task ser ok lk)) = lk_pending lk"
  "lk_reading (snd (writer_task ser ok lk)) = lk_reading lk"
  "lk_messages (snd (conn_send msg lk)) = lk_messages lk" "lk_pending (snd (conn_send msg lk)) = lk_pending lk"
  "lk_reading (snd (conn_send msg lk)) = lk_reading lk"
  "lk_messages (heartbeat_tick lk) = lk_messages lk" "lk_pending (heartbeat_tick lk) = lk_pending lk"
  "lk_reading (heartbeat_tick lk) = lk_reading lk"
  by (auto simp: writer_task_def writer_stop_def conn_send_def heartbeat_tick_def split: list.split option.split)

lemma arrived_taken:
  assumes "arrived de ps rest got lk" and "mq_items (lk_messages lk) = m # ms"
  shows "arrived de ps rest (got @ [m]) (lk\<lparr>lk_messages := (lk_messages lk)\<lparr>mq_items := ms\<rparr>\<rparr>)"
  using assms unfolding arrived_def messages_ok_def by simp

lemma arrived_next:
  assumes "arrived de ps (read_bytes [e] @ rest) got lk" and "chunks_fit [e]" and "e \<noteq> AppDropsReceiver"
    and "\<forall>p \<in> set ps. length p \<le> MAX_FRAME_SIZE" and "link_next ser de e lk = (msgs, out, lk')"
  shows "arrived de ps rest (got @ msgs) lk'"
proof (cases e)
  case (ReadReturned read)
  have stopped: "arrived de ps rest got lk" if "\<not> lk_reading lk"
    using assms(1) that by (simp add: arrived_def)
  show ?thesis
  proof (cases "lk_reading lk")
    case False
    with stopped ReadReturned assms(5) show ?thesis by (simp add: reader_task_def)
  next
    case True
    show ?thesis
    proof (cases "read = None \<or> read = Some []")
      case True
      then have "reader_task de read lk = reader_stop lk" using \<open>lk_reading lk\<close> by (auto simp: reader_task_def)
      with arrived_stop [OF assms(1) \<open>lk_reading lk\<close>, of rest] ReadReturned assms(5) show ?thesis by simp
    next
      case False
      then obtain chunk where c: "read = Some chunk" "chunk \<noteq> []" by auto
      have "arrived de ps (chunk @ rest) got lk" "length chunk \<le> TCP_READ_BUF"
        using assms(1,2) by (simp_all add: ReadReturned c(1) read_bytes_def chunks_fit_def)
      from arrived_read(1) [OF this(1) True this(2) assms(4) c(2)] ReadReturned c(1) assms(5) show ?thesis by simp
    qed
  qed
next
  case (WriterTurn ok)
  have "arrived de ps rest got (snd (writer_task ser ok lk))"
    using assms(1) by (simp add: WriterTurn read_bytes_def arrived_def)
  with WriterTurn assms(5) show ?thesis by auto
next
  case (AppSends msg)
  have "arrived de ps rest got (snd (conn_send msg lk))" "arrived de ps rest got lk"
    using assms(1) by (simp_all add: AppSends read_bytes_def arrived_def)
  with AppSends assms(5) show ?thesis by (auto split: if_splits)
next
  case HeartbeatDue
  have "arrived de ps rest got (heartbeat_tick lk)"
    using assms(1) by (simp add: HeartbeatDue read_bytes_def arrived_def)
  with HeartbeatDue assms(5) show ?thesis by simp
next
  case AppReceives
  have "arrived de ps rest got lk" using assms(1) by (simp add: AppReceives read_bytes_def)
  with AppReceives assms(5) show ?thesis using arrived_taken by (auto split: list.splits)
next
  case AppDropsConnection
  have "arrived de ps rest got (lk\<lparr>lk_handle := False\<rparr>)"
    using assms(1) by (simp add: AppDropsConnection read_bytes_def arrived_def)
  with AppDropsConnection assms(5) show ?thesis by simp
qed (use assms(3) in simp)

lemma arrived_run:
  assumes "arrived de ps (read_bytes es @ rest) got lk" and "chunks_fit es" and "AppDropsReceiver \<notin> set es"
    and "\<forall>p \<in> set ps. length p \<le> MAX_FRAME_SIZE" and "link_run ser de es lk = (msgs, out, lk')"
  shows "arrived de ps rest (got @ msgs) lk'"
  using assms
proof (induction es arbitrary: got lk msgs out)
  case Nil
  then show ?case by (simp add: read_bytes_def)
next
  case (Cons e es)
  obtain msgs1 out1 lk1 where e: "link_next ser de e lk = (msgs1, out1, lk1)" by (rule prod_cases3)
  obtain msgs2 out2 where es: "link_run ser de es lk1 = (msgs2, out2, lk')" "msgs = msgs1 @ msgs2"
    using Cons.prems(5) e by (auto split: prod.splits)
  have "arrived de ps (read_bytes [e] @ read_bytes es @ rest) got lk" "chunks_fit [e]" "chunks_fit es"
    using Cons.prems(1,2) by (simp_all add: read_bytes_def chunks_fit_def)
  then have "arrived de ps (read_bytes es @ rest) (got @ msgs1) lk1"
    using arrived_next [OF _ _ _ Cons.prems(4) e] Cons.prems(3) by auto
  from Cons.IH [OF this \<open>chunks_fit es\<close> _ Cons.prems(4) es(1)] Cons.prems(3) es(2) show ?case by simp
qed

lemma arrived_new: "arrived de ps (concat (map frame_bytes ps)) [] (link_new version pubkey peer)"
proof -
  have "map Some [] = (map Some (List.map_filter de (take 0 ps)) :: server_message option list)" by (simp add: List.map_filter_def)
  then show ?thesis
    by (auto simp: arrived_def link_new_def messages_ok_def mpsc_new_def try_decode_frame_def MSG_QUEUE_CAPACITY_def
        intro!: exI [of _ 0])
qed

text \<open>The reader stops only when the connection ends or 256 messages lie unread.\<close>

lemma reading_next:
  assumes "arrived de ps (read_bytes [e] @ rest) got lk" and "chunks_fit [e]" and "\<forall>p \<in> set ps. length p \<le> MAX_FRAME_SIZE"
    and "lk_reading lk" and "link_next ser de e lk = (msgs, out, lk')" and "\<not> lk_reading lk'"
  shows "e = ReadReturned None \<or> e = ReadReturned (Some []) \<or> length (mq_items (lk_messages lk')) = MSG_QUEUE_CAPACITY"
proof (cases e)
  case (ReadReturned read)
  show ?thesis
  proof (cases "read = None \<or> read = Some []")
    case False
    then obtain chunk where c: "read = Some chunk" "chunk \<noteq> []" by auto
    have "arrived de ps (chunk @ rest) got lk" "length chunk \<le> TCP_READ_BUF"
      using assms(1,2) by (simp_all add: ReadReturned c(1) read_bytes_def chunks_fit_def)
    from arrived_read(2) [OF this(1) assms(4) this(2) assms(3) c(2)] ReadReturned c(1) assms(5,6) show ?thesis by auto
  qed (use ReadReturned in auto)
next
  case (WriterTurn ok)
  with assms(4-6) other_tasks(3) [of ser ok lk] show ?thesis by (auto simp del: other_tasks)
qed (use assms(4-6) in \<open>auto split: list.splits if_splits\<close>)

lemma reading_run:
  assumes "arrived de ps (read_bytes es @ rest) got lk" and "chunks_fit es" and "AppDropsReceiver \<notin> set es"
    and "\<forall>p \<in> set ps. length p \<le> MAX_FRAME_SIZE" and "lk_reading lk"
    and "link_run ser de es lk = (msgs, out, lk')" and "\<not> lk_reading lk'"
  shows "ReadReturned None \<in> set es \<or> ReadReturned (Some []) \<in> set es \<or>
    (\<exists>n. length (mq_items (lk_messages (snd (snd (link_run ser de (take n es) lk))))) = MSG_QUEUE_CAPACITY)"
  using assms
proof (induction es arbitrary: got lk msgs out)
  case (Cons e es)
  obtain msgs1 out1 lk1 where e: "link_next ser de e lk = (msgs1, out1, lk1)" by (rule prod_cases3)
  obtain msgs2 out2 where es: "link_run ser de es lk1 = (msgs2, out2, lk')"
    using Cons.prems(6) e by (auto split: prod.splits)
  have a: "arrived de ps (read_bytes [e] @ read_bytes es @ rest) got lk" "chunks_fit [e]" "chunks_fit es"
    using Cons.prems(1,2) by (simp_all add: read_bytes_def chunks_fit_def)
  have a1: "arrived de ps (read_bytes es @ rest) (got @ msgs1) lk1"
    using arrived_next [OF a(1,2) _ Cons.prems(4) e] Cons.prems(3) by auto
  have run: "snd (snd (link_run ser de (take (Suc n) (e # es)) lk)) = snd (snd (link_run ser de (take n es) lk1))" for n
    using e by (simp split: prod.split)
  show ?case
  proof (cases "lk_reading lk1")
    case False
    from reading_next [OF a(1,2) Cons.prems(4,5) e False] run [of 0] show ?thesis
      by (auto simp del: take_Suc_Cons intro: exI [of _ "Suc 0"])
  next
    case True
    from Cons.IH [OF a1 a(3) _ Cons.prems(4) True es Cons.prems(7)] Cons.prems(3)
    consider "ReadReturned None \<in> set es" | "ReadReturned (Some []) \<in> set es"
      | n where "length (mq_items (lk_messages (snd (snd (link_run ser de (take n es) lk1))))) = MSG_QUEUE_CAPACITY" by auto
    then show ?thesis
    proof cases
      case 3
      then show ?thesis unfolding run [symmetric] by blast
    qed simp_all
  qed
qed simp

text \<open>Whatever the chunks in which a server's frames reach the client, and however the reader, the writer, the
  heartbeat and the application interleave, the messages the application has taken and those waiting for it are
  together the messages of a prefix of the frames, in order, none lost, none doubled, a frame that does not decode
  skipped, possibly closed by one sign of disconnection. While the reader runs, that prefix is every frame that has
  arrived completely; and it stops only when the connection ends or when 256 messages lie unread.\<close>

theorem messages_arrive:
  assumes "\<forall>p \<in> set ps. length p \<le> MAX_FRAME_SIZE" and "chunks_fit es" and "AppDropsReceiver \<notin> set es"
    and "read_bytes es @ rest = concat (map frame_bytes ps)"
    and "link_run ser de es (link_new version pubkey peer) = (got, out, lk)"
  shows "\<exists>k tail. got @ mq_items (lk_messages lk) = map Some (List.map_filter de (take k ps)) @ tail \<and> tail \<in> {[], [None]} \<and>
    (lk_reading lk \<longrightarrow> tail = [] \<and> lk_pending lk @ rest = concat (map frame_bytes (drop k ps)) \<and>
      try_decode_frame (lk_pending lk) = Inr None) \<and>
    (lk_reading lk \<or> ReadReturned None \<in> set es \<or> ReadReturned (Some []) \<in> set es \<or>
      (\<exists>n. length (mq_items (lk_messages (snd (snd (link_run ser de (take n es) (link_new version pubkey peer)))))) =
        MSG_QUEUE_CAPACITY))"
proof -
  have a: "arrived de ps (read_bytes es @ rest) [] (link_new version pubkey peer)"
    unfolding assms(4) by (rule arrived_new)
  have n: "lk_reading (link_new version pubkey peer)" by (simp add: link_new_def)
  from arrived_run [OF a assms(2,3,1,5)] reading_run [OF a assms(2,3,1) n assms(5)]
  show ?thesis unfolding arrived_def by auto
qed

theorem messages_arrive_witness:
  "\<exists>k tail. fst (link_run (\<lambda>m. None) (\<lambda>f :: byte list. Some (SError (map (char_of \<circ> unat) f)))
      [ReadReturned (Some [0, 0]), HeartbeatDue, ReadReturned (Some [0, 1, 7, 0]), AppReceives] (link_new [] None (SockV4 1 2))) @
    mq_items (lk_messages (snd (snd (link_run (\<lambda>m. None) (\<lambda>f :: byte list. Some (SError (map (char_of \<circ> unat) f)))
      [ReadReturned (Some [0, 0]), HeartbeatDue, ReadReturned (Some [0, 1, 7, 0]), AppReceives] (link_new [] None (SockV4 1 2)))))) =
    map Some (List.map_filter (\<lambda>f :: byte list. Some (SError (map (char_of \<circ> unat) f))) (take k [[7], []])) @ tail"
proof -
  define es where "es = [ReadReturned (Some [0, 0]), HeartbeatDue, ReadReturned (Some [0, 1, 7, 0]), AppReceives]"
  define ser :: "client_message \<Rightarrow> byte list option" where "ser = (\<lambda>m. None)"
  define de where "de = (\<lambda>f :: byte list. Some (SError (map (char_of \<circ> unat) f)))"
  obtain got out lk where run: "link_run ser de es (link_new [] None (SockV4 1 2)) = (got, out, lk)" by (rule prod_cases3)
  have be4: "be_bytes 4 x = [of_nat (x div 256 div 256 div 256 mod 256), of_nat (x div 256 div 256 mod 256),
      of_nat (x div 256 mod 256), of_nat (x mod 256)]" for x
  proof -
    have "(4 :: nat) = Suc (Suc (Suc (Suc 0)))" by simp
    then show ?thesis by (simp only: be_bytes.simps append.simps)
  qed
  have "read_bytes es @ [0, 0, 0] = concat (map frame_bytes [[7], []])"
    by (simp add: es_def read_bytes_def frame_bytes_def u32_to_be_def be4)
  moreover have "chunks_fit es" "AppDropsReceiver \<notin> set es" by (auto simp: es_def chunks_fit_def config_defs)
  moreover have "\<forall>p \<in> set [[7], []]. length (p :: byte list) \<le> MAX_FRAME_SIZE" by (simp add: config_defs)
  ultimately obtain k tail where "got @ mq_items (lk_messages lk) = map Some (List.map_filter de (take k [[7], []])) @ tail"
    using messages_arrive [OF _ _ _ _ run, of "[[7], []]" "[0, 0, 0]"] by blast
  then have "\<exists>k tail. fst (link_run ser de es (link_new [] None (SockV4 1 2))) @
      mq_items (lk_messages (snd (snd (link_run ser de es (link_new [] None (SockV4 1 2)))))) =
      map Some (List.map_filter de (take k [[7], []])) @ tail"
    unfolding run by auto
  then show ?thesis unfolding es_def ser_def de_def .
qed

section \<open>Hanging up\<close>

lemma reader_task_keeps [simp]:
  "lk_commands (reader_task de r lk) = lk_commands lk" "lk_handle (reader_task de r lk) = lk_handle lk"
  "lk_beating (reader_task de r lk) = lk_beating lk" "lk_writing (reader_task de r lk) = lk_writing lk"
  by (auto simp: reader_task_def reader_stop_def split: option.split sum.split prod.split)

lemma reads_keep:
  "link_run ser de (map ReadReturned reads @ es) lk = (got, out, lk') \<longleftrightarrow>
   link_run ser de es (fold (reader_task de) reads lk) = (got, out, lk')"
  by (induction reads arbitrary: lk) auto

lemma fold_reads_keep [simp]:
  "lk_commands (fold (reader_task de) rs lk) = lk_commands lk" "lk_beating (fold (reader_task de) rs lk) = lk_beating lk"
  "lk_writing (fold (reader_task de) rs lk) = lk_writing lk"
  by (induction rs arbitrary: lk) simp_all

text \<open>The commands queue between two turns of the writer: open and empty.\<close>

definition idle_writer :: "client_link \<Rightarrow> bool" where
  "idle_writer lk \<longleftrightarrow> lk_writing lk \<and> lk_beating lk \<and> lk_commands lk = mpsc_new CMD_QUEUE_CAPACITY"

lemma beat_round:
  assumes "idle_writer lk" and "ser Ping = Some ping"
  shows "link_run ser de (map ReadReturned reads @ [HeartbeatDue, WriterTurn True]) lk =
      ([], frame_bytes ping, fold (reader_task de) reads lk)" (is ?run)
    and "idle_writer (fold (reader_task de) reads lk)"
proof -
  let ?lk = "fold (reader_task de) reads lk"
  show i: "idle_writer ?lk" using assms(1) by (simp add: idle_writer_def)
  have "heartbeat_tick ?lk = ?lk\<lparr>lk_commands := (lk_commands ?lk)\<lparr>mq_items := [Ping]\<rparr>\<rparr>"
    using i by (simp add: heartbeat_tick_def idle_writer_def mpsc_try_send_def mpsc_new_def CMD_QUEUE_CAPACITY_def)
  then have "link_run ser de [HeartbeatDue, WriterTurn True] ?lk = ([], frame_bytes ping, ?lk)"
    using i assms(2) by (simp add: writer_task_def idle_writer_def write_tcp_frame_def encode_tcp_frame_def
        frame_bytes_def mpsc_new_def Let_def)
  then show ?run by (simp add: reads_keep)
qed

lemma link_run_append:
  "link_run ser de (es @ fs) lk =
    (let (got, out, lk) = link_run ser de es lk; (gots, outs, lk) = link_run ser de fs lk in (got @ gots, out @ outs, lk))"
  by (induction es arbitrary: lk) (auto simp: Let_def split: prod.split)

lemma beat_rounds:
  assumes "idle_writer lk" and "ser Ping = Some ping"
  shows "\<exists>lk'. link_run ser de (concat (map (\<lambda>reads. map ReadReturned reads @ [HeartbeatDue, WriterTurn True]) rounds)) lk =
      ([], concat (map (\<lambda>_. frame_bytes ping) rounds), lk') \<and> idle_writer lk'"
  using assms(1)
proof (induction rounds arbitrary: lk)
  case (Cons reads rounds)
  let ?beat = "\<lambda>reads. map ReadReturned reads @ [HeartbeatDue, WriterTurn True]"
  obtain lk' where "link_run ser de (concat (map ?beat rounds)) (fold (reader_task de) reads lk) =
      ([], concat (map (\<lambda>_. frame_bytes ping) rounds), lk')" "idle_writer lk'"
    using Cons.IH [OF beat_round(2) [where ser = ser, OF Cons.prems assms(2)]] by blast
  then have "link_run ser de (?beat reads @ concat (map ?beat rounds)) lk =
      ([], frame_bytes ping @ concat (map (\<lambda>_. frame_bytes ping) rounds), lk')"
    unfolding link_run_append [of _ _ "?beat reads"] beat_round(1) [where ser = ser, OF Cons.prems assms(2)] by simp
  with \<open>idle_writer lk'\<close> show ?case by auto
qed simp

text \<open>Letting go of a connection does not close it: the heartbeat holds a sender of its own, so after the
  application has dropped its \<open>ServerConnection\<close> and its receiver the writer never ends, and at every
  interval, whatever the server sends meanwhile and even when the reader has stopped, another ping goes out.\<close>

lemma hang_up_pings:
  assumes "idle_writer lk" and "ser Ping = Some ping"
    and "link_run ser de ([AppDropsReceiver, AppDropsConnection] @
      concat (map (\<lambda>reads. map ReadReturned reads @ [HeartbeatDue, WriterTurn True]) rounds)) lk = (got, out, lk')"
  shows "out = concat (map (\<lambda>_. frame_bytes ping) rounds) \<and> lk_writing lk' \<and> lk_beating lk' \<and> got = []"
proof -
  let ?lk = "lk\<lparr>lk_messages := (lk_messages lk)\<lparr>mq_items := [], mq_open := False\<rparr>, lk_handle := False\<rparr>"
  have "idle_writer ?lk" using assms(1) by (simp add: idle_writer_def)
  from beat_rounds [where rounds = rounds and ser = ser and de = de, OF this assms(2)] assms(3)
  show ?thesis by (auto simp: link_run_append idle_writer_def simp del: append_assoc)
qed

end
