(* ===== verification/Control_Path.thy ===== *)
theory Control_Path
  imports Server_Tcp_Properties Client_Network
begin

text \<open>
  A control connection from end to end: the server's queues and reader loop (\<open>Server_Tcp\<close>) against the
  client's tasks (\<open>Client_Network\<close>), through whatever chunks TCP makes of the stream.
\<close>

section \<open>A message on its way to a client\<close>

lemma frame_of_encode: "encode ser m = Some frame \<Longrightarrow> \<exists>payload. ser m = Some payload \<and> frame = frame_bytes payload"
  by (auto simp: encode_def encode_tcp_frame_def frame_bytes_def Let_def split: option.splits)

lemma map_filter_snoc: "f x = Some y \<Longrightarrow> List.map_filter f (xs @ [x]) = List.map_filter f xs @ [y]"
  by (simp add: List.map_filter_def)

lemma decode_frame_bytes:
  "length p \<le> MAX_FRAME_SIZE \<Longrightarrow> try_decode_frame (frame_bytes p @ rest) = Inr (Some (p, length (frame_bytes p)))"
  by (simp add: try_decode_frame_def frame_bytes_def unat_frame_length Let_def)

lemma receive_one_frame:
  assumes "length p \<le> MAX_FRAME_SIZE" shows "receive_chunk [] (frame_bytes p) = Inr ([p], [])"
proof -
  have "extract_frames_loop [p] [] = (Inr [p], [])"
    by (subst extract_frames_loop.simps) (simp add: try_decode_frame_def)
  then have "extract_frames (frame_bytes p) = (Inr [p], [])"
    unfolding extract_frames_def using decode_frame_bytes [OF assms, of "[]"]
    by (subst extract_frames_loop.simps) simp
  then show ?thesis using assms by (simp add: receive_chunk_def config_defs)
qed

text \<open>A stream that has been read to its end has been delivered to its end.\<close>

lemma all_delivered:
  assumes "arrived de ps [] got lk" and "lk_reading lk" and "\<forall>p \<in> set ps. length p \<le> MAX_FRAME_SIZE"
  shows "got @ mq_items (lk_messages lk) = map Some (List.map_filter de ps)"
proof -
  obtain k where k: "got @ mq_items (lk_messages lk) = map Some (List.map_filter de (take k ps))"
      "lk_pending lk = concat (map frame_bytes (drop k ps))" "try_decode_frame (lk_pending lk) = Inr None"
    using assms(1,2) unfolding arrived_def by auto
  have "drop k ps = []"
  proof (cases "drop k ps")
    case (Cons p qs)
    then have "p \<in> set ps" using set_drop_subset [of k ps] by auto
    then have "length p \<le> MAX_FRAME_SIZE" using assms(3) by blast
    then have "try_decode_frame (frame_bytes p @ concat (map frame_bytes qs)) = Inr (Some (p, length (frame_bytes p)))"
      by (rule decode_frame_bytes)
    with k(2,3) Cons show ?thesis by simp
  qed
  then show ?thesis using k(1) by simp
qed

text \<open>C33 A chat message goes all the way: when a member of a channel sends a text of at most
  \<open>MAX_CHAT_LEN\<close> bytes and there is room in the queue of another member, then once everything written to that
  member has been read, in whatever chunks and interleaving, its application has taken, or will take next after
  what is waiting, exactly the messages sent to it before and then this one, with the sender's name.\<close>

theorem chat_end_to_end:
  assumes "reachable L (core srv)" and "member (srv_state srv) a ch" and "member (srv_state srv) b ch" and "a \<noteq> b"
    and "length text \<le> MAX_CHAT_LEN" and "ser (SChatMessage name text) = Some payload"
    and "de payload = Some (SChatMessage name text)" and "length payload \<le> MAX_FRAME_SIZE"
    and "hm_get (srv_senders srv) b = Some q" and "cq_open q" and "length (cq_frames q) < CLIENT_QUEUE_CAPACITY"
    and "cq_frames q = map frame_bytes queued" and "\<forall>p \<in> set (earlier @ queued). length p \<le> MAX_FRAME_SIZE"
    and "hm_get (srv_senders (handle_chat_message ser a name text srv)) b = Some q'"
    and "read_bytes es = concat (map frame_bytes earlier) @ concat (cq_frames q')" and "chunks_fit es" and "AppDropsReceiver \<notin> set es"
    and "link_run ser_c de es (link_new version pubkey peer) = (got, out, lk)" and "lk_reading lk"
  shows "got @ mq_items (lk_messages lk) = map Some (List.map_filter de (earlier @ queued) @ [SChatMessage name text])"
proof -
  have e: "encode ser (SChatMessage name text) = Some (frame_bytes payload)"
    using assms(6) by (simp add: encode_def encode_tcp_frame_def frame_bytes_def Let_def)
  have "q' = push_frame (frame_bytes payload) q"
    using chat_delivered [OF assms(1,2,5) e refl, of b] assms(3,4,9,14) by simp
  then have q': "cq_frames q' = map frame_bytes (queued @ [payload])"
    using assms(10-12) by (simp add: push_frame_def try_send_def)
  have fit: "\<forall>p \<in> set (earlier @ queued @ [payload]). length p \<le> MAX_FRAME_SIZE" using assms(8,13) by auto
  have "arrived de (earlier @ queued @ [payload]) (read_bytes es @ []) [] (link_new version pubkey peer)"
    using arrived_new [of de "earlier @ queued @ [payload]"] by (simp add: assms(15) q')
  from arrived_run [OF this assms(16,17) fit assms(18)]
  have "arrived de (earlier @ queued @ [payload]) [] got lk" by simp
  from all_delivered [OF this assms(19) fit] map_filter_snoc [of de, OF assms(7), of "earlier @ queued"] show ?thesis by simp
qed

theorem chat_end_to_end_witness:
  "let ser = sample_serialize; de = (\<lambda>f. Some (SChatMessage ''user-1'' (map (char_of \<circ> unat) f)));
     (got, out, lk) = link_run (\<lambda>m. None) de [ReadReturned (Some (frame_bytes (string_bytes ''hi'')))] (link_new [] None bob)
   in got @ mq_items (lk_messages lk) = [Some (SChatMessage ''user-1'' ''hi'')]"
proof -
  define de where "de = (\<lambda>f :: byte list. Some (SChatMessage ''user-1'' (map (char_of \<circ> unat) f)))"
  define hi where "hi = string_bytes ''hi''"
  define es where "es = [ReadReturned (Some (frame_bytes hi))]"
  have l: "length hi \<le> MAX_FRAME_SIZE" by (simp add: hi_def string_bytes_def config_defs)
  have m: "member (srv_state sample_server) alice lobby" "member (srv_state sample_server) bob lobby" "alice \<noteq> bob"
    "hm_get (srv_senders sample_server) bob = Some queue_new"
    by (simp_all add: member_def sample_server_def sample_voice_eq alice_def bob_def)
  have c: "length ''hi'' \<le> MAX_CHAT_LEN" "sample_serialize (SChatMessage ''user-1'' ''hi'') = Some hi"
    "de hi = Some (SChatMessage ''user-1'' ''hi'')"
    by (simp_all add: config_defs sample_serialize_def hi_def de_def string_bytes_def char_of_def bit_iff_odd)
  have q: "cq_open queue_new" "length (cq_frames queue_new) < CLIENT_QUEUE_CAPACITY" "cq_frames queue_new = map frame_bytes []"
    by (simp_all add: queue_new_def CLIENT_QUEUE_CAPACITY_def)
  have e: "encode sample_serialize (SChatMessage ''user-1'' ''hi'') = Some (frame_bytes hi)"
    using c(2) by (simp add: encode_def encode_tcp_frame_def frame_bytes_def Let_def)
  have q': "hm_get (srv_senders (handle_chat_message sample_serialize alice ''user-1'' ''hi'' sample_server)) bob =
      Some (push_frame (frame_bytes hi) queue_new)"
    using chat_delivered [OF sample_server_reachable m(1) c(1) e refl, of bob] m by simp
  have r: "read_bytes es = concat (map frame_bytes []) @ concat (cq_frames (push_frame (frame_bytes hi) queue_new))"
    by (simp add: es_def read_bytes_def push_frame_def try_send_def queue_new_def CLIENT_QUEUE_CAPACITY_def)
  have f: "chunks_fit es" "AppDropsReceiver \<notin> set es"
    by (auto simp: es_def chunks_fit_def hi_def string_bytes_def config_defs)
  obtain got out lk where run: "link_run (\<lambda>m. None) de es (link_new [] None bob) = (got, out, lk)" by (rule prod_cases3)
  have "frame_bytes hi \<noteq> []" by (simp add: frame_bytes_def u32_to_be_def flip: length_0_conv)
  then have "lk_reading lk"
    using run c(3) by (auto simp: es_def reader_task_def link_new_def receive_one_frame [OF l] mpsc_new_def mpsc_try_send_def
        MSG_QUEUE_CAPACITY_def)
  with chat_end_to_end [OF sample_server_reachable m(1,2,3) c l m(4) q _ q' r f run]
  have "got @ mq_items (lk_messages lk) = [Some (SChatMessage ''user-1'' ''hi'')]" by (simp add: List.map_filter_def)
  then show ?thesis using run unfolding es_def de_def hi_def Let_def by simp
qed

section \<open>The session that was hung up\<close>

lemma ping_frame_kept:
  assumes "de f = Some Ping" and "handle_frame ser de now a f (c, srv) = r"
  shows "\<exists>c' srv'. r = Some (c', srv') \<and> conn_pending c' = conn_pending c \<and>
    clients (srv_state srv') = clients (srv_state srv) \<and> channels (srv_state srv') = channels (srv_state srv)"
  using assms by (auto simp: handle_frame_def admit_def send_to_def deliver_state split: option.split)

lemma ping_frames_kept:
  assumes "\<forall>f \<in> set fs. de f = Some Ping"
  shows "\<exists>c' srv'. handle_frames ser de now a fs (c, srv) = Some (c', srv') \<and> conn_pending c' = conn_pending c \<and>
    clients (srv_state srv') = clients (srv_state srv) \<and> channels (srv_state srv') = channels (srv_state srv)"
  using assms
proof (induction fs arbitrary: c srv)
  case (Cons f fs)
  obtain c1 srv1 where 1: "handle_frame ser de now a f (c, srv) = Some (c1, srv1)" "conn_pending c1 = conn_pending c"
      "clients (srv_state srv1) = clients (srv_state srv)" "channels (srv_state srv1) = channels (srv_state srv)"
    using ping_frame_kept [OF _ refl] Cons.prems by (metis list.set_intros(1))
  from Cons.IH [of c1 srv1] Cons.prems 1 show ?case by auto
qed simp

lemma pings_read:
  assumes "\<forall>f \<in> set ps. de f = Some Ping \<and> length f \<le> MAX_FRAME_SIZE"
    and "\<forall>(t, chunk) \<in> set chunks. length chunk \<le> TCP_READ_BUF"
    and "conn_pending c @ concat (map snd chunks) = concat (map frame_bytes ps)" and "length (conn_pending c) < 4 + MAX_FRAME_SIZE"
  shows "\<exists>c' srv'. reader_loop ser de a (map (\<lambda>(t, chunk). (t, Received chunk)) chunks) (c, srv) = Some (None, c', srv') \<and>
    clients (srv_state srv') = clients (srv_state srv) \<and> channels (srv_state srv') = channels (srv_state srv)"
  using assms
proof (induction chunks arbitrary: c srv ps)
  case (Cons tc chunks)
  obtain t chunk where tc: "tc = (t, chunk)" by (rule prod.exhaust)
  have fit: "\<forall>f \<in> set ps. length f \<le> MAX_FRAME_SIZE" "length chunk \<le> TCP_READ_BUF"
    "conn_pending c @ chunk @ concat (map snd chunks) = concat (map frame_bytes ps)"
    using Cons.prems(1-3) tc by auto
  obtain k r where k: "receive_chunk (conn_pending c) chunk = Inr (take k ps, r)"
      "r @ concat (map snd chunks) = concat (map frame_bytes (drop k ps))" "length r < 4 + MAX_FRAME_SIZE"
    using receive_chunk_frames [OF fit(1,3) Cons.prems(4) fit(2)] by metis
  have "\<forall>f \<in> set (take k ps). de f = Some Ping" using Cons.prems(1) set_take_subset [of k ps] by blast
  from ping_frames_kept [OF this, of ser t a "c\<lparr>conn_pending := r\<rparr>" srv]
  obtain c1 srv1 where 1: "handle_frames ser de t a (take k ps) (c\<lparr>conn_pending := r\<rparr>, srv) = Some (c1, srv1)"
      "conn_pending c1 = r" "clients (srv_state srv1) = clients (srv_state srv)" "channels (srv_state srv1) = channels (srv_state srv)"
    by auto
  have "\<forall>f \<in> set (drop k ps). de f = Some Ping \<and> length f \<le> MAX_FRAME_SIZE"
    using Cons.prems(1) set_drop_subset [of k ps] by blast
  from Cons.IH [OF this, of c1 srv1] Cons.prems(2) 1 k(2,3) show ?case
    by (simp add: tc reader_step_def k(1))
qed simp

text \<open>C34 Disconnecting does not leave: once the application has let go of its connection without sending
  \<open>LeaveChannel\<close>, the pings that still go out, in whatever chunks and at whatever times they reach the
  server, keep the reader loop of that client running with no membership changed: the others go on seeing it in its
  channel, and relaying to it.\<close>

theorem hung_up_client_stays:
  assumes "idle_writer lk" and "ser_c Ping = Some ping" and "de ping = Some Ping" and "length ping \<le> MAX_FRAME_SIZE"
    and "link_run ser_c de_c ([AppDropsReceiver, AppDropsConnection] @
      concat (map (\<lambda>reads. map ReadReturned reads @ [HeartbeatDue, WriterTurn True]) rounds)) lk = (got, out, lk')"
    and "concat (map snd chunks) = out" and "\<forall>(t, chunk) \<in> set chunks. length chunk \<le> TCP_READ_BUF"
    and "conn_pending c = []" and "member (srv_state srv) a ch"
  shows "out = concat (replicate (length rounds) (frame_bytes ping)) \<and>
    (\<exists>c' srv'. reader_loop ser de a (map (\<lambda>(t, chunk). (t, Received chunk)) chunks) (c, srv) = Some (None, c', srv') \<and>
      member (srv_state srv') a ch \<and> (\<forall>x. participants (srv_state srv') x = participants (srv_state srv) x))"
proof -
  have out: "out = concat (map frame_bytes (replicate (length rounds) ping))"
    using hang_up_pings [OF assms(1,2,5)] by (simp add: map_replicate_const)
  have "\<forall>f \<in> set (replicate (length rounds) ping). de f = Some Ping \<and> length f \<le> MAX_FRAME_SIZE"
    using assms(3,4) by auto
  from pings_read [OF this assms(7), of c ser a srv] assms(6,8) out
  obtain c' srv' where r: "reader_loop ser de a (map (\<lambda>(t, chunk). (t, Received chunk)) chunks) (c, srv) = Some (None, c', srv')"
      "clients (srv_state srv') = clients (srv_state srv)" "channels (srv_state srv') = channels (srv_state srv)"
    by auto
  have "participants (srv_state srv') x = participants (srv_state srv) x" for x
    using r(3) by (simp add: participants_def)
  with r assms(9) out show ?thesis by (auto simp: member_def)
qed

theorem hung_up_client_stays_witness:
  "let ser_c = (\<lambda>m. Some [8]);
       lk = snd (writer_task ser_c True (link_new [] None (SockV4 1 2)));
       (got, out, lk') = link_run ser_c (\<lambda>f. None) ([AppDropsReceiver, AppDropsConnection] @
         concat (map (\<lambda>reads. map ReadReturned reads @ [HeartbeatDue, WriterTurn True]) [[None]])) lk
   in \<exists>c' srv'. reader_loop sample_serialize (\<lambda>f. Some Ping) alice
        (map (\<lambda>(t, chunk). (t, Received chunk)) [(50, out)]) (connection_new 8 ''user-1'' sample_voice, sample_server) =
          Some (None, c', srv') \<and> member (srv_state srv') alice lobby"
proof -
  define ser_c :: "client_message \<Rightarrow> byte list option" where "ser_c = (\<lambda>m. Some [8])"
  define lk where "lk = snd (writer_task ser_c True (link_new [] None (SockV4 1 2)))"
  have i: "idle_writer lk" "ser_c Ping = Some [8]"
    by (simp_all add: lk_def idle_writer_def writer_task_def link_new_def mpsc_try_send_def mpsc_new_def CMD_QUEUE_CAPACITY_def
        write_tcp_frame_def encode_tcp_frame_def ser_c_def Let_def)
  obtain got out lk' where run: "link_run ser_c (\<lambda>f. None) ([AppDropsReceiver, AppDropsConnection] @
      concat (map (\<lambda>reads. map ReadReturned reads @ [HeartbeatDue, WriterTurn True]) [[None]])) lk = (got, out, lk')"
    by (rule prod_cases3)
  have "out = frame_bytes [8]" using hang_up_pings [OF i run] by simp
  then have l: "\<forall>(t, chunk) \<in> set [(50 :: nat, out)]. length chunk \<le> TCP_READ_BUF" by (simp add: config_defs)
  have m: "conn_pending (connection_new 8 ''user-1'' sample_voice) = []" "member (srv_state sample_server) alice lobby"
    "concat (map snd [(50 :: nat, out)]) = out" "(\<lambda>f. Some Ping) ([8] :: byte list) = Some Ping" "length ([8] :: byte list) \<le> MAX_FRAME_SIZE"
    by (simp_all add: connection_new_def Let_def member_def sample_server_def sample_voice_eq alice_def config_defs)
  from hung_up_client_stays [where de = "\<lambda>f. Some Ping" and ser = sample_serialize and a = alice and ch = lobby, OF i m(4,5) run m(3) l m(1,2)]
  show ?thesis unfolding Let_def ser_c_def [symmetric] lk_def [symmetric] run by blast
qed

end
