(* ===== verification/Desktop_State.thy ===== *)
theory Desktop_State
  imports Client_Network Peer_Gain Server_Tcp
begin

text \<open>
  The desktop application's state and its settings: \<^verbatim>\<open>state.rs\<close>, the settings commands of
  \<^verbatim>\<open>commands.rs\<close>, \<^verbatim>\<open>audio_cmd.rs\<close>, \<^verbatim>\<open>settings_cmd.rs\<close>,
  \<^verbatim>\<open>overlay.rs\<close>, \<^verbatim>\<open>hotkeys.rs\<close>, the registries of
  \<^verbatim>\<open>server_registry.rs\<close> and \<^verbatim>\<open>dm.rs\<close>, and \<open>UserSettings\<close> of the client's
  \<^verbatim>\<open>settings.rs\<close>. An atomic shared with the audio threads is the field that holds its value (an \<open>f32\<close>
  stored as its bits is the number). The file \<^verbatim>\<open>tc.toml\<close> is the settings last written to it; TOML, JSON,
  the operating system and the clock are outside: what was parsed, whether a call succeeded, the time in seconds.
\<close>

section \<open>Data\<close>

datatype voice_mode = OpenMode | VadMode | PttMode

definition ascii_lower :: "string \<Rightarrow> string" where
  "ascii_lower = map (\<lambda>c. let n = of_char c :: nat in if 65 \<le> n \<and> n \<le> 90 then char_of (n + 32) else c)"

definition mode_parse :: "string \<Rightarrow> voice_mode option" where
  "mode_parse s = (let s = ascii_lower s in
     if s = ''open'' then Some OpenMode else if s = ''vad'' then Some VadMode else if s = ''ptt'' then Some PttMode else None)"

fun mode_as_str :: "voice_mode \<Rightarrow> string" where
  "mode_as_str OpenMode = ''open''"
| "mode_as_str VadMode = ''vad''"
| "mode_as_str PttMode = ''ptt''"

record dm_peer =
  dp_pubkey_hex :: string
  dp_name :: string
  dp_last_seen_unix :: "64 word"

record server_entry =
  se_addr :: string
  se_label :: "string option"
  se_last_channel :: "string option"
  se_favourite :: bool
  se_last_used_unix :: "64 word"

record user_settings =
  us_server :: "string option"
  us_input_device :: "string option"
  us_output_device :: "string option"
  us_vad_level :: "32 word option"
  us_input_gain :: "32 word option"
  us_output_vol :: "32 word option"
  us_name :: "string option"
  us_voice_mode :: "string option"
  us_paranoid :: "bool option"
  us_denoise :: "bool option"
  us_agc :: "bool option"
  us_hotkeys :: "(string \<times> string) list"
  us_notifications :: "bool option"
  us_autostart :: "bool option"
  us_close_to_tray :: "bool option"
  us_language :: "string option"
  us_trusted_servers :: "(string \<times> string) list"
  us_servers :: "server_entry list"
  us_dm_peers :: "dm_peer list"
  us_peer_volumes :: "(string \<times> 32 word) list"
  us_overlay_enabled :: "bool option"
  us_overlay_position :: "string option"
  us_overlay_visibility :: "string option"

definition settings_default :: user_settings where
  "settings_default = \<lparr>us_server = None, us_input_device = None, us_output_device = None, us_vad_level = None,
     us_input_gain = None, us_output_vol = None, us_name = None, us_voice_mode = None, us_paranoid = None,
     us_denoise = None, us_agc = None, us_hotkeys = [], us_notifications = None, us_autostart = None,
     us_close_to_tray = None, us_language = None, us_trusted_servers = [], us_servers = [], us_dm_peers = [],
     us_peer_volumes = [], us_overlay_enabled = None, us_overlay_position = None, us_overlay_visibility = None\<rparr>"

text \<open>\<open>UserSettings::load\<close>: an unreadable file and one that does not parse count as the defaults.\<close>

definition settings_load :: "string option \<Rightarrow> (string \<Rightarrow> user_settings option) \<Rightarrow> user_settings" where
  "settings_load contents from_toml =
    (case contents of
       Some text \<Rightarrow> (case from_toml text of Some s \<Rightarrow> s | None \<Rightarrow> settings_default)
     | None \<Rightarrow> settings_default)"

record pending_join =
  pj_channel_id :: channel_id
  pj_udp_token :: "64 word"
  pj_voice_key :: "byte list"

text \<open>The identity is its public key; \<open>ap_draining\<close> is whether a drain task runs. The voice manager is a
  handle to the actor, which has its own theory.\<close>

record app_core =
  ap_identity :: "byte list option"
  ap_tofu :: tofu_state
  ap_server_addr :: "string option"
  ap_conn :: "client_link option"
  ap_channel :: "channel_id option"
  ap_name :: "string option"
  ap_input_device :: "string option"
  ap_output_device :: "string option"
  ap_voice_mode :: voice_mode
  ap_vad_level_pct :: "32 word"
  ap_input_gain_pct :: "32 word"
  ap_output_vol_pct :: "32 word"
  ap_hotkeys :: "(string \<times> string) list"
  ap_notifications :: bool
  ap_autostart :: bool
  ap_close_to_tray :: bool
  ap_language :: string
  ap_participants :: "string list"
  ap_overlay_enabled :: bool
  ap_overlay_position :: string
  ap_overlay_visibility :: string
  ap_servers :: "server_entry list"
  ap_dm_peers :: "dm_peer list"
  ap_muted :: bool
  ap_paranoid :: bool
  ap_denoise :: bool
  ap_agc :: bool
  ap_vad_threshold :: rat
  ap_input_gain :: rat
  ap_output_vol :: rat
  ap_peer_gains :: peer_gains
  ap_pending_join :: "pending_join option"
  ap_draining :: bool

section \<open>Levels\<close>

definition pct_to_float :: "32 word \<Rightarrow> rat" where
  "pct_to_float pct = f32_div (f32 (of_nat (min (unat pct) 400))) 100"

fun vad_threshold_for :: "voice_mode \<Rightarrow> 32 word \<Rightarrow> rat" where
  "vad_threshold_for OpenMode level_pct = 0"
| "vad_threshold_for PttMode level_pct = 0"
| "vad_threshold_for VadMode level_pct =
    (let n = f32 (of_nat (min (unat level_pct) 100)) in
     if n = 0 then 0 else f32_add (f32 (1 / 1000)) (f32_mul (f32_div n 100) (f32 (49 / 1000))))"

definition is_overlay_position :: "string \<Rightarrow> bool" where
  "is_overlay_position s \<longleftrightarrow> s \<in> set [''tl'', ''tr'', ''lc'', ''rc'', ''bl'', ''br'']"

definition is_language :: "string \<Rightarrow> bool" where
  "is_language s \<longleftrightarrow> s \<in> set [''en'', ''ru'']"

definition is_overlay_visibility :: "string \<Rightarrow> bool" where
  "is_overlay_visibility s \<longleftrightarrow> s \<in> set [''always'', ''in_call'']"

definition unwrap_or :: "'a \<Rightarrow> 'a option \<Rightarrow> 'a" where
  "unwrap_or d x = (case x of Some v \<Rightarrow> v | None \<Rightarrow> d)"

definition opt_filter :: "('a \<Rightarrow> bool) \<Rightarrow> 'a option \<Rightarrow> 'a option" where
  "opt_filter P x = (case x of Some v \<Rightarrow> if P v then Some v else None | None \<Rightarrow> None)"

definition clamp_pct :: "nat \<Rightarrow> 32 word \<Rightarrow> 32 word" where
  "clamp_pct high pct = of_nat (min (unat pct) high)"

section \<open>The application core\<close>

text \<open>\<open>AppCore::new\<close>, on the settings loaded; \<open>macos\<close> is \<open>cfg!(target_os = "macos")\<close>.\<close>

definition app_new :: "bool \<Rightarrow> byte list option \<Rightarrow> user_settings \<Rightarrow> app_core" where
  "app_new macos identity saved =
    (let voice_mode = unwrap_or VadMode (Option.bind (us_voice_mode saved) mode_parse);
         vad_level_pct = unwrap_or 15 (us_vad_level saved);
         input_gain_pct = unwrap_or 100 (us_input_gain saved);
         output_vol_pct = unwrap_or 100 (us_output_vol saved)
     in \<lparr>ap_identity = identity, ap_tofu = tofu_new (us_trusted_servers saved), ap_server_addr = us_server saved,
         ap_conn = None, ap_channel = None, ap_name = us_name saved,
         ap_input_device = us_input_device saved, ap_output_device = us_output_device saved,
         ap_voice_mode = voice_mode, ap_vad_level_pct = vad_level_pct, ap_input_gain_pct = input_gain_pct,
         ap_output_vol_pct = output_vol_pct, ap_hotkeys = us_hotkeys saved,
         ap_notifications = unwrap_or True (us_notifications saved), ap_autostart = unwrap_or False (us_autostart saved),
         ap_close_to_tray = unwrap_or macos (us_close_to_tray saved),
         ap_language = unwrap_or ''en'' (opt_filter is_language (us_language saved)),
         ap_participants = [], ap_overlay_enabled = unwrap_or False (us_overlay_enabled saved),
         ap_overlay_position = unwrap_or ''tr'' (opt_filter is_overlay_position (us_overlay_position saved)),
         ap_overlay_visibility = unwrap_or ''in_call'' (opt_filter is_overlay_visibility (us_overlay_visibility saved)),
         ap_servers = us_servers saved, ap_dm_peers = us_dm_peers saved,
         ap_muted = (voice_mode = PttMode), ap_paranoid = unwrap_or False (us_paranoid saved),
         ap_denoise = unwrap_or False (us_denoise saved), ap_agc = unwrap_or True (us_agc saved),
         ap_vad_threshold = vad_threshold_for voice_mode vad_level_pct,
         ap_input_gain = pct_to_float input_gain_pct, ap_output_vol = pct_to_float output_vol_pct,
         ap_peer_gains = from_pct_map (us_peer_volumes saved), ap_pending_join = None, ap_draining = False\<rparr>)"

definition fingerprint_of_bytes :: "(byte list \<Rightarrow> byte list) \<Rightarrow> byte list \<Rightarrow> string" where
  "fingerprint_of_bytes sha256 bytes = concat (map hex_byte (take 8 (sha256 bytes)))"

definition app_fingerprint :: "(byte list \<Rightarrow> byte list) \<Rightarrow> app_core \<Rightarrow> string option" where
  "app_fingerprint sha256 c = map_option (fingerprint_of_bytes sha256) (ap_identity c)"

text \<open>What \<open>save\<close> writes to the file; \<open>export_settings\<close> builds the same value.\<close>

definition settings_of :: "app_core \<Rightarrow> user_settings" where
  "settings_of c = \<lparr>us_server = ap_server_addr c, us_input_device = ap_input_device c, us_output_device = ap_output_device c,
     us_vad_level = Some (ap_vad_level_pct c), us_input_gain = Some (ap_input_gain_pct c), us_output_vol = Some (ap_output_vol_pct c),
     us_name = ap_name c, us_voice_mode = Some (mode_as_str (ap_voice_mode c)), us_paranoid = Some (ap_paranoid c),
     us_denoise = Some (ap_denoise c), us_agc = Some (ap_agc c), us_hotkeys = ap_hotkeys c,
     us_notifications = Some (ap_notifications c), us_autostart = Some (ap_autostart c),
     us_close_to_tray = Some (ap_close_to_tray c), us_language = Some (ap_language c),
     us_trusted_servers = trusted (ap_tofu c), us_servers = ap_servers c, us_dm_peers = ap_dm_peers c,
     us_peer_volumes = pct_map (ap_peer_gains c), us_overlay_enabled = Some (ap_overlay_enabled c),
     us_overlay_position = Some (ap_overlay_position c), us_overlay_visibility = Some (ap_overlay_visibility c)\<rparr>"

definition apply_voice_mode :: "voice_mode \<Rightarrow> app_core \<Rightarrow> app_core" where
  "apply_voice_mode mode c =
    (let c = c\<lparr>ap_voice_mode := mode\<rparr>
     in c\<lparr>ap_vad_threshold := vad_threshold_for mode (ap_vad_level_pct c), ap_muted := (mode = PttMode)\<rparr>)"

definition apply_vad_level :: "32 word \<Rightarrow> app_core \<Rightarrow> app_core" where
  "apply_vad_level level_pct c =
    (let c = c\<lparr>ap_vad_level_pct := clamp_pct 100 level_pct\<rparr>
     in c\<lparr>ap_vad_threshold := vad_threshold_for (ap_voice_mode c) (ap_vad_level_pct c)\<rparr>)"

definition apply_input_gain_pct :: "32 word \<Rightarrow> app_core \<Rightarrow> app_core" where
  "apply_input_gain_pct pct c =
    (let c = c\<lparr>ap_input_gain_pct := clamp_pct 400 pct\<rparr> in c\<lparr>ap_input_gain := pct_to_float (ap_input_gain_pct c)\<rparr>)"

definition apply_output_vol :: "32 word \<Rightarrow> app_core \<Rightarrow> app_core" where
  "apply_output_vol pct c =
    (let c = c\<lparr>ap_output_vol_pct := clamp_pct 400 pct\<rparr> in c\<lparr>ap_output_vol := pct_to_float (ap_output_vol_pct c)\<rparr>)"

definition apply_peer_volume :: "string \<Rightarrow> 32 word \<Rightarrow> app_core \<Rightarrow> app_core" where
  "apply_peer_volume name pct c = c\<lparr>ap_peer_gains := set_pct name (min pct (of_nat PEER_VOL_MAX_PCT)) (ap_peer_gains c)\<rparr>"

end
