(* ===== verification/Desktop_Settings.thy ===== *)
theory Desktop_Settings
  imports Desktop_State
begin

text \<open>
  The commands that change the settings, one definition each, and what holds of any sequence of them. A command
  answers \<open>Inl\<close> an error or \<open>Inr ()\<close>; \<open>desk\<close> is the core together with what the commands change outside it:
  the settings file and the shortcuts registered with the operating system. A write of the file succeeds (a failed one is
  only logged), and of an error that quotes a library's own error only the first part is kept.
\<close>

section \<open>The registries\<close>

fun update_first :: "('a \<Rightarrow> bool) \<Rightarrow> ('a \<Rightarrow> 'a) \<Rightarrow> 'a list \<Rightarrow> 'a list" where
  "update_first P f [] = []"
| "update_first P f (x # xs) = (if P x then f x # xs else x # update_first P f xs)"

definition touch_server :: "64 word \<Rightarrow> string \<Rightarrow> server_entry list \<Rightarrow> server_entry list" where
  "touch_server now addr servers =
    (if \<exists>s \<in> set servers. se_addr s = addr
     then update_first (\<lambda>s. se_addr s = addr) (\<lambda>s. s\<lparr>se_last_used_unix := now\<rparr>) servers
     else servers @ [\<lparr>se_addr = addr, se_label = None, se_last_channel = None, se_favourite = False, se_last_used_unix = now\<rparr>])"

definition record_channel :: "string \<Rightarrow> channel_id \<Rightarrow> server_entry list \<Rightarrow> server_entry list" where
  "record_channel addr ch servers = update_first (\<lambda>s. se_addr s = addr) (\<lambda>s. s\<lparr>se_last_channel := Some ch\<rparr>) servers"

definition touch_peer :: "64 word \<Rightarrow> string \<Rightarrow> string \<Rightarrow> dm_peer list \<Rightarrow> dm_peer list" where
  "touch_peer now pubkey_hex name peers =
    (if \<exists>p \<in> set peers. dp_pubkey_hex p = pubkey_hex
     then update_first (\<lambda>p. dp_pubkey_hex p = pubkey_hex) (\<lambda>p. p\<lparr>dp_name := name, dp_last_seen_unix := now\<rparr>) peers
     else peers @ [\<lparr>dp_pubkey_hex = pubkey_hex, dp_name = name, dp_last_seen_unix = now\<rparr>])"

text \<open>\<open>sort_by_key\<close> is stable; the most recently seen come first.\<close>

definition list_dm_peers :: "app_core \<Rightarrow> dm_peer list" where
  "list_dm_peers c = sort_key (\<lambda>p. - int (unat (dp_last_seen_unix p))) (ap_dm_peers c)"

definition fingerprint_of :: "(string \<Rightarrow> byte list option) \<Rightarrow> (byte list \<Rightarrow> byte list) \<Rightarrow> string \<Rightarrow> string" where
  "fingerprint_of hex_decode sha256 pubkey_hex =
    (case hex_decode pubkey_hex of Some bytes \<Rightarrow> fingerprint_of_bytes sha256 bytes | None \<Rightarrow> [])"

definition is_hexdigit :: "char \<Rightarrow> bool" where
  "is_hexdigit c \<longleftrightarrow> c \<in> set ''0123456789abcdefABCDEF''"

definition resolve_peer ::
    "(string \<Rightarrow> byte list option) \<Rightarrow> (byte list \<Rightarrow> byte list) \<Rightarrow> string \<Rightarrow> app_core \<Rightarrow> string option" where
  "resolve_peer hex_decode sha256 query c =
    (let q = ascii_lower (trim query) in
     if \<not> list_all is_hexdigit q then None
     else if length q = 64 then Some q
     else if length q = 16
     then map_option dp_pubkey_hex (find (\<lambda>p. fingerprint_of hex_decode sha256 (dp_pubkey_hex p) = q) (ap_dm_peers c))
     else None)"

section \<open>Hotkeys\<close>

datatype hotkey_action = HkMute | HkPtt | HkQuickJoin

definition hotkey_parse :: "string \<Rightarrow> hotkey_action option" where
  "hotkey_parse s = (let s = ascii_lower s in
     if s = ''mute'' then Some HkMute else if s = ''ptt'' then Some HkPtt
     else if s = ''quick_join'' \<or> s = ''quickjoin'' \<or> s = ''join'' then Some HkQuickJoin else None)"

fun hotkey_as_str :: "hotkey_action \<Rightarrow> string" where
  "hotkey_as_str HkMute = ''mute''"
| "hotkey_as_str HkPtt = ''ptt''"
| "hotkey_as_str HkQuickJoin = ''quick_join''"

text \<open>The operating system: a shortcut an accelerator string denotes (as a number), whether it takes a
  registration, whether switching autostart works.\<close>

record os =
  os_shortcut :: "string \<Rightarrow> nat option"
  os_register :: "nat \<Rightarrow> bool"
  os_autostart :: "bool \<Rightarrow> bool"

record desk =
  dk_core :: app_core
  dk_file :: user_settings
  dk_shortcuts :: "nat list"

definition save :: "desk \<Rightarrow> desk" where
  "save d = d\<lparr>dk_file := settings_of (dk_core d)\<rparr>"

definition update_saved :: "(app_core \<Rightarrow> app_core) \<Rightarrow> desk \<Rightarrow> (string + unit) \<times> desk" where
  "update_saved f d = (Inr (), save (d\<lparr>dk_core := f (dk_core d)\<rparr>))"

definition register_internal :: "os \<Rightarrow> string \<Rightarrow> desk \<Rightarrow> (string + unit) \<times> desk" where
  "register_internal sys accel d =
    (case os_shortcut sys accel of
       None \<Rightarrow> (Inl (''invalid accelerator '' @ accel), d)
     | Some s \<Rightarrow>
        if s \<notin> set (dk_shortcuts d) \<and> os_register sys s then (Inr (), d\<lparr>dk_shortcuts := dk_shortcuts d @ [s]\<rparr>)
        else (Inl ''register failed'', d))"

definition unregister :: "nat \<Rightarrow> desk \<Rightarrow> desk" where
  "unregister s d = d\<lparr>dk_shortcuts := removeAll s (dk_shortcuts d)\<rparr>"

definition set_hotkey :: "os \<Rightarrow> string \<Rightarrow> string \<Rightarrow> desk \<Rightarrow> (string + unit) \<times> desk" where
  "set_hotkey sys action accel d =
    (case hotkey_parse action of
       None \<Rightarrow> (Inl (''unknown action: '' @ action), d)
     | Some parsed \<Rightarrow>
        (let d = (case Option.bind (hm_get (ap_hotkeys (dk_core d)) (hotkey_as_str parsed)) (os_shortcut sys) of
              Some s \<Rightarrow> unregister s d | None \<Rightarrow> d)
         in case register_internal sys accel d of
              (Inl e, d) \<Rightarrow> (Inl e, d)
            | (Inr _, d) \<Rightarrow> update_saved (\<lambda>c. c\<lparr>ap_hotkeys := hm_insert (hotkey_as_str parsed) accel (ap_hotkeys c)\<rparr>) d))"

definition unset_hotkey :: "os \<Rightarrow> string \<Rightarrow> desk \<Rightarrow> (string + unit) \<times> desk" where
  "unset_hotkey sys action d =
    (case hotkey_parse action of
       None \<Rightarrow> (Inl (''unknown action: '' @ action), d)
     | Some parsed \<Rightarrow>
        (let removed = hm_get (ap_hotkeys (dk_core d)) (hotkey_as_str parsed);
             d = d\<lparr>dk_core := (dk_core d)\<lparr>ap_hotkeys := hm_remove (hotkey_as_str parsed) (ap_hotkeys (dk_core d))\<rparr>\<rparr>
         in case removed of
              None \<Rightarrow> (Inr (), save d)
            | Some accel \<Rightarrow> (case os_shortcut sys accel of
                 None \<Rightarrow> (Inl ''invalid accelerator'', d)
               | Some s \<Rightarrow> (Inr (), save (unregister s d)))))"

definition resolve_action :: "os \<Rightarrow> nat \<Rightarrow> app_core \<Rightarrow> hotkey_action option" where
  "resolve_action sys s c =
    (case find (\<lambda>(action, accel). os_shortcut sys accel = Some s) (ap_hotkeys c) of
       Some (action, accel) \<Rightarrow> hotkey_parse action
     | None \<Rightarrow> None)"

text \<open>At start the stored bindings are registered; one that fails is only logged.\<close>

definition restore_hotkeys :: "os \<Rightarrow> desk \<Rightarrow> desk" where
  "restore_hotkeys sys d =
    fold (\<lambda>accel d. snd (register_internal sys accel d))
      (map snd (filter (\<lambda>(action, accel). hotkey_parse action \<noteq> None) (ap_hotkeys (dk_core d)))) d"

text \<open>What a key does: nothing but to the mute flag (quick join only tells the front end).\<close>

definition handle_hotkey :: "hotkey_action \<Rightarrow> bool \<Rightarrow> app_core \<Rightarrow> app_core" where
  "handle_hotkey action pressed c =
    (case (action, pressed) of
       (HkMute, True) \<Rightarrow> c\<lparr>ap_muted := \<not> ap_muted c\<rparr>
     | (HkPtt, True) \<Rightarrow> c\<lparr>ap_muted := False\<rparr>
     | (HkPtt, False) \<Rightarrow> c\<lparr>ap_muted := True\<rparr>
     | _ \<Rightarrow> c)"

section \<open>Importing a backup\<close>

definition set_if :: "'v option \<Rightarrow> ('v \<Rightarrow> 'c \<Rightarrow> 'c) \<Rightarrow> 'c \<Rightarrow> 'c" where
  "set_if x f c = (case x of Some v \<Rightarrow> f v c | None \<Rightarrow> c)"

definition import_into :: "user_settings \<Rightarrow> app_core \<Rightarrow> app_core" where
  "import_into s c =
    (let c = c\<lparr>ap_server_addr := us_server s, ap_input_device := us_input_device s, ap_output_device := us_output_device s\<rparr>;
         c = set_if (us_vad_level s) apply_vad_level c;
         c = set_if (us_input_gain s) apply_input_gain_pct c;
         c = set_if (us_output_vol s) apply_output_vol c;
         c = c\<lparr>ap_name := us_name s\<rparr>;
         c = set_if (Option.bind (us_voice_mode s) mode_parse) apply_voice_mode c;
         c = set_if (us_paranoid s) (\<lambda>v c. c\<lparr>ap_paranoid := v\<rparr>) c;
         c = set_if (us_agc s) (\<lambda>v c. c\<lparr>ap_agc := v\<rparr>) c;
         c = set_if (us_denoise s) (\<lambda>v c. c\<lparr>ap_denoise := v\<rparr>) c;
         c = c\<lparr>ap_hotkeys := us_hotkeys s\<rparr>;
         c = set_if (us_notifications s) (\<lambda>v c. c\<lparr>ap_notifications := v\<rparr>) c;
         c = set_if (us_autostart s) (\<lambda>v c. c\<lparr>ap_autostart := v\<rparr>) c;
         c = set_if (us_close_to_tray s) (\<lambda>v c. c\<lparr>ap_close_to_tray := v\<rparr>) c;
         c = set_if (opt_filter is_language (us_language s)) (\<lambda>v c. c\<lparr>ap_language := v\<rparr>) c;
         c = c\<lparr>ap_tofu := tofu_new (us_trusted_servers s), ap_servers := us_servers s, ap_dm_peers := us_dm_peers s,
               ap_peer_gains := set_all_from_pct (us_peer_volumes s)\<rparr>;
         c = set_if (us_overlay_enabled s) (\<lambda>v c. c\<lparr>ap_overlay_enabled := v\<rparr>) c;
         c = set_if (opt_filter is_overlay_position (us_overlay_position s)) (\<lambda>v c. c\<lparr>ap_overlay_position := v\<rparr>) c
     in set_if (opt_filter is_overlay_visibility (us_overlay_visibility s)) (\<lambda>v c. c\<lparr>ap_overlay_visibility := v\<rparr>) c)"

text \<open>JSON is outside: what \<open>serde_json\<close> prints and parses.\<close>

definition export_settings :: "(user_settings \<Rightarrow> 'j option) \<Rightarrow> desk \<Rightarrow> string + 'j" where
  "export_settings to_json d = (case to_json (settings_of (dk_core d)) of Some j \<Rightarrow> Inr j | None \<Rightarrow> Inl ''serialize'')"

definition import_settings :: "user_settings option \<Rightarrow> desk \<Rightarrow> (string + unit) \<times> desk" where
  "import_settings parsed d =
    (case parsed of None \<Rightarrow> (Inl ''invalid backup JSON'', d) | Some s \<Rightarrow> update_saved (import_into s) d)"

section \<open>The other commands\<close>

definition set_notifications :: "bool \<Rightarrow> desk \<Rightarrow> (string + unit) \<times> desk" where
  "set_notifications enabled = update_saved (\<lambda>c. c\<lparr>ap_notifications := enabled\<rparr>)"

definition set_autostart :: "os \<Rightarrow> bool \<Rightarrow> desk \<Rightarrow> (string + unit) \<times> desk" where
  "set_autostart sys enabled d =
    (if os_autostart sys enabled then update_saved (\<lambda>c. c\<lparr>ap_autostart := enabled\<rparr>) d else (Inl ''autostart'', d))"

definition set_close_to_tray :: "bool \<Rightarrow> desk \<Rightarrow> (string + unit) \<times> desk" where
  "set_close_to_tray enabled = update_saved (\<lambda>c. c\<lparr>ap_close_to_tray := enabled\<rparr>)"

definition set_language :: "string \<Rightarrow> desk \<Rightarrow> (string + unit) \<times> desk" where
  "set_language lang d =
    (if is_language lang then update_saved (\<lambda>c. c\<lparr>ap_language := lang\<rparr>) d else (Inl (''unsupported language: '' @ lang), d))"

definition set_mute :: "bool \<Rightarrow> desk \<Rightarrow> (string + unit) \<times> desk" where
  "set_mute muted d = (Inr (), d\<lparr>dk_core := (dk_core d)\<lparr>ap_muted := muted\<rparr>\<rparr>)"

definition set_voice_mode :: "string \<Rightarrow> desk \<Rightarrow> (string + unit) \<times> desk" where
  "set_voice_mode mode d =
    (case mode_parse mode of
       None \<Rightarrow> (Inl (''unknown mode: '' @ mode), d)
     | Some parsed \<Rightarrow> update_saved (apply_voice_mode parsed) d)"

definition set_paranoid :: "bool \<Rightarrow> desk \<Rightarrow> (string + unit) \<times> desk" where
  "set_paranoid enabled = update_saved (\<lambda>c. c\<lparr>ap_paranoid := enabled\<rparr>)"

definition set_agc :: "bool \<Rightarrow> desk \<Rightarrow> (string + unit) \<times> desk" where
  "set_agc enabled = update_saved (\<lambda>c. c\<lparr>ap_agc := enabled\<rparr>)"

definition set_denoise :: "bool \<Rightarrow> desk \<Rightarrow> (string + unit) \<times> desk" where
  "set_denoise enabled = update_saved (\<lambda>c. c\<lparr>ap_denoise := enabled\<rparr>)"

definition ptt_press :: "desk \<Rightarrow> (string + unit) \<times> desk" where
  "ptt_press d = (Inr (), d\<lparr>dk_core := (dk_core d)\<lparr>ap_muted := False\<rparr>\<rparr>)"

definition ptt_release :: "desk \<Rightarrow> (string + unit) \<times> desk" where
  "ptt_release d = (Inr (), d\<lparr>dk_core := (dk_core d)\<lparr>ap_muted := True\<rparr>\<rparr>)"

text \<open>The tray menu's toggle.\<close>

definition toggle_mute :: "desk \<Rightarrow> (string + unit) \<times> desk" where
  "toggle_mute d = (Inr (), d\<lparr>dk_core := (dk_core d)\<lparr>ap_muted := \<not> ap_muted (dk_core d)\<rparr>\<rparr>)"

definition set_input_gain :: "32 word \<Rightarrow> desk \<Rightarrow> (string + unit) \<times> desk" where
  "set_input_gain pct = update_saved (apply_input_gain_pct pct)"

definition set_output_volume :: "32 word \<Rightarrow> desk \<Rightarrow> (string + unit) \<times> desk" where
  "set_output_volume pct = update_saved (apply_output_vol pct)"

definition set_peer_volume :: "string \<Rightarrow> 32 word \<Rightarrow> desk \<Rightarrow> (string + unit) \<times> desk" where
  "set_peer_volume name pct = update_saved (apply_peer_volume name pct)"

definition set_vad_level :: "32 word \<Rightarrow> desk \<Rightarrow> (string + unit) \<times> desk" where
  "set_vad_level pct = update_saved (apply_vad_level pct)"

definition forget_server :: "string \<Rightarrow> desk \<Rightarrow> (string + unit) \<times> desk" where
  "forget_server addr = update_saved (\<lambda>c. c\<lparr>ap_servers := filter (\<lambda>s. se_addr s \<noteq> addr) (ap_servers c)\<rparr>)"

definition set_server_favourite :: "string \<Rightarrow> bool \<Rightarrow> desk \<Rightarrow> (string + unit) \<times> desk" where
  "set_server_favourite addr favourite =
    update_saved (\<lambda>c. c\<lparr>ap_servers := update_first (\<lambda>s. se_addr s = addr) (\<lambda>s. s\<lparr>se_favourite := favourite\<rparr>) (ap_servers c)\<rparr>)"

definition label_server :: "string \<Rightarrow> string option \<Rightarrow> desk \<Rightarrow> (string + unit) \<times> desk" where
  "label_server addr label =
    update_saved (\<lambda>c. c\<lparr>ap_servers := update_first (\<lambda>s. se_addr s = addr)
      (\<lambda>s. s\<lparr>se_label := opt_filter (\<lambda>l. trim l \<noteq> []) label\<rparr>) (ap_servers c)\<rparr>)"

definition forget_dm_peer :: "string \<Rightarrow> desk \<Rightarrow> (string + unit) \<times> desk" where
  "forget_dm_peer pubkey_hex = update_saved (\<lambda>c. c\<lparr>ap_dm_peers := filter (\<lambda>p. dp_pubkey_hex p \<noteq> pubkey_hex) (ap_dm_peers c)\<rparr>)"

definition set_overlay_enabled :: "bool \<Rightarrow> desk \<Rightarrow> (string + unit) \<times> desk" where
  "set_overlay_enabled enabled = update_saved (\<lambda>c. c\<lparr>ap_overlay_enabled := enabled\<rparr>)"

definition set_overlay_position :: "string \<Rightarrow> desk \<Rightarrow> (string + unit) \<times> desk" where
  "set_overlay_position position d =
    (if is_overlay_position position then update_saved (\<lambda>c. c\<lparr>ap_overlay_position := position\<rparr>) d
     else (Inl (''invalid overlay position: '' @ position), d))"

definition set_overlay_visibility :: "string \<Rightarrow> desk \<Rightarrow> (string + unit) \<times> desk" where
  "set_overlay_visibility visibility d =
    (if is_overlay_visibility visibility then update_saved (\<lambda>c. c\<lparr>ap_overlay_visibility := visibility\<rparr>) d
     else (Inl (''invalid overlay visibility: '' @ visibility), d))"

section \<open>Any command\<close>

datatype settings_command =
    SetNotifications bool | SetAutostart bool | SetCloseToTray bool | SetLanguage string
  | SetMute bool | SetVoiceMode string | SetParanoid bool | SetAgc bool | SetDenoise bool | PttPress | PttRelease
  | SetInputGain "32 word" | SetOutputVolume "32 word" | SetPeerVolume string "32 word" | SetVadLevel "32 word"
  | ForgetServer string | SetServerFavourite string bool | LabelServer string "string option" | ForgetDmPeer string
  | SetOverlayEnabled bool | SetOverlayPosition string | SetOverlayVisibility string
  | SetHotkey string string | UnsetHotkey string | HotkeyEvent nat bool | TrayToggleMute | ImportSettings "user_settings option"

fun run_settings :: "os \<Rightarrow> settings_command \<Rightarrow> desk \<Rightarrow> (string + unit) \<times> desk" where
  "run_settings sys (SetNotifications b) = set_notifications b"
| "run_settings sys (SetAutostart b) = set_autostart sys b"
| "run_settings sys (SetCloseToTray b) = set_close_to_tray b"
| "run_settings sys (SetLanguage l) = set_language l"
| "run_settings sys (SetMute b) = set_mute b"
| "run_settings sys (SetVoiceMode m) = set_voice_mode m"
| "run_settings sys (SetParanoid b) = set_paranoid b"
| "run_settings sys (SetAgc b) = set_agc b"
| "run_settings sys (SetDenoise b) = set_denoise b"
| "run_settings sys PttPress = ptt_press"
| "run_settings sys PttRelease = ptt_release"
| "run_settings sys (SetInputGain p) = set_input_gain p"
| "run_settings sys (SetOutputVolume p) = set_output_volume p"
| "run_settings sys (SetPeerVolume n p) = set_peer_volume n p"
| "run_settings sys (SetVadLevel p) = set_vad_level p"
| "run_settings sys (ForgetServer a) = forget_server a"
| "run_settings sys (SetServerFavourite a b) = set_server_favourite a b"
| "run_settings sys (LabelServer a l) = label_server a l"
| "run_settings sys (ForgetDmPeer k) = forget_dm_peer k"
| "run_settings sys (SetOverlayEnabled b) = set_overlay_enabled b"
| "run_settings sys (SetOverlayPosition p) = set_overlay_position p"
| "run_settings sys (SetOverlayVisibility v) = set_overlay_visibility v"
| "run_settings sys (SetHotkey a k) = set_hotkey sys a k"
| "run_settings sys (UnsetHotkey a) = unset_hotkey sys a"
| "run_settings sys (HotkeyEvent s pressed) = (\<lambda>d. (Inr (), case resolve_action sys s (dk_core d) of
      Some action \<Rightarrow> d\<lparr>dk_core := handle_hotkey action pressed (dk_core d)\<rparr> | None \<Rightarrow> d))"
| "run_settings sys TrayToggleMute = toggle_mute"
| "run_settings sys (ImportSettings s) = import_settings s"

definition settings_run :: "os \<Rightarrow> settings_command list \<Rightarrow> desk \<Rightarrow> desk" where
  "settings_run sys cmds d = fold (\<lambda>cmd d. snd (run_settings sys cmd d)) cmds d"

section \<open>Consistency\<close>

text \<open>The levels the audio threads read are those of the percentages shown; the choices are valid; a volume kept is
  one a percentage stands for, and not the unchanged one.\<close>

definition gains_ok :: "peer_gains \<Rightarrow> bool" where
  "gains_ok m \<longleftrightarrow> keys_distinct m \<and> (\<forall>n g. hm_get m n = Some g \<longrightarrow> \<not> is_unity g \<and> (\<exists>pct. g = pct_to_gain pct))"

definition core_ok :: "app_core \<Rightarrow> bool" where
  "core_ok c \<longleftrightarrow> ap_vad_threshold c = vad_threshold_for (ap_voice_mode c) (ap_vad_level_pct c) \<and>
     ap_input_gain c = pct_to_float (ap_input_gain_pct c) \<and> ap_output_vol c = pct_to_float (ap_output_vol_pct c) \<and>
     is_language (ap_language c) \<and> is_overlay_position (ap_overlay_position c) \<and>
     is_overlay_visibility (ap_overlay_visibility c) \<and> gains_ok (ap_peer_gains c)"

lemma gains_ok_insert: "gains_ok m \<Longrightarrow> \<not> is_unity (pct_to_gain pct) \<Longrightarrow> gains_ok (hm_insert n (pct_to_gain pct) m)"
  by (auto simp: gains_ok_def)

lemma gains_ok_remove: "gains_ok m \<Longrightarrow> gains_ok (hm_remove n m)"
  by (auto simp: gains_ok_def)

lemma gains_ok_set_pct: "gains_ok m \<Longrightarrow> gains_ok (set_pct n pct m)"
  by (simp add: set_pct_def Let_def gains_ok_insert gains_ok_remove)

lemma gains_ok_set_all: "gains_ok (set_all_from_pct pcts)"
  by (induction pcts rule: set_all_from_pct.induct) (simp_all add: Let_def gains_ok_insert, simp add: gains_ok_def)

lemma gains_ok_rename:
  assumes "gains_ok m" shows "gains_ok (pg_rename old new m)"
proof (cases "hm_get m old")
  case (Some g)
  obtain pct where "g = pct_to_gain pct" "\<not> is_unity g" using assms Some unfolding gains_ok_def by blast
  then show ?thesis using Some gains_ok_insert [OF gains_ok_remove [OF assms], of pct new old] by (simp add: pg_rename_def)
qed (use assms in \<open>simp add: pg_rename_def\<close>)

lemma valid_defaults [simp]:
  "is_language (unwrap_or ''en'' (opt_filter is_language x))"
  "is_overlay_position (unwrap_or ''tr'' (opt_filter is_overlay_position y))"
  "is_overlay_visibility (unwrap_or ''in_call'' (opt_filter is_overlay_visibility z))"
  by (auto simp: unwrap_or_def opt_filter_def is_language_def is_overlay_position_def is_overlay_visibility_def split: option.split)

lemma core_ok_new [simp]: "core_ok (app_new macos identity saved)"
  by (simp add: core_ok_def app_new_def Let_def from_pct_map_def gains_ok_set_all)

lemma core_ok_applied:
  "core_ok c \<Longrightarrow> core_ok (apply_voice_mode mode c)" "core_ok c \<Longrightarrow> core_ok (apply_vad_level pct c)"
  "core_ok c \<Longrightarrow> core_ok (apply_input_gain_pct pct c)" "core_ok c \<Longrightarrow> core_ok (apply_output_vol pct c)"
  "core_ok c \<Longrightarrow> core_ok (apply_peer_volume n pct c)"
  by (simp_all add: core_ok_def apply_voice_mode_def apply_vad_level_def apply_input_gain_pct_def apply_output_vol_def
      apply_peer_volume_def Let_def gains_ok_set_pct)

lemma core_ok_set_if: "core_ok c \<Longrightarrow> (\<And>v c. x = Some v \<Longrightarrow> core_ok c \<Longrightarrow> core_ok (f v c)) \<Longrightarrow> core_ok (set_if x f c)"
  by (simp add: set_if_def split: option.split)

text \<open>Fields the invariant does not look at.\<close>

lemma core_ok_other [simp]:
  "core_ok (c\<lparr>ap_server_addr := a\<rparr>) = core_ok c" "core_ok (c\<lparr>ap_input_device := b\<rparr>) = core_ok c"
  "core_ok (c\<lparr>ap_output_device := b\<rparr>) = core_ok c" "core_ok (c\<lparr>ap_name := b\<rparr>) = core_ok c"
  "core_ok (c\<lparr>ap_paranoid := x\<rparr>) = core_ok c" "core_ok (c\<lparr>ap_agc := x\<rparr>) = core_ok c" "core_ok (c\<lparr>ap_denoise := x\<rparr>) = core_ok c"
  "core_ok (c\<lparr>ap_hotkeys := h\<rparr>) = core_ok c" "core_ok (c\<lparr>ap_notifications := x\<rparr>) = core_ok c"
  "core_ok (c\<lparr>ap_autostart := x\<rparr>) = core_ok c" "core_ok (c\<lparr>ap_close_to_tray := x\<rparr>) = core_ok c"
  "core_ok (c\<lparr>ap_tofu := t\<rparr>) = core_ok c" "core_ok (c\<lparr>ap_servers := ss\<rparr>) = core_ok c" "core_ok (c\<lparr>ap_dm_peers := ps\<rparr>) = core_ok c"
  "core_ok (c\<lparr>ap_overlay_enabled := x\<rparr>) = core_ok c" "core_ok (c\<lparr>ap_muted := x\<rparr>) = core_ok c"
  "core_ok (c\<lparr>ap_conn := l\<rparr>) = core_ok c" "core_ok (c\<lparr>ap_channel := b\<rparr>) = core_ok c" "core_ok (c\<lparr>ap_participants := ns\<rparr>) = core_ok c"
  "core_ok (c\<lparr>ap_pending_join := pj\<rparr>) = core_ok c" "core_ok (c\<lparr>ap_draining := x\<rparr>) = core_ok c"
  by (simp_all add: core_ok_def)

lemma core_ok_chosen:
  "core_ok c \<Longrightarrow> is_language l \<Longrightarrow> core_ok (c\<lparr>ap_language := l\<rparr>)"
  "core_ok c \<Longrightarrow> is_overlay_position p \<Longrightarrow> core_ok (c\<lparr>ap_overlay_position := p\<rparr>)"
  "core_ok c \<Longrightarrow> is_overlay_visibility v \<Longrightarrow> core_ok (c\<lparr>ap_overlay_visibility := v\<rparr>)"
  "core_ok c \<Longrightarrow> gains_ok m \<Longrightarrow> core_ok (c\<lparr>ap_peer_gains := m\<rparr>)"
  by (simp_all add: core_ok_def)

lemma opt_filter_Some [simp]: "opt_filter P x = Some v \<longleftrightarrow> x = Some v \<and> P v"
  by (auto simp: opt_filter_def split: option.split)

lemma core_ok_import: "core_ok c \<Longrightarrow> core_ok (import_into s c)"
  unfolding import_into_def Let_def
  by (intro core_ok_set_if core_ok_other [THEN iffD2] core_ok_chosen gains_ok_set_all)
    (simp_all add: core_ok_applied core_ok_chosen)

lemmas core_intros = core_ok_applied core_ok_chosen core_ok_import

lemma core_ok_hotkey [simp]: "core_ok (handle_hotkey action pressed c) = core_ok c"
  by (auto simp: handle_hotkey_def split: hotkey_action.split bool.split)

lemma registered_core [simp]: "dk_core (snd (register_internal sys accel d)) = dk_core d"
  "dk_file (snd (register_internal sys accel d)) = dk_file d"
  by (auto simp: register_internal_def split: option.split)

lemma updated [simp]:
  "dk_core (snd (update_saved f d)) = f (dk_core d)" "dk_file (snd (update_saved f d)) = settings_of (f (dk_core d))"
  by (simp_all add: update_saved_def save_def)

lemma unregistered [simp]: "dk_core (unregister s d) = dk_core d" "dk_file (unregister s d) = dk_file d"
  by (simp_all add: unregister_def)

lemmas command_defs = set_notifications_def set_autostart_def set_close_to_tray_def set_language_def set_mute_def toggle_mute_def
  set_voice_mode_def set_paranoid_def set_agc_def set_denoise_def ptt_press_def ptt_release_def set_input_gain_def
  set_output_volume_def set_peer_volume_def set_vad_level_def forget_server_def set_server_favourite_def label_server_def
  forget_dm_peer_def set_overlay_enabled_def set_overlay_position_def set_overlay_visibility_def import_settings_def

text \<open>Every command either leaves the core alone or is one of these changes of it.\<close>

lemma set_hotkey_core:
  "dk_core (snd (set_hotkey sys a k d)) = dk_core d \<and> dk_file (snd (set_hotkey sys a k d)) = dk_file d \<or>
   (\<exists>h. dk_core (snd (set_hotkey sys a k d)) = (dk_core d)\<lparr>ap_hotkeys := h\<rparr> \<and>
     dk_file (snd (set_hotkey sys a k d)) = settings_of (dk_core (snd (set_hotkey sys a k d))))"
proof (cases "hotkey_parse a")
  case (Some parsed)
  define d1 where "d1 = (case Option.bind (hm_get (ap_hotkeys (dk_core d)) (hotkey_as_str parsed)) (os_shortcut sys) of
      Some s \<Rightarrow> unregister s d | None \<Rightarrow> d)"
  have d1: "dk_core d1 = dk_core d" "dk_file d1 = dk_file d" by (simp_all add: d1_def split: option.split)
  obtain r d2 where r: "register_internal sys k d1 = (r, d2)" by (rule prod.exhaust)
  have d2: "dk_core d2 = dk_core d" "dk_file d2 = dk_file d" using registered_core [of sys k d1] r d1 by simp_all
  show ?thesis using Some r d2 by (cases r) (auto simp: set_hotkey_def simp flip: d1_def)
qed (simp add: set_hotkey_def)

lemma unset_hotkey_core: "\<exists>h. dk_core (snd (unset_hotkey sys a d)) = (dk_core d)\<lparr>ap_hotkeys := h\<rparr>"
  by (rule exI [of _ "ap_hotkeys (dk_core (snd (unset_hotkey sys a d)))"])
    (simp add: unset_hotkey_def save_def Let_def split: option.split)

lemma core_ok_command: "core_ok (dk_core d) \<Longrightarrow> core_ok (dk_core (snd (run_settings sys cmd d)))"
proof (cases cmd)
  case (SetHotkey a k)
  assume "core_ok (dk_core d)"
  with SetHotkey set_hotkey_core [of sys a k d] show ?thesis by auto
next
  case (UnsetHotkey a)
  assume "core_ok (dk_core d)"
  with UnsetHotkey unset_hotkey_core [of sys a d] show ?thesis by auto
qed (simp_all add: command_defs core_intros split: option.split)

text \<open>C35 Whatever the settings file held and whatever commands the user has given since, the numbers the audio threads
  read are exactly those of the percentages and the mode the interface shows (the detection threshold of the mode and
  its level, the two gains), the language and the overlay's place and visibility are valid ones, and every volume kept
  for a peer is the factor of a percentage other than the unchanged one.\<close>

theorem settings_consistent:
  "core_ok (dk_core (settings_run sys cmds \<lparr>dk_core = app_new macos identity saved, dk_file = f, dk_shortcuts = sc\<rparr>))"
proof -
  have "core_ok (dk_core d) \<Longrightarrow> core_ok (dk_core (settings_run sys cmds d))" for d
    by (induction cmds arbitrary: d) (simp_all add: settings_run_def core_ok_command)
  then show ?thesis by simp
qed

end
