(* ===== verification/Desktop_Session.thy ===== *)
theory Desktop_Session
  imports Desktop_Settings Voice_Actor
begin

text \<open>
  The desktop session: what the drain task (\<^verbatim>\<open>drain.rs\<close>) does with the server's messages, the commands of
  \<^verbatim>\<open>commands.rs\<close> that talk to the server, the reconnect loop, the sound check and the chat history
  (\<^verbatim>\<open>history.rs\<close>, \<^verbatim>\<open>dm.rs\<close>). A session is the application's state
  (\<open>desk\<close>), the voice actor, and what has gone out: events to the front end, notifications, history lines.
  Each handler is one step, though it takes the core's lock several times. The exception is \<open>connect\<close>, which
  waits for the network without the lock: it is two steps, and anything can happen between them. A drain task that is
  aborted is taken to stop at once. Lines are appended to a history file that can be written (the code only logs an
  append that fails).
\<close>

section \<open>History\<close>

datatype line_kind = LineChat | LineDm

record chat_line =
  cl_ts_unix :: "64 word"
  cl_kind :: line_kind
  cl_from :: string
  cl_text :: string

text \<open>\<open>serde_json\<close> is outside: what it prints for a line and reads back. The files are keyed by the name
  that \<open>path_for\<close> derives.\<close>

record json =
  js_print :: "chat_line \<Rightarrow> string"
  js_parse :: "string \<Rightarrow> chat_line option"

type_synonym history_files = "(string \<times> string list) list"

definition path_for :: "(byte list \<Rightarrow> byte list) \<Rightarrow> string \<Rightarrow> string \<Rightarrow> string" where
  "path_for sha256 server channel =
    concat (map hex_byte (take 8 (sha256 (string_bytes server @ string_bytes ''|'' @ string_bytes channel)))) @ ''.jsonl''"

definition history_append ::
    "(byte list \<Rightarrow> byte list) \<Rightarrow> json \<Rightarrow> string \<Rightarrow> string \<Rightarrow> chat_line \<Rightarrow> history_files \<Rightarrow> history_files" where
  "history_append sha256 js server channel line files =
    (let path = path_for sha256 server channel; lines = unwrap_or [] (hm_get files path)
     in hm_insert path (lines @ [js_print js line]) files)"

definition get_history ::
    "(byte list \<Rightarrow> byte list) \<Rightarrow> json \<Rightarrow> string \<Rightarrow> string \<Rightarrow> nat option \<Rightarrow> history_files \<Rightarrow> chat_line list" where
  "get_history sha256 js server channel limit files =
    (let limit = min (unwrap_or 50 limit) 500 in
     case hm_get files (path_for sha256 server channel) of
       None \<Rightarrow> []
     | Some raw \<Rightarrow>
        (let lines = List.map_filter (\<lambda>raw. if trim raw = [] then None else js_parse js raw) raw
         in drop (length lines - limit) lines))"

definition clear_history :: "(byte list \<Rightarrow> byte list) \<Rightarrow> string \<Rightarrow> string \<Rightarrow> history_files \<Rightarrow> history_files" where
  "clear_history sha256 server channel files = hm_remove (path_for sha256 server channel) files"

definition dm_channel :: "string \<Rightarrow> string" where
  "dm_channel pubkey_hex = ''@dm:'' @ pubkey_hex"

section \<open>The session\<close>

datatype conn_state = ConnDisconnected | ConnConnecting | ConnConnected string | ConnReconnecting "32 word" nat

datatype app_event =
    EvConnectionState conn_state
  | EvJoinedChannel channel_id "string list"
  | EvPeerJoined string
  | EvPeerLeft string
  | EvLeftChannel
  | EvChatMessage string string
  | EvDirectMessage string string string
  | EvNameChanged string string
  | EvChannelList "(channel_id \<times> 32 word) list"
  | EvError string
  | EvEchoStarted
  | EvEchoResult echo_result

text \<open>Which flag a voice session was given: one of the core's shared atomics, or one of its own.\<close>

datatype 'a flag = CoreFlag | OwnFlag 'a

record call_flags =
  cf_muted :: "bool flag"
  cf_denoise :: "bool flag"
  cf_paranoid :: "bool flag"
  cf_peer_gains :: "peer_gains flag"

text \<open>How the drain tasks stand. Attached: the handle the core has, if it has one, is that of the only drain task, which
  receives while there is a connection and dials while there is none. Adrift: a connect that failed has taken away the
  connection under a running drain task. Detached: a connect that worked has overwritten the handle of a running drain
  task, which nothing can abort any more.\<close>

datatype drain_reach = Attached | Adrift | Detached

record ('z, 'r) session =
  ss_desk :: desk
  ss_dials :: "string list"
  ss_drains :: drain_reach
  ss_actor :: "('z, 'r) actor"
  ss_call_flags :: call_flags
  ss_echo_flags :: call_flags
  ss_echo_timers :: "instant list"
  ss_events :: "app_event list"
  ss_notices :: "(string \<times> string) list"
  ss_history :: history_files

text \<open>The world at a step: the voice actor's, the wall clock in seconds, how to dial, whether the main window has the
  focus, JSON and SHA-256.\<close>

record ('dev, 'z, 'r) session_env =
  sv_actor :: "('dev, 'z, 'r) actor_env"
  sv_unix :: "64 word"
  sv_dialler :: dialler
  sv_version :: string
  sv_focused :: bool
  sv_json :: json
  sv_sha256 :: "byte list \<Rightarrow> byte list"

abbreviation core_of :: "('z, 'r) session \<Rightarrow> app_core" where
  "core_of s \<equiv> dk_core (ss_desk s)"

definition on_core :: "(app_core \<Rightarrow> app_core) \<Rightarrow> ('z, 'r) session \<Rightarrow> ('z, 'r) session" where
  "on_core f s = s\<lparr>ss_desk := (ss_desk s)\<lparr>dk_core := f (core_of s)\<rparr>\<rparr>"

definition save_core :: "('z, 'r) session \<Rightarrow> ('z, 'r) session" where
  "save_core s = s\<lparr>ss_desk := save (ss_desk s)\<rparr>"

definition emit :: "app_event \<Rightarrow> ('z, 'r) session \<Rightarrow> ('z, 'r) session" where
  "emit ev s = s\<lparr>ss_events := ss_events s @ [ev]\<rparr>"

definition maybe_notify ::
    "('dev, 'z, 'r) session_env \<Rightarrow> string \<Rightarrow> string \<Rightarrow> ('z, 'r) session \<Rightarrow> ('z, 'r) session" where
  "maybe_notify env title body s =
    (if \<not> ap_notifications (core_of s) then s
     else if sv_focused env then s
     else s\<lparr>ss_notices := ss_notices s @ [(title, body)]\<rparr>)"

text \<open>A message to the server if there is a connection; whether it could be queued is ignored.\<close>

definition conn_tell :: "client_message \<Rightarrow> ('z, 'r) session \<Rightarrow> ('z, 'r) session" where
  "conn_tell msg = on_core (\<lambda>c. case ap_conn c of
      Some lk \<Rightarrow> c\<lparr>ap_conn := Some (snd (conn_send msg lk))\<rparr> | None \<Rightarrow> c)"

definition send_msg :: "client_message \<Rightarrow> ('z, 'r) session \<Rightarrow> (string + unit) \<times> ('z, 'r) session" where
  "send_msg msg s =
    (case ap_conn (core_of s) of
       None \<Rightarrow> (Inl ''not connected'', s)
     | Some lk \<Rightarrow>
        (case conn_send msg lk of
           (Inl e, lk) \<Rightarrow> (Inl (''send failed: '' @ e), s)
         | (Inr _, lk) \<Rightarrow> (Inr (), on_core (\<lambda>c. c\<lparr>ap_conn := Some lk\<rparr>) s)))"

text \<open>A command to the voice actor.\<close>

definition voice_do :: "('dev, 'z, 'r) session_env \<Rightarrow> command \<Rightarrow> ('z, 'r) session \<Rightarrow> reply \<times> ('z, 'r) session" where
  "voice_do env cmd s = (let (r, ac) = actor_step (sv_actor env) cmd (ss_actor s) in (r, s\<lparr>ss_actor := ac\<rparr>))"

definition voice_stop :: "('dev, 'z, 'r) session_env \<Rightarrow> ('z, 'r) session \<Rightarrow> ('z, 'r) session" where
  "voice_stop env s = snd (voice_do env StopVoice s)"

definition log_line ::
    "('dev, 'z, 'r) session_env \<Rightarrow> string \<Rightarrow> line_kind \<Rightarrow> string \<Rightarrow> string \<Rightarrow> ('z, 'r) session \<Rightarrow> ('z, 'r) session" where
  "log_line env channel kind from text s =
    (case ap_server_addr (core_of s) of
       None \<Rightarrow> s
     | Some addr \<Rightarrow> s\<lparr>ss_history := history_append (sv_sha256 env) (sv_json env) addr channel
         \<lparr>cl_ts_unix = sv_unix env, cl_kind = kind, cl_from = from, cl_text = text\<rparr> (ss_history s)\<rparr>)"

section \<open>Starting voice\<close>

definition voice_params_of :: "app_core \<Rightarrow> client_link \<Rightarrow> channel_id \<Rightarrow> 64 word \<Rightarrow> byte list \<Rightarrow> bool \<Rightarrow> voice_params" where
  "voice_params_of c lk ch token key echo =
    \<lparr>vp_server_ip = sock_ip (lk_peer_addr lk), vp_channel_id = ch, vp_udp_token = token, vp_voice_key = key,
     vp_input_device = ap_input_device c, vp_output_device = ap_output_device c,
     vp_sender_name = unwrap_or ''anon'' (ap_name c), vp_echo_test = echo\<rparr>"

definition spawn_voice :: "('dev, 'z, 'r) session_env \<Rightarrow> ('z, 'r) session \<Rightarrow> ('z, 'r) session" where
  "spawn_voice env s =
    (case ap_pending_join (core_of s) of
       None \<Rightarrow> s
     | Some p \<Rightarrow>
        (let s = on_core (\<lambda>c. c\<lparr>ap_pending_join := None\<rparr>) s in
         case ap_conn (core_of s) of
           None \<Rightarrow> s
         | Some lk \<Rightarrow>
            (let params = voice_params_of (core_of s) lk (pj_channel_id p) (pj_udp_token p) (pj_voice_key p) False;
                 s = s\<lparr>ss_call_flags := \<lparr>cf_muted = CoreFlag, cf_denoise = CoreFlag, cf_paranoid = CoreFlag, cf_peer_gains = CoreFlag\<rparr>\<rparr>
             in case voice_do env (StartVoice params) s of
                  (StartReply (Inl e), s) \<Rightarrow> emit (EvError (''voice failed: '' @ e)) s
                | (_, s) \<Rightarrow> s)))"

definition spawn_echo ::
    "('dev, 'z, 'r) session_env \<Rightarrow> channel_id \<Rightarrow> 64 word \<Rightarrow> byte list \<Rightarrow> ('z, 'r) session \<Rightarrow> ('z, 'r) session" where
  "spawn_echo env ch token key s =
    (case ap_conn (core_of s) of
       None \<Rightarrow> s
     | Some lk \<Rightarrow>
        (let params = voice_params_of (core_of s) lk ch token key True;
             s = s\<lparr>ss_echo_flags := \<lparr>cf_muted = OwnFlag False, cf_denoise = OwnFlag False, cf_paranoid = OwnFlag False,
               cf_peer_gains = OwnFlag pg_new\<rparr>\<rparr>
         in case voice_do env (EchoStart params) s of
              (StartReply (Inl e), s) \<Rightarrow> emit (EvError (''sound check failed: '' @ e)) s
            | (_, s) \<Rightarrow> emit EvEchoStarted (s\<lparr>ss_echo_timers := ss_echo_timers s @
                [en_now (sv_actor env) + secs ECHO_TEST_DURATION_SECS]\<rparr>)))"

text \<open>What the armed timer does when its time has come.\<close>

definition echo_timer :: "('dev, 'z, 'r) session_env \<Rightarrow> ('z, 'r) session \<Rightarrow> ('z, 'r) session" where
  "echo_timer env s =
    (case voice_do env EchoStop s of
       (EchoReply result, s) \<Rightarrow> emit (EvEchoResult result) (conn_tell StopEchoTest s)
     | (_, s) \<Rightarrow> s)"

definition fire_timers :: "('dev, 'z, 'r) session_env \<Rightarrow> ('z, 'r) session \<Rightarrow> ('z, 'r) session" where
  "fire_timers env s =
    (let due = filter (\<lambda>t. t \<le> en_now (sv_actor env)) (ss_echo_timers s);
         s = s\<lparr>ss_echo_timers := filter (\<lambda>t. \<not> t \<le> en_now (sv_actor env)) (ss_echo_timers s)\<rparr>
     in fold (\<lambda>t. echo_timer env) due s)"

section \<open>The server's messages\<close>

definition joined_channel ::
    "('dev, 'z, 'r) session_env \<Rightarrow> channel_id \<Rightarrow> string list \<Rightarrow> 64 word \<Rightarrow> byte list \<Rightarrow> ('z, 'r) session \<Rightarrow> ('z, 'r) session" where
  "joined_channel env ch people token key s =
    (let s = on_core (\<lambda>c. c\<lparr>ap_channel := Some ch, ap_participants := people\<rparr>) s;
         s = (case ap_server_addr (core_of s) of
               Some addr \<Rightarrow> save_core (on_core (\<lambda>c. c\<lparr>ap_servers := record_channel addr ch (ap_servers c)\<rparr>) s)
             | None \<Rightarrow> s);
         s = on_core (\<lambda>c. c\<lparr>ap_pending_join := Some \<lparr>pj_channel_id = ch, pj_udp_token = token, pj_voice_key = key\<rparr>,
               ap_muted := True\<rparr>) s;
         s = (case (ap_name (core_of s), ap_conn (core_of s)) of
               (Some name, Some lk) \<Rightarrow> if name \<notin> set people then conn_tell (SetName name) s else s
             | _ \<Rightarrow> s)
     in spawn_voice env (emit (EvJoinedChannel ch people) s))"

fun handle_server_message ::
    "('dev, 'z, 'r) session_env \<Rightarrow> string \<Rightarrow> server_message \<Rightarrow> ('z, 'r) session \<Rightarrow> ('z, 'r) session" where
  "handle_server_message env server_addr (Welcome version protocol) s = emit (EvConnectionState (ConnConnected server_addr)) s"
| "handle_server_message env server_addr (ChannelCreated ch) s = conn_tell (JoinChannel ch) s"
| "handle_server_message env server_addr (JoinedChannel ch people token key) s = joined_channel env ch people token key s"
| "handle_server_message env server_addr (PeerJoined name) s =
    (let s = on_core (\<lambda>c. if name \<in> set (ap_participants c) then c else c\<lparr>ap_participants := ap_participants c @ [name]\<rparr>) s
     in emit (EvPeerJoined name) (maybe_notify env ''tc_'' (name @ '' joined'') s))"
| "handle_server_message env server_addr (PeerLeft name) s =
    emit (EvPeerLeft name) (on_core (\<lambda>c. c\<lparr>ap_participants := filter (\<lambda>p. p \<noteq> name) (ap_participants c)\<rparr>) s)"
| "handle_server_message env server_addr LeftChannel s =
    emit EvLeftChannel (voice_stop env (on_core (\<lambda>c. c\<lparr>ap_channel := None, ap_participants := []\<rparr>) s))"
| "handle_server_message env server_addr (SChatMessage from text) s =
    (let s = (case ap_channel (core_of s) of Some ch \<Rightarrow> log_line env ch LineChat from text s | None \<Rightarrow> s)
     in emit (EvChatMessage from text) (maybe_notify env from text s))"
| "handle_server_message env server_addr (SDirectMessage from_pubkey from_name text) s =
    (let pk_hex = concat (map hex_byte from_pubkey);
         s = log_line env (dm_channel pk_hex) LineDm from_name text s;
         s = save_core (on_core (\<lambda>c. c\<lparr>ap_dm_peers := touch_peer (sv_unix env) pk_hex from_name (ap_dm_peers c)\<rparr>) s)
     in emit (EvDirectMessage pk_hex from_name text) (maybe_notify env (''DM '' @ [CHR 0xC2, CHR 0xB7] @ '' '' @ from_name) text s))"
| "handle_server_message env server_addr (NameChanged old_name new_name) s =
    (if old_name = [] then
       (if ap_name (core_of s) \<noteq> None then s
        else emit (EvNameChanged [] new_name) (save_core (on_core (\<lambda>c. c\<lparr>ap_name := Some new_name\<rparr>) s)))
     else emit (EvNameChanged old_name new_name) (save_core (on_core (\<lambda>c. c\<lparr>
            ap_peer_gains := pg_rename old_name new_name (ap_peer_gains c),
            ap_participants := map (\<lambda>p. if p = old_name then new_name else p) (ap_participants c)\<rparr>) s)))"
| "handle_server_message env server_addr (ChannelList infos) s =
    emit (EvChannelList (map (\<lambda>i. (info_channel_id i, participant_count i)) infos)) s"
| "handle_server_message env server_addr (EchoTestReady ch token key) s = spawn_echo env ch token key s"
| "handle_server_message env server_addr (SError message) s = emit (EvError message) s"
| "handle_server_message env server_addr Pong s = s"

section \<open>Connecting, leaving, losing the connection\<close>

definition forget_session :: "app_core \<Rightarrow> app_core" where
  "forget_session c = c\<lparr>ap_conn := None, ap_channel := None, ap_participants := [], ap_pending_join := None\<rparr>"

definition tear_down_session :: "('dev, 'z, 'r) session_env \<Rightarrow> ('z, 'r) session \<Rightarrow> ('z, 'r) session" where
  "tear_down_session env s = voice_stop env (on_core forget_session s)"

definition backoff_seconds :: "32 word \<Rightarrow> nat" where
  "backoff_seconds attempt = (if attempt \<le> 2 then 5 else 10)"

definition dial ::
    "('dev, 'z, 'r) session_env \<Rightarrow> string \<Rightarrow> ('z, 'r) session \<Rightarrow> (string + client_link) \<times> ('z, 'r) session" where
  "dial env addr s =
    (let (r, tofu) = network_connect (sv_sha256 env) (sv_dialler env) (sv_version env) addr (ap_identity (core_of s)) (ap_tofu (core_of s))
     in (r, on_core (\<lambda>c. c\<lparr>ap_tofu := tofu\<rparr>) s))"

text \<open>The name chosen goes out before anything else.\<close>

definition announce_name :: "('z, 'r) session \<Rightarrow> ('z, 'r) session" where
  "announce_name s = (case ap_name (core_of s) of Some name \<Rightarrow> conn_tell (SetName name) s | None \<Rightarrow> s)"

text \<open>One turn of the reconnect loop after \<open>attempt\<close> earlier ones: it says how long it waits, then dials;
  the flag is whether that worked.\<close>

definition reconnect_attempt ::
    "('dev, 'z, 'r) session_env \<Rightarrow> string \<Rightarrow> 32 word \<Rightarrow> ('z, 'r) session \<Rightarrow> bool \<times> 32 word \<times> ('z, 'r) session" where
  "reconnect_attempt env addr attempt s =
    (let attempt = (if attempt = - 1 then attempt else attempt + 1);
         s = emit (EvConnectionState (ConnReconnecting attempt (backoff_seconds attempt))) s;
         (r, s) = dial env addr s
     in case r of
          Inr lk \<Rightarrow> (True, attempt, announce_name (on_core (\<lambda>c. c\<lparr>ap_conn := Some lk\<rparr>) s))
        | Inl e \<Rightarrow> (False, attempt, s))"

fun reconnect_loop ::
    "('dev, 'z, 'r) session_env list \<Rightarrow> string \<Rightarrow> 32 word \<Rightarrow> ('z, 'r) session \<Rightarrow> bool \<times> ('z, 'r) session" where
  "reconnect_loop [] addr attempt s = (False, s)"
| "reconnect_loop (env # envs) addr attempt s =
    (let (ok, attempt, s) = reconnect_attempt env addr attempt s
     in if ok then (True, s) else reconnect_loop envs addr attempt s)"

definition connect_address :: "string \<Rightarrow> string" where
  "connect_address addr =
    (case parse_link addr of
       Some (target, ch) \<Rightarrow> target
     | None \<Rightarrow> if CHR '':'' \<in> set addr then addr else addr @ '':'' @ decimal TCP_PORT)"

text \<open>\<open>drain_handle.take()\<close> and \<open>abort\<close>.\<close>

definition abort_drain :: "('z, 'r) session \<Rightarrow> ('z, 'r) session" where
  "abort_drain s = (on_core (\<lambda>c. c\<lparr>ap_draining := False\<rparr>) s)\<lparr>ss_drains := (if ss_drains s = Detached then Detached else Attached)\<rparr>"

text \<open>\<open>connect\<close> until it waits for the network, and from its answer on.\<close>

definition connect_begin :: "('dev, 'z, 'r) session_env \<Rightarrow> string \<Rightarrow> ('z, 'r) session \<Rightarrow> ('z, 'r) session" where
  "connect_begin env addr s =
    (let addr = connect_address addr;
         s = abort_drain (emit (EvConnectionState ConnConnecting) s);
         s = save_core (on_core (\<lambda>c. (forget_session c)\<lparr>ap_server_addr := Some addr\<rparr>) s);
         s = voice_stop env s
     in s\<lparr>ss_dials := ss_dials s @ [addr]\<rparr>)"

definition connect_finish ::
    "('dev, 'z, 'r) session_env \<Rightarrow> string \<Rightarrow> ('z, 'r) session \<Rightarrow> (string + unit) \<times> ('z, 'r) session" where
  "connect_finish env addr s =
    (let (r, s) = dial env addr (s\<lparr>ss_dials := remove1 addr (ss_dials s)\<rparr>);
         running = ap_draining (core_of s)
     in case r of
          Inr lk \<Rightarrow>
           (let s = save_core (on_core (\<lambda>c. c\<lparr>ap_conn := Some lk, ap_servers := touch_server (sv_unix env) addr (ap_servers c)\<rparr>) s);
                s = announce_name s;
                s = on_core (\<lambda>c. c\<lparr>ap_draining := True\<rparr>) s
            in (Inr (), if running then s\<lparr>ss_drains := Detached\<rparr> else s))
        | Inl e \<Rightarrow>
           (let s = emit (EvConnectionState ConnDisconnected) (on_core (\<lambda>c. c\<lparr>ap_conn := None\<rparr>) s)
            in (Inl (''connect failed: '' @ e), if running \<and> ss_drains s = Attached then s\<lparr>ss_drains := Adrift\<rparr> else s)))"

definition disconnect_command :: "('dev, 'z, 'r) session_env \<Rightarrow> ('z, 'r) session \<Rightarrow> ('z, 'r) session" where
  "disconnect_command env s =
    emit (EvConnectionState ConnDisconnected) (voice_stop env (on_core forget_session (abort_drain s)))"

definition leave_channel_command :: "('dev, 'z, 'r) session_env \<Rightarrow> ('z, 'r) session \<Rightarrow> (string + unit) \<times> ('z, 'r) session" where
  "leave_channel_command env s = send_msg LeaveChannel (voice_stop env s)"

definition start_echo_command :: "('z, 'r) session \<Rightarrow> (string + unit) \<times> ('z, 'r) session" where
  "start_echo_command s =
    (if ap_conn (core_of s) = None then (Inl ''not connected'', s)
     else if ap_channel (core_of s) \<noteq> None then (Inl ''leave the channel first'', s)
     else send_msg StartEchoTest s)"

definition cancel_echo_command :: "('dev, 'z, 'r) session_env \<Rightarrow> ('z, 'r) session \<Rightarrow> ('z, 'r) session" where
  "cancel_echo_command env s = snd (send_msg StopEchoTest (snd (voice_do env EchoStop s)))"

definition set_name_command :: "string \<Rightarrow> ('z, 'r) session \<Rightarrow> (string + unit) \<times> ('z, 'r) session" where
  "set_name_command name s = send_msg (SetName name) (save_core (on_core (\<lambda>c. c\<lparr>ap_name := Some name\<rparr>) s))"

definition invite_link_command :: "app_core \<Rightarrow> string + string" where
  "invite_link_command c =
    (if ap_conn c = None then Inl (''not connected '' @ [CHR 0xE2, CHR 0x80, CHR 0x94] @ '' /server <addr> first'')
     else case ap_server_addr c of
       None \<Rightarrow> Inl ''not connected''
     | Some addr \<Rightarrow> Inr (invite_url addr (ap_channel c)))"

definition send_dm_to ::
    "(string \<Rightarrow> byte list option) \<Rightarrow> ('dev, 'z, 'r) session_env \<Rightarrow> string \<Rightarrow> string \<Rightarrow> ('z, 'r) session \<Rightarrow>
     (string + unit) \<times> ('z, 'r) session" where
  "send_dm_to hex_decode env pubkey_hex text s =
    (if ap_conn (core_of s) = None then (Inl ''not connected'', s)
     else if ap_server_addr (core_of s) = None then (Inl ''no server'', s)
     else case hex_decode pubkey_hex of
       None \<Rightarrow> (Inl ''bad pubkey hex'', s)
     | Some to_pubkey \<Rightarrow>
        (case send_msg (CDirectMessage to_pubkey text) s of
           (Inl e, s) \<Rightarrow> (Inl e, s)
         | (Inr _, s) \<Rightarrow> (Inr (), log_line env (dm_channel pubkey_hex) LineDm (unwrap_or ''you'' (ap_name (core_of s))) text s)))"

definition set_input_device_command ::
    "('dev, 'z, 'r) session_env \<Rightarrow> string option \<Rightarrow> ('z, 'r) session \<Rightarrow> ('z, 'r) session" where
  "set_input_device_command env name s =
    snd (voice_do env (SetInputDevice name) (save_core (on_core (\<lambda>c. c\<lparr>ap_input_device := name\<rparr>) s)))"

definition set_output_device_command ::
    "('dev, 'z, 'r) session_env \<Rightarrow> string option \<Rightarrow> ('z, 'r) session \<Rightarrow> ('z, 'r) session" where
  "set_output_device_command env name s =
    snd (voice_do env (SetOutputDevice name) (save_core (on_core (\<lambda>c. c\<lparr>ap_output_device := name\<rparr>) s)))"

section \<open>Any step\<close>

text \<open>One thing that happens in a session, with the world at that time. \<open>LinkMoves\<close> is a step of the connection's own
  tasks, \<open>DialDone\<close> the network's answer to a connect that is under way.\<close>

datatype ('dev, 'z, 'r) session_event =
    FromServer string server_message
  | ConnectionLost
  | ReconnectAttempt string "32 word"
  | LinkMoves "client_message \<Rightarrow> byte list option" "byte list \<Rightarrow> server_message option" link_event
  | CmdConnect string
  | DialDone string
  | CmdDisconnect
  | CmdLeave
  | CmdSend client_message
  | CmdSetName string
  | CmdStartEcho
  | CmdCancelEcho
  | CmdSendDm "string \<Rightarrow> byte list option" string string
  | CmdInputDevice "string option"
  | CmdOutputDevice "string option"
  | CmdSettings os settings_command
  | TimersDue
  | PollVoice
  | VoiceChanged "('dev, 'z, 'r) actor_event"

text \<open>Some drain task receives (or dials): the attached one does as the connection says, another one may do either.\<close>

definition drain_may :: "bool \<Rightarrow> ('z, 'r) session \<Rightarrow> bool" where
  "drain_may receive s = (case ss_drains s of
      Attached \<Rightarrow> ap_draining (core_of s) \<and> (ap_conn (core_of s) \<noteq> None) = receive
    | Adrift \<Rightarrow> ap_draining (core_of s)
    | Detached \<Rightarrow> True)"

fun session_next ::
    "('dev, 'z, 'r) session_env \<Rightarrow> ('dev, 'z, 'r) session_event \<Rightarrow> ('z, 'r) session \<Rightarrow> ('z, 'r) session" where
  "session_next env (FromServer addr msg) s =
    (if drain_may True s then handle_server_message env addr msg s else s)"
| "session_next env ConnectionLost s =
    (if drain_may True s then tear_down_session env s else s)"
| "session_next env (ReconnectAttempt addr n) s =
    (if drain_may False s then snd (snd (reconnect_attempt env addr n s)) else s)"
| "session_next env (LinkMoves ser de ev) s =
    on_core (\<lambda>c. c\<lparr>ap_conn := map_option (\<lambda>lk. snd (snd (link_next ser de ev lk))) (ap_conn c)\<rparr>) s"
| "session_next env (CmdConnect addr) s = connect_begin env addr s"
| "session_next env (DialDone addr) s = (if addr \<in> set (ss_dials s) then snd (connect_finish env addr s) else s)"
| "session_next env CmdDisconnect s = disconnect_command env s"
| "session_next env CmdLeave s = snd (leave_channel_command env s)"
| "session_next env (CmdSend msg) s = snd (send_msg msg s)"
| "session_next env (CmdSetName name) s = snd (set_name_command name s)"
| "session_next env CmdStartEcho s = snd (start_echo_command s)"
| "session_next env CmdCancelEcho s = cancel_echo_command env s"
| "session_next env (CmdSendDm hex k text) s = snd (send_dm_to hex env k text s)"
| "session_next env (CmdInputDevice name) s = set_input_device_command env name s"
| "session_next env (CmdOutputDevice name) s = set_output_device_command env name s"
| "session_next env (CmdSettings sys cmd) s = s\<lparr>ss_desk := snd (run_settings sys cmd (ss_desk s))\<rparr>"
| "session_next env TimersDue s = fire_timers env s"
| "session_next env PollVoice s = snd (voice_do env TakeSnapshot s)"
| "session_next env (VoiceChanged ev) s = (case ev of
      Command _ _ \<Rightarrow> s | _ \<Rightarrow> s\<lparr>ss_actor := actor_next ev (ss_actor s)\<rparr>)"

definition session_run ::
    "(('dev, 'z, 'r) session_env \<times> ('dev, 'z, 'r) session_event) list \<Rightarrow> ('z, 'r) session \<Rightarrow> ('z, 'r) session" where
  "session_run es s = fold (\<lambda>(env, e). session_next env e) es s"

end
