(* ===== verification/Desktop_Persistence.thy ===== *)
theory Desktop_Persistence
  imports Desktop_Settings
begin

text \<open>
  What the settings file and a backup bring back, who can open the microphone, and what a failed change of a hotkey
  leaves behind: the properties of \<open>Desktop_Settings\<close> that span its commands.
\<close>

section \<open>The same settings\<close>

text \<open>Equal in all that is saved; of the volumes the map, whose order the file does not keep.\<close>

definition same_settings :: "app_core \<Rightarrow> app_core \<Rightarrow> bool" where
  "same_settings c c' \<longleftrightarrow>
     (settings_of c)\<lparr>us_peer_volumes := []\<rparr> = (settings_of c')\<lparr>us_peer_volumes := []\<rparr> \<and>
     hm_get (ap_peer_gains c) = hm_get (ap_peer_gains c')"

lemma same_settings_refl [simp]: "same_settings c c"
  by (simp add: same_settings_def)

lemma settings_muted [simp]: "settings_of (c\<lparr>ap_muted := b\<rparr>) = settings_of c"
  by (simp add: settings_of_def)

lemma same_settings_muted [simp]: "same_settings c (c'\<lparr>ap_muted := b\<rparr>) = same_settings c c'"
  by (simp add: same_settings_def)

lemma mode_roundtrip [simp]: "mode_parse (mode_as_str m) = Some m"
  by (cases m) (simp_all add: mode_parse_def ascii_lower_def Let_def)

lemma unwrap_or_simps [simp]: "unwrap_or d (Some v) = v" "unwrap_or d None = d"
  by (simp_all add: unwrap_or_def)

lemma opt_filter_keep [simp]: "P v \<Longrightarrow> opt_filter P (Some v) = Some v"
  by simp

lemma set_if_simps [simp]: "set_if (Some v) f c = f v c" "set_if None f c = c"
  by (simp_all add: set_if_def)

lemma gain_cycle: "pct_to_gain (gain_to_pct (pct_to_gain pct)) = pct_to_gain pct"
proof -
  have "unat (of_nat (min (unat pct) 200) :: 32 word) = min (unat pct) 200"
    by (simp add: unat_of_nat)
  then show ?thesis unfolding pct_roundtrip by (simp add: pct_to_gain_eq)
qed

lemma volumes_restored:
  assumes "gains_ok m" shows "hm_get (set_all_from_pct (pct_map m)) = hm_get m"
proof -
  have "hm_get (set_all_from_pct (pct_map m)) = hm_get m"
    if "\<forall>(n, g) \<in> set m. \<not> is_unity g \<and> (\<exists>pct. g = pct_to_gain pct)" for m :: peer_gains
    using that
  proof (induction m)
    case (Cons ng m)
    obtain n g where ng: "ng = (n, g)" by (rule prod.exhaust)
    with Cons.prems obtain pct where "g = pct_to_gain pct" "\<not> is_unity g" by auto
    moreover have "hm_get (set_all_from_pct (pct_map m)) = hm_get m" using Cons by simp
    ultimately show ?case by (auto simp: ng pct_map_def Let_def gain_cycle fun_eq_iff)
  qed (simp add: pct_map_def)
  moreover have "\<forall>(n, g) \<in> set m. \<not> is_unity g \<and> (\<exists>pct. g = pct_to_gain pct)"
    using assms by (auto simp: gains_ok_def hm_in_set)
  ultimately show ?thesis .
qed

section \<open>Restarting\<close>

lemma restart_same:
  assumes "core_ok c" shows "same_settings (app_new macos identity (settings_of c)) c"
proof -
  have v: "is_language (ap_language c)" "is_overlay_position (ap_overlay_position c)"
    "is_overlay_visibility (ap_overlay_visibility c)" "gains_ok (ap_peer_gains c)" using assms by (simp_all add: core_ok_def)
  show ?thesis
    by (simp add: same_settings_def app_new_def settings_of_def Let_def tofu_new_def from_pct_map_def
        volumes_restored v)
qed

lemma same_settings_derived:
  assumes "same_settings c c'" and "core_ok c" and "core_ok c'"
  shows "ap_vad_threshold c = ap_vad_threshold c' \<and> ap_input_gain c = ap_input_gain c' \<and> ap_output_vol c = ap_output_vol c'"
proof -
  have "mode_as_str (ap_voice_mode c) = mode_as_str (ap_voice_mode c')" "ap_vad_level_pct c = ap_vad_level_pct c'"
    "ap_input_gain_pct c = ap_input_gain_pct c'" "ap_output_vol_pct c = ap_output_vol_pct c'"
    using assms(1) by (simp_all add: same_settings_def settings_of_def)
  moreover from this(1) have "ap_voice_mode c = ap_voice_mode c'" by (metis mode_roundtrip option.inject)
  ultimately show ?thesis using assms(2,3) by (simp add: core_ok_def)
qed

text \<open>What a restart would bring back is what is set.\<close>

definition restorable :: "bool \<Rightarrow> byte list option \<Rightarrow> desk \<Rightarrow> bool" where
  "restorable macos identity d \<longleftrightarrow> core_ok (dk_core d) \<and> same_settings (app_new macos identity (dk_file d)) (dk_core d)"

lemma restorable_saved:
  "core_ok (dk_core d) \<Longrightarrow> dk_file d = settings_of (dk_core d) \<Longrightarrow> restorable macos identity d"
  by (simp add: restorable_def restart_same)

lemma restorable_updated: "core_ok (f (dk_core d)) \<Longrightarrow> restorable macos identity (snd (update_saved f d))"
  by (rule restorable_saved) simp_all

lemma handle_hotkey_muted: "\<exists>b. handle_hotkey action pressed c = c\<lparr>ap_muted := b\<rparr>"
  by (rule exI [of _ "ap_muted (handle_hotkey action pressed c)"])
    (simp add: handle_hotkey_def split: hotkey_action.split bool.split)

lemma restorable_command:
  assumes "restorable macos identity d" and "\<And>a. cmd \<noteq> UnsetHotkey a"
  shows "restorable macos identity (snd (run_settings sys cmd d))"
proof -
  have ok: "core_ok (dk_core d)" using assms(1) by (simp add: restorable_def)
  have muted: "restorable macos identity (d\<lparr>dk_core := (dk_core d)\<lparr>ap_muted := b\<rparr>\<rparr>)" for b
    using assms(1) by (simp add: restorable_def)
  show ?thesis
  proof (cases cmd)
    case (SetHotkey a k)
    show ?thesis
    proof (cases "dk_core (snd (set_hotkey sys a k d)) = dk_core d \<and> dk_file (snd (set_hotkey sys a k d)) = dk_file d")
      case True
      with assms(1) SetHotkey show ?thesis by (simp add: restorable_def)
    next
      case False
      with set_hotkey_core [of sys a k d] obtain h where "dk_core (snd (set_hotkey sys a k d)) = (dk_core d)\<lparr>ap_hotkeys := h\<rparr>"
          "dk_file (snd (set_hotkey sys a k d)) = settings_of (dk_core (snd (set_hotkey sys a k d)))" by blast
      with ok SetHotkey restorable_saved show ?thesis by simp
    qed
  next
    case (HotkeyEvent s pressed)
    show ?thesis
    proof (cases "resolve_action sys s (dk_core d)")
      case (Some action)
      obtain b where "handle_hotkey action pressed (dk_core d) = (dk_core d)\<lparr>ap_muted := b\<rparr>" using handle_hotkey_muted by blast
      with HotkeyEvent Some muted show ?thesis by simp
    qed (use assms(1) HotkeyEvent in simp)
  next
    case (UnsetHotkey a)
    with assms(2) show ?thesis by blast
  qed (use assms(1) ok muted in \<open>simp_all add: command_defs restorable_updated core_intros split: option.split\<close>)
qed

lemma restorable_run:
  "restorable macos identity d \<Longrightarrow> \<forall>a. UnsetHotkey a \<notin> set cmds \<Longrightarrow> restorable macos identity (settings_run sys cmds d)"
proof (induction cmds arbitrary: d)
  case (Cons cmd cmds)
  have "restorable macos identity (snd (run_settings sys cmd d))"
    using Cons.prems(2) by (intro restorable_command [OF Cons.prems(1)]) (metis list.set_intros(1))
  from Cons.IH [OF this] Cons.prems(2) show ?case by (simp add: settings_run_def)
qed (simp add: settings_run_def)

text \<open>C36 The settings survive a restart. Starting from any settings file and after any commands (but the removal of a
  hotkey, which skips saving when the stored key does not parse), reading the file again gives a core with the same
  settings as the running one, the defaults that the file left open included: the same server, devices, name, mode,
  levels, choices, pins, registries, and volume for every peer, hence the same numbers for the audio threads. Only the
  mute switch is not kept: the microphone of the new core is muted exactly in push-to-talk mode.\<close>

theorem restart_restores:
  assumes "\<forall>a. UnsetHotkey a \<notin> set cmds"
    and "d = settings_run sys cmds \<lparr>dk_core = app_new macos identity saved, dk_file = saved, dk_shortcuts = sc\<rparr>"
  shows "same_settings (app_new macos identity (dk_file d)) (dk_core d) \<and>
    ap_vad_threshold (app_new macos identity (dk_file d)) = ap_vad_threshold (dk_core d) \<and>
    ap_input_gain (app_new macos identity (dk_file d)) = ap_input_gain (dk_core d) \<and>
    ap_output_vol (app_new macos identity (dk_file d)) = ap_output_vol (dk_core d) \<and>
    (ap_muted (app_new macos identity (dk_file d)) \<longleftrightarrow> ap_voice_mode (app_new macos identity (dk_file d)) = PttMode)"
proof -
  have "restorable macos identity d" unfolding assms(2) using assms(1) by (intro restorable_run) (simp_all add: restorable_def)
  then have r: "core_ok (dk_core d)" "same_settings (app_new macos identity (dk_file d)) (dk_core d)"
    by (simp_all add: restorable_def)
  with same_settings_derived [OF r(2) core_ok_new r(1)] show ?thesis by (simp add: app_new_def Let_def)
qed

theorem restart_restores_witness:
  "let d = settings_run \<lparr>os_shortcut = \<lambda>k. None, os_register = \<lambda>s. True, os_autostart = \<lambda>b. True\<rparr>
        [SetVoiceMode ''PTT'', SetMute False, SetPeerVolume ''bob'' 50]
        \<lparr>dk_core = app_new True None settings_default, dk_file = settings_default, dk_shortcuts = []\<rparr>
   in same_settings (app_new True None (dk_file d)) (dk_core d)"
  unfolding Let_def by (rule restart_restores [THEN conjunct1, OF _ refl]) simp

section \<open>Backups\<close>

definition in_range :: "app_core \<Rightarrow> bool" where
  "in_range c \<longleftrightarrow> unat (ap_vad_level_pct c) \<le> 100 \<and> unat (ap_input_gain_pct c) \<le> 400 \<and> unat (ap_output_vol_pct c) \<le> 400"

lemma clamp_pct_id: "unat pct \<le> high \<Longrightarrow> clamp_pct high pct = pct"
  by (simp add: clamp_pct_def min_absorb1)

text \<open>A backup carries everything over. Importing into any running core what another core (in a consistent state,
  its percentages in range) exported gives the same settings as that other core, saved at once, and leaves what belongs
  to this device and its session: the identity, the connection, the channel, the people in it. But the microphone is
  set to muted or not by the imported mode, whatever it was.\<close>

theorem backup_roundtrip:
  assumes "\<And>s j. to_json s = Some j \<Longrightarrow> from_json j = Some s"
    and "core_ok (dk_core d)" and "in_range (dk_core d)"
    and "export_settings to_json d = Inr j" and "import_settings (from_json j) e = (r, e')"
  shows "r = Inr () \<and> same_settings (dk_core e') (dk_core d) \<and> dk_file e' = settings_of (dk_core e') \<and>
    ap_identity (dk_core e') = ap_identity (dk_core e) \<and> ap_conn (dk_core e') = ap_conn (dk_core e) \<and>
    ap_channel (dk_core e') = ap_channel (dk_core e) \<and> ap_participants (dk_core e') = ap_participants (dk_core e) \<and>
    (ap_muted (dk_core e') \<longleftrightarrow> ap_voice_mode (dk_core d) = PttMode)"
proof -
  define c where "c = dk_core d"
  have v: "is_language (ap_language c)" "is_overlay_position (ap_overlay_position c)"
    "is_overlay_visibility (ap_overlay_visibility c)" "gains_ok (ap_peer_gains c)"
    using assms(2) by (simp_all add: core_ok_def c_def)
  have p: "clamp_pct 100 (ap_vad_level_pct c) = ap_vad_level_pct c" "clamp_pct 400 (ap_input_gain_pct c) = ap_input_gain_pct c"
    "clamp_pct 400 (ap_output_vol_pct c) = ap_output_vol_pct c"
    using assms(3) by (simp_all add: in_range_def c_def clamp_pct_id)
  have "from_json j = Some (settings_of c)" using assms(1,4) by (simp add: export_settings_def c_def split: option.splits)
  then have e': "r = Inr ()" "dk_core e' = import_into (settings_of c) (dk_core e)" "dk_file e' = settings_of (dk_core e')"
    using assms(5) by (auto simp: import_settings_def update_saved_def save_def)
  define i where "i = import_into (settings_of c) (dk_core e)"
  have i: "same_settings i c" "ap_muted i \<longleftrightarrow> ap_voice_mode c = PttMode"
    "ap_identity i = ap_identity (dk_core e)" "ap_conn i = ap_conn (dk_core e)"
    "ap_channel i = ap_channel (dk_core e)" "ap_participants i = ap_participants (dk_core e)"
    by (simp_all add: i_def import_into_def settings_of_def same_settings_def Let_def v p volumes_restored
        apply_voice_mode_def apply_vad_level_def apply_input_gain_pct_def apply_output_vol_def tofu_new_def)
  then show ?thesis using e' by (simp add: c_def i_def)
qed

section \<open>The microphone\<close>

lemma set_if_keeps: "(\<And>v c. g (f v c) = g c) \<Longrightarrow> g (set_if x f c) = g c"
  by (simp add: set_if_def split: option.split)

lemma set_if_mode:
  "ap_muted (set_if x apply_voice_mode c) = (case x of Some mode \<Rightarrow> mode = PttMode | None \<Rightarrow> ap_muted c)"
  by (simp add: set_if_def apply_voice_mode_def Let_def split: option.split)

lemma muted_imported: "ap_muted (import_into s c) =
    (case Option.bind (us_voice_mode s) mode_parse of Some mode \<Rightarrow> mode = PttMode | None \<Rightarrow> ap_muted c)"
  by (simp add: import_into_def Let_def set_if_mode set_if_keeps [of ap_muted] apply_vad_level_def apply_input_gain_pct_def
      apply_output_vol_def split: option.split)

lemma opened_iff:
  "(ap_muted (dk_core d) \<and> \<not> ap_muted (dk_core (snd (run_settings sys cmd d)))) \<longleftrightarrow>
   (ap_muted (dk_core d) \<and>
    (cmd = SetMute False \<or> cmd = PttPress \<or> cmd = TrayToggleMute \<or>
     (\<exists>s. cmd = HotkeyEvent s True \<and> resolve_action sys s (dk_core d) \<in> {Some HkMute, Some HkPtt}) \<or>
     (\<exists>m mode. cmd = SetVoiceMode m \<and> mode_parse m = Some mode \<and> mode \<noteq> PttMode) \<or>
     (\<exists>s mode. cmd = ImportSettings (Some s) \<and> Option.bind (us_voice_mode s) mode_parse = Some mode \<and> mode \<noteq> PttMode)))"
proof (cases cmd)
  case (SetHotkey a k)
  then show ?thesis using set_hotkey_core [of sys a k d] by auto
next
  case (UnsetHotkey a)
  then show ?thesis using unset_hotkey_core [of sys a d] by auto
next
  case (HotkeyEvent s pressed)
  then show ?thesis
    by (auto simp: handle_hotkey_def split: option.splits hotkey_action.splits bool.splits)
next
  case (SetVoiceMode m)
  then show ?thesis by (auto simp: set_voice_mode_def apply_voice_mode_def Let_def split: option.splits)
next
  case (ImportSettings parsed)
  show ?thesis
  proof (cases parsed)
    case (Some s)
    show ?thesis using ImportSettings Some muted_imported [of s "dk_core d"] by (auto simp: import_settings_def split: option.splits)
  qed (use ImportSettings in \<open>simp add: import_settings_def\<close>)
qed (simp_all add: command_defs apply_vad_level_def apply_input_gain_pct_def apply_output_vol_def apply_peer_volume_def Let_def)

text \<open>Of all the commands, exactly these open a muted microphone: the mute switch, the push-to-talk key of the
  window, the toggle of the tray menu, the mute and push-to-talk hotkeys when pressed, and, as a side effect, any change of the voice mode to
  another mode than push-to-talk, on its own or as part of an imported backup.\<close>

theorem mic_opened_by:
  "(ap_muted (dk_core d) \<and> \<not> ap_muted (dk_core (snd (run_settings sys cmd d)))) \<longleftrightarrow>
   (ap_muted (dk_core d) \<and>
    (cmd = SetMute False \<or> cmd = PttPress \<or> cmd = TrayToggleMute \<or>
     (\<exists>s. cmd = HotkeyEvent s True \<and> resolve_action sys s (dk_core d) \<in> {Some HkMute, Some HkPtt}) \<or>
     (\<exists>m mode. cmd = SetVoiceMode m \<and> mode_parse m = Some mode \<and> mode \<noteq> PttMode) \<or>
     (\<exists>s mode. cmd = ImportSettings (Some s) \<and> Option.bind (us_voice_mode s) mode_parse = Some mode \<and> mode \<noteq> PttMode)))"
  by (rule opened_iff)

section \<open>Hotkeys\<close>

text \<open>A change of hotkey that the system refuses loses the old one: the command fails and the stored binding is
  unchanged, but the old shortcut has been unregistered, so pressing it no longer does anything until the application
  is started again.\<close>

theorem failed_rebind_unbinds:
  assumes "hotkey_parse action = Some parsed" and "hm_get (ap_hotkeys (dk_core d)) (hotkey_as_str parsed) = Some old"
    and "os_shortcut sys old = Some s" and "os_shortcut sys accel = Some t" and "\<not> os_register sys t"
    and "set_hotkey sys action accel d = (r, d')"
  shows "r \<noteq> Inr () \<and> dk_core d' = dk_core d \<and> dk_file d' = dk_file d \<and> s \<notin> set (dk_shortcuts d')"
  using assms by (auto simp: set_hotkey_def register_internal_def unregister_def)

theorem failed_rebind_unbinds_witness:
  "let c = (app_new True None settings_default)\<lparr>ap_hotkeys := [(''mute'', ''F8'')]\<rparr>;
       (r, d) = set_hotkey \<lparr>os_shortcut = (\<lambda>k. Some (length k)), os_register = (\<lambda>s. s = 2), os_autostart = \<lambda>b. True\<rparr>
         ''Mute'' ''F10'' \<lparr>dk_core = c, dk_file = settings_of c, dk_shortcuts = [2]\<rparr>
   in r \<noteq> Inr () \<and> ap_hotkeys (dk_core d) = [(''mute'', ''F8'')] \<and> 2 \<notin> set (dk_shortcuts d)"
proof -
  define c where "c = (app_new True None settings_default)\<lparr>ap_hotkeys := [(''mute'', ''F8'')]\<rparr>"
  define sys where "sys = \<lparr>os_shortcut = (\<lambda>k. Some (length k)), os_register = (\<lambda>s. s = 2), os_autostart = \<lambda>b :: bool. True\<rparr>"
  define d where "d = \<lparr>dk_core = c, dk_file = settings_of c, dk_shortcuts = [2 :: nat]\<rparr>"
  obtain r d' where r: "set_hotkey sys ''Mute'' ''F10'' d = (r, d')" by (rule prod.exhaust)
  have h: "hotkey_parse ''Mute'' = Some HkMute" by (simp add: hotkey_parse_def ascii_lower_def char_of_def bit_iff_odd)
  have k: "ap_hotkeys (dk_core d) = [(''mute'', ''F8'')]" by (simp add: d_def c_def)
  have "r \<noteq> Inr () \<and> dk_core d' = dk_core d \<and> dk_file d' = dk_file d \<and> 2 \<notin> set (dk_shortcuts d')"
    by (rule failed_rebind_unbinds [OF h _ _ _ _ r, where old = "''F8''" and t = 3]) (simp_all add: k sys_def)
  then show ?thesis using r k unfolding c_def [symmetric] sys_def [symmetric] d_def [symmetric] Let_def by simp
qed

end
