(* ===== verification/Desktop_Session_Properties.thy ===== *)
theory Desktop_Session_Properties
  imports Desktop_Session Desktop_Persistence
begin

text \<open>
  What holds of a desktop session: a call needs a connection and joining one starts it muted, hanging up is final, a lost
  connection is dialled again, the history keeps what was said; and what a forgotten timer of the sound check does.
\<close>

section \<open>What the steps touch\<close>

lemma on_core_sel [simp]:
  "core_of (on_core f s) = f (core_of s)" "ss_actor (on_core f s) = ss_actor s" "ss_events (on_core f s) = ss_events s"
  "ss_echo_timers (on_core f s) = ss_echo_timers s" "ss_history (on_core f s) = ss_history s"
  "ss_call_flags (on_core f s) = ss_call_flags s"
  by (simp_all add: on_core_def)

lemma save_core_sel [simp]:
  "core_of (save_core s) = core_of s" "ss_actor (save_core s) = ss_actor s" "ss_events (save_core s) = ss_events s"
  "ss_echo_timers (save_core s) = ss_echo_timers s" "ss_history (save_core s) = ss_history s"
  "ss_call_flags (save_core s) = ss_call_flags s"
  by (simp_all add: save_core_def save_def)

lemma emit_sel [simp]:
  "ss_desk (emit ev s) = ss_desk s" "ss_actor (emit ev s) = ss_actor s" "ss_echo_timers (emit ev s) = ss_echo_timers s"
  "ss_events (emit ev s) = ss_events s @ [ev]" "ss_history (emit ev s) = ss_history s" "ss_call_flags (emit ev s) = ss_call_flags s"
  by (simp_all add: emit_def)

lemma maybe_notify_sel [simp]:
  "ss_desk (maybe_notify env t b s) = ss_desk s" "ss_actor (maybe_notify env t b s) = ss_actor s"
  by (simp_all add: maybe_notify_def)

lemma log_line_sel [simp]:
  "ss_desk (log_line env ch k f t s) = ss_desk s" "ss_actor (log_line env ch k f t s) = ss_actor s"
  by (simp_all add: log_line_def split: option.split)

lemma voice_do_sel [simp]:
  "ss_desk (snd (voice_do env cmd s)) = ss_desk s" "ss_echo_timers (snd (voice_do env cmd s)) = ss_echo_timers s"
  "ss_actor (snd (voice_do env cmd s)) = snd (actor_step (sv_actor env) cmd (ss_actor s))"
  "ss_call_flags (snd (voice_do env cmd s)) = ss_call_flags s" "ss_events (snd (voice_do env cmd s)) = ss_events s"
  "fst (voice_do env cmd s) = fst (actor_step (sv_actor env) cmd (ss_actor s))"
  by (simp_all add: voice_do_def split: prod.split)

lemma voice_stop_sel [simp]:
  "ss_desk (voice_stop env s) = ss_desk s" "ss_echo_timers (voice_stop env s) = ss_echo_timers s"
  "ss_actor (voice_stop env s) = (ss_actor s)\<lparr>ac_handle := None, ac_last_params := None\<rparr>"
  "ss_events (voice_stop env s) = ss_events s"
  by (simp_all add: voice_stop_def)

text \<open>Which connects are under way and how the drain tasks stand.\<close>

definition standing :: "('z, 'r) session \<Rightarrow> string list \<times> drain_reach" where
  "standing s = (ss_dials s, ss_drains s)"

lemma standing_sel [simp]:
  "standing (on_core f s) = standing s" "standing (save_core s) = standing s" "standing (emit ev s) = standing s"
  "standing (maybe_notify env t b s) = standing s" "standing (log_line env ch k f2 t s) = standing s"
  "standing (snd (voice_do env cmd s)) = standing s" "standing (voice_stop env s) = standing s"
  "standing (conn_tell msg s) = standing s" "standing (s\<lparr>ss_echo_timers := ts\<rparr>) = standing s"
  "standing (s\<lparr>ss_echo_flags := flags\<rparr>) = standing s" "standing (s\<lparr>ss_call_flags := flags\<rparr>) = standing s"
  "standing (s\<lparr>ss_desk := d\<rparr>) = standing s" "standing (s\<lparr>ss_actor := ac\<rparr>) = standing s"
  by (simp_all add: standing_def on_core_def save_core_def emit_def maybe_notify_def log_line_def voice_do_def voice_stop_def
      conn_tell_def split: option.split prod.split)

lemma reach_sel: "ss_dials s = fst (standing s)" "ss_drains s = snd (standing s)"
  by (simp_all add: standing_def)

lemma standing_updates [simp]:
  "standing (s\<lparr>ss_dials := d\<rparr>) = (d, snd (standing s))" "standing (s\<lparr>ss_drains := r\<rparr>) = (fst (standing s), r)"
  by (simp_all add: standing_def)

lemma standing_send [simp]: "standing (snd (send_msg msg s)) = standing s"
  by (auto simp: send_msg_def split: option.split sum.split prod.split)

lemma standing_dial [simp]: "standing (snd (dial env addr s)) = standing s"
  by (simp add: dial_def Let_def split: prod.split)

lemma standing_announce [simp]: "standing (announce_name s) = standing s"
  by (simp add: announce_name_def split: option.split)

lemma standing_voice: "voice_do env cmd s = (r, s') \<Longrightarrow> standing s' = standing s"
  using standing_sel(6) [of env cmd s] by simp

lemma standing_spawn [simp]: "standing (spawn_voice env s) = standing s" "standing (spawn_echo env ch token key s) = standing s"
  by (auto simp: spawn_voice_def spawn_echo_def Let_def dest: standing_voice split: option.split prod.split reply.split sum.split)

lemma standing_message [simp]: "standing (handle_server_message env addr msg s) = standing s"
  by (cases msg) (auto simp: joined_channel_def Let_def split: option.split)

lemma standing_timers [simp]: "standing (fold (\<lambda>t. echo_timer env) ts s) = standing s"
proof (induction ts arbitrary: s)
  case (Cons t ts)
  have "standing (echo_timer env s) = standing s"
    by (auto simp: echo_timer_def dest: standing_voice split: prod.split reply.split)
  with Cons show ?case by simp
qed simp

lemma standing_reconnect [simp]: "standing (snd (snd (reconnect_attempt env addr n s))) = standing s"
proof -
  define m where "m = (if n = - 1 then n else n + 1)"
  obtain r s1 where d: "dial env addr (emit (EvConnectionState (ConnReconnecting m (backoff_seconds m))) s) = (r, s1)"
    by (rule prod.exhaust)
  have "standing s1 = standing s" using arg_cong [OF d, of "\<lambda>p. standing (snd p)"] by simp
  then show ?thesis unfolding reconnect_attempt_def m_def [symmetric] Let_def d by (simp split: sum.split)
qed

lemma standing_dm [simp]: "standing (snd (send_dm_to hex env k body s)) = standing s"
proof (cases "send_msg (CDirectMessage (the (hex k)) body) s")
  case (Pair r s1)
  then have "standing s1 = standing s" using standing_send [of "CDirectMessage (the (hex k)) body" s] by simp
  with Pair show ?thesis by (cases r) (auto simp: send_dm_to_def split: option.split)
qed

text \<open>Only connecting and disconnecting change them.\<close>

lemma standing_next:
  "\<forall>addr. e \<noteq> CmdConnect addr \<and> e \<noteq> DialDone addr \<Longrightarrow> e \<noteq> CmdDisconnect \<Longrightarrow> standing (session_next env e s) = standing s"
  by (cases e) (auto simp: tear_down_session_def leave_channel_command_def set_name_command_def start_echo_command_def
      cancel_echo_command_def set_input_device_command_def set_output_device_command_def fire_timers_def Let_def
      split: actor_event.split)

text \<open>The fields of the session, which no settings command touches.\<close>

definition live_part :: "app_core \<Rightarrow> client_link option \<times> channel_id option \<times> string list \<times> pending_join option \<times> bool" where
  "live_part c = (ap_conn c, ap_channel c, ap_participants c, ap_pending_join c, ap_draining c)"

lemma live_part_applied [simp]:
  "live_part (apply_voice_mode m c) = live_part c" "live_part (apply_vad_level p c) = live_part c"
  "live_part (apply_input_gain_pct p c) = live_part c" "live_part (apply_output_vol p c) = live_part c"
  "live_part (apply_peer_volume n p c) = live_part c"
  by (simp_all add: live_part_def apply_voice_mode_def apply_vad_level_def apply_input_gain_pct_def apply_output_vol_def
      apply_peer_volume_def Let_def)

lemma live_part_other [simp]:
  "live_part (c\<lparr>ap_server_addr := a\<rparr>) = live_part c" "live_part (c\<lparr>ap_input_device := b\<rparr>) = live_part c"
  "live_part (c\<lparr>ap_output_device := b\<rparr>) = live_part c" "live_part (c\<lparr>ap_name := b\<rparr>) = live_part c"
  "live_part (c\<lparr>ap_paranoid := x\<rparr>) = live_part c" "live_part (c\<lparr>ap_agc := x\<rparr>) = live_part c"
  "live_part (c\<lparr>ap_denoise := x\<rparr>) = live_part c" "live_part (c\<lparr>ap_hotkeys := h\<rparr>) = live_part c"
  "live_part (c\<lparr>ap_notifications := x\<rparr>) = live_part c" "live_part (c\<lparr>ap_autostart := x\<rparr>) = live_part c"
  "live_part (c\<lparr>ap_close_to_tray := x\<rparr>) = live_part c" "live_part (c\<lparr>ap_tofu := t\<rparr>) = live_part c"
  "live_part (c\<lparr>ap_servers := ss\<rparr>) = live_part c" "live_part (c\<lparr>ap_dm_peers := ps\<rparr>) = live_part c"
  "live_part (c\<lparr>ap_overlay_enabled := x\<rparr>) = live_part c" "live_part (c\<lparr>ap_muted := x\<rparr>) = live_part c"
  "live_part (c\<lparr>ap_language := n\<rparr>) = live_part c" "live_part (c\<lparr>ap_overlay_position := n\<rparr>) = live_part c"
  "live_part (c\<lparr>ap_overlay_visibility := n\<rparr>) = live_part c" "live_part (c\<lparr>ap_peer_gains := m\<rparr>) = live_part c"
  by (simp_all add: live_part_def)

lemma live_part_import [simp]: "live_part (import_into s c) = live_part c"
  unfolding import_into_def Let_def by (simp add: set_if_keeps [of live_part])

lemma live_part_settings: "live_part (dk_core (snd (run_settings sys cmd d))) = live_part (dk_core d)"
proof (cases cmd)
  case (SetHotkey a k)
  with set_hotkey_core [of sys a k d] show ?thesis by auto
next
  case (UnsetHotkey a)
  with unset_hotkey_core [of sys a d] show ?thesis by auto
next
  case (HotkeyEvent s pressed)
  show ?thesis
  proof (cases "resolve_action sys s (dk_core d)")
    case (Some action)
    obtain b where "handle_hotkey action pressed (dk_core d) = (dk_core d)\<lparr>ap_muted := b\<rparr>" using handle_hotkey_muted by blast
    with HotkeyEvent Some show ?thesis by simp
  qed (simp add: HotkeyEvent)
qed (simp_all add: command_defs split: option.split)

section \<open>The invariant\<close>

text \<open>A join is never left pending. As long as the only drain task is the attached one, without a connection there is no channel,
  nobody in it, and no call, and with one that task runs.\<close>

abbreviation loose :: "('z, 'r) session \<Rightarrow> bool" where
  "loose s \<equiv> snd (standing s) \<noteq> Attached"

definition session_ok :: "('z, 'r) session \<Rightarrow> bool" where
  "session_ok s \<longleftrightarrow> core_ok (core_of s) \<and> actor_ok (ss_actor s) \<and> ap_pending_join (core_of s) = None \<and>
     (\<not> loose s \<longrightarrow> (if ap_conn (core_of s) = None
       then ap_channel (core_of s) = None \<and> ap_participants (core_of s) = [] \<and> ac_last_params (ss_actor s) = None
       else ap_draining (core_of s)))"

lemma stopped_ok [simp]: "actor_ok ac \<Longrightarrow> actor_ok (ac\<lparr>ac_handle := None, ac_last_params := None\<rparr>)"
  by (simp add: actor_ok_def)

lemma forget_session_sel [simp]:
  "ap_conn (forget_session c) = None" "ap_channel (forget_session c) = None" "ap_participants (forget_session c) = []"
  "ap_pending_join (forget_session c) = None" "core_ok (forget_session c) = core_ok c"
  "ap_name (forget_session c) = ap_name c" "ap_server_addr (forget_session c) = ap_server_addr c"
  "ap_draining (forget_session c) = ap_draining c"
  by (simp_all add: forget_session_def)

lemma conn_tell_sel [simp]:
  "ss_actor (conn_tell msg s) = ss_actor s" "core_ok (core_of (conn_tell msg s)) = core_ok (core_of s)"
  "(ap_conn (core_of (conn_tell msg s)) = None) = (ap_conn (core_of s) = None)"
  "ap_channel (core_of (conn_tell msg s)) = ap_channel (core_of s)"
  "ap_participants (core_of (conn_tell msg s)) = ap_participants (core_of s)"
  "ap_pending_join (core_of (conn_tell msg s)) = ap_pending_join (core_of s)"
  "ap_muted (core_of (conn_tell msg s)) = ap_muted (core_of s)" "ap_name (core_of (conn_tell msg s)) = ap_name (core_of s)"
  "ap_draining (core_of (conn_tell msg s)) = ap_draining (core_of s)"
  "ap_input_device (core_of (conn_tell msg s)) = ap_input_device (core_of s)"
  "ap_output_device (core_of (conn_tell msg s)) = ap_output_device (core_of s)"
  "ss_echo_timers (conn_tell msg s) = ss_echo_timers s" "ss_call_flags (conn_tell msg s) = ss_call_flags s"
  "ss_events (conn_tell msg s) = ss_events s"
  by (auto simp: conn_tell_def split: option.splits)

lemma session_ok_tell [simp]: "session_ok (conn_tell msg s) = session_ok s"
  by (simp add: session_ok_def)

lemma session_ok_emit [simp]: "session_ok (emit ev s) = session_ok s"
  by (simp add: session_ok_def)

lemma session_ok_save [simp]: "session_ok (save_core s) = session_ok s"
  by (simp add: session_ok_def)

lemma session_ok_notify [simp]: "session_ok (maybe_notify env t b s) = session_ok s"
  by (simp add: session_ok_def)

lemma session_ok_log [simp]: "session_ok (log_line env ch k f t s) = session_ok s"
  by (simp add: session_ok_def)

lemma session_ok_send: "session_ok s \<Longrightarrow> session_ok (snd (send_msg msg s))"
  by (auto simp: send_msg_def session_ok_def split: option.split sum.split prod.split)

lemma session_ok_stop: "session_ok s \<Longrightarrow> session_ok (voice_stop env s)"
  by (simp add: session_ok_def)

text \<open>No command but a start makes a call out of nothing.\<close>

lemma session_ok_voice:
  assumes "session_ok s" and "\<forall>p. cmd \<noteq> StartVoice p" shows "session_ok (snd (voice_do env cmd s))"
proof -
  have "ac_last_params (ss_actor s) = None \<Longrightarrow> ac_last_params (snd (actor_step (sv_actor env) cmd (ss_actor s))) = None"
    using idle_step [of "ss_actor s" "Command (sv_actor env) cmd"] assms by (auto simp: session_ok_def)
  then show ?thesis using assms(1) by (simp add: session_ok_def actor_step_ok)
qed

lemma session_ok_echo_timer: "session_ok s \<Longrightarrow> session_ok (echo_timer env s)"
  using session_ok_voice [of s EchoStop env]
  by (auto simp: echo_timer_def split: prod.split reply.split)

lemma session_ok_fold: "session_ok s \<Longrightarrow> session_ok (fold (\<lambda>t. echo_timer env) ts s)"
  by (induction ts arbitrary: s) (simp_all add: session_ok_echo_timer)

lemma session_ok_timers: "session_ok s \<Longrightarrow> session_ok (fire_timers env s)"
  unfolding fire_timers_def Let_def by (rule session_ok_fold) (simp add: session_ok_def)

lemma echo_timers_sel [simp]: "session_ok (s\<lparr>ss_echo_timers := ts\<rparr>) = session_ok s" "session_ok (s\<lparr>ss_echo_flags := flags\<rparr>) = session_ok s"
  "session_ok (s\<lparr>ss_call_flags := flags\<rparr>) = session_ok s"
  by (simp_all add: session_ok_def)

lemma session_ok_spawn_echo: "session_ok s \<Longrightarrow> session_ok (spawn_echo env ch token key s)"
proof (cases "ap_conn (core_of s)")
  case (Some lk)
  let ?flags = "\<lparr>cf_muted = OwnFlag False, cf_denoise = OwnFlag False, cf_paranoid = OwnFlag False, cf_peer_gains = OwnFlag pg_new\<rparr>"
  let ?p = "voice_params_of (core_of s) lk ch token key True"
  assume "session_ok s"
  then have "session_ok (snd (voice_do env (EchoStart ?p) (s\<lparr>ss_echo_flags := ?flags\<rparr>)))"
    by (intro session_ok_voice) simp_all
  with Some show ?thesis by (auto simp: spawn_echo_def Let_def split: prod.split reply.split sum.split)
qed (simp add: spawn_echo_def)

section \<open>Joining a channel\<close>

lemma spawn_voice_exact:
  assumes "ap_pending_join (core_of s) = Some p" and "ap_conn (core_of s) = Some lk"
  defines "c \<equiv> (core_of s)\<lparr>ap_pending_join := None\<rparr>"
  shows "core_of (spawn_voice env s) = c"
    and "ss_actor (spawn_voice env s) = snd (actor_step (sv_actor env)
      (StartVoice (voice_params_of c lk (pj_channel_id p) (pj_udp_token p) (pj_voice_key p) False)) (ss_actor s))"
    and "cf_muted (ss_call_flags (spawn_voice env s)) = CoreFlag"
    and "ss_echo_timers (spawn_voice env s) = ss_echo_timers s"
proof -
  let ?q = "voice_params_of c lk (pj_channel_id p) (pj_udp_token p) (pj_voice_key p) False"
  let ?s = "(on_core (\<lambda>c. c\<lparr>ap_pending_join := None\<rparr>) s)\<lparr>ss_call_flags :=
      \<lparr>cf_muted = CoreFlag, cf_denoise = CoreFlag, cf_paranoid = CoreFlag, cf_peer_gains = CoreFlag\<rparr>\<rparr>"
  obtain r s' where v: "voice_do env (StartVoice ?q) ?s = (r, s')" by (rule prod.exhaust)
  have s': "core_of s' = c" "ss_actor s' = snd (actor_step (sv_actor env) (StartVoice ?q) (ss_actor s))"
    "cf_muted (ss_call_flags s') = CoreFlag" "ss_echo_timers s' = ss_echo_timers s"
    using voice_do_sel [of env "StartVoice ?q" ?s] v by (simp_all add: c_def del: voice_do_sel)
  have e: "spawn_voice env s = (case (r, s') of (StartReply (Inl e), s) \<Rightarrow> emit (EvError (''voice failed: '' @ e)) s | (_, s) \<Rightarrow> s)"
    using assms(1,2) v by (simp add: spawn_voice_def Let_def c_def)
  show "core_of (spawn_voice env s) = c"
    "ss_actor (spawn_voice env s) = snd (actor_step (sv_actor env) (StartVoice ?q) (ss_actor s))"
    "cf_muted (ss_call_flags (spawn_voice env s)) = CoreFlag" "ss_echo_timers (spawn_voice env s) = ss_echo_timers s"
    unfolding e using s' by (auto split: reply.split sum.split)
qed

lemma conn_tell_addr:
  "ap_conn (core_of s) = Some lk \<Longrightarrow>
   \<exists>lk'. ap_conn (core_of (conn_tell msg s)) = Some lk' \<and> lk_peer_addr lk' = lk_peer_addr lk"
  by (simp add: conn_tell_def conn_send_def split: option.split)

text \<open>The state just before the voice is started.\<close>

definition about_to_speak ::
    "channel_id \<Rightarrow> string list \<Rightarrow> 64 word \<Rightarrow> byte list \<Rightarrow> ('z, 'r) session \<Rightarrow> ('z, 'r) session \<Rightarrow> bool" where
  "about_to_speak ch people token key s t \<longleftrightarrow>
     ap_channel (core_of t) = Some ch \<and> ap_participants (core_of t) = people \<and> ap_muted (core_of t) \<and>
     ap_pending_join (core_of t) = Some \<lparr>pj_channel_id = ch, pj_udp_token = token, pj_voice_key = key\<rparr> \<and>
     map_option lk_peer_addr (ap_conn (core_of t)) = map_option lk_peer_addr (ap_conn (core_of s)) \<and>
     ap_name (core_of t) = ap_name (core_of s) \<and> ap_input_device (core_of t) = ap_input_device (core_of s) \<and>
     ap_output_device (core_of t) = ap_output_device (core_of s) \<and> ap_draining (core_of t) = ap_draining (core_of s) \<and>
     core_ok (core_of t) = core_ok (core_of s) \<and> ss_actor t = ss_actor s \<and> ss_echo_timers t = ss_echo_timers s"

lemma joined_prepared:
  "\<exists>t. joined_channel env ch people token key s = spawn_voice env t \<and> about_to_speak ch people token key s t"
proof -
  let ?s1 = "on_core (\<lambda>c. c\<lparr>ap_channel := Some ch, ap_participants := people\<rparr>) s"
  define s2 where "s2 = (case ap_server_addr (core_of ?s1) of
      Some addr \<Rightarrow> save_core (on_core (\<lambda>c. c\<lparr>ap_servers := record_channel addr ch (ap_servers c)\<rparr>) ?s1) | None \<Rightarrow> ?s1)"
  define s3 where "s3 = on_core (\<lambda>c. c\<lparr>ap_pending_join := Some \<lparr>pj_channel_id = ch, pj_udp_token = token, pj_voice_key = key\<rparr>,
      ap_muted := True\<rparr>) s2"
  define s4 where "s4 = (case (ap_name (core_of s3), ap_conn (core_of s3)) of
      (Some name, Some lk) \<Rightarrow> if name \<notin> set people then conn_tell (SetName name) s3 else s3 | _ \<Rightarrow> s3)"
  have 3: "about_to_speak ch people token key s s3"
    by (simp add: s3_def s2_def about_to_speak_def split: option.split)
  have "about_to_speak ch people token key s s4"
  proof (cases "ap_conn (core_of s3)")
    case None
    then show ?thesis using 3 by (simp add: s4_def split: option.split)
  next
    case (Some lk)
    have "map_option lk_peer_addr (ap_conn (core_of (conn_tell msg s3))) = map_option lk_peer_addr (ap_conn (core_of s3))" for msg
      using conn_tell_addr [OF Some, of msg] Some by auto
    then have "about_to_speak ch people token key s (conn_tell msg s3)" for msg
      using 3 by (simp add: about_to_speak_def)
    with 3 show ?thesis by (simp add: s4_def split: option.split)
  qed
  then have "about_to_speak ch people token key s (emit (EvJoinedChannel ch people) s4)" by (simp add: about_to_speak_def)
  moreover have "joined_channel env ch people token key s = spawn_voice env (emit (EvJoinedChannel ch people) s4)"
    unfolding joined_channel_def Let_def s2_def [symmetric] s3_def [symmetric] s4_def [symmetric] ..
  ultimately show ?thesis by blast
qed

lemma joined_shape:
  assumes "ap_conn (core_of s) = Some lk" and "s' = joined_channel env ch people token key s"
  shows "ap_channel (core_of s') = Some ch" and "ap_participants (core_of s') = people" and "ap_muted (core_of s')"
    and "ap_pending_join (core_of s') = None" and "ap_conn (core_of s') \<noteq> None"
    and "core_ok (core_of s') = core_ok (core_of s)" and "ap_draining (core_of s') = ap_draining (core_of s)"
    and "ss_actor s' = snd (actor_step (sv_actor env)
      (StartVoice (voice_params_of (core_of s) lk ch token key False)) (ss_actor s))"
    and "cf_muted (ss_call_flags s') = CoreFlag" and "ss_echo_timers s' = ss_echo_timers s"
proof -
  obtain t where t: "s' = spawn_voice env t" "about_to_speak ch people token key s t"
    using joined_prepared [of env ch people token key s] assms(2) by blast
  then obtain lk' where lk': "ap_conn (core_of t) = Some lk'" "lk_peer_addr lk' = lk_peer_addr lk"
    using assms(1) by (auto simp: about_to_speak_def)
  have p: "ap_pending_join (core_of t) = Some \<lparr>pj_channel_id = ch, pj_udp_token = token, pj_voice_key = key\<rparr>"
    using t(2) by (simp add: about_to_speak_def)
  note e = spawn_voice_exact [OF p lk'(1), of env, folded t(1)]
  show "ap_channel (core_of s') = Some ch" "ap_participants (core_of s') = people" "ap_muted (core_of s')"
    "ap_pending_join (core_of s') = None" "ap_conn (core_of s') \<noteq> None"
    "core_ok (core_of s') = core_ok (core_of s)" "ap_draining (core_of s') = ap_draining (core_of s)"
    "cf_muted (ss_call_flags s') = CoreFlag" "ss_echo_timers s' = ss_echo_timers s"
    using e t(2) lk' by (simp_all add: about_to_speak_def)
  have "voice_params_of ((core_of t)\<lparr>ap_pending_join := None\<rparr>) lk' ch token key False =
      voice_params_of (core_of s) lk ch token key False"
    using t(2) lk'(2) by (simp add: voice_params_of_def about_to_speak_def)
  with e(2) t(2) show "ss_actor s' = snd (actor_step (sv_actor env)
      (StartVoice (voice_params_of (core_of s) lk ch token key False)) (ss_actor s))"
    by (simp add: about_to_speak_def)
qed

lemma standing_joined: "standing (joined_channel env ch people token key s) = standing s"
  using standing_message [of env "[]" "JoinedChannel ch people token key" s] by simp

lemma session_ok_joined:
  assumes "session_ok s" and "ap_conn (core_of s) \<noteq> None \<or> loose s" shows "session_ok (joined_channel env ch people token key s)"
proof (cases "ap_conn (core_of s)")
  case None
  obtain t where t: "joined_channel env ch people token key s = spawn_voice env t" "about_to_speak ch people token key s t"
    using joined_prepared by blast
  have "spawn_voice env t = on_core (\<lambda>c. c\<lparr>ap_pending_join := None\<rparr>) t"
    using t(2) None by (simp add: spawn_voice_def about_to_speak_def)
  then show ?thesis
    using t assms None standing_joined [of env ch people token key s] by (auto simp: session_ok_def about_to_speak_def)
next
  case (Some lk)
  note j = joined_shape [OF this refl, of env ch people token key]
  have "actor_ok (ss_actor (joined_channel env ch people token key s))"
    unfolding j(8) using assms(1) by (intro actor_step_ok) (simp add: session_ok_def)
  then show ?thesis using assms(1) j(4-7) Some by (auto simp: session_ok_def standing_joined)
qed

text \<open>A change of the core that keeps what the invariant is about.\<close>

lemma session_ok_on_core:
  "session_ok s \<Longrightarrow> core_ok (f (core_of s)) \<Longrightarrow> ap_pending_join (f (core_of s)) = None \<Longrightarrow>
   loose s \<or> ap_conn (f (core_of s)) \<noteq> None \<and> ap_conn (core_of s) \<noteq> None \<and> ap_draining (f (core_of s)) = ap_draining (core_of s) \<or>
     live_part (f (core_of s)) = live_part (core_of s) \<Longrightarrow> session_ok (on_core f s)"
  by (auto simp: session_ok_def live_part_def split: if_splits)

lemma session_ok_message:
  assumes "session_ok s" and "ap_conn (core_of s) \<noteq> None \<or> loose s" shows "session_ok (handle_server_message env addr msg s)"
proof -
  have ok: "core_ok (core_of s)" "ap_pending_join (core_of s) = None" using assms(1) by (simp_all add: session_ok_def)
  have keep: "session_ok (on_core f s)"
    if "core_ok (f (core_of s))" "ap_pending_join (f (core_of s)) = None" "ap_conn (f (core_of s)) = ap_conn (core_of s)"
      "ap_draining (f (core_of s)) = ap_draining (core_of s)" for f
    using session_ok_on_core [where f = f and s = s, OF assms(1) that(1,2)] that(3,4) assms(2) by auto
  show ?thesis
  proof (cases msg)
    case (JoinedChannel ch people token key)
    with session_ok_joined [OF assms] show ?thesis by simp
  next
    case (PeerJoined name)
    have "session_ok (on_core (\<lambda>c. if name \<in> set (ap_participants c) then c else c\<lparr>ap_participants := ap_participants c @ [name]\<rparr>) s)"
      by (rule keep) (use ok in simp_all)
    with PeerJoined show ?thesis by (simp add: Let_def)
  next
    case (PeerLeft name)
    with keep [of "\<lambda>c. c\<lparr>ap_participants := filter (\<lambda>p. p \<noteq> name) (ap_participants c)\<rparr>"] ok show ?thesis by simp
  next
    case LeftChannel
    have "session_ok (on_core (\<lambda>c. c\<lparr>ap_channel := None, ap_participants := []\<rparr>) s)" by (rule keep) (use ok in simp_all)
    with LeftChannel session_ok_stop show ?thesis by simp
  next
    case (SChatMessage from_name body)
    with assms(1) show ?thesis by (simp add: Let_def split: option.split)
  next
    case (SDirectMessage pk from_name body)
    let ?s = "log_line env (dm_channel (concat (map hex_byte pk))) LineDm from_name body s"
    have "session_ok (on_core (\<lambda>c. c\<lparr>ap_dm_peers := touch_peer (sv_unix env) (concat (map hex_byte pk)) from_name (ap_dm_peers c)\<rparr>) ?s)"
      by (rule session_ok_on_core) (use assms(1) ok in simp_all)
    with SDirectMessage show ?thesis by (simp add: Let_def)
  next
    case (NameChanged old new)
    have "session_ok (on_core (\<lambda>c. c\<lparr>ap_name := Some new\<rparr>) s)" by (rule keep) (use ok in simp_all)
    moreover have "session_ok (on_core (\<lambda>c. c\<lparr>ap_peer_gains := pg_rename old new (ap_peer_gains c),
        ap_participants := map (\<lambda>p. if p = old then new else p) (ap_participants c)\<rparr>) s)"
      by (rule keep) (use ok in \<open>simp_all add: core_ok_def gains_ok_rename\<close>)
    ultimately show ?thesis using NameChanged assms(1) by simp
  next
    case (EchoTestReady ch token key)
    with session_ok_spawn_echo [OF assms(1)] show ?thesis by simp
  qed (use assms(1) in simp_all)
qed

lemma dial_sel [simp]:
  "ss_actor (snd (dial env addr s)) = ss_actor s" "session_ok (snd (dial env addr s)) = session_ok s"
  "live_part (core_of (snd (dial env addr s))) = live_part (core_of s)" "ap_name (core_of (snd (dial env addr s))) = ap_name (core_of s)"
  "ss_events (snd (dial env addr s)) = ss_events s"
  by (auto simp: dial_def Let_def live_part_def session_ok_def split: prod.split)

lemma announce_sel [simp]: "session_ok (announce_name s) = session_ok s" "ss_events (announce_name s) = ss_events s"
  by (simp_all add: announce_name_def split: option.split)

lemma live_partD: "live_part c = live_part c' \<Longrightarrow> ap_conn c = ap_conn c' \<and> ap_channel c = ap_channel c' \<and>
    ap_participants c = ap_participants c' \<and> ap_pending_join c = ap_pending_join c' \<and> ap_draining c = ap_draining c'"
  by (simp add: live_part_def)

lemma session_ok_connected:
  "session_ok s \<Longrightarrow> ap_draining (core_of s) \<or> loose s \<Longrightarrow> session_ok (on_core (\<lambda>c. c\<lparr>ap_conn := Some lk\<rparr>) s)"
  by (auto simp: session_ok_def)

lemma drain_mayD:
  "drain_may True s \<Longrightarrow> ap_conn (core_of s) \<noteq> None \<or> loose s" "drain_may b s \<Longrightarrow> ap_draining (core_of s) \<or> loose s"
  by (auto simp: drain_may_def standing_def split: drain_reach.splits)

lemma session_ok_reconnect:
  assumes "session_ok s" and "drain_may False s" shows "session_ok (snd (snd (reconnect_attempt env addr n s)))"
proof -
  define m where "m = (if n = - 1 then n else n + 1)"
  define s0 where "s0 = emit (EvConnectionState (ConnReconnecting m (backoff_seconds m))) s"
  obtain r s1 where d: "dial env addr s0 = (r, s1)" by (rule prod.exhaust)
  have "session_ok s1" "standing s1 = standing s" "live_part (core_of s1) = live_part (core_of s)"
    using dial_sel(2,3) [of env addr s0, unfolded d] standing_dial [of env addr s0, unfolded d] assms(1) by (simp_all add: s0_def)
  moreover from this(3) have "ap_draining (core_of s1) = ap_draining (core_of s)" using live_partD by blast
  ultimately have "session_ok (on_core (\<lambda>c. c\<lparr>ap_conn := Some lk\<rparr>) s1)" for lk
    using drain_mayD(2) [OF assms(2)] by (intro session_ok_connected) auto
  with \<open>session_ok s1\<close> show ?thesis
    unfolding reconnect_attempt_def m_def [symmetric] Let_def s0_def [symmetric] d by (simp split: sum.split)
qed

lemma abort_drain_sel [simp]:
  "core_of (abort_drain s) = (core_of s)\<lparr>ap_draining := False\<rparr>" "ss_actor (abort_drain s) = ss_actor s"
  "ss_dials (abort_drain s) = ss_dials s" "ss_events (abort_drain s) = ss_events s"
  "ss_drains (abort_drain s) = (if ss_drains s = Detached then Detached else Attached)"
  by (simp_all add: abort_drain_def) (simp_all add: on_core_def)

lemma standing_abort: "standing (abort_drain s) = (ss_dials s, if ss_drains s = Detached then Detached else Attached)"
  by (simp add: standing_def)

text \<open>What \<open>connect\<close> leaves behind while it waits.\<close>

lemma connect_begin_shape:
  "ap_conn (core_of (connect_begin env addr s)) = None" "\<not> ap_draining (core_of (connect_begin env addr s))"
  "standing (connect_begin env addr s) =
    (ss_dials s @ [connect_address addr], if ss_drains s = Detached then Detached else Attached)"
  "ss_events (connect_begin env addr s) = ss_events s @ [EvConnectionState ConnConnecting]"
proof -
  show "standing (connect_begin env addr s) =
      (ss_dials s @ [connect_address addr], if ss_drains s = Detached then Detached else Attached)"
    by (simp add: connect_begin_def Let_def reach_sel standing_abort)
  show "ap_conn (core_of (connect_begin env addr s)) = None" "\<not> ap_draining (core_of (connect_begin env addr s))"
    "ss_events (connect_begin env addr s) = ss_events s @ [EvConnectionState ConnConnecting]"
    by (simp_all add: connect_begin_def Let_def)
qed

lemma session_ok_begin:
  assumes "session_ok s" shows "session_ok (connect_begin env addr s)"
  using assms connect_begin_shape(1) [of env addr s] by (simp add: session_ok_def) (simp add: connect_begin_def Let_def)

text \<open>What becomes of the answer.\<close>

lemma connect_finish_shape:
  assumes "dial env addr (s\<lparr>ss_dials := remove1 addr (ss_dials s)\<rparr>) = (r, s1)"
  shows "connect_finish env addr s = (case r of
      Inr lk \<Rightarrow> (Inr (), (on_core (\<lambda>c. c\<lparr>ap_draining := True\<rparr>) (announce_name (save_core (on_core (\<lambda>c. c\<lparr>ap_conn := Some lk,
          ap_servers := touch_server (sv_unix env) addr (ap_servers c)\<rparr>) s1))))
        \<lparr>ss_drains := if ap_draining (core_of s) then Detached else ss_drains s\<rparr>)
    | Inl e \<Rightarrow> (Inl (''connect failed: '' @ e), (emit (EvConnectionState ConnDisconnected) (on_core (\<lambda>c. c\<lparr>ap_conn := None\<rparr>) s1))
        \<lparr>ss_drains := if ap_draining (core_of s) \<and> ss_drains s = Attached then Adrift else ss_drains s\<rparr>))"
    and "standing s1 = (remove1 addr (ss_dials s), ss_drains s)" and "live_part (core_of s1) = live_part (core_of s)"
    and "ss_actor s1 = ss_actor s" and "ap_name (core_of s1) = ap_name (core_of s)" and "session_ok s1 = session_ok s"
proof -
  let ?s = "s\<lparr>ss_dials := remove1 addr (ss_dials s)\<rparr>"
  show st: "standing s1 = (remove1 addr (ss_dials s), ss_drains s)"
    using standing_dial [of env addr ?s, unfolded assms] by (simp add: standing_def)
  show lp: "live_part (core_of s1) = live_part (core_of s)" "ss_actor s1 = ss_actor s" "ap_name (core_of s1) = ap_name (core_of s)"
    using dial_sel(1,3,4) [of env addr ?s, unfolded assms] by simp_all
  have "session_ok ?s = session_ok s" by (simp add: session_ok_def)
  then show "session_ok s1 = session_ok s" using dial_sel(2) [of env addr ?s, unfolded assms] by simp
  have run: "ap_draining (core_of s1) = ap_draining (core_of s)" using live_partD [OF lp(1)] by blast
  have same: "x\<lparr>ss_drains := snd (standing s)\<rparr> = x" if "standing x = standing s1" for x
    using that st by (simp add: standing_def)
  show "connect_finish env addr s = (case r of
      Inr lk \<Rightarrow> (Inr (), (on_core (\<lambda>c. c\<lparr>ap_draining := True\<rparr>) (announce_name (save_core (on_core (\<lambda>c. c\<lparr>ap_conn := Some lk,
          ap_servers := touch_server (sv_unix env) addr (ap_servers c)\<rparr>) s1))))
        \<lparr>ss_drains := if ap_draining (core_of s) then Detached else ss_drains s\<rparr>)
    | Inl e \<Rightarrow> (Inl (''connect failed: '' @ e), (emit (EvConnectionState ConnDisconnected) (on_core (\<lambda>c. c\<lparr>ap_conn := None\<rparr>) s1))
        \<lparr>ss_drains := if ap_draining (core_of s) \<and> ss_drains s = Attached then Adrift else ss_drains s\<rparr>))"
    unfolding connect_finish_def Let_def assms by (simp add: run reach_sel st same split: sum.split)
qed

lemma session_ok_finish:
  assumes "session_ok s" shows "session_ok (snd (connect_finish env addr s))"
proof -
  obtain r s1 where d: "dial env addr (s\<lparr>ss_dials := remove1 addr (ss_dials s)\<rparr>) = (r, s1)" by (rule prod.exhaust)
  note sh = connect_finish_shape [OF d]
  have 1: "session_ok s1" using assms sh(6) by simp
  have l: "loose s1 = loose s" "ap_conn (core_of s1) = ap_conn (core_of s)" "ap_draining (core_of s1) = ap_draining (core_of s)"
    using sh(2) live_partD [OF sh(3)] by (simp_all add: standing_def)
  show ?thesis
  proof (cases r)
    case (Inl e)
    have "session_ok ((on_core (\<lambda>c. c\<lparr>ap_conn := None\<rparr>) s1)\<lparr>ss_drains := if ap_draining (core_of s) \<and> ss_drains s = Attached then Adrift else ss_drains s\<rparr>)"
      using 1 l sh(2) by (auto simp: session_ok_def standing_def split: if_splits)
    then show ?thesis unfolding sh(1) Inl by (simp add: emit_def session_ok_def standing_def)
  next
    case (Inr lk)
    define s3 where "s3 = announce_name (save_core (on_core (\<lambda>c. c\<lparr>ap_conn := Some lk,
        ap_servers := touch_server (sv_unix env) addr (ap_servers c)\<rparr>) s1))"
    have "(ap_conn (core_of s3) = None) = False"
      by (simp add: s3_def announce_name_def del: not_None_eq split: option.split)
    then have k: "core_ok (core_of s3) \<and> actor_ok (ss_actor s3) \<and> ap_pending_join (core_of s3) = None \<and> ap_conn (core_of s3) \<noteq> None"
      using 1 by (simp add: s3_def announce_name_def session_ok_def split: option.split)
    moreover have "snd (connect_finish env addr s) = (on_core (\<lambda>c. c\<lparr>ap_draining := True\<rparr>) s3)
        \<lparr>ss_drains := if ap_draining (core_of s) then Detached else ss_drains s\<rparr>"
      by (simp add: sh(1) Inr s3_def)
    ultimately show ?thesis by (auto simp: session_ok_def)
  qed
qed

lemma session_ok_next:
  assumes "session_ok s" shows "session_ok (session_next env e s)"
proof (cases e)
  case (FromServer addr msg)
  with session_ok_message [OF assms] drain_mayD(1) [of s] assms show ?thesis by auto
next
  case ConnectionLost
  with assms show ?thesis by (simp add: tear_down_session_def session_ok_def)
next
  case (ReconnectAttempt addr n)
  then show ?thesis using session_ok_reconnect [OF assms] assms by auto
next
  case (LinkMoves ser de ev)
  with assms show ?thesis by (simp add: session_ok_def)
next
  case (CmdConnect addr)
  with session_ok_begin [OF assms] show ?thesis by simp
next
  case (DialDone addr)
  with session_ok_finish [OF assms, of env addr] assms show ?thesis by simp
next
  case CmdDisconnect
  with assms show ?thesis by (simp add: disconnect_command_def session_ok_def)
next
  case CmdLeave
  with assms show ?thesis by (simp add: leave_channel_command_def session_ok_send session_ok_stop)
next
  case CmdStartEcho
  with assms show ?thesis by (simp add: start_echo_command_def session_ok_send)
next
  case (CmdSendDm hex k body)
  have "session_ok (snd (send_dm_to hex env k body s))"
  proof (cases "send_msg (CDirectMessage (the (hex k)) body) s")
    case (Pair r s1)
    then have "session_ok s1" using session_ok_send [OF assms, of "CDirectMessage (the (hex k)) body"] by simp
    with Pair assms show ?thesis by (auto simp: send_dm_to_def split: option.split sum.split)
  qed
  with CmdSendDm show ?thesis by simp
next
  case (CmdSetName name)
  have "session_ok (save_core (on_core (\<lambda>c. c\<lparr>ap_name := Some name\<rparr>) s))" using assms by (simp add: session_ok_def)
  with CmdSetName show ?thesis by (simp add: set_name_command_def session_ok_send)
next
  case CmdCancelEcho
  with assms show ?thesis by (simp add: cancel_echo_command_def session_ok_send session_ok_voice)
next
  case (CmdInputDevice name)
  have "session_ok (save_core (on_core (\<lambda>c. c\<lparr>ap_input_device := name\<rparr>) s))" using assms by (simp add: session_ok_def)
  with CmdInputDevice show ?thesis by (simp add: set_input_device_command_def session_ok_voice)
next
  case (CmdOutputDevice name)
  have "session_ok (save_core (on_core (\<lambda>c. c\<lparr>ap_output_device := name\<rparr>) s))" using assms by (simp add: session_ok_def)
  with CmdOutputDevice show ?thesis by (simp add: set_output_device_command_def session_ok_voice)
next
  case (CmdSettings sys cmd)
  have "session_ok (s\<lparr>ss_desk := snd (run_settings sys cmd (ss_desk s))\<rparr>)"
    using assms live_partD [OF live_part_settings [of sys cmd "ss_desk s"]] core_ok_command [of "ss_desk s" sys cmd]
    by (simp add: session_ok_def)
  with CmdSettings show ?thesis by simp
next
  case (VoiceChanged ev)
  have "session_ok (s\<lparr>ss_actor := actor_next ev (ss_actor s)\<rparr>)" if "\<forall>env cmd. ev \<noteq> Command env cmd"
    using assms idle_step [of "ss_actor s" ev] that by (auto simp: session_ok_def actor_next_ok)
  with VoiceChanged assms show ?thesis by (cases ev) auto
qed (use assms in \<open>simp_all add: session_ok_send session_ok_timers session_ok_voice\<close>)

definition session_new :: "bool \<Rightarrow> byte list option \<Rightarrow> user_settings \<Rightarrow> ('z, 'r) session" where
  "session_new macos identity saved =
    \<lparr>ss_desk = \<lparr>dk_core = app_new macos identity saved, dk_file = saved, dk_shortcuts = []\<rparr>, ss_dials = [], ss_drains = Attached,
     ss_actor = actor_new,
     ss_call_flags = \<lparr>cf_muted = CoreFlag, cf_denoise = CoreFlag, cf_paranoid = CoreFlag, cf_peer_gains = CoreFlag\<rparr>,
     ss_echo_flags = \<lparr>cf_muted = CoreFlag, cf_denoise = CoreFlag, cf_paranoid = CoreFlag, cf_peer_gains = CoreFlag\<rparr>,
     ss_echo_timers = [], ss_events = [], ss_notices = [], ss_history = []\<rparr>"

lemma session_ok_new: "session_ok (session_new macos identity saved)"
  by (simp add: session_ok_def session_new_def actor_new_ok) (simp add: app_new_def Let_def actor_new_def)

lemma session_ok_run: "session_ok s \<Longrightarrow> session_ok (session_run es s)"
  by (induction es arbitrary: s) (auto simp: session_run_def session_ok_next)

text \<open>Whatever the server sends, the user does, the connection and the devices do, in any order from the start of the
  application: a join never stays half done, every live audio handle of the actor runs, the settings stay consistent; and
  unless connects overlapped, there is a call only while there is a connection, and without one there is no channel
  and nobody in it.\<close>

theorem call_needs_connection:
  "let s = session_run es (session_new macos identity saved)
   in core_ok (core_of s) \<and> actor_ok (ss_actor s) \<and> ap_pending_join (core_of s) = None \<and>
     (ss_drains s = Attached \<and> ap_conn (core_of s) = None \<longrightarrow>
       ac_handle (ss_actor s) = None \<and> ap_channel (core_of s) = None \<and> ap_participants (core_of s) = [])"
  using session_ok_run [OF session_ok_new, of es macos identity saved] by (auto simp: Let_def session_ok_def actor_ok_def reach_sel)

text \<open>A world for examples: a server answers at every address, the name resolves, the machine has no sound device.\<close>

definition sample_dialler :: dialler where
  "sample_dialler = \<lparr>dl_dial = (\<lambda>a. Some (SockV4 1 7100)), dl_certificate = (\<lambda>a. [1]), dl_server_name = (\<lambda>n. True),
     dl_handshake = (\<lambda>a n. True)\<rparr>"

definition sample_json :: json where
  "sample_json = \<lparr>js_print = (\<lambda>l. cl_text l), js_parse = (\<lambda>t. Some \<lparr>cl_ts_unix = 0, cl_kind = LineChat, cl_from = [], cl_text = t\<rparr>)\<rparr>"

definition sample_world :: "instant \<Rightarrow> (string, unit, rat list) session_env" where
  "sample_world now = \<lparr>sv_actor = sample_env now, sv_unix = 0, sv_dialler = sample_dialler, sv_version = ''1.0.0'',
     sv_focused = True, sv_json = sample_json, sv_sha256 = (\<lambda>bytes. take 32 (bytes @ replicate 32 0))\<rparr>"

theorem call_needs_connection_witness:
  "let s = session_run [(sample_world 5, CmdDisconnect), (sample_world 6, PollVoice)] (session_new True None settings_default)
   in ac_handle (ss_actor s) = None"
proof -
  let ?s = "session_run [(sample_world 5, CmdDisconnect), (sample_world 6, PollVoice)] (session_new True None settings_default)"
  have "ap_conn (core_of ?s) = None" "ss_drains ?s = Attached"
    by (simp_all add: session_run_def disconnect_command_def reach_sel standing_abort) (simp add: standing_def session_new_def)
  then show ?thesis
    using call_needs_connection [of "[(sample_world 5, CmdDisconnect), (sample_world 6, PollVoice)]" True None settings_default]
    by (simp add: Let_def)
qed

section \<open>Hanging up\<close>

definition offline :: "('z, 'r) session \<Rightarrow> bool" where
  "offline s \<longleftrightarrow> session_ok s \<and> ap_conn (core_of s) = None \<and> \<not> ap_draining (core_of s) \<and> standing s = ([], Attached)"

lemma send_msg_offline: "ap_conn (core_of s) = None \<Longrightarrow> send_msg msg s = (Inl ''not connected'', s)"
  by (simp add: send_msg_def)

lemma offline_fold: "offline s \<Longrightarrow> offline (fold (\<lambda>t. echo_timer env) ts s)"
proof (induction ts arbitrary: s)
  case (Cons t ts)
  have "offline (echo_timer env s)"
    using Cons.prems session_ok_echo_timer [of s env] standing_timers [of env "[t]" s]
    by (auto simp: offline_def echo_timer_def voice_do_def split: prod.split reply.split)
  with Cons.IH show ?case by simp
qed simp

lemma offline_next:
  assumes "offline s" and "\<forall>addr. e \<noteq> CmdConnect addr" shows "offline (session_next env e s)"
proof -
  have ok: "session_ok (session_next env e s)" using assms(1) by (simp add: offline_def session_ok_next)
  have off: "ap_conn (core_of s) = None" "\<not> ap_draining (core_of s)" "standing s = ([], Attached)" "ss_dials s = []" "ss_drains s = Attached"
    using assms(1) by (simp_all add: offline_def reach_sel)
  have idle: "\<not> drain_may b s" for b using off by (simp add: drain_may_def)
  have st: "standing (session_next env e s) = ([], Attached)"
  proof (cases "e = CmdDisconnect \<or> (\<exists>addr. e = DialDone addr)")
    case True
    with off show ?thesis by (auto simp: disconnect_command_def standing_abort)
  next
    case False
    with standing_next [of e env s] assms(2) off(3) show ?thesis by auto
  qed
  have "ap_conn (core_of (session_next env e s)) = None \<and> \<not> ap_draining (core_of (session_next env e s))"
  proof (cases e)
    case (CmdConnect addr)
    with assms(2) show ?thesis by blast
  next
    case (CmdSettings sys cmd)
    with live_partD [OF live_part_settings [of sys cmd "ss_desk s"]] off show ?thesis by simp
  next
    case TimersDue
    have "offline (fire_timers env s)" unfolding fire_timers_def Let_def
      by (rule offline_fold) (use assms(1) in \<open>simp add: offline_def session_ok_def\<close>)
    with TimersDue show ?thesis by (simp add: offline_def)
  next
    case (VoiceChanged ev)
    with off show ?thesis by (cases ev) simp_all
  qed (use off idle in \<open>simp_all add: disconnect_command_def leave_channel_command_def send_msg_offline set_name_command_def
      start_echo_command_def cancel_echo_command_def send_dm_to_def set_input_device_command_def set_output_device_command_def\<close>)
  with ok st show ?thesis by (simp add: offline_def)
qed

lemma offline_run: "offline s \<Longrightarrow> \<forall>env addr. (env, CmdConnect addr) \<notin> set es \<Longrightarrow> offline (session_run es s)"
proof (induction es arbitrary: s)
  case (Cons e es)
  obtain env ev where e: "e = (env, ev)" by (rule prod.exhaust)
  have "offline (session_next env ev s)" using Cons.prems e by (intro offline_next) auto
  with Cons.IH [OF this] Cons.prems(2) e show ?case by (simp add: session_run_def)
qed (simp add: session_run_def)

text \<open>Whether dialling works: the address answers and TLS is agreed. A certificate is never a reason to fail.\<close>

definition answers :: "('dev, 'z, 'r) session_env \<Rightarrow> string \<Rightarrow> bool" where
  "answers env addr \<longleftrightarrow> (\<exists>peer. dl_dial (sv_dialler env) (dial_address addr) = Some peer \<and>
     dl_handshake (sv_dialler env) peer (tls_name (sv_dialler env) (dial_address addr)))"

lemma connect_answers:
  "(\<exists>e. fst (network_connect sha dl version addr key tofu) = Inl e) \<longleftrightarrow>
   \<not> (\<exists>peer. dl_dial dl (dial_address addr) = Some peer \<and> dl_handshake dl peer (tls_name dl (dial_address addr)))"
  "fst (network_connect sha dl version addr key tofu) = Inr lk \<Longrightarrow>
   \<exists>peer. dl_dial dl (dial_address addr) = Some peer \<and> lk = link_new version key peer"
proof -
  have v: "fst (tofu_connect sha x c t)" for x c t
    by (simp add: tofu_connect_def verify_server_cert_def Let_def split: option.split)
  show "(\<exists>e. fst (network_connect sha dl version addr key tofu) = Inl e) \<longleftrightarrow>
      \<not> (\<exists>peer. dl_dial dl (dial_address addr) = Some peer \<and> dl_handshake dl peer (tls_name dl (dial_address addr)))"
    by (auto simp: network_connect_def Let_def case_prod_beta v split: option.split)
  show "\<exists>peer. dl_dial dl (dial_address addr) = Some peer \<and> lk = link_new version key peer"
    if "fst (network_connect sha dl version addr key tofu) = Inr lk"
    using that by (auto simp: network_connect_def Let_def case_prod_beta split: option.splits if_splits)
qed

lemma dial_answers: "(\<exists>lk. fst (dial env addr s) = Inr lk) \<longleftrightarrow> answers env addr"
  using connect_answers(1) [of "sv_sha256 env" "sv_dialler env" "sv_version env" addr "ap_identity (core_of s)" "ap_tofu (core_of s)"]
  by (cases "fst (dial env addr s)") (auto simp: dial_def Let_def answers_def split: prod.splits)

lemma finish_connects:
  assumes "answers env addr"
  shows "ap_conn (core_of (snd (connect_finish env addr s))) \<noteq> None \<and> ap_draining (core_of (snd (connect_finish env addr s)))"
proof -
  obtain r s1 where d: "dial env addr (s\<lparr>ss_dials := remove1 addr (ss_dials s)\<rparr>) = (r, s1)" by (rule prod.exhaust)
  obtain lk where r: "r = Inr lk" using dial_answers [of env addr "s\<lparr>ss_dials := remove1 addr (ss_dials s)\<rparr>"] assms by (auto simp: d)
  have "(ap_conn (core_of (announce_name (save_core (on_core (\<lambda>c. c\<lparr>ap_conn := Some lk,
      ap_servers := touch_server (sv_unix env) addr (ap_servers c)\<rparr>) s1)))) = None) = False"
    by (simp add: announce_name_def del: not_None_eq split: option.split)
  then show ?thesis by (simp add: connect_finish_shape(1) [OF d] r)
qed

text \<open>When the user starts no connect while another one is still waiting for the network, every drain task stays
  within reach.\<close>

fun orderly :: "(('dev, 'z, 'r) session_env \<times> ('dev, 'z, 'r) session_event) list \<Rightarrow> ('z, 'r) session \<Rightarrow> bool" where
  "orderly [] s \<longleftrightarrow> True"
| "orderly ((env, e) # es) s \<longleftrightarrow> (case e of CmdConnect addr \<Rightarrow> ss_dials s = [] | _ \<Rightarrow> True) \<and> orderly es (session_next env e s)"

definition one_dial :: "('z, 'r) session \<Rightarrow> bool" where
  "one_dial s \<longleftrightarrow> ss_drains s = Attached \<and> (ss_dials s = [] \<or> (\<exists>a. ss_dials s = [a]) \<and> \<not> ap_draining (core_of s))"

lemma draining_sel [simp]:
  "ap_draining (core_of (snd (send_msg msg s))) = ap_draining (core_of s)"
  "ap_draining (core_of (fold (\<lambda>t. echo_timer env) ts s)) = ap_draining (core_of s)"
proof -
  show "ap_draining (core_of (snd (send_msg msg s))) = ap_draining (core_of s)" for s :: "('a, 'b) session"
    by (auto simp: send_msg_def split: option.split sum.split prod.split)
  show "ap_draining (core_of (fold (\<lambda>t. echo_timer env) ts s)) = ap_draining (core_of s)"
    by (induction ts arbitrary: s) (auto simp: echo_timer_def voice_do_def split: prod.split reply.split)
qed

lemma draining_dm: "ap_draining (core_of (snd (send_dm_to hex env k body s))) = ap_draining (core_of s)"
proof (cases "send_msg (CDirectMessage (the (hex k)) body) s")
  case (Pair r s1)
  then have "ap_draining (core_of s1) = ap_draining (core_of s)" using draining_sel(1) [of "CDirectMessage (the (hex k)) body" s] by simp
  with Pair show ?thesis by (cases r) (auto simp: send_dm_to_def split: option.split)
qed

text \<open>With no drain task, only the answer to a connect makes one.\<close>

lemma quiet_next:
  assumes "\<not> ap_draining (core_of s)" and "ss_drains s = Attached" and "\<forall>addr. e \<noteq> DialDone addr"
  shows "\<not> ap_draining (core_of (session_next env e s))"
proof -
  have idle: "\<not> drain_may b s" for b using assms(1,2) by (simp add: drain_may_def)
  show ?thesis
  proof (cases e)
    case (CmdSettings sys cmd)
    with live_partD [OF live_part_settings [of sys cmd "ss_desk s"]] assms(1) show ?thesis by simp
  next
    case (VoiceChanged ev)
    with assms(1) show ?thesis by (cases ev) simp_all
  next
    case (DialDone addr)
    with assms(3) show ?thesis by blast
  qed (use assms(1) idle in \<open>simp_all add: connect_begin_shape(2) disconnect_command_def leave_channel_command_def set_name_command_def
      start_echo_command_def cancel_echo_command_def draining_dm set_input_device_command_def set_output_device_command_def
      fire_timers_def Let_def\<close>)
qed

lemma one_dial_next:
  assumes "one_dial s" and "\<forall>addr. e = CmdConnect addr \<longrightarrow> ss_dials s = []"
  shows "one_dial (session_next env e s)"
proof -
  have A: "ss_drains s = Attached" "ss_dials s \<noteq> [] \<longrightarrow> \<not> ap_draining (core_of s)" using assms(1) by (auto simp: one_dial_def)
  consider (conn) addr where "e = CmdConnect addr" | (dialled) addr where "e = DialDone addr" | (disc) "e = CmdDisconnect"
    | (other) "\<forall>addr. e \<noteq> CmdConnect addr \<and> e \<noteq> DialDone addr" "e \<noteq> CmdDisconnect" by blast
  then show ?thesis
  proof cases
    case conn
    then show ?thesis
      using assms(2) A(1) connect_begin_shape(2,3) [of env addr s] by (simp add: one_dial_def reach_sel)
  next
    case dialled
    show ?thesis
    proof (cases "addr \<in> set (ss_dials s)")
      case True
      then have one: "ss_dials s = [addr]" "\<not> ap_draining (core_of s)" using assms(1) by (auto simp: one_dial_def)
      obtain r s1 where d: "dial env addr (s\<lparr>ss_dials := remove1 addr (ss_dials s)\<rparr>) = (r, s1)" by (rule prod.exhaust)
      show ?thesis
        using dialled True one A(1) connect_finish_shape(2) [OF d]
        by (cases r) (simp_all add: connect_finish_shape(1) [OF d] one_dial_def reach_sel)
    qed (use dialled assms(1) in simp)
  next
    case disc
    then show ?thesis using assms(1) by (auto simp: one_dial_def disconnect_command_def reach_sel standing_abort)
  next
    case other
    with standing_next [of e env s] have "standing (session_next env e s) = standing s" by blast
    then show ?thesis using assms(1) quiet_next [of s e env] other(1) A by (auto simp: one_dial_def reach_sel)
  qed
qed

lemma orderly_attached: "orderly es s \<Longrightarrow> one_dial s \<Longrightarrow> one_dial (session_run es s)"
proof (induction es arbitrary: s)
  case (Cons e es)
  obtain env ev where e: "e = (env, ev)" by (rule prod.exhaust)
  have "one_dial (session_next env ev s)" using Cons.prems e by (intro one_dial_next) (auto split: session_event.splits)
  with Cons.IH [OF _ this] Cons.prems(1) e show ?case by (simp add: session_run_def)
qed (simp add: session_run_def)

text \<open>C38 A disconnect by the user is final, if no connect is waiting for the network: however the session came about, as long
  as the user never started a connect while another one was waiting, and whatever comes after it (late messages, due
  reconnect attempts, timers, device changes, any command but a new connect), there is no connection, no channel,
  nobody in it, and no call: no microphone and no loudspeaker is open for one. Nothing reconnects by itself. While a
  connect is waiting, though, the disconnect does not stop it: as soon as the server answers, there is a connection after all,
  with a drain task that will keep it up.\<close>

theorem disconnect_is_final:
  assumes "orderly earlier (session_new macos identity saved)" and "s0 = session_run earlier (session_new macos identity saved)"
    and "\<forall>env addr. (env, CmdConnect addr) \<notin> set later"
  shows "if ss_dials s0 = []
    then let s = session_run ((env, CmdDisconnect) # later) s0
      in ap_conn (core_of s) = None \<and> ap_channel (core_of s) = None \<and> ap_participants (core_of s) = [] \<and>
        ac_handle (ss_actor s) = None
    else \<exists>addr. ss_dials s0 = [addr] \<and> (\<forall>env'. answers env' addr \<longrightarrow>
      (let s = session_run [(env, CmdDisconnect), (env', DialDone addr)] s0
       in ap_conn (core_of s) \<noteq> None \<and> ap_draining (core_of s)))"
proof -
  have "one_dial (session_new macos identity saved)" by (simp add: one_dial_def session_new_def)
  from orderly_attached [OF assms(1) this] have one: "one_dial s0" by (simp add: assms(2))
  define s1 where "s1 = session_next env CmdDisconnect s0"
  have "session_ok s0" unfolding assms(2) by (intro session_ok_run session_ok_new)
  then have "session_ok s1" unfolding s1_def by (rule session_ok_next)
  moreover have "ap_conn (core_of s1) = None" "\<not> ap_draining (core_of s1)" "standing s1 = (ss_dials s0, Attached)"
    using one by (simp_all add: s1_def disconnect_command_def standing_abort one_dial_def)
  ultimately have s1: "session_ok s1" "ap_conn (core_of s1) = None" "\<not> ap_draining (core_of s1)" "standing s1 = (ss_dials s0, Attached)"
    by simp_all
  show ?thesis
  proof (cases "ss_dials s0 = []")
    case True
    then have "offline s1" using s1 by (simp add: offline_def)
    from offline_run [OF this assms(3)] have "offline (session_run ((env, CmdDisconnect) # later) s0)"
      by (simp add: s1_def session_run_def)
    then show ?thesis using True by (auto simp: offline_def session_ok_def actor_ok_def Let_def)
  next
    case False
    then obtain addr where a: "ss_dials s0 = [addr]" using one by (auto simp: one_dial_def)
    then have "addr \<in> set (ss_dials s1)" using s1(4) by (simp add: reach_sel)
    then have "session_run [(env, CmdDisconnect), (env', DialDone addr)] s0 = snd (connect_finish env' addr s1)" for env'
      by (simp add: session_run_def s1_def)
    with finish_connects show ?thesis using False a by (auto simp: Let_def)
  qed
qed

theorem disconnect_is_final_witness:
  "ac_handle (ss_actor (session_run [(sample_world 5, CmdDisconnect),
      (sample_world 6, FromServer [] (JoinedChannel ''abc'' [] 1 [])), (sample_world 7, TimersDue)]
      (session_new True None settings_default))) = None \<and>
   ap_conn (core_of (session_run [(sample_world 5, CmdDisconnect), (sample_world 6, DialDone ''host:7100'')]
      (session_run [(sample_world 4, CmdConnect ''host:7100'')] (session_new True None settings_default)))) \<noteq> None"
proof -
  let ?new = "session_new True None settings_default :: (unit, rat list) session"
  have 1: "orderly [] ?new" "?new = session_run [] ?new" "ss_dials ?new = []" by (simp_all add: session_run_def session_new_def)
  let ?s = "session_run [(sample_world 4, CmdConnect ''host:7100'')] ?new"
  have a: "connect_address ''host:7100'' = ''host:7100''" by code_simp
  have 2: "orderly [(sample_world 4, CmdConnect ''host:7100'')] ?new" by (simp add: session_new_def)
  have d: "ss_dials ?s = [''host:7100'']"
    by (simp add: session_run_def reach_sel connect_begin_shape(3) a) (simp add: standing_def session_new_def)
  have "answers (sample_world 6) ''host:7100''" by (simp add: answers_def sample_world_def sample_dialler_def)
  then have "ap_conn (core_of (session_run [(sample_world 5, CmdDisconnect), (sample_world 6, DialDone ''host:7100'')] ?s)) \<noteq> None"
    using disconnect_is_final [OF 2 refl, of "[]" "sample_world 5"] d by (simp add: Let_def)
  moreover have "ac_handle (ss_actor (session_run [(sample_world 5, CmdDisconnect),
      (sample_world 6, FromServer [] (JoinedChannel ''abc'' [] 1 [])), (sample_world 7, TimersDue)] ?new)) = None"
  proof -
    let ?later = "[(sample_world 6, FromServer [] (JoinedChannel ''abc'' [] 1 [])), (sample_world 7, TimersDue)]"
    have "\<forall>env addr. (env, CmdConnect addr) \<notin> set ?later" by simp
    from disconnect_is_final [OF 1(1,2) this, of "sample_world 5"] 1(3) show ?thesis by (simp add: Let_def)
  qed
  ultimately show ?thesis by blast
qed

end
