(* ===== verification/Desktop_Path.thy ===== *)
theory Desktop_Path
  imports Desktop_Session_Properties Server_Tcp_Properties
begin

text \<open>
  The desktop session at work: a join starts muted and stays so, a lost connection is dialled again, what was said is
  kept and read back, a pasted invite reaches the server it was made for; and, with the server's handlers, what the
  timer of a cancelled sound check does to a later call.
\<close>

section \<open>Muted on joining\<close>

text \<open>The commands by which a user opens the microphone, intended or not.\<close>

fun mic_opener :: "('dev, 'z, 'r) session_event \<Rightarrow> bool" where
  "mic_opener (CmdSettings sys cmd) = (case cmd of
      SetMute b \<Rightarrow> True | PttPress \<Rightarrow> True | HotkeyEvent s pressed \<Rightarrow> True | SetVoiceMode m \<Rightarrow> True | TrayToggleMute \<Rightarrow> True
    | ImportSettings s \<Rightarrow> True | _ \<Rightarrow> False)"
| "mic_opener e = False"

lemma muted_settings:
  assumes "ap_muted (dk_core d)" and "\<not> mic_opener (CmdSettings sys cmd)"
  shows "ap_muted (dk_core (snd (run_settings sys cmd d)))"
  using opened_iff [of d sys cmd] assms by (cases cmd) auto

lemma muted_spawn_voice [simp]: "ap_muted (core_of (spawn_voice env s)) = ap_muted (core_of s)"
proof (cases "ap_pending_join (core_of s)")
  case (Some p)
  show ?thesis
  proof (cases "ap_conn (core_of s)")
    case (Some lk)
    from spawn_voice_exact(1) [OF \<open>ap_pending_join (core_of s) = Some p\<close> Some, of env] show ?thesis by simp
  qed (simp add: spawn_voice_def Some)
qed (simp add: spawn_voice_def)

lemma muted_spawn_echo [simp]: "ap_muted (core_of (spawn_echo env ch token key s)) = ap_muted (core_of s)"
  using voice_do_sel(1) [of env]
  by (auto simp: spawn_echo_def Let_def voice_do_def split: option.split prod.split reply.split sum.split)

lemma muted_joined [simp]: "ap_muted (core_of (joined_channel env ch people token key s))"
proof -
  obtain t where "joined_channel env ch people token key s = spawn_voice env t" "about_to_speak ch people token key s t"
    using joined_prepared by blast
  then show ?thesis by (simp add: about_to_speak_def)
qed

lemma muted_message: "ap_muted (core_of s) \<Longrightarrow> ap_muted (core_of (handle_server_message env addr msg s))"
  by (cases msg) (simp_all add: Let_def split: option.split)

lemma muted_dial [simp]: "ap_muted (core_of (snd (dial env addr s))) = ap_muted (core_of s)"
  by (simp add: dial_def Let_def split: prod.split)

lemma muted_send [simp]: "ap_muted (core_of (snd (send_msg msg s))) = ap_muted (core_of s)"
  by (auto simp: send_msg_def split: option.split sum.split prod.split)

lemma muted_announce [simp]: "ap_muted (core_of (announce_name s)) = ap_muted (core_of s)"
  by (simp add: announce_name_def split: option.split)

lemma muted_echo_timers [simp]: "ap_muted (core_of (fold (\<lambda>t. echo_timer env) ts s)) = ap_muted (core_of s)"
  by (induction ts arbitrary: s) (auto simp: echo_timer_def voice_do_def split: prod.split reply.split)

lemma muted_forget [simp]: "ap_muted (forget_session c) = ap_muted c"
  by (simp add: forget_session_def)

lemma muted_reconnect: "ap_muted (core_of (snd (snd (reconnect_attempt env addr n s)))) = ap_muted (core_of s)"
proof -
  define m where "m = (if n = - 1 then n else n + 1)"
  define s0 where "s0 = emit (EvConnectionState (ConnReconnecting m (backoff_seconds m))) s"
  obtain r s1 where d: "dial env addr s0 = (r, s1)" by (rule prod.exhaust)
  then have "ap_muted (core_of s1) = ap_muted (core_of s)" using muted_dial [of env addr s0] by (simp add: s0_def)
  then show ?thesis
    unfolding reconnect_attempt_def m_def [symmetric] Let_def s0_def [symmetric] d by (simp split: sum.split)
qed

lemma muted_begin [simp]: "ap_muted (core_of (connect_begin env addr s)) = ap_muted (core_of s)"
  by (simp add: connect_begin_def Let_def)

lemma muted_finish [simp]: "ap_muted (core_of (snd (connect_finish env addr s))) = ap_muted (core_of s)"
proof -
  obtain r s1 where d: "dial env addr (s\<lparr>ss_dials := remove1 addr (ss_dials s)\<rparr>) = (r, s1)" by (rule prod.exhaust)
  have "ap_muted (core_of s1) = ap_muted (core_of s)"
    using muted_dial [of env addr "s\<lparr>ss_dials := remove1 addr (ss_dials s)\<rparr>", unfolded d] by simp
  then show ?thesis by (simp add: connect_finish_shape(1) [OF d] split: sum.split)
qed

lemma muted_dm: "ap_muted (core_of (snd (send_dm_to hex env k body s))) = ap_muted (core_of s)"
proof (cases "send_msg (CDirectMessage (the (hex k)) body) s")
  case (Pair r s1)
  then have "ap_muted (core_of s1) = ap_muted (core_of s)" using muted_send [of "CDirectMessage (the (hex k)) body" s] by simp
  with Pair show ?thesis by (cases r) (auto simp: send_dm_to_def split: option.split)
qed

lemma muted_next:
  assumes "ap_muted (core_of s)" and "\<not> mic_opener e" shows "ap_muted (core_of (session_next env e s))"
proof (cases e)
  case (CmdSettings sys cmd)
  with muted_settings [of "ss_desk s" sys cmd] assms show ?thesis by simp
next
  case (VoiceChanged ev)
  with assms(1) show ?thesis by (cases ev) simp_all
qed (use assms(1) in \<open>simp_all add: muted_message muted_reconnect muted_dm tear_down_session_def forget_session_def
    disconnect_command_def leave_channel_command_def set_name_command_def start_echo_command_def cancel_echo_command_def
    set_input_device_command_def set_output_device_command_def fire_timers_def Let_def\<close>)

lemma muted_run:
  "ap_muted (core_of s) \<Longrightarrow> \<forall>(env, e) \<in> set es. \<not> mic_opener e \<Longrightarrow> ap_muted (core_of (session_run es s))"
  by (induction es arbitrary: s) (auto simp: session_run_def muted_next)

text \<open>C37 Every join starts muted. When the server confirms a channel, the session is in it with exactly the people the
  server names, voice is started towards the address the control connection has, with the token and key the server
  sent and the user's name and devices, on the shared mute switch; that switch is on, and stays on whatever happens
  (another join, a reconnect, device changes) until the user does one of the things that open the microphone.\<close>

theorem join_starts_muted:
  assumes "ap_conn (core_of s) = Some lk" and "ap_draining (core_of s)"
    and "s' = session_next env (FromServer addr (JoinedChannel ch people token key)) s"
    and "\<forall>(env, e) \<in> set es. \<not> mic_opener e"
  shows "ap_channel (core_of s') = Some ch \<and> ap_participants (core_of s') = people \<and>
    ss_actor s' = snd (actor_step (sv_actor env) (StartVoice (voice_params_of (core_of s) lk ch token key False)) (ss_actor s)) \<and>
    cf_muted (ss_call_flags s') = CoreFlag \<and> ap_muted (core_of (session_run es s'))"
proof -
  have "drain_may True s" using assms(1,2) by (simp add: drain_may_def split: drain_reach.split)
  then have s': "s' = joined_channel env ch people token key s" using assms(3) by simp
  note j = joined_shape [OF assms(1) s']
  from muted_run [OF j(3) assms(4)] j(1,2,8,9) show ?thesis by simp
qed

definition sample_session :: "(unit, rat list) session" where
  "sample_session = (session_new True None settings_default)\<lparr>ss_desk := \<lparr>dk_core = (app_new True None settings_default)
     \<lparr>ap_conn := Some (link_new ''1.0.0'' None (SockV4 1 7100)), ap_draining := True\<rparr>,
     dk_file = settings_default, dk_shortcuts = []\<rparr>\<rparr>"

lemma sample_online: "ap_conn (core_of sample_session) = Some (link_new ''1.0.0'' None (SockV4 1 7100))"
  "ap_draining (core_of sample_session)" "ss_actor sample_session = actor_new" "ss_echo_timers sample_session = []"
  by (simp_all add: sample_session_def session_new_def)

theorem join_starts_muted_witness:
  "ap_muted (core_of (session_run [(sample_world 6, ConnectionLost), (sample_world 7, ReconnectAttempt ''host'' 0)]
     (session_next (sample_world 5) (FromServer ''host'' (JoinedChannel ''abc'' [''ann''] 7 (replicate 32 0))) sample_session)))"
  using join_starts_muted [OF sample_online(1,2) refl,
      of "[(sample_world 6, ConnectionLost), (sample_world 7, ReconnectAttempt ''host'' 0)]" "sample_world 5"] by simp

section \<open>A stale timer\<close>

lemma cancel_keeps_timers: "ss_echo_timers (cancel_echo_command env s) = ss_echo_timers s"
  by (auto simp: cancel_echo_command_def send_msg_def on_core_def split: option.split sum.split prod.split)

lemma sent_state [simp]:
  "clients (srv_state (send_to ser a m srv)) = clients (srv_state srv)"
  "clients (srv_state (broadcast_to_channel ser ch x m srv)) = clients (srv_state srv)"
  "clients (srv_state (broadcast_channel_list ser srv)) = clients (srv_state srv)"
  by (simp_all add: send_to_def broadcast_to_channel_def broadcast_channel_list_def deliver_state fold_deliver_state split: option.split)

lemma leave_ends_membership: "\<not> member (srv_state (handle_leave_channel ser a srv)) a ch"
proof -
  have v: "clients (vacate_channel ch u s) = clients s" "clients (drop_tokens b s) = clients s" for ch u b s
    by (simp_all add: drop_tokens_def)
  show ?thesis
    by (auto simp: handle_leave_channel_def leave_channel_def reply_error_def member_def v Let_def split: option.split)
qed

text \<open>C39 The timer of a sound check is not disarmed by cancelling it. When the user cancels a check and joins a channel
  before the time of the check would have been over, the timer still comes due in the call: it sends the server
  \<open>StopEchoTest\<close>, which the server takes as leaving whatever channel the client is in, and the answer to that ends
  the call.\<close>

theorem cancelled_check_ends_call:
  assumes "ss_echo_timers s = [deadline]" and "deadline \<le> en_now (sv_actor env3)"
    and "s1 = handle_server_message env2 addr (JoinedChannel ch people token key) (cancel_echo_command env1 s)"
    and "ap_conn (core_of (cancel_echo_command env1 s)) \<noteq> None"
    and "ap_conn (core_of s1) = Some lk" and "mpsc_try_send StopEchoTest (lk_commands lk) = Some q"
    and "s2 = session_next env3 TimersDue s1"
    and "member (srv_state srv) a ch" and "handle_message ser now a StopEchoTest (name, srv) = Some (name', srv')"
  shows "ap_channel (core_of s1) = Some ch \<and>
    map_option lk_commands (ap_conn (core_of s2)) = Some q \<and> mq_items q = mq_items (lk_commands lk) @ [StopEchoTest] \<and>
    \<not> member (srv_state srv') a ch \<and>
    ac_handle (ss_actor (handle_server_message env4 addr LeftChannel s2)) = None"
proof -
  obtain lk0 where lk0: "ap_conn (core_of (cancel_echo_command env1 s)) = Some lk0" using assms(4) by auto
  have s1: "s1 = joined_channel env2 ch people token key (cancel_echo_command env1 s)" using assms(3) by simp
  note j = joined_shape [OF lk0 s1]
  have t: "ss_echo_timers s1 = [deadline]" using j(10) assms(1) by (simp add: cancel_keeps_timers)
  define s1' where "s1' = s1\<lparr>ss_echo_timers := []\<rparr>"
  have "s2 = echo_timer env3 s1'" using assms(2,7) t by (simp add: fire_timers_def s1'_def)
  moreover obtain r s3 where v: "voice_do env3 EchoStop s1' = (EchoReply r, s3)" "core_of s3 = core_of s1"
    by (simp add: voice_do_def s1'_def)
  ultimately have s2: "s2 = emit (EvEchoResult r) (conn_tell StopEchoTest s3)" by (simp add: echo_timer_def)
  have "ap_conn (core_of s2) = Some (lk\<lparr>lk_commands := q\<rparr>)"
    using assms(5,6) v(2) by (simp add: s2 conn_tell_def conn_send_def)
  moreover have "mq_items q = mq_items (lk_commands lk) @ [StopEchoTest]"
    using assms(6) by (auto simp: mpsc_try_send_def split: if_splits)
  moreover have "\<not> member (srv_state srv') a ch" using assms(9) leave_ends_membership by auto
  ultimately show ?thesis using j(1) by simp
qed

lemma joined_unnamed:
  assumes "ap_name (core_of s) = None" and "ap_conn (core_of s) = Some lk"
  shows "ap_conn (core_of (joined_channel env ch people token key s)) = Some lk"
proof -
  let ?s1 = "on_core (\<lambda>c. c\<lparr>ap_channel := Some ch, ap_participants := people\<rparr>) s"
  define s2 where "s2 = (case ap_server_addr (core_of ?s1) of
      Some addr \<Rightarrow> save_core (on_core (\<lambda>c. c\<lparr>ap_servers := record_channel addr ch (ap_servers c)\<rparr>) ?s1) | None \<Rightarrow> ?s1)"
  define t where "t = emit (EvJoinedChannel ch people) (on_core (\<lambda>c. c\<lparr>ap_pending_join :=
      Some \<lparr>pj_channel_id = ch, pj_udp_token = token, pj_voice_key = key\<rparr>, ap_muted := True\<rparr>) s2)"
  have 2: "ap_name (core_of s2) = None" "ap_conn (core_of s2) = Some lk" using assms by (simp_all add: s2_def split: option.split)
  have "joined_channel env ch people token key s = spawn_voice env t"
    unfolding joined_channel_def Let_def s2_def [symmetric] using 2 by (simp add: t_def)
  moreover have "ap_pending_join (core_of t) = Some \<lparr>pj_channel_id = ch, pj_udp_token = token, pj_voice_key = key\<rparr>"
    "ap_conn (core_of t) = Some lk" using 2 by (simp_all add: t_def)
  ultimately show ?thesis using spawn_voice_exact(1) [of t _ lk env] by simp
qed

theorem cancelled_check_ends_call_witness:
  "let s = sample_session\<lparr>ss_echo_timers := [5000000000]\<rparr>;
       s1 = handle_server_message (sample_world 2) ''host'' (JoinedChannel lobby [''ann''] 7 (replicate 32 0))
         (cancel_echo_command (sample_world 1) s);
       s2 = session_next (sample_world 5000000000) TimersDue s1
   in ap_channel (core_of s1) = Some lobby \<and>
     \<not> member (srv_state (snd (the (handle_message sample_serialize 9 alice StopEchoTest (''user-1'', sample_server))))) alice lobby \<and>
     ac_handle (ss_actor (handle_server_message (sample_world 6) ''host'' LeftChannel s2)) = None"
proof -
  define s where "s = sample_session\<lparr>ss_echo_timers := [5000000000]\<rparr>"
  define c where "c = cancel_echo_command (sample_world 1) s"
  define s1 where "s1 = handle_server_message (sample_world 2) ''host'' (JoinedChannel lobby [''ann''] 7 (replicate 32 0)) c"
  define s2 where "s2 = session_next (sample_world 5000000000) TimersDue s1"
  have on: "ap_conn (core_of s) = Some (link_new ''1.0.0'' None (SockV4 1 7100))" "ss_actor s = actor_new"
    by (simp_all add: s_def sample_online)
  define lk where "lk = snd (conn_send StopEchoTest (link_new ''1.0.0'' None (SockV4 1 7100)))"
  have lk: "conn_send StopEchoTest (link_new ''1.0.0'' None (SockV4 1 7100)) = (Inr (), lk)"
    "length (mq_items (lk_commands lk)) = 2" "mq_open (lk_commands lk)" "mq_capacity (lk_commands lk) = 64"
    by (simp_all add: lk_def conn_send_def link_new_def mpsc_try_send_def mpsc_new_def CMD_QUEUE_CAPACITY_def)
  have "ap_conn (core_of (snd (voice_do (sample_world 1) EchoStop s))) = Some (link_new ''1.0.0'' None (SockV4 1 7100))"
    using on by simp
  then have c: "ap_conn (core_of c) = Some lk"
    using lk(1) by (simp add: c_def cancel_echo_command_def send_msg_def)
  have n: "ap_name (core_of c) = None"
    by (auto simp: c_def cancel_echo_command_def send_msg_def s_def sample_session_def app_new_def settings_default_def Let_def
        split: option.split sum.split prod.split)
  have s1: "ap_conn (core_of s1) = Some lk" using joined_unnamed [OF n c] by (simp add: s1_def)
  have q: "mpsc_try_send StopEchoTest (lk_commands lk) =
      Some ((lk_commands lk)\<lparr>mq_items := mq_items (lk_commands lk) @ [StopEchoTest]\<rparr>)"
    using lk(2-4) by (simp add: mpsc_try_send_def)
  have t: "ss_echo_timers s = [5000000000]" by (simp add: s_def)
  have d: "5000000000 \<le> en_now (sv_actor (sample_world 5000000000))" by (simp add: sample_world_def sample_env_def)
  have h: "handle_message sample_serialize 9 alice StopEchoTest (''user-1'', sample_server) =
      Some (''user-1'', handle_leave_channel sample_serialize alice sample_server)" by simp
  have m: "member (srv_state sample_server) alice lobby"
    by (simp add: member_def sample_server_def sample_voice_eq alice_def)
  from cancelled_check_ends_call [OF t d s1_def [unfolded c_def] _ s1 q s2_def m h] c
  have "ap_channel (core_of s1) = Some lobby \<and>
      \<not> member (srv_state (handle_leave_channel sample_serialize alice sample_server)) alice lobby \<and>
      ac_handle (ss_actor (handle_server_message (sample_world 6) ''host'' LeftChannel s2)) = None"
    by (simp add: c_def)
  then show ?thesis unfolding Let_def s_def [symmetric] c_def [symmetric] s1_def [symmetric] s2_def [symmetric] by (simp add: h)
qed

section \<open>Connecting again\<close>

text \<open>The events of \<open>n\<close> attempts, of which \<open>k\<close> were announced before.\<close>

definition attempts :: "nat \<Rightarrow> nat \<Rightarrow> app_event list" where
  "attempts k n = map (\<lambda>i. EvConnectionState (ConnReconnecting (of_nat i) (if i \<le> 2 then 5 else 10))) [k + 1..<k + n + 1]"

lemma attempts_Suc: "attempts k (Suc n) =
    EvConnectionState (ConnReconnecting (of_nat (k + 1)) (if k + 1 \<le> 2 then 5 else 10)) # attempts (k + 1) n"
  by (simp add: attempts_def upt_conv_Cons del: upt_Suc)

lemma attempt_number:
  assumes "k + 1 < 2 ^ 32"
  shows "(if (of_nat k :: 32 word) = - 1 then of_nat k else of_nat k + 1) = (of_nat (k + 1) :: 32 word)"
    and "backoff_seconds (of_nat (k + 1)) = (if k + 1 \<le> 2 then 5 else 10)"
proof -
  have u: "unat (of_nat k :: 32 word) = k" "unat (of_nat (k + 1) :: 32 word) = k + 1"
    using assms by (simp_all add: unat_of_nat del: of_nat_add of_nat_Suc)
  have "(of_nat k :: 32 word) \<noteq> - 1"
  proof
    assume "(of_nat k :: 32 word) = - 1"
    then have "(of_nat (k + 1) :: 32 word) = 0" by simp
    with u(2) show False by simp
  qed
  then show "(if (of_nat k :: 32 word) = - 1 then of_nat k else of_nat k + 1) = (of_nat (k + 1) :: 32 word)" by simp
  show "backoff_seconds (of_nat (k + 1)) = (if k + 1 \<le> 2 then 5 else 10)"
    unfolding backoff_seconds_def word_le_nat_alt u(2) by simp
qed

lemma attempt_shape:
  assumes "k + 1 < 2 ^ 32" and "reconnect_attempt env addr (of_nat k) s = (ok, n, s')"
  shows "n = of_nat (k + 1)" and "ok = answers env addr"
    and "ss_events s' = ss_events s @ [EvConnectionState (ConnReconnecting (of_nat (k + 1)) (if k + 1 \<le> 2 then 5 else 10))]"
    and "ap_name (core_of s') = ap_name (core_of s)" and "ap_identity (core_of s') = ap_identity (core_of s)"
    and "ok \<Longrightarrow> \<exists>peer. dl_dial (sv_dialler env) (dial_address addr) = Some peer \<and> ap_conn (core_of s') =
      (let lk = link_new (sv_version env) (ap_identity (core_of s)) peer in
       Some (case ap_name (core_of s) of None \<Rightarrow> lk | Some name \<Rightarrow> snd (conn_send (SetName name) lk)))"
proof -
  define s0 where "s0 = emit (EvConnectionState (ConnReconnecting (of_nat (k + 1)) (if k + 1 \<le> 2 then 5 else 10))) s"
  obtain r s1 where d: "dial env addr s0 = (r, s1)" by (rule prod.exhaust)
  have e: "(ok, n, s') = (case r of
      Inr lk \<Rightarrow> (True, of_nat (k + 1), announce_name (on_core (\<lambda>c. c\<lparr>ap_conn := Some lk\<rparr>) s1))
    | Inl e \<Rightarrow> (False, of_nat (k + 1), s1))"
    using assms(2) unfolding reconnect_attempt_def attempt_number [OF assms(1)] Let_def s0_def [symmetric] d by simp
  obtain tofu where nc: "network_connect (sv_sha256 env) (sv_dialler env) (sv_version env) addr (ap_identity (core_of s)) (ap_tofu (core_of s)) = (r, tofu)"
      and s1: "s1 = on_core (\<lambda>c. c\<lparr>ap_tofu := tofu\<rparr>) s0"
    using d by (auto simp: dial_def s0_def Let_def split: prod.splits)
  have fields: "ap_name (core_of s1) = ap_name (core_of s)" "ap_identity (core_of s1) = ap_identity (core_of s)"
    "ss_events s1 = ss_events s @ [EvConnectionState (ConnReconnecting (of_nat (k + 1)) (if k + 1 \<le> 2 then 5 else 10))]"
    by (simp_all add: s1 s0_def)
  show "n = of_nat (k + 1)" using e by (cases r) simp_all
  have "(\<exists>e. r = Inl e) \<longleftrightarrow> \<not> answers env addr"
    using connect_answers(1) [of "sv_sha256 env" "sv_dialler env" "sv_version env" addr "ap_identity (core_of s)" "ap_tofu (core_of s)"]
    by (simp add: nc answers_def)
  then show "ok = answers env addr" using e by (cases r) auto
  show "ss_events s' = ss_events s @ [EvConnectionState (ConnReconnecting (of_nat (k + 1)) (if k + 1 \<le> 2 then 5 else 10))]"
    "ap_name (core_of s') = ap_name (core_of s)" "ap_identity (core_of s') = ap_identity (core_of s)"
    using e fields by (cases r; auto simp: announce_name_def conn_tell_def split: option.split)+
  show "\<exists>peer. dl_dial (sv_dialler env) (dial_address addr) = Some peer \<and> ap_conn (core_of s') =
      (let lk = link_new (sv_version env) (ap_identity (core_of s)) peer in
       Some (case ap_name (core_of s) of None \<Rightarrow> lk | Some name \<Rightarrow> snd (conn_send (SetName name) lk)))" if ok
  proof -
    obtain lk where lk: "r = Inr lk" using e \<open>ok\<close> by (cases r) auto
    then obtain peer where "dl_dial (sv_dialler env) (dial_address addr) = Some peer"
        "lk = link_new (sv_version env) (ap_identity (core_of s)) peer"
      using connect_answers(2) [of "sv_sha256 env" "sv_dialler env" "sv_version env" addr "ap_identity (core_of s)" "ap_tofu (core_of s)" lk]
      by (auto simp: nc)
    with e lk fields(1) show ?thesis by (auto simp: announce_name_def conn_tell_def Let_def split: option.split)
  qed
qed

lemma reconnect_from:
  assumes "k + length fails + 1 < 2 ^ 32" and "\<forall>env \<in> set fails. \<not> answers env addr" and "answers env addr"
  shows "\<exists>s'. reconnect_loop (fails @ [env]) addr (of_nat k) s = (True, s') \<and>
    ss_events s' = ss_events s @ attempts k (length fails + 1) \<and>
    (\<exists>peer. dl_dial (sv_dialler env) (dial_address addr) = Some peer \<and> ap_conn (core_of s') =
      (let lk = link_new (sv_version env) (ap_identity (core_of s)) peer in
       Some (case ap_name (core_of s) of None \<Rightarrow> lk | Some name \<Rightarrow> snd (conn_send (SetName name) lk))))"
  using assms(1,2)
proof (induction fails arbitrary: k s)
  case Nil
  obtain ok n s' where a: "reconnect_attempt env addr (of_nat k) s = (ok, n, s')" by (rule prod_cases3)
  have k: "k + 1 < 2 ^ 32" using Nil.prems(1) by simp
  note sh = attempt_shape [OF k a]
  have "attempts k 1 = [EvConnectionState (ConnReconnecting (of_nat (k + 1)) (if k + 1 \<le> 2 then 5 else 10))]"
    by (simp add: attempts_def)
  with sh(3) have "ss_events s' = ss_events s @ attempts k 1" by simp
  with sh(2,6) assms(3) a show ?case by simp
next
  case (Cons f fails)
  obtain ok n s1 where a: "reconnect_attempt f addr (of_nat k) s = (ok, n, s1)" by (rule prod_cases3)
  have k: "k + 1 < 2 ^ 32" using Cons.prems(1) by simp
  note sh = attempt_shape [OF k a]
  have "\<not> ok" using sh(2) Cons.prems(2) by simp
  then have "reconnect_loop ((f # fails) @ [env]) addr (of_nat k) s = reconnect_loop (fails @ [env]) addr (of_nat (k + 1)) s1"
    using a sh(1) by simp
  moreover have "(k + 1) + length fails + 1 < 2 ^ 32" "\<forall>env \<in> set fails. \<not> answers env addr" using Cons.prems by simp_all
  from Cons.IH [OF this, of s1] obtain s' where
    "reconnect_loop (fails @ [env]) addr (of_nat (k + 1)) s1 = (True, s')"
    "ss_events s' = ss_events s1 @ attempts (k + 1) (length fails + 1)"
    "\<exists>peer. dl_dial (sv_dialler env) (dial_address addr) = Some peer \<and> ap_conn (core_of s') =
      (let lk = link_new (sv_version env) (ap_identity (core_of s1)) peer in
       Some (case ap_name (core_of s1) of None \<Rightarrow> lk | Some name \<Rightarrow> snd (conn_send (SetName name) lk)))" by blast
  ultimately show ?case using sh(3-5) by (simp add: attempts_Suc)
qed

text \<open>C40 A lost connection comes back by itself as soon as the server answers, however long that takes: every attempt
  is announced with its number and its delay, five seconds for the first two and ten for all later ones, none is the
  last but the one that works, and on the new connection the greeting goes out first and then, when the user has a
  name, that name.\<close>

theorem reconnects:
  assumes "length fails + 1 < 2 ^ 32" and "\<forall>env \<in> set fails. \<not> answers env addr" and "answers env addr"
  shows "\<exists>s' lk. reconnect_loop (fails @ [env]) addr 0 s = (True, s') \<and>
    ss_events s' = ss_events s @ map (\<lambda>i. EvConnectionState (ConnReconnecting (of_nat i) (if i \<le> 2 then 5 else 10))) [1..<length fails + 2] \<and>
    ap_conn (core_of s') = Some lk \<and>
    mq_items (lk_commands lk) = Hello (sv_version env) (of_nat PROTOCOL_VERSION) (ap_identity (core_of s)) #
      (case ap_name (core_of s) of None \<Rightarrow> [] | Some name \<Rightarrow> [SetName name])"
proof -
  have l: "0 + length fails + 1 < 2 ^ 32" using assms(1) by simp
  have q: "mq_items (lk_commands (case x of None \<Rightarrow> link_new v i p | Some name \<Rightarrow> snd (conn_send (SetName name) (link_new v i p)))) =
      Hello v (of_nat PROTOCOL_VERSION) i # (case x of None \<Rightarrow> [] | Some name \<Rightarrow> [SetName name])" for x v i p
    by (simp add: link_new_def conn_send_def mpsc_try_send_def mpsc_new_def CMD_QUEUE_CAPACITY_def split: option.split)
  from reconnect_from [OF l assms(2,3), of s] show ?thesis
    by (auto simp: attempts_def Let_def q simp del: upt_Suc)
qed

theorem reconnects_witness:
  "let (ok, s) = reconnect_loop [(sample_world 5)\<lparr>sv_dialler := sample_dialler\<lparr>dl_dial := \<lambda>a. None\<rparr>\<rparr>, sample_world 10] ''host'' 0 sample_session
   in ok \<and> ss_events s = [EvConnectionState (ConnReconnecting 1 5), EvConnectionState (ConnReconnecting 2 5)]"
proof -
  let ?f = "(sample_world 5)\<lparr>sv_dialler := sample_dialler\<lparr>dl_dial := \<lambda>a. None\<rparr>\<rparr>"
  have "\<forall>env \<in> set [?f]. \<not> answers env ''host''" "answers (sample_world 10) ''host''" "length [?f] + 1 < 2 ^ 32"
    by (simp_all add: answers_def sample_world_def sample_dialler_def)
  moreover have "ss_events sample_session = []" by (simp add: sample_session_def session_new_def)
  moreover have "[1..<length [?f] + 2] = [1, 2]" by (simp add: upt_rec)
  ultimately show ?thesis using reconnects [of "[?f]" "''host''" "sample_world 10" sample_session] by auto
qed

section \<open>History\<close>

text \<open>All the readable lines of a conversation.\<close>

definition get_history_all :: "(byte list \<Rightarrow> byte list) \<Rightarrow> json \<Rightarrow> string \<Rightarrow> string \<Rightarrow> history_files \<Rightarrow> chat_line list" where
  "get_history_all sha js server channel files =
    (case hm_get files (path_for sha server channel) of
       None \<Rightarrow> []
     | Some raw \<Rightarrow> List.map_filter (\<lambda>raw. if trim raw = [] then None else js_parse js raw) raw)"

lemma appended_lines:
  "hm_get (fold (history_append sha js server channel) ls files) path =
    (if path = path_for sha server channel \<and> ls \<noteq> []
     then Some (unwrap_or [] (hm_get files path) @ map (js_print js) ls) else hm_get files path)"
proof (induction ls arbitrary: files)
  case (Cons l ls)
  then show ?case by (simp add: history_append_def Let_def unwrap_or_def)
qed simp

lemma history_tail:
  "get_history sha js server channel limit files =
    (let lines = get_history_all sha js server channel files in drop (length lines - min (unwrap_or 50 limit) 500) lines)"
  by (simp add: get_history_def get_history_all_def Let_def split: option.split)

lemma history_all_appended:
  assumes "\<forall>l \<in> set ls. js_parse js (js_print js l) = Some l \<and> trim (js_print js l) \<noteq> []"
  shows "get_history_all sha js server channel (fold (history_append sha js server channel) ls files) =
    get_history_all sha js server channel files @ ls"
proof -
  let ?read = "\<lambda>raw. if trim raw = [] then None else js_parse js raw"
  have new: "List.map_filter ?read (map (js_print js) ls) = ls"
    using assms by (induction ls) (auto simp: List.map_filter_def)
  have app: "List.map_filter ?read (xs @ ys) = List.map_filter ?read xs @ List.map_filter ?read ys" for xs ys
    by (simp add: List.map_filter_def)
  have "List.map_filter ?read [] = []" by (simp add: List.map_filter_def)
  then show ?thesis
    by (simp add: get_history_all_def appended_lines app new unwrap_or_def split: option.split)
qed

text \<open>What is said is kept. After any lines have been appended to a conversation, asking for it gives the last of
  the lines in order, those that were in the file before and then the new ones, as many as were asked for, fifty
  without a wish and never more than five hundred; no conversation in another file is touched. (A line must read back
  as itself from what JSON printed, which is not blank.)\<close>

theorem history_kept:
  assumes "\<forall>l \<in> set ls. js_parse js (js_print js l) = Some l \<and> trim (js_print js l) \<noteq> []"
    and "files' = fold (history_append sha js server channel) ls files"
  shows "get_history sha js server channel limit files' =
      (let lines = get_history_all sha js server channel files @ ls
       in drop (length lines - min (unwrap_or 50 limit) 500) lines) \<and>
    (\<forall>server2 channel2. path_for sha server2 channel2 \<noteq> path_for sha server channel \<longrightarrow>
      get_history sha js server2 channel2 limit files' = get_history sha js server2 channel2 limit files)"
  unfolding assms(2) history_tail [of sha js server channel] history_all_appended [OF assms(1)]
  by (simp add: get_history_def appended_lines)

lemma white_space_ends:
  "w \<in> set white_space \<Longrightarrow> w \<noteq> [] \<and> of_char (hd w) \<notin> {97..122 :: nat} \<and> of_char (hd (rev w)) \<notin> {97..122 :: nat}"
  by (auto simp: white_space_def upt_rec_numeral of_char_of)

lemma strip_none: "\<forall>w \<in> set ws. w \<noteq> [] \<longrightarrow> \<not> starts_with w s \<Longrightarrow> strip_any ws s = s"
  by (subst strip_any.simps) (auto split: option.split simp: find_Some_iff)

lemma trim_letters:
  assumes "s \<noteq> []" and "of_char (hd s) \<in> {97..122 :: nat}" and "of_char (hd (rev s)) \<in> {97..122 :: nat}"
  shows "trim s = s"
proof -
  have h: "hd w = hd t" if "starts_with w t" "w \<noteq> []" for w t :: string
    using that by (cases w; cases t) (auto simp: starts_with_def)
  have "strip_any white_space s = s"
    by (rule strip_none) (use white_space_ends h assms(2) in fastforce)
  moreover have "strip_any (map rev white_space) (rev s) = rev s"
    by (rule strip_none) (use white_space_ends h assms(3) in fastforce)
  ultimately show ?thesis by (simp add: trim_def)
qed

text \<open>Lines that are their own JSON, except for the empty one.\<close>

theorem history_kept_witness:
  "get_history (\<lambda>b. b) sample_json ''host'' ''abc'' (Some 1)
     (fold (history_append (\<lambda>b. b) sample_json ''host'' ''abc'')
       [\<lparr>cl_ts_unix = 0, cl_kind = LineChat, cl_from = [], cl_text = ''a''\<rparr>,
        \<lparr>cl_ts_unix = 0, cl_kind = LineChat, cl_from = [], cl_text = ''b''\<rparr>] []) =
   [\<lparr>cl_ts_unix = 0, cl_kind = LineChat, cl_from = [], cl_text = ''b''\<rparr>]"
proof -
  let ?ls = "[\<lparr>cl_ts_unix = 0, cl_kind = LineChat, cl_from = [], cl_text = ''a''\<rparr>,
        \<lparr>cl_ts_unix = 0, cl_kind = LineChat, cl_from = [], cl_text = ''b''\<rparr>]"
  have "trim ''a'' = ''a''" "trim ''b'' = ''b''" by (rule trim_letters; simp)+
  then have "\<forall>l \<in> set ?ls. js_parse sample_json (js_print sample_json l) = Some l \<and> trim (js_print sample_json l) \<noteq> []"
    by (simp add: sample_json_def)
  from history_kept [OF this refl, of "\<lambda>b. b" "''host''" "''abc''" "Some 1" "[]"]
  show ?thesis by (simp add: get_history_all_def Let_def unwrap_or_def)
qed

section \<open>Private messages and invites\<close>

text \<open>A private message is stored exactly when it could be sent: if it was handed to the connection, it is the
  newest line of that conversation, under the user's name; if there is no connection or its queue does not take it,
  the command fails and nothing is stored (though the code's own comment promises to keep what the user typed).\<close>

theorem dm_stored_if_sent:
  assumes "ap_server_addr (core_of s) = Some server" and "hex k = Some key"
    and "send_dm_to hex env k body s = (r, s')"
  shows "case ap_conn (core_of s) of
      None \<Rightarrow> r \<noteq> Inr () \<and> s' = s
    | Some lk \<Rightarrow> (case mpsc_try_send (CDirectMessage key body) (lk_commands lk) of
        None \<Rightarrow> r \<noteq> Inr () \<and> s' = s
      | Some q \<Rightarrow> r = Inr () \<and> map_option lk_commands (ap_conn (core_of s')) = Some q \<and>
          ss_history s' = history_append (sv_sha256 env) (sv_json env) server (dm_channel k)
            \<lparr>cl_ts_unix = sv_unix env, cl_kind = LineDm, cl_from = unwrap_or ''you'' (ap_name (core_of s)), cl_text = body\<rparr>
            (ss_history s))"
  using assms
  by (auto simp: send_dm_to_def send_msg_def conn_send_def log_line_def split: option.splits)

theorem dm_stored_if_sent_witness:
  "let s = sample_session\<lparr>ss_desk := (ss_desk sample_session)\<lparr>dk_core := (core_of sample_session)
        \<lparr>ap_server_addr := Some ''host'', ap_conn := None\<rparr>\<rparr>\<rparr>
   in fst (send_dm_to (\<lambda>k. Some [1]) (sample_world 5) ''01'' ''hi'' s) \<noteq> Inr ()"
proof -
  define s where "s = sample_session\<lparr>ss_desk := (ss_desk sample_session)\<lparr>dk_core := (core_of sample_session)
        \<lparr>ap_server_addr := Some ''host'', ap_conn := None\<rparr>\<rparr>\<rparr>"
  have c: "ap_server_addr (core_of s) = Some ''host''" "ap_conn (core_of s) = None" by (simp_all add: s_def)
  obtain r s' where r: "send_dm_to (\<lambda>k. Some [1]) (sample_world 5) ''01'' ''hi'' s = (r, s')" by (rule prod.exhaust)
  from dm_stored_if_sent [OF c(1) refl r] c(2) r show ?thesis unfolding Let_def s_def [symmetric] by simp
qed

text \<open>A pasted invite reaches its server: the link the application hands out for a server and channel, given to the
  connect command, is dialled at that server's address with the port written out (the default one if it had none, a
  bare IPv6 literal bracketed), which dialling leaves as it is, and names the channel to join.\<close>

theorem pasted_invite_connects:
  assumes "invite_link_command c = Inr link" and "ap_server_addr c = Some addr" and "dialable addr"
    and "\<forall>ch. ap_channel c = Some ch \<longrightarrow> ch \<noteq> [] \<and> hd ch \<noteq> CHR ''/'' \<and> last ch \<noteq> CHR ''/''"
  shows "connect_address link = with_port addr \<and> dial_address (connect_address link) = with_port addr \<and>
    parse_link link = Some (with_port addr, ap_channel c)"
proof -
  have l: "link = invite_url addr (ap_channel c)" using assms(1,2) by (simp add: invite_link_command_def split: if_splits)
  have "\<forall>ch. ap_channel c = Some ch \<longrightarrow> ch = [] \<or> hd ch \<noteq> CHR ''/'' \<and> last ch \<noteq> CHR ''/''" using assms(4) by blast
  from invite_roundtrip [OF assms(3) this] assms(4)
  have p: "parse_link link = Some (with_port addr, ap_channel c)" "has_port (with_port addr)" by (auto simp: l)
  have "CHR '':'' \<in> set (with_port addr)"
  proof (rule ccontr)
    assume n: "CHR '':'' \<notin> set (with_port addr)"
    then have "\<not> starts_with '':'' (drop i (with_port addr))" for i
      using set_drop_subset [of i "with_port addr"] by (cases "drop i (with_port addr)") (auto simp: starts_with_def)
    moreover have "count_list (with_port addr) CHR '':'' = 0" using n by (simp add: count_list_0_iff)
    ultimately show False using p(2) by (simp add: has_port_def split: option.splits)
  qed
  then show ?thesis using p(1) by (simp add: connect_address_def dial_address_def)
qed

theorem pasted_invite_connects_witness:
  "let c = (core_of sample_session)\<lparr>ap_server_addr := Some ''::1'', ap_channel := Some ''pub-room''\<rparr>
   in connect_address (invite_url ''::1'' (Some ''pub-room'')) = with_port ''::1''"
proof -
  let ?c = "(core_of sample_session)\<lparr>ap_server_addr := Some ''::1'', ap_channel := Some ''pub-room''\<rparr>"
  have "invite_link_command ?c = Inr (invite_url ''::1'' (Some ''pub-room''))"
    by (simp add: invite_link_command_def sample_online)
  from pasted_invite_connects [OF this, of "''::1''"] show ?thesis
    by (simp add: Let_def dialable_def starts_with_def)
qed

end
