(* ===== verification/Desktop_Ui.thy ===== *)
theory Desktop_Ui
  imports Desktop_Session Live_Levels
begin

text \<open>
  The pure parts of the desktop shell: the fast level lane (\<^verbatim>\<open>fast_levels.rs\<close>) and the slow one
  (\<^verbatim>\<open>level_pump.rs\<close>), the gate for invite links (\<^verbatim>\<open>deeplink.rs\<close>), the version
  comparison and the choice of a download (\<^verbatim>\<open>update_check.rs\<close>). Frames and events are what would go to
  the front end.
\<close>

section \<open>The fast level lane\<close>

record quiet_gate =
  qg_silence :: duration
  qg_last_audible :: "instant option"

definition qg_new :: "duration \<Rightarrow> quiet_gate" where
  "qg_new silence = \<lparr>qg_silence = silence, qg_last_audible = None\<rparr>"

definition qg_tick :: "bool \<Rightarrow> bool \<Rightarrow> instant \<Rightarrow> quiet_gate \<Rightarrow> bool \<times> quiet_gate" where
  "qg_tick audible changed now g =
    (if audible then (changed, g\<lparr>qg_last_audible := Some now\<rparr>)
     else case qg_last_audible g of
       None \<Rightarrow> (False, g)
     | Some t \<Rightarrow> if now - t \<ge> qg_silence g then (True, g\<lparr>qg_last_audible := None\<rparr>) else (changed, g))"

definition qg_open :: "quiet_gate \<Rightarrow> bool" where
  "qg_open g \<longleftrightarrow> qg_last_audible g \<noteq> None"

type_synonym level_frame = "rat \<times> (string \<times> rat) list"

text \<open>What the lane keeps during one call; \<open>fl_sent\<close> is what it has emitted, \<open>fl_running\<close> whether there is a call to read.\<close>

record fast_lane =
  fl_running :: bool
  fl_gate :: quiet_gate
  fl_seen :: "64 word"
  fl_me :: rat
  fl_peers :: "(string \<times> rat) list"
  fl_sent :: "level_frame list"

definition lane_new :: "live_levels \<Rightarrow> level_frame list \<Rightarrow> fast_lane" where
  "lane_new ll sent = \<lparr>fl_running = True, fl_gate = qg_new (millis FAST_LEVEL_SILENCE_MS), fl_seen = ll_version ll, fl_me = 0, fl_peers = [], fl_sent = sent\<rparr>"

definition lane_tick :: "live_levels \<Rightarrow> instant \<Rightarrow> fast_lane \<Rightarrow> fast_lane" where
  "lane_tick ll now l =
    (let changed = (ll_version ll \<noteq> fl_seen l) in
     if \<not> fl_running l then l
     else if \<not> changed \<and> \<not> qg_open (fl_gate l) then l
     else (let l = (if changed then (let (peers, me, seen) = ll_snapshot (fl_peers l) ll
               in l\<lparr>fl_me := me, fl_peers := peers, fl_seen := seen\<rparr>) else l);
               audible = (0 < fl_me l \<or> (\<exists>p \<in> set (fl_peers l). 0 < snd p));
               (send, gate) = qg_tick audible changed now (fl_gate l);
               l = l\<lparr>fl_gate := gate\<rparr>
           in if send then l\<lparr>fl_sent := fl_sent l @ [(fl_me l, fl_peers l)]\<rparr> else l))"

text \<open>The call ended, or its levels are elsewhere now: a lane that is open says so, and a new one starts.\<close>

definition lane_moved :: "live_levels option \<Rightarrow> fast_lane \<Rightarrow> fast_lane" where
  "lane_moved ll l =
    (let sent = (if qg_open (fl_gate l) then fl_sent l @ [(0, [])] else fl_sent l)
     in case ll of Some ll' \<Rightarrow> lane_new ll' sent | None \<Rightarrow> l\<lparr>fl_running := False, fl_gate := qg_new (qg_silence (fl_gate l)), fl_sent := sent\<rparr>)"

datatype lane_event = LaneTick live_levels instant | LaneMoved "live_levels option"

fun lane_next :: "lane_event \<Rightarrow> fast_lane \<Rightarrow> fast_lane" where
  "lane_next (LaneTick ll now) l = lane_tick ll now l"
| "lane_next (LaneMoved ll) l = lane_moved ll l"

section \<open>The level pump\<close>

datatype pump_event =
    EvMutedChanged bool
  | EvDeviceAdded string string
  | EvDevicesChanged
  | EvVoiceStopped
  | EvRebuilt
  | EvVoiceLevel voice_snapshot bool

record level_pump =
  lp_last_muted :: "bool option"
  lp_was_active :: bool
  lp_last_restarts :: "32 word"

definition pump_new :: level_pump where
  "pump_new = \<lparr>lp_last_muted = None, lp_was_active = False, lp_last_restarts = 0\<rparr>"

text \<open>A mute flip is told whether or not there is a call.\<close>

definition mute_flip :: "bool \<Rightarrow> level_pump \<Rightarrow> pump_event list \<times> level_pump" where
  "mute_flip muted p =
    (if lp_last_muted p \<noteq> Some muted then ([EvMutedChanged muted], p\<lparr>lp_last_muted := Some muted\<rparr>) else ([], p))"

definition level_tick :: "bool \<Rightarrow> voice_snapshot \<Rightarrow> level_pump \<Rightarrow> pump_event list \<times> level_pump" where
  "level_tick muted snap p =
    (let devices = map (\<lambda>d. EvDeviceAdded (nd_kind d) (nd_name d)) (vs_new_devices snap) @
           (if vs_devices_changed snap then [EvDevicesChanged] else [])
     in if \<not> vs_active snap
        then (devices @ (if lp_was_active p then [EvVoiceStopped] else []), p\<lparr>lp_was_active := False\<rparr>)
        else (devices @ (if vs_device_restarts snap \<noteq> lp_last_restarts p then [EvRebuilt] else []) @ [EvVoiceLevel snap muted],
          p\<lparr>lp_was_active := True, lp_last_restarts := vs_device_restarts snap\<rparr>))"

text \<open>One turn of the pump.\<close>

definition pump_turn :: "bool \<Rightarrow> voice_snapshot \<Rightarrow> level_pump \<Rightarrow> pump_event list \<times> level_pump" where
  "pump_turn muted snap p =
    (let (flips, p) = mute_flip muted p; (evs, p) = level_tick muted snap p in (flips @ evs, p))"

section \<open>Invite links\<close>

record invite_gate =
  ig_frontend_ready :: bool
  ig_pending :: "(string \<times> string option) option"

definition gate_new :: invite_gate where
  "gate_new = \<lparr>ig_frontend_ready = False, ig_pending = None\<rparr>"

definition take_pending_invite :: "invite_gate \<Rightarrow> (string \<times> string option) option \<times> invite_gate" where
  "take_pending_invite g = (ig_pending g, \<lparr>ig_frontend_ready = True, ig_pending = None\<rparr>)"

text \<open>The invite handed on to the front end, if any.\<close>

definition forward_link :: "string \<Rightarrow> invite_gate \<Rightarrow> (string \<times> string option) option \<times> invite_gate" where
  "forward_link raw g =
    (case parse_link raw of
       None \<Rightarrow> (None, g)
     | Some invite \<Rightarrow> if \<not> ig_frontend_ready g then (None, g\<lparr>ig_pending := Some invite\<rparr>) else (Some invite, g))"

section \<open>Updates\<close>

fun split_on :: "char \<Rightarrow> string \<Rightarrow> string list" where
  "split_on c [] = [[]]"
| "split_on c (x # xs) = (if x = c then [] # split_on c xs else (case split_on c xs of [] \<Rightarrow> [[x]] | s # ss \<Rightarrow> (x # s) # ss))"

definition is_digit :: "char \<Rightarrow> bool" where
  "is_digit c \<longleftrightarrow> c \<in> set ''0123456789''"

definition digit_value :: "char \<Rightarrow> nat" where
  "digit_value c = of_char c - 48"

text \<open>\<open>str::parse::<u64>\<close>: an optional plus sign, at least one digit, no overflow.\<close>

definition parse_u64 :: "string \<Rightarrow> nat option" where
  "parse_u64 s =
    (let digits = (if starts_with ''+'' s then tl s else s);
         n = foldl (\<lambda>n c. n * 10 + digit_value c) 0 digits
     in if digits = [] \<or> \<not> list_all is_digit digits \<or> n \<ge> 2 ^ 64 then None else Some n)"

definition parse_version :: "string \<Rightarrow> nat list" where
  "parse_version s = map (\<lambda>p. unwrap_or 0 (parse_u64 (hd (split_on CHR ''-'' p)))) (split_on CHR ''.'' s)"

definition part :: "nat list \<Rightarrow> nat \<Rightarrow> nat" where
  "part xs i = (if i < length xs then xs ! i else 0)"

fun newer_from :: "nat \<Rightarrow> nat \<Rightarrow> nat list \<Rightarrow> nat list \<Rightarrow> bool" where
  "newer_from i 0 a b = False"
| "newer_from i (Suc n) a b =
    (let x = part a i; y = part b i in if x \<noteq> y then x > y else newer_from (i + 1) n a b)"

definition is_newer :: "string \<Rightarrow> string \<Rightarrow> bool" where
  "is_newer candidate current =
    (let a = parse_version candidate; b = parse_version current in newer_from 0 (max (length a) (length b)) a b)"

record asset =
  as_name :: string
  as_url :: string

definition wanted_suffixes :: "string \<Rightarrow> string \<Rightarrow> string list" where
  "wanted_suffixes os_name arch =
    (if os_name = ''macos'' then (if arch = ''aarch64'' then [''_aarch64.dmg''] else [''_x64.dmg''])
     else if os_name = ''windows'' then [''-setup.exe'', ''_en-US.msi'', ''.msi'']
     else if os_name = ''linux'' then (if arch = ''aarch64'' then [''_aarch64.AppImage'', ''_arm64.deb'', ''.aarch64.rpm'']
       else [''_amd64.AppImage'', ''_amd64.deb'', ''.x86_64.rpm''])
     else [])"

fun pick_asset :: "asset list \<Rightarrow> string list \<Rightarrow> asset option" where
  "pick_asset assets [] = None"
| "pick_asset assets (s # ss) =
    (case find (\<lambda>a. starts_with (rev s) (rev (as_name a))) assets of Some a \<Rightarrow> Some a | None \<Rightarrow> pick_asset assets ss)"

record release =
  re_tag_name :: string
  re_html_url :: string
  re_draft :: bool
  re_prerelease :: bool
  re_assets :: "asset list"

record update_info =
  ui_version :: string
  ui_url :: string
  ui_download :: "asset option"

definition fetched :: "string \<Rightarrow> string \<Rightarrow> release \<Rightarrow> update_info option" where
  "fetched os_name arch rel =
    (if re_draft rel \<or> re_prerelease rel then None
     else Some \<lparr>ui_version = dropWhile (\<lambda>c. c = CHR ''v'') (re_tag_name rel), ui_url = re_html_url rel,
       ui_download = pick_asset (re_assets rel) (wanted_suffixes os_name arch)\<rparr>)"

text \<open>\<open>None\<close> for a release that could not be fetched.\<close>

definition check_for_update :: "string \<Rightarrow> string \<Rightarrow> string \<Rightarrow> release option \<Rightarrow> update_info option" where
  "check_for_update current os_name arch latest =
    (case Option.bind latest (fetched os_name arch) of
       Some info \<Rightarrow> if is_newer (ui_version info) current then Some info else None
     | None \<Rightarrow> None)"

section \<open>No level is left standing\<close>

definition silent_frame :: "level_frame \<Rightarrow> bool" where
  "silent_frame f \<longleftrightarrow> \<not> 0 < fst f \<and> (\<forall>p \<in> set (snd f). \<not> 0 < snd p)"

definition last_silent :: "fast_lane \<Rightarrow> bool" where
  "last_silent l \<longleftrightarrow> (fl_sent l \<noteq> [] \<longrightarrow> silent_frame (last (fl_sent l)))"

definition lane_ok :: "fast_lane \<Rightarrow> bool" where
  "lane_ok l \<longleftrightarrow> (\<not> qg_open (fl_gate l) \<longrightarrow> last_silent l)"

lemma lane_ok_tick: "lane_ok l \<Longrightarrow> lane_ok (lane_tick ll now l)"
  by (auto simp: lane_tick_def Let_def qg_tick_def qg_open_def lane_ok_def last_silent_def silent_frame_def
      split: prod.split option.split)

lemma lane_ok_moved: "lane_ok l \<Longrightarrow> lane_ok (lane_moved ll l)"
  by (auto simp: lane_moved_def lane_new_def lane_ok_def last_silent_def silent_frame_def qg_open_def qg_new_def Let_def
      split: option.split)

text \<open>No mouth is left open. Whatever the levels do, however the ticks fall and whenever the call ends, is rebuilt or
  is followed by another: while the fast lane is quiet, the last frame it sent, if it sent any, shows nobody audible;
  and from an open lane whose levels stay silent, the first tick that comes a silence after the last audible one
  sends a frame and makes it quiet.\<close>

theorem lane_closes:
  "lane_ok (fold lane_next es (lane_new ll [])) \<and>
   (\<forall>l t. fl_running l \<and> qg_last_audible (fl_gate l) = Some t \<and> ll_version ll = fl_seen l \<and> silent_frame (fl_me l, fl_peers l) \<and>
      now - t \<ge> qg_silence (fl_gate l) \<longrightarrow>
      \<not> qg_open (fl_gate (lane_tick ll now l)) \<and> fl_sent (lane_tick ll now l) = fl_sent l @ [(fl_me l, fl_peers l)])"
proof -
  have "lane_ok l \<Longrightarrow> lane_ok (fold lane_next es l)" for l
  proof (induction es arbitrary: l)
    case (Cons e es)
    have "lane_ok (lane_next e l)" using Cons.prems lane_ok_tick lane_ok_moved by (cases e) simp_all
    with Cons.IH show ?case by simp
  qed simp
  moreover have "lane_ok (lane_new ll [])" by (simp add: lane_ok_def last_silent_def lane_new_def)
  ultimately show ?thesis
    by (auto simp: lane_tick_def Let_def qg_tick_def qg_open_def silent_frame_def)
qed

section \<open>Versions\<close>

lemma newer_from_iff:
  "newer_from i n a b \<longleftrightarrow> (\<exists>k < n. part a (i + k) > part b (i + k) \<and> (\<forall>j < k. part a (i + j) = part b (i + j)))"
proof (induction n arbitrary: i)
  case (Suc n)
  show ?case
  proof (cases "part a i = part b i")
    case True
    have "(\<exists>k < Suc n. part a (i + k) > part b (i + k) \<and> (\<forall>j < k. part a (i + j) = part b (i + j))) \<longleftrightarrow>
        (\<exists>k < n. part a (i + Suc k) > part b (i + Suc k) \<and> (\<forall>j < k. part a (i + Suc j) = part b (i + Suc j)))"
      using True by (subst Ex_less_Suc2) (simp add: All_less_Suc2)
    with True Suc.IH [of "i + 1"] show ?thesis by simp
  next
    case False
    then show ?thesis
      by (auto simp: Let_def intro: exI [of _ 0]) (metis add_0_right gr0I)+
  qed
qed simp

lemma part_beyond: "length xs \<le> i \<Longrightarrow> part xs i = 0"
  by (simp add: part_def)

lemma is_newer_iff:
  "is_newer v w \<longleftrightarrow> (\<exists>k. part (parse_version v) k > part (parse_version w) k \<and>
     (\<forall>j < k. part (parse_version v) j = part (parse_version w) j))"
proof -
  have "k < max (length (parse_version v)) (length (parse_version w))"
    if "part (parse_version v) k > part (parse_version w) k" for k
    using that part_beyond [of "parse_version v" k] part_beyond [of "parse_version w" k] by (cases "length (parse_version v) \<le> k") auto
  then show ?thesis unfolding is_newer_def Let_def newer_from_iff by auto
qed

text \<open>The update check compares versions as numbers, part by part, a missing part counting as zero: a version is
  newer exactly when at the first part where they differ it has the greater number. So no version is newer than
  itself, never are two each newer than the other, and newer than a newer one is newer: the application cannot be
  offered what it already runs, nor two releases in turns.\<close>

theorem newer_is_order:
  "(is_newer v w \<longleftrightarrow> (\<exists>k. part (parse_version v) k > part (parse_version w) k \<and>
      (\<forall>j < k. part (parse_version v) j = part (parse_version w) j))) \<and>
   \<not> is_newer v v \<and> \<not> (is_newer v w \<and> is_newer w v) \<and> (is_newer u v \<and> is_newer v w \<longrightarrow> is_newer u w)"
proof -
  have asym: "\<not> (is_newer v w \<and> is_newer w v)"
    unfolding is_newer_iff by (metis linorder_neqE_nat order_less_asym order_less_irrefl)
  have trans: "is_newer u w" if "is_newer u v" "is_newer v w"
  proof -
    obtain i j where i: "part (parse_version u) i > part (parse_version v) i" "\<forall>m < i. part (parse_version u) m = part (parse_version v) m"
      and j: "part (parse_version v) j > part (parse_version w) j" "\<forall>m < j. part (parse_version v) m = part (parse_version w) m"
      using \<open>is_newer u v\<close> \<open>is_newer v w\<close> unfolding is_newer_iff by blast
    consider "i < j" | "i = j" | "j < i" by linarith
    then show ?thesis
    proof cases
      case 1
      with i j show ?thesis unfolding is_newer_iff by (intro exI [of _ i]) auto
    next
      case 2
      with i j show ?thesis unfolding is_newer_iff by (intro exI [of _ i]) auto
    next
      case 3
      with i j show ?thesis unfolding is_newer_iff by (intro exI [of _ j]) auto
    qed
  qed
  have "\<not> is_newer v v" by (simp add: is_newer_iff)
  with asym trans is_newer_iff show ?thesis by blast
qed

end
