(* ===== verification/Spec2Isabelle.thy ===== *)
theory Spec2Isabelle
  imports Server_Directory Server_Udp Server_Reader Server_Main Server_Properties
    Rate_Limit Framing Invite Protocol Tofu Diagnostics Jitter Client_Stats
    Live_Levels Peer_Gain Playout Voice_Path Voice_Actor Control_Path Desktop_Path Desktop_Ui
begin

text \<open>
  A model of \<^verbatim>\<open>tc\<close>, a voice chat of one relay server and its clients, written in Rust
  (\<^verbatim>\<open>src/crates/shared\<close>, \<^verbatim>\<open>server\<close>, \<^verbatim>\<open>client\<close>), with the theorems that make it correct.

  \<^bold>\<open>The program.\<close> A client opens a TLS connection and speaks a framed control protocol: it names itself, creates and joins
  channels, chats. Joining yields a token and the channel's voice key. The client then sends the token in a UDP hello, by which
  the server learns its voice address, and from then on the relay forwards every voice packet of a channel to the other
  registered addresses, reading only a lock-free cache of the channel's addresses. Voice is encoded by Opus and encrypted
  under the channel key; a receiver decrypts, buffers per sender, renders 20 ms frames, mixes them and keeps the output device
  filled.

  \<^bold>\<open>The theories\<close>, in the order of the code they model.

  \<^item> \<open>Prelude\<close>: how Rust's collections, strings, bytes and instants are read; draw loops. \<open>Soft_Float\<close>: IEEE 754 rounding
    of \<open>f32\<close> and \<open>f64\<close> on rationals. \<open>Config\<close>: every constant of \<^verbatim>\<open>shared/src/config.rs\<close>. \<open>Random_Source\<close>, \<open>Net_Addr\<close>:
    the random generator and socket addresses.
  \<^item> \<open>Protocol\<close>, \<open>Framing\<close>, \<open>Invite\<close>: \<^verbatim>\<open>shared/src/protocol.rs\<close> and \<^verbatim>\<open>invite.rs\<close>. Messages, UDP hello and voice packets,
    channel names; the TCP frame decoder and its reassembly loop (locales \<open>frame_reader\<close> and \<open>frame_codec\<close>, interpreted on the
    decoder and encoder of the code); invite links.
  \<^item> \<open>Metrics\<close>, \<open>Rate_Limit\<close>: \<^verbatim>\<open>server/src/metrics.rs\<close> and \<^verbatim>\<open>rate_limit.rs\<close>. The locale \<open>metered\<close> states what a limiter promises
    over a run of events and is interpreted on the token bucket and on one address of the per-IP table.
  \<^item> \<open>Server_State\<close>: \<^verbatim>\<open>server/src/state.rs\<close>, one record with the fields of \<open>ServerState\<close> and one function per method.
    \<open>Server_Invariant\<close>: the well-formedness \<open>server_ok\<close> of its maps, kept by every operation. \<open>Server_Properties\<close>: the step
    relation \<open>srv_step\<close> over the operations, reachability, and what each operation does. \<open>Server_Directory\<close>: the abstract
    directory (who is connected, who is where) that the maps refine.
  \<^item> \<open>Server_Udp\<close>: \<^verbatim>\<open>server/src/udp.rs\<close>, the relay's handling of one datagram and the batched senders (locale \<open>voice_directory\<close>:
    what the relay needs of the state, interpreted on it). \<open>Server_Tcp\<close>, \<open>Server_Tcp_Properties\<close>: \<^verbatim>\<open>server/src/tcp.rs\<close>, the
    reader loop, admission, every message handler and the bounded client queues. \<open>Server_Main\<close>: startup, maintenance, shutdown
    of \<^verbatim>\<open>server/src/main.rs\<close>.
  \<^item> \<open>Tofu\<close>: the certificate store of \<^verbatim>\<open>client/src/tls.rs\<close>. \<open>Diagnostics\<close>, \<open>Client_Stats\<close>: \<^verbatim>\<open>client/src/diagnostics.rs\<close> and the loss
    statistics and quality tiers of \<^verbatim>\<open>voice.rs\<close>. \<open>Capture_Level\<close>, \<open>Live_Levels\<close>, \<open>Peer_Gain\<close>: \<^verbatim>\<open>agc.rs\<close>, \<^verbatim>\<open>limiter.rs\<close>, \<^verbatim>\<open>level.rs\<close>,
    \<^verbatim>\<open>peer_gain.rs\<close>. \<open>Codec\<close>: the wrappers of \<^verbatim>\<open>codec.rs\<close>.
  \<^item> \<open>Jitter\<close>, \<open>Playout_Stream\<close>, \<open>Playout\<close>: \<^verbatim>\<open>client/src/playout.rs\<close>, bottom up: the jitter buffer, one sender's stream, the
    engine over all senders with the mixer and the pump that fills the output.
  \<^item> \<open>Voice_Packet\<close>, \<open>Voice_Send\<close>, \<open>Voice_Receive\<close>: the encrypted packet, the capture thread and the receive task of
    \<^verbatim>\<open>client/src/voice.rs\<close>. \<open>Voice_Path\<close> composes sender, relay and receiver.

  \<^bold>\<open>How the code is read.\<close> A \<open>HashMap\<close> is an association list with distinct keys whose order stands for the unspecified
  iteration order; a \<open>HashSet\<close> a distinct list; a \<open>String\<close> the list of its UTF-8 bytes; an \<open>Instant\<close> a number of nanoseconds
  passed in as \<open>now\<close>. Machine integers are words wherever they can wrap or are truncated, natural numbers where the code
  cannot leave their range. Floats are rationals rounded after every operation (no NaN, infinity, subnormal or signed zero).
  Errors are values of a sum or option type. Each method of \<open>ServerState\<close> runs under one write lock and is one step; the tasks
  interleave as sequences of steps. Atomics that a loop reads several times in one iteration are read once.

  \<^bold>\<open>What stands outside\<close> is a parameter, with the laws it is relied on for: serialization (\<open>bincode\<close>), the cipher
  (\<open>cipher_laws\<close>), Opus and RNNoise, the output ring (\<open>ring_laws\<close>), \<open>rand\<close> (\<open>rng_laws\<close>), hashing, \<open>tanh\<close> and \<open>log10\<close>
  (\<open>tanh_laws\<close>), Unicode lower-casing, the sockets.

  \<^bold>\<open>Loops that may not end\<close> return an option, \<open>None\<close> meaning that they never return: the draws of random ids until a fresh one
  comes (\<open>draw_until\<close>; they return if and only if the generator draws a fresh one at some point) and the pump (\<open>pump_fills\<close>
  shows that it always returns). There is no fuel anywhere.

  \<^bold>\<open>What the lemmas show.\<close> Server: the invariant of every reachable state, exactness of the relay's cache, who receives what,
  lifetime of channels, keys and lobbies, bounds on queues and on admitted messages, behaviour on disconnection and startup.
  Wire: round trips and reassembly. Client: order and liveness of playout, bounds on concealment and latency, mixing as a sum,
  survival of the receive task under any input, that only voice opened under the channel's key is heard, that a muted
  microphone stays private, consecutive numbering, kept speech onsets, and the path of a frame from one client's encoder to
  another's jitter buffer.

  \<^bold>\<open>Not modelled\<close>: audio devices and the terminal and desktop interfaces (drawing, windows, hotkeys, IPC), the TLS handshake
  and certificate generation, the accept loop and task spawning of \<open>tokio\<close>, logging, and the load tester and probes, which
  are tools beside the program.
\<close>

end
